(* ===== verification/Gateway_Prelude.thy ===== *)
theory Gateway_Prelude
  imports Main "HOL-Library.Word" "HOL-Library.AList"
begin

text \<open>
  Shared vocabulary of the development: the machine types the gateway uses, the operations of
  \<^verbatim>\<open>std::string\<close> it relies on (search, sub-strings, decimal printing), big-endian
  integers, and the generic facts about lists, words and association lists that the
  component theories share.

  A \<^verbatim>\<open>std::string\<close> is a \<^typ>\<open>string\<close>, that is a list of 8-bit characters.  Sizes and counts
  that the code bounds before use are \<^typ>\<open>nat\<close>; counters and identifiers that live at a fixed
  width are words.  A point of the steady clock is a signed number of nanoseconds.
\<close>

section \<open>Types\<close>

type_synonym u8 = "8 word"
type_synonym u32 = "32 word"
type_synonym u64 = "64 word"
type_synonym time_point = int

named_theorems wire_simps \<open>length and decoding facts about big-endian fields\<close>
named_theorems alist_simps \<open>lookup, membership and distinctness facts about association lists\<close>

section \<open>Machine integers\<close>

text \<open>Conversion of a signed \<^verbatim>\<open>int\<close> to the 64-bit \<^verbatim>\<open>size_t\<close>: reduction modulo \<open>2 ^ 64\<close>.\<close>

definition size_t_of_int :: "int \<Rightarrow> nat" where
  "size_t_of_int i = nat (i mod 2 ^ 64)"

definition INT_MAX :: int where
  "INT_MAX = 2147483647"

definition INT64_MAX :: int where
  "INT64_MAX = 9223372036854775807"

section \<open>Big-endian fields\<close>

text \<open>
  \<^verbatim>\<open>htonl\<close>, \<^verbatim>\<open>htobe64\<close> followed by a copy of the object representation, and the reverse, put
  an integer on the wire with its most significant byte first.
\<close>

primrec be_encode :: "nat \<Rightarrow> nat \<Rightarrow> string" where
  "be_encode 0 v = []"
| "be_encode (Suc k) v = char_of (v div 256 ^ k) # be_encode k v"

primrec be_decode :: "string \<Rightarrow> nat" where
  "be_decode [] = 0"
| "be_decode (c # cs) = of_char c * 256 ^ length cs + be_decode cs"

section \<open>Operations of std::string\<close>

text \<open>\<open>find\<close> of a sub-string: the first position, \<^term>\<open>None\<close> standing for \<^verbatim>\<open>npos\<close>.\<close>

fun str_find :: "string \<Rightarrow> string \<Rightarrow> nat option" where
  "str_find pat [] = (if pat = [] then Some 0 else None)"
| "str_find pat (c # cs) =
     (if take (length pat) (c # cs) = pat then Some 0 else map_option Suc (str_find pat cs))"

text \<open>\<open>find\<close> with a starting position.\<close>

definition str_find_from :: "string \<Rightarrow> string \<Rightarrow> nat \<Rightarrow> nat option" where
  "str_find_from pat s pos =
     (if pos \<le> length s then map_option (\<lambda>i. pos + i) (str_find pat (drop pos s)) else None)"

definition str_substr :: "string \<Rightarrow> nat \<Rightarrow> nat \<Rightarrow> string" where
  "str_substr s pos n = take n (drop pos s)"

text \<open>\<^verbatim>\<open>std::to_string\<close> of an unsigned and of a signed integer.\<close>

definition digit_char :: "nat \<Rightarrow> char" where
  "digit_char d = char_of (48 + d)"

lemma digit_char_simps [simp]:
  "digit_char 0 = CHR ''0''" "digit_char 1 = CHR ''1''" "digit_char (Suc 0) = CHR ''1''"
  "digit_char 2 = CHR ''2''" "digit_char 3 = CHR ''3''" "digit_char 4 = CHR ''4''"
  "digit_char 5 = CHR ''5''" "digit_char 6 = CHR ''6''" "digit_char 7 = CHR ''7''"
  "digit_char 8 = CHR ''8''" "digit_char 9 = CHR ''9''"
  by code_simp+

fun show_nat :: "nat \<Rightarrow> string" where
  "show_nat n = (if n < 10 then [digit_char n] else show_nat (n div 10) @ [digit_char (n mod 10)])"

declare show_nat.simps [simp del]

definition show_int :: "int \<Rightarrow> string" where
  "show_int i = (if i < 0 then CHR ''-'' # show_nat (nat (- i)) else show_nat (nat i))"

abbreviation CR :: char where "CR \<equiv> CHR 0x0D"

abbreviation LF :: char where "LF \<equiv> CHR 0x0A"

abbreviation TAB :: char where "TAB \<equiv> CHR 0x09"

abbreviation CRLF :: string where "CRLF \<equiv> [CR, LF]"

section \<open>Character classes of the C locale\<close>

definition isspace :: "char \<Rightarrow> bool" where
  "isspace c \<longleftrightarrow> c \<in> {CHR '' '', CHR 0x09, CHR 0x0A, CHR 0x0B, CHR 0x0C, CHR 0x0D}"

definition tolower :: "char \<Rightarrow> char" where
  "tolower c = (if 65 \<le> (of_char c :: nat) \<and> (of_char c :: nat) \<le> 90
                then char_of ((of_char c :: nat) + 32) else c)"

definition is_digit :: "char \<Rightarrow> bool" where
  "is_digit c \<longleftrightarrow> 48 \<le> (of_char c :: nat) \<and> (of_char c :: nat) \<le> 57"

definition digit_value :: "char \<Rightarrow> nat" where
  "digit_value c = of_char c - 48"

section \<open>Facts about words\<close>

lemma unat_u8_less [simp]: "unat (w :: u8) < 256"
  using unsigned_less [of w, where ?'a = nat] by simp

lemma unat_u32_less [simp]: "unat (w :: u32) < 4294967296"
  using unsigned_less [of w, where ?'a = nat] by simp

lemma unat_u64_less [simp]: "unat (w :: u64) < 18446744073709551616"
  using unsigned_less [of w, where ?'a = nat] by simp

section \<open>Facts about big-endian fields\<close>

lemma length_be_encode [simp, wire_simps]: "length (be_encode k v) = k"
  by (induction k) auto

lemma be_decode_append [wire_simps]:
  "be_decode (xs @ ys) = be_decode xs * 256 ^ length ys + be_decode ys"
  by (induction xs) (auto simp: algebra_simps power_add)

lemma of_char_less_256 [simp]: "(of_char c :: nat) < 256"
  by (rule nat_of_char_less_256)

lemma be_decode_less [wire_simps]: "be_decode xs < 256 ^ length xs"
proof (induction xs)
  case Nil
  then show ?case by simp
next
  case (Cons c cs)
  have "of_char c * 256 ^ length cs + be_decode cs < (of_char c + 1) * (256 ^ length cs :: nat)"
    using Cons.IH by (simp add: algebra_simps)
  also have "\<dots> \<le> 256 * 256 ^ length cs"
    using of_char_less_256 [of c] by (intro mult_right_mono) linarith+
  finally show ?case by simp
qed

lemma be_decode_encode [wire_simps]: "be_decode (be_encode k v) = v mod 256 ^ k"
proof (induction k)
  case 0
  then show ?case by simp
next
  case (Suc k)
  have "v mod (256 ^ k * 256) = 256 ^ k * (v div 256 ^ k mod 256) + v mod 256 ^ k"
    by (rule mod_mult2_eq)
  then show ?case
    using Suc.IH by (simp add: algebra_simps of_char_of)
qed

lemma be_encode_add_high: "be_encode k (a * 256 ^ k + b) = be_encode k b"
proof (induction k arbitrary: a)
  case 0
  then show ?case by simp
next
  case (Suc k)
  have eq: "a * 256 ^ Suc k + b = (a * 256) * 256 ^ k + b"
    by simp
  have "(a * 256 * 256 ^ k + b) div 256 ^ k = a * 256 + b div 256 ^ k"
    by simp
  then have "char_of ((a * 256 * 256 ^ k + b) div 256 ^ k) = (char_of (b div 256 ^ k) :: char)"
    by (metis char_of_mod_256 mod_mult_self3)
  then show ?case
    unfolding eq by (simp only: be_encode.simps Suc.IH)
qed

lemma be_encode_decode [wire_simps]: "be_encode (length xs) (be_decode xs) = xs"
  by (induction xs) (simp_all add: be_decode_less be_encode_add_high)

section \<open>Facts about searching\<close>

text \<open>\<open>occurs_at\<close> is the relation \<open>str_find\<close> searches the least witness of.\<close>

definition occurs_at :: "string \<Rightarrow> string \<Rightarrow> nat \<Rightarrow> bool" where
  "occurs_at pat s i \<longleftrightarrow> i + length pat \<le> length s \<and> take (length pat) (drop i s) = pat"

lemma take_eq_length: "take (length pat) xs = pat \<Longrightarrow> length pat \<le> length xs"
  by (metis length_take min.cobounded1)

lemma occurs_at_append:
  "i + length pat \<le> length s \<Longrightarrow> occurs_at pat (s @ t) i \<longleftrightarrow> occurs_at pat s i"
  by (simp add: occurs_at_def)

lemma occurs_at_drop: "k \<le> length s \<Longrightarrow> occurs_at pat (drop k s) i \<longleftrightarrow> occurs_at pat s (k + i)"
  by (auto simp: occurs_at_def add.commute)

lemma occurs_at_prefix:
  assumes "occurs_at (a @ b) s i"
  shows "occurs_at a s i"
proof -
  have "take (length a) (drop i s) = take (length a) (take (length (a @ b)) (drop i s))"
    by (simp add: min_def)
  also have "\<dots> = a" using assms by (simp add: occurs_at_def)
  finally show ?thesis using assms by (simp add: occurs_at_def)
qed

lemma str_find_Some_iff:
  "str_find pat s = Some i \<longleftrightarrow> occurs_at pat s i \<and> (\<forall>j<i. \<not> occurs_at pat s j)"
proof (induction pat s arbitrary: i rule: str_find.induct)
  case (1 pat)
  then show ?case by (auto simp: occurs_at_def)
next
  case (2 pat c cs)
  have shift: "occurs_at pat (c # cs) (Suc j) \<longleftrightarrow> occurs_at pat cs j" for j
    by (simp add: occurs_at_def)
  have zero: "occurs_at pat (c # cs) 0 \<longleftrightarrow> take (length pat) (c # cs) = pat"
    using take_eq_length [of pat "c # cs"] unfolding occurs_at_def by (simp only: drop_0 add_0) blast
  show ?case
  proof (cases "take (length pat) (c # cs) = pat")
    case True
    with zero show ?thesis by (cases i) auto
  next
    case False
    with zero have z: "\<not> occurs_at pat (c # cs) 0" by simp
    show ?thesis
    proof (cases i)
      case 0
      with False z show ?thesis by auto
    next
      case (Suc k)
      have "(\<forall>j<Suc k. \<not> occurs_at pat (c # cs) j) \<longleftrightarrow> (\<forall>j<k. \<not> occurs_at pat cs j)"
        using z shift by (auto simp: less_Suc_eq_0_disj)
      with Suc False 2 [of k] shift show ?thesis by simp
    qed
  qed
qed

lemma str_find_None_iff: "str_find pat s = None \<longleftrightarrow> (\<forall>i. \<not> occurs_at pat s i)"
proof
  assume none: "str_find pat s = None"
  show "\<forall>i. \<not> occurs_at pat s i"
  proof (rule ccontr)
    assume "\<not> (\<forall>i. \<not> occurs_at pat s i)"
    then obtain i where "occurs_at pat s i" by blast
    then have "\<exists>i. occurs_at pat s i \<and> (\<forall>j<i. \<not> occurs_at pat s j)"
      using exists_least_iff [of "occurs_at pat s"] by blast
    then obtain k where "str_find pat s = Some k"
      unfolding str_find_Some_iff [symmetric] by blast
    with none show False by simp
  qed
next
  assume "\<forall>i. \<not> occurs_at pat s i"
  then show "str_find pat s = None"
    by (cases "str_find pat s") (auto simp: str_find_Some_iff)
qed

lemma str_find_bound: "str_find pat s = Some i \<Longrightarrow> i + length pat \<le> length s"
  by (simp add: str_find_Some_iff occurs_at_def)

lemma str_find_append:
  assumes "str_find pat s = Some i"
  shows "str_find pat (s @ t) = Some i"
proof -
  from assms have "i + length pat \<le> length s" by (rule str_find_bound)
  then have "j \<le> i \<Longrightarrow> occurs_at pat (s @ t) j \<longleftrightarrow> occurs_at pat s j" for j
    by (intro occurs_at_append) simp
  with assms show ?thesis by (simp add: str_find_Some_iff)
qed

lemma str_find_append_new:
  assumes "str_find pat s = None" and "str_find pat (s @ t) = Some i"
  shows "length s < i + length pat"
proof (rule ccontr)
  assume "\<not> length s < i + length pat"
  with assms(2) have "occurs_at pat s i"
    by (simp add: str_find_Some_iff occurs_at_append)
  with assms(1) show False by (simp add: str_find_None_iff)
qed

lemma str_find_from_bounds:
  "str_find_from pat s pos = Some i \<Longrightarrow> pos \<le> i \<and> i + length pat \<le> length s"
  by (auto simp: str_find_from_def split: if_splits dest!: str_find_bound)

lemma str_find_from_found:
  assumes "occurs_at pat s k" and "pos \<le> k"
  obtains i where "str_find_from pat s pos = Some i" "pos \<le> i" "i \<le> k"
proof -
  from assms have pos: "pos \<le> length s" by (simp add: occurs_at_def)
  with assms have occ: "occurs_at pat (drop pos s) (k - pos)"
    by (simp add: occurs_at_drop)
  then obtain i where i: "str_find pat (drop pos s) = Some i"
    using str_find_None_iff by (metis option.exhaust)
  with occ have "i \<le> k - pos"
    by (metis str_find_Some_iff linorder_not_le)
  with i pos assms that [of "pos + i"] show thesis
    by (simp add: str_find_from_def)
qed

lemma str_find_from_append:
  "str_find_from pat s pos = Some i \<Longrightarrow> str_find_from pat (s @ t) pos = Some i"
  by (auto simp: str_find_from_def split: if_splits dest: str_find_append)

section \<open>Decimal numerals\<close>

lemma digits_value_show_nat:
  "list_all is_digit (show_nat n) \<and> show_nat n \<noteq> [] \<and>
   foldl (\<lambda>v c. v * 10 + digit_value c) 0 (show_nat n) = n"
proof (induction n rule: show_nat.induct)
  case (1 n)
  have d: "k < 10 \<Longrightarrow> is_digit (digit_char k) \<and> digit_value (digit_char k) = k" for k
    by (simp add: is_digit_def digit_value_def digit_char_def of_char_of)
  show ?case
  proof (cases "n < 10")
    case True
    with d [of n] show ?thesis by (subst (1 2 3) show_nat.simps) simp
  next
    case False
    with "1.IH" d [of "n mod 10"] show ?thesis by (subst (1 2 3) show_nat.simps) simp
  qed
qed

lemma foldl_digits_ge: "v \<le> foldl (\<lambda>v c. v * 10 + digit_value c) v ds"
proof (induction ds arbitrary: v)
  case (Cons d ds)
  have "v \<le> v * 10 + digit_value d" by simp
  with Cons [of "v * 10 + digit_value d"] show ?case by simp
qed simp

lemma is_digit_not_crlf: "is_digit c \<Longrightarrow> c \<noteq> CR \<and> c \<noteq> LF"
  by (auto simp: is_digit_def)

lemma show_nat_no_crlf: "CR \<notin> set (show_nat n)" "LF \<notin> set (show_nat n)"
  using digits_value_show_nat [of n] by (auto simp: list_all_iff dest: is_digit_not_crlf)

lemma show_int_no_crlf: "CR \<notin> set (show_int i)" "LF \<notin> set (show_int i)"
  by (simp_all add: show_int_def show_nat_no_crlf)

end
