(* ===== verification/HttpTypes.thy ===== *)
theory HttpTypes
  imports Gateway_Prelude
begin

text \<open>
  The result types of the control-plane client: \<^verbatim>\<open>include/control/HttpTypes.hpp\<close> and the
  authentication outcome of \<^verbatim>\<open>include/control/ControlPlaneClient.hpp\<close>, and the exceptions that
  the modelled code throws or catches.
\<close>

text \<open>
  Exceptions are values of the error side of a sum.  The JSON library throws parse errors, type
  errors and out-of-range errors with its own numbering; all of them derive from
  \<^verbatim>\<open>std::exception\<close>.
\<close>

datatype cpp_exn =
    JsonParseError
  | JsonTypeError nat
  | JsonOutOfRange nat
  | InvalidArgument string
  | LogicError string
  | RuntimeError string

text \<open>A computation that may throw, followed by one that uses its value.\<close>

definition try_bind :: "cpp_exn + 'a \<Rightarrow> ('a \<Rightarrow> cpp_exn + 'b) \<Rightarrow> cpp_exn + 'b" where
  "try_bind m f = (case m of Inl e \<Rightarrow> Inl e | Inr x \<Rightarrow> f x)"

lemma try_bind_simps [simp]:
  "try_bind (Inl e) f = Inl e"
  "try_bind (Inr x) f = f x"
  by (simp_all add: try_bind_def)

lemma try_bind_Inr_iff: "try_bind m f = Inr y \<longleftrightarrow> (\<exists>x. m = Inr x \<and> f x = Inr y)"
  by (cases m) auto

lemma throw_if_Inr_iff: "(if b then Inl e else m) = Inr y \<longleftrightarrow> \<not> b \<and> m = Inr y"
  by simp

datatype HttpError =
    HttpError_None
  | ResolveFailed
  | DeadlineExceeded
  | ConnectFailed
  | SendFailed
  | ReceiveFailed
  | HeaderTooLarge
  | BodyTooLarge
  | MalformedResponse
  | MissingContentLength
  | DuplicateContentLength
  | UnsupportedTransferEncoding
  | PrematureEof
  | HttpStatusError
  | InvalidJson

fun httpErrorCategory :: "HttpError \<Rightarrow> string" where
  "httpErrorCategory HttpError_None = ''none''"
| "httpErrorCategory ResolveFailed = ''resolve''"
| "httpErrorCategory DeadlineExceeded = ''deadline''"
| "httpErrorCategory ConnectFailed = ''connect''"
| "httpErrorCategory SendFailed = ''send''"
| "httpErrorCategory ReceiveFailed = ''receive''"
| "httpErrorCategory HeaderTooLarge = ''oversize''"
| "httpErrorCategory BodyTooLarge = ''oversize''"
| "httpErrorCategory HttpStatusError = ''http_status''"
| "httpErrorCategory InvalidJson = ''json''"
| "httpErrorCategory MalformedResponse = ''protocol''"
| "httpErrorCategory MissingContentLength = ''protocol''"
| "httpErrorCategory DuplicateContentLength = ''protocol''"
| "httpErrorCategory UnsupportedTransferEncoding = ''protocol''"
| "httpErrorCategory PrematureEof = ''protocol''"

definition MAX_CONTROL_PLANE_HTTP_HEADER_BYTES :: nat where
  "MAX_CONTROL_PLANE_HTTP_HEADER_BYTES = 16 * 1024"

definition MAX_CONTROL_PLANE_HTTP_BODY_BYTES :: nat where
  "MAX_CONTROL_PLANE_HTTP_BODY_BYTES = 1024 * 1024"

record HttpResult =
  hr_error :: HttpError
  hr_status_code :: int
  hr_body :: string

definition HttpResult_default :: HttpResult where
  "HttpResult_default = \<lparr>hr_error = HttpError_None, hr_status_code = 0, hr_body = []\<rparr>"

definition http_ok :: "HttpResult \<Rightarrow> bool" where
  "http_ok r \<longleftrightarrow> hr_error r = HttpError_None \<and> hr_status_code r \<ge> 200 \<and> hr_status_code r < 300"

datatype AuthOutcome = Allowed | Denied | Unavailable

record AuthResult =
  ar_outcome :: AuthOutcome
  ar_http_error :: HttpError
  ar_http_status :: int
  ar_reason_code :: string

definition AuthResult_default :: AuthResult where
  "AuthResult_default =
     \<lparr>ar_outcome = Unavailable, ar_http_error = HttpError_None, ar_http_status = 0, ar_reason_code = []\<rparr>"

end
