(* ===== verification/JsonNumber.thy ===== *)
theory JsonNumber
  imports Gateway_Prelude
begin

unbundle bit_operations_syntax

text \<open>
  Numbers of the JSON library \<^verbatim>\<open>include/nlohmann/json.hpp\<close>: what \<^verbatim>\<open>strtod\<close> makes of the text of a
  number, the decimal text of integers (\<^verbatim>\<open>serializer::dump_integer\<close>) and of doubles
  (\<^verbatim>\<open>serializer::dump_float\<close>, \<^verbatim>\<open>to_chars\<close> and the Grisu2 algorithm of \<^verbatim>\<open>dtoa_impl\<close>).

  A double is its IEEE 754 representation, a 64-bit word with the sign in bit 63, the exponent in the
  bits 52 to 62 and the fraction below.
\<close>

section \<open>Doubles\<close>

type_synonym double = u64

definition isfinite :: "double \<Rightarrow> bool" where
  "isfinite x \<longleftrightarrow> drop_bit 52 x AND 0x7FF \<noteq> 0x7FF"

definition signbit :: "double \<Rightarrow> bool" where
  "signbit x \<longleftrightarrow> bit x 63"

text \<open>
  \<^verbatim>\<open>strtod\<close> in the C locale, on the text of a JSON number: the decimal number is rounded to the nearest
  double, ties to the even one; a number that rounds beyond the greatest double is the infinity.
\<close>

fun bit_length :: "nat \<Rightarrow> nat" where
  "bit_length n = (if n = 0 then 0 else Suc (bit_length (n div 2)))"

declare bit_length.simps [simp del]

text \<open>\<open>num / den \<ge> 2 ^ e\<close>.\<close>

definition ratio_ge :: "nat \<Rightarrow> nat \<Rightarrow> int \<Rightarrow> bool" where
  "ratio_ge num den e \<longleftrightarrow> den * 2 ^ nat e \<le> num * 2 ^ nat (- e)"

definition floor_log2 :: "nat \<Rightarrow> nat \<Rightarrow> int" where
  "floor_log2 num den =
     (let e = int (bit_length num) - int (bit_length den) in if ratio_ge num den e then e else e - 1)"

definition round_half_even :: "nat \<Rightarrow> nat \<Rightarrow> nat" where
  "round_half_even a b =
     (let q = a div b; r = a mod b
      in if 2 * r < b then q else if 2 * r > b then q + 1 else q + q mod 2)"

definition DBL_INFINITY :: nat where
  "DBL_INFINITY = 2047 * 2 ^ 52"

text \<open>
  A positive double with fraction \<open>q \<ge> 2 ^ 52\<close> and unit \<open>2 ^ e\<close> has the representation
  \<open>(e + 1074) * 2 ^ 52 + q\<close>, and so has a subnormal one, where \<open>e\<close> is \<open>- 1074\<close>.
\<close>

definition round_ratio :: "nat \<Rightarrow> nat \<Rightarrow> nat" where
  "round_ratio num den =
     (if num = 0 then 0
      else
        let e = max (- 1074) (floor_log2 num den - 52);
            q = round_half_even (num * 2 ^ nat (- e)) (den * 2 ^ nat e)
        in min DBL_INFINITY (nat (e + 1074) * 2 ^ 52 + q))"

definition digits_value :: "string \<Rightarrow> nat" where
  "digits_value ds = foldl (\<lambda>v c. v * 10 + digit_value c) 0 ds"

definition exponent_value :: "string \<Rightarrow> int" where
  "exponent_value t =
     (case t of
        [] \<Rightarrow> 0
      | c # ds \<Rightarrow>
          if c = CHR ''-'' then - int (digits_value ds)
          else if c = CHR ''+'' then int (digits_value ds) else int (digits_value t))"

definition strtod :: "string \<Rightarrow> double" where
  "strtod t =
     (let negative = (case t of [] \<Rightarrow> False | c # _ \<Rightarrow> c = CHR ''-'');
          t1 = (if negative then tl t else t);
          whole = takeWhile is_digit t1;
          t2 = dropWhile is_digit t1;
          point = (case t2 of [] \<Rightarrow> False | c # _ \<Rightarrow> c = CHR ''.'');
          fraction = (if point then takeWhile is_digit (tl t2) else []);
          t3 = (if point then dropWhile is_digit (tl t2) else t2);
          x = exponent_value (tl t3) - int (length fraction);
          m = digits_value (whole @ fraction)
      in word_of_nat ((if negative then 2 ^ 63 else 0) + round_ratio (m * 10 ^ nat x) (10 ^ nat (- x))))"

section \<open>Integers\<close>

fun count_digits :: "nat \<Rightarrow> nat" where
  "count_digits x =
     (if x < 10 then 1 else if x < 100 then 2 else if x < 1000 then 3 else if x < 10000 then 4
      else count_digits (x div 10000) + 4)"

declare count_digits.simps [simp del]

text \<open>The absolute value of a negative number, without overflow for the least one.\<close>

definition remove_sign :: "int \<Rightarrow> nat" where
  "remove_sign x = nat (- (x + 1)) + 1"

text \<open>An entry of the table \<^verbatim>\<open>digits_to_99\<close>: the tens and the ones.\<close>

definition digits_to_99 :: "nat \<Rightarrow> char \<times> char" where
  "digits_to_99 i = (digit_char (i div 10), digit_char (i mod 10))"

text \<open>The loop that writes two digits at a time, from the right, in front of position \<open>p\<close> of the buffer.\<close>

fun write_digits :: "nat \<Rightarrow> nat \<Rightarrow> string \<Rightarrow> string" where
  "write_digits abs_value p buf =
     (if abs_value \<ge> 100 then
        case digits_to_99 (abs_value mod 100) of
          (tens, ones) \<Rightarrow> write_digits (abs_value div 100) (p - 2) (buf[p - 1 := ones, p - 2 := tens])
      else if abs_value \<ge> 10 then
        case digits_to_99 abs_value of (tens, ones) \<Rightarrow> buf[p - 1 := ones, p - 2 := tens]
      else buf[p - 1 := digit_char abs_value])"

declare write_digits.simps [simp del]

text \<open>\<open>buf\<close> is the member \<^verbatim>\<open>number_buffer\<close> with what earlier calls have left in it.\<close>

definition dump_integer :: "string \<Rightarrow> int \<Rightarrow> string" where
  "dump_integer buf x =
     (if x = 0 then ''0''
      else if x < 0 then
        let abs_value = remove_sign x; n_chars = 1 + count_digits abs_value
        in take n_chars (write_digits abs_value n_chars (buf[0 := CHR ''-'']))
      else
        let abs_value = nat x; n_chars = count_digits abs_value
        in take n_chars (write_digits abs_value n_chars buf))"

section \<open>Floating-point numbers with a 64-bit significand\<close>

record diyfp =
  df_f :: u64
  df_e :: int

definition diyfp_sub :: "diyfp \<Rightarrow> diyfp \<Rightarrow> diyfp" where
  "diyfp_sub x y = \<lparr>df_f = df_f x - df_f y, df_e = df_e x\<rparr>"

definition diyfp_mul :: "diyfp \<Rightarrow> diyfp \<Rightarrow> diyfp" where
  "diyfp_mul x y =
     (let u_lo = df_f x AND 0xFFFFFFFF; u_hi = drop_bit 32 (df_f x);
          v_lo = df_f y AND 0xFFFFFFFF; v_hi = drop_bit 32 (df_f y);
          p0 = u_lo * v_lo; p1 = u_lo * v_hi; p2 = u_hi * v_lo; p3 = u_hi * v_hi;
          p0_hi = drop_bit 32 p0;
          p1_lo = p1 AND 0xFFFFFFFF; p1_hi = drop_bit 32 p1;
          p2_lo = p2 AND 0xFFFFFFFF; p2_hi = drop_bit 32 p2;
          q = p0_hi + p1_lo + p2_lo;
          q1 = q + push_bit 31 1;
          h = p3 + p2_hi + p1_hi + drop_bit 32 q1
      in \<lparr>df_f = h, df_e = df_e x + df_e y + 64\<rparr>)"

lemma drop_bit_63_eq_0: "drop_bit 63 (f :: u64) = 0 \<longleftrightarrow> unat f < 2 ^ 63"
proof -
  have "drop_bit 63 f = 0 \<longleftrightarrow> unat (drop_bit 63 f) = 0" by (simp add: unat_eq_zero)
  also have "unat (drop_bit 63 f) = drop_bit 63 (unat f)" by (rule unat_drop_bit_eq)
  also have "\<dots> = unat f div 2 ^ 63" by (rule drop_bit_eq_div)
  finally show ?thesis by (simp add: div_eq_0_iff)
qed

lemma unat_push_bit_1: "unat (f :: u64) < 2 ^ 63 \<Longrightarrow> unat (push_bit 1 f) = 2 * unat f"
  by (simp add: push_bit_eq_mult unat_word_ariths(2))

text \<open>A zero significand, which the assertion excludes, is returned as it is.\<close>

function normalize :: "diyfp \<Rightarrow> diyfp" where
  "normalize x =
     (if df_f x = 0 \<or> drop_bit 63 (df_f x) \<noteq> 0 then x
      else normalize (x\<lparr>df_f := push_bit 1 (df_f x), df_e := df_e x - 1\<rparr>))"
  by pat_completeness auto
termination
proof (relation "measure (\<lambda>x. 2 ^ 64 - unat (df_f x))")
  fix x :: diyfp
  assume "\<not> (df_f x = 0 \<or> drop_bit 63 (df_f x) \<noteq> 0)"
  then have "0 < unat (df_f x)" "unat (df_f x) < 2 ^ 63"
    by (auto simp: drop_bit_63_eq_0 unat_gt_0)
  with unat_push_bit_1 [of "df_f x"]
  show "(x\<lparr>df_f := push_bit 1 (df_f x), df_e := df_e x - 1\<rparr>, x) \<in> measure (\<lambda>x. 2 ^ 64 - unat (df_f x))"
    by simp
qed simp

declare normalize.simps [simp del]

definition normalize_to :: "diyfp \<Rightarrow> int \<Rightarrow> diyfp" where
  "normalize_to x target_exponent =
     \<lparr>df_f = push_bit (nat (df_e x - target_exponent)) (df_f x), df_e = target_exponent\<rparr>"

section \<open>The boundaries of a double\<close>

record boundaries =
  bd_w :: diyfp
  bd_minus :: diyfp
  bd_plus :: diyfp

definition compute_boundaries :: "double \<Rightarrow> boundaries" where
  "compute_boundaries value =
     (let kHiddenBit = 0x10000000000000;
          E = drop_bit 52 value;
          F = value AND (kHiddenBit - 1);
          v = (if E = 0 then \<lparr>df_f = F, df_e = - 1074\<rparr> else \<lparr>df_f = F + kHiddenBit, df_e = uint E - 1075\<rparr>);
          lower_boundary_is_closer = (F = 0 \<and> E > 1);
          m_plus = \<lparr>df_f = 2 * df_f v + 1, df_e = df_e v - 1\<rparr>;
          m_minus = (if lower_boundary_is_closer
                     then \<lparr>df_f = 4 * df_f v - 1, df_e = df_e v - 2\<rparr>
                     else \<lparr>df_f = 2 * df_f v - 1, df_e = df_e v - 1\<rparr>);
          w_plus = normalize m_plus;
          w_minus = normalize_to m_minus (df_e w_plus)
      in \<lparr>bd_w = normalize v, bd_minus = w_minus, bd_plus = w_plus\<rparr>)"

section \<open>Powers of ten\<close>

definition kAlpha :: int where "kAlpha = - 60"

definition kGamma :: int where "kGamma = - 32"

text \<open>The entries \<open>(f, e, k)\<close> with \<open>f * 2 ^ e\<close> close to \<open>10 ^ k\<close>.\<close>

definition kCachedPowers :: "(u64 \<times> int \<times> int) list" where
  "kCachedPowers =
     [(0xAB70FE17C79AC6CA, - 1060, - 300), (0xFF77B1FCBEBCDC4F, - 1034, - 292), (0xBE5691EF416BD60C, - 1007, - 284),
      (0x8DD01FAD907FFC3C, - 980, - 276), (0xD3515C2831559A83, - 954, - 268), (0x9D71AC8FADA6C9B5, - 927, - 260),
      (0xEA9C227723EE8BCB, - 901, - 252), (0xAECC49914078536D, - 874, - 244), (0x823C12795DB6CE57, - 847, - 236),
      (0xC21094364DFB5637, - 821, - 228), (0x9096EA6F3848984F, - 794, - 220), (0xD77485CB25823AC7, - 768, - 212),
      (0xA086CFCD97BF97F4, - 741, - 204), (0xEF340A98172AACE5, - 715, - 196), (0xB23867FB2A35B28E, - 688, - 188),
      (0x84C8D4DFD2C63F3B, - 661, - 180), (0xC5DD44271AD3CDBA, - 635, - 172), (0x936B9FCEBB25C996, - 608, - 164),
      (0xDBAC6C247D62A584, - 582, - 156), (0xA3AB66580D5FDAF6, - 555, - 148), (0xF3E2F893DEC3F126, - 529, - 140),
      (0xB5B5ADA8AAFF80B8, - 502, - 132), (0x87625F056C7C4A8B, - 475, - 124), (0xC9BCFF6034C13053, - 449, - 116),
      (0x964E858C91BA2655, - 422, - 108), (0xDFF9772470297EBD, - 396, - 100), (0xA6DFBD9FB8E5B88F, - 369, - 92),
      (0xF8A95FCF88747D94, - 343, - 84), (0xB94470938FA89BCF, - 316, - 76), (0x8A08F0F8BF0F156B, - 289, - 68),
      (0xCDB02555653131B6, - 263, - 60), (0x993FE2C6D07B7FAC, - 236, - 52), (0xE45C10C42A2B3B06, - 210, - 44),
      (0xAA242499697392D3, - 183, - 36), (0xFD87B5F28300CA0E, - 157, - 28), (0xBCE5086492111AEB, - 130, - 20),
      (0x8CBCCC096F5088CC, - 103, - 12), (0xD1B71758E219652C, - 77, - 4), (0x9C40000000000000, - 50, 4),
      (0xE8D4A51000000000, - 24, 12), (0xAD78EBC5AC620000, 3, 20), (0x813F3978F8940984, 30, 28),
      (0xC097CE7BC90715B3, 56, 36), (0x8F7E32CE7BEA5C70, 83, 44), (0xD5D238A4ABE98068, 109, 52),
      (0x9F4F2726179A2245, 136, 60), (0xED63A231D4C4FB27, 162, 68), (0xB0DE65388CC8ADA8, 189, 76),
      (0x83C7088E1AAB65DB, 216, 84), (0xC45D1DF942711D9A, 242, 92), (0x924D692CA61BE758, 269, 100),
      (0xDA01EE641A708DEA, 295, 108), (0xA26DA3999AEF774A, 322, 116), (0xF209787BB47D6B85, 348, 124),
      (0xB454E4A179DD1877, 375, 132), (0x865B86925B9BC5C2, 402, 140), (0xC83553C5C8965D3D, 428, 148),
      (0x952AB45CFA97A0B3, 455, 156), (0xDE469FBD99A05FE3, 481, 164), (0xA59BC234DB398C25, 508, 172),
      (0xF6C69A72A3989F5C, 534, 180), (0xB7DCBF5354E9BECE, 561, 188), (0x88FCF317F22241E2, 588, 196),
      (0xCC20CE9BD35C78A5, 614, 204), (0x98165AF37B2153DF, 641, 212), (0xE2A0B5DC971F303A, 667, 220),
      (0xA8D9D1535CE3B396, 694, 228), (0xFB9B7CD9A4A7443C, 720, 236), (0xBB764C4CA7A44410, 747, 244),
      (0x8BAB8EEFB6409C1A, 774, 252), (0xD01FEF10A657842C, 800, 260), (0x9B10A4E5E9913129, 827, 268),
      (0xE7109BFBA19C0C9D, 853, 276), (0xAC2820D9623BF429, 880, 284), (0x80444B5E7AA7CF85, 907, 292),
      (0xBF21E44003ACDD2D, 933, 300), (0x8E679C2F5E44FF8F, 960, 308), (0xD433179D9C8CB841, 986, 316),
      (0x9E19DB92B4E31BA9, 1013, 324)]"

text \<open>Division of C, which rounds towards zero.\<close>

definition c_div :: "int \<Rightarrow> int \<Rightarrow> int" where
  "c_div a b = (if a < 0 then - ((- a) div b) else a div b)"

definition get_cached_power_for_binary_exponent :: "int \<Rightarrow> u64 \<times> int \<times> int" where
  "get_cached_power_for_binary_exponent e =
     (let f = kAlpha - e - 1;
          k = c_div (f * 78913) (2 ^ 18) + (if f > 0 then 1 else 0);
          index = c_div (300 + k + (8 - 1)) 8
      in kCachedPowers ! nat index)"

definition find_largest_pow10 :: "u32 \<Rightarrow> nat \<times> u32" where
  "find_largest_pow10 n =
     (if n \<ge> 1000000000 then (10, 1000000000)
      else if n \<ge> 100000000 then (9, 100000000)
      else if n \<ge> 10000000 then (8, 10000000)
      else if n \<ge> 1000000 then (7, 1000000)
      else if n \<ge> 100000 then (6, 100000)
      else if n \<ge> 10000 then (5, 10000)
      else if n \<ge> 1000 then (4, 1000)
      else if n \<ge> 100 then (3, 100)
      else if n \<ge> 10 then (2, 10)
      else (1, 1))"

section \<open>Generating digits\<close>

text \<open>
  The buffer is the list of the digits written so far.  The first two conditions of the loop are
  assertions of the code; with them the loop ends, because \<open>rest\<close> does not overflow.
\<close>

function grisu2_round :: "string \<Rightarrow> u64 \<Rightarrow> u64 \<Rightarrow> u64 \<Rightarrow> u64 \<Rightarrow> string" where
  "grisu2_round buf dist delta rest ten_k =
     (if rest \<le> delta \<and> ten_k > 0 \<and>
         rest < dist \<and> delta - rest \<ge> ten_k \<and> (rest + ten_k < dist \<or> dist - rest > rest + ten_k - dist)
      then grisu2_round (buf[length buf - 1 := char_of (of_char (last buf) - 1 :: nat)]) dist delta (rest + ten_k) ten_k
      else buf)"
  by pat_completeness auto
termination
proof (relation "measure (\<lambda>(buf, dist, delta, rest, ten_k). unat (delta - rest))")
  fix buf :: string and dist delta rest ten_k :: u64
  assume "rest \<le> delta \<and> ten_k > 0 \<and> rest < dist \<and> delta - rest \<ge> ten_k \<and>
    (rest + ten_k < dist \<or> dist - rest > rest + ten_k - dist)"
  then have le: "ten_k \<le> delta - rest" and pos: "ten_k > 0" by auto
  have "delta - (rest + ten_k) = delta - rest - ten_k" by (simp add: algebra_simps)
  also have "unat \<dots> = unat (delta - rest) - unat ten_k" using le by (simp add: unat_sub)
  finally have "unat (delta - (rest + ten_k)) < unat (delta - rest)"
    using le pos by (simp add: word_le_nat_alt word_less_nat_alt)
  then show "((buf[length buf - 1 := char_of (of_char (last buf) - 1 :: nat)], dist, delta, rest + ten_k, ten_k),
      buf, dist, delta, rest, ten_k) \<in> measure (\<lambda>(buf, dist, delta, rest, ten_k). unat (delta - rest))"
    by simp
qed simp

declare grisu2_round.simps [simp del]

text \<open>
  The digits of the integral part.  The result says whether enough digits have been generated; the
  number with it is the exponent to add.
\<close>

fun digit_gen_integral ::
  "nat \<Rightarrow> nat \<Rightarrow> u32 \<Rightarrow> u32 \<Rightarrow> u64 \<Rightarrow> u64 \<Rightarrow> u64 \<Rightarrow> string \<Rightarrow> bool \<times> nat \<times> string" where
  "digit_gen_integral 0 shift pow10 p1 p2 delta dist buffer = (False, 0, buffer)"
| "digit_gen_integral (Suc n) shift pow10 p1 p2 delta dist buffer =
     (let d = p1 div pow10; r = p1 mod pow10;
          buffer1 = buffer @ [digit_char (unat d)];
          rest = push_bit shift (ucast r) + p2
      in if rest \<le> delta
         then (True, n, grisu2_round buffer1 dist delta rest (push_bit shift (ucast pow10)))
         else digit_gen_integral n shift (pow10 div 10) r p2 delta dist buffer1)"

text \<open>
  The digits of the fractional part.  Every round multiplies \<open>delta\<close> by ten, and the fraction is below
  \<open>2 ^ 60\<close>, so 19 rounds are enough for a positive \<open>delta\<close>.
\<close>

fun digit_gen_fraction ::
  "nat \<Rightarrow> nat \<Rightarrow> nat \<Rightarrow> u64 \<Rightarrow> u64 \<Rightarrow> u64 \<Rightarrow> u64 \<Rightarrow> string \<Rightarrow> nat \<times> string" where
  "digit_gen_fraction 0 m shift one p2 delta dist buffer = (m, buffer)"
| "digit_gen_fraction (Suc rounds) m shift one p2 delta dist buffer =
     (let p = p2 * 10; d = drop_bit shift p; r = p AND (one - 1);
          buffer1 = buffer @ [digit_char (unat d)];
          delta1 = delta * 10; dist1 = dist * 10
      in if r \<le> delta1 then (Suc m, grisu2_round buffer1 dist1 delta1 r one)
         else digit_gen_fraction rounds (Suc m) shift one r delta1 dist1 buffer1)"

definition grisu2_digit_gen :: "int \<Rightarrow> diyfp \<Rightarrow> diyfp \<Rightarrow> diyfp \<Rightarrow> int \<times> string" where
  "grisu2_digit_gen decimal_exponent M_minus w M_plus =
     (let delta = df_f (diyfp_sub M_plus M_minus);
          dist = df_f (diyfp_sub M_plus w);
          shift = nat (- df_e M_plus);
          one = push_bit shift 1;
          p1 = ucast (drop_bit shift (df_f M_plus));
          p2 = df_f M_plus AND (one - 1)
      in case find_largest_pow10 p1 of
           (k, pow10) \<Rightarrow>
             (case digit_gen_integral k shift pow10 p1 p2 delta dist [] of
                (True, n, buffer) \<Rightarrow> (decimal_exponent + int n, buffer)
              | (False, _, buffer) \<Rightarrow>
                  (case digit_gen_fraction 19 0 shift one p2 delta dist buffer of
                     (m, buffer1) \<Rightarrow> (decimal_exponent - int m, buffer1))))"

definition grisu2_scaled :: "diyfp \<Rightarrow> diyfp \<Rightarrow> diyfp \<Rightarrow> int \<times> string" where
  "grisu2_scaled m_minus v m_plus =
     (case get_cached_power_for_binary_exponent (df_e m_plus) of
        (f, e, k) \<Rightarrow>
          let c_minus_k = \<lparr>df_f = f, df_e = e\<rparr>;
              w = diyfp_mul v c_minus_k;
              w_minus = diyfp_mul m_minus c_minus_k;
              w_plus = diyfp_mul m_plus c_minus_k;
              M_minus = \<lparr>df_f = df_f w_minus + 1, df_e = df_e w_minus\<rparr>;
              M_plus = \<lparr>df_f = df_f w_plus - 1, df_e = df_e w_plus\<rparr>
          in grisu2_digit_gen (- k) M_minus w M_plus)"

definition grisu2 :: "double \<Rightarrow> int \<times> string" where
  "grisu2 value =
     (let w = compute_boundaries value in grisu2_scaled (bd_minus w) (bd_w w) (bd_plus w))"

section \<open>Formatting\<close>

definition append_exponent :: "int \<Rightarrow> string" where
  "append_exponent e =
     (let k = nat \<bar>e\<bar> in
      (if e < 0 then CHR ''-'' else CHR ''+'') #
      (if k < 10 then [CHR ''0'', digit_char k]
       else if k < 100 then [digit_char (k div 10), digit_char (k mod 10)]
       else [digit_char (k div 100), digit_char (k mod 100 div 10), digit_char (k mod 100 mod 10)]))"

definition format_buffer :: "string \<Rightarrow> int \<Rightarrow> int \<Rightarrow> int \<Rightarrow> string" where
  "format_buffer buf decimal_exponent min_exp max_exp =
     (let k = int (length buf); n = k + decimal_exponent in
      if k \<le> n \<and> n \<le> max_exp then buf @ replicate (nat (n - k)) (CHR ''0'') @ ''.0''
      else if 0 < n \<and> n \<le> max_exp then take (nat n) buf @ ''.'' @ drop (nat n) buf
      else if min_exp < n \<and> n \<le> 0 then ''0.'' @ replicate (nat (- n)) (CHR ''0'') @ buf
      else (if k = 1 then buf else take 1 buf @ ''.'' @ drop 1 buf) @ ''e'' @ append_exponent (n - 1))"

definition to_chars :: "double \<Rightarrow> string" where
  "to_chars value =
     (let negative = signbit value;
          value1 = (if negative then value AND 0x7FFFFFFFFFFFFFFF else value) in
      (if negative then ''-'' else []) @
      (if value1 = 0 then ''0.0''
       else case grisu2 value1 of (decimal_exponent, buf) \<Rightarrow> format_buffer buf decimal_exponent (- 4) 15))"

definition dump_float :: "double \<Rightarrow> string" where
  "dump_float x = (if \<not> isfinite x then ''null'' else to_chars x)"


section \<open>Integers are written in decimal\<close>

lemma show_nat_div:
  "v \<ge> 10 \<Longrightarrow> show_nat v = show_nat (v div 10) @ [digit_char (v mod 10)]"
  by (subst show_nat.simps) simp

lemma show_nat_small: "v < 10 \<Longrightarrow> show_nat v = [digit_char v]"
  by (subst show_nat.simps) simp

lemma show_nat_two: "10 \<le> v \<Longrightarrow> v < 100 \<Longrightarrow> show_nat v = [digit_char (v div 10), digit_char (v mod 10)]"
  by (simp add: show_nat_div show_nat_small)

lemma show_nat_hundred:
  assumes "v \<ge> 100"
  shows "show_nat v = show_nat (v div 100) @ [digit_char (v mod 100 div 10), digit_char (v mod 100 mod 10)]"
proof -
  have "v div 10 div 10 = v div 100" by (simp add: div_mult2_eq [symmetric])
  moreover have "v div 10 mod 10 = v mod 100 div 10" "v mod 10 = v mod 100 mod 10"
    using mod_mult2_eq [of v 10 10] by (simp_all add: mod_mod_cancel)
  moreover have "10 \<le> v div 10" using div_le_mono [OF assms, of 10] by simp
  ultimately show ?thesis using assms show_nat_div [of v] show_nat_div [of "v div 10"] by simp
qed

lemma write_digits_result:
  "length (show_nat v) \<le> p \<Longrightarrow> p \<le> length buf \<Longrightarrow>
     write_digits v p buf = take (p - length (show_nat v)) buf @ show_nat v @ drop p buf"
proof (induction v p buf rule: write_digits.induct)
  case (1 v p buf)
  have two: "xs[q := a, q - 1 := b] = take (q - 1) xs @ [b, a] @ drop (q + 1) xs" if "0 < q" "q < length xs"
    for xs :: string and q a b
    using that by (cases q) (simp_all add: upd_conv_take_nth_drop list_update_append)
  consider "v < 10" | "10 \<le> v" "v < 100" | "100 \<le> v" by linarith
  then show ?case
  proof cases
    case 1
    then show ?thesis
      using "1.prems" by (simp add: write_digits.simps [of v] show_nat_small upd_conv_take_nth_drop)
  next
    case 2
    then show ?thesis
      using "1.prems" two [of "p - 1" buf]
      by (simp add: write_digits.simps [of v] show_nat_two digits_to_99_def numeral_2_eq_2)
  next
    case 3
    let ?buf = "buf[p - 1 := digit_char (v mod 100 mod 10), p - 2 := digit_char (v mod 100 div 10)]"
    have len: "length (show_nat v) = length (show_nat (v div 100)) + 2" using show_nat_hundred [OF 3] by simp
    have "write_digits v p buf = write_digits (v div 100) (p - 2) ?buf"
      using 3 by (simp add: write_digits.simps [of v] digits_to_99_def)
    also have "\<dots> = take (p - 2 - length (show_nat (v div 100))) ?buf @ show_nat (v div 100) @ drop (p - 2) ?buf"
      using "1.IH" [of "digit_char (v mod 100 div 10)" "digit_char (v mod 100 mod 10)"] 3 "1.prems" len
      by (simp add: digits_to_99_def)
    also have "take (p - 2 - length (show_nat (v div 100))) ?buf = take (p - length (show_nat v)) buf"
      using len by (simp add: take_update_cancel)
    also have "drop (p - 2) ?buf = [digit_char (v mod 100 div 10), digit_char (v mod 100 mod 10)] @ drop p buf"
      using two [of "p - 1" buf] "1.prems" len by (simp add: numeral_2_eq_2)
    finally show ?thesis using show_nat_hundred [OF 3] by simp
  qed
qed

lemma count_digits_show: "count_digits v = length (show_nat v)"
proof (induction v rule: count_digits.induct)
  case (1 v)
  have step: "length (show_nat v) = Suc (length (show_nat (v div 10)))" if "v \<ge> 10" for v
    using that by (simp add: show_nat_div)
  show ?case
  proof (cases "v < 10000")
    case True
    then show ?thesis
      using step [of v] step [of "v div 10"] step [of "v div 100"]
      by (auto simp: count_digits.simps [of v] show_nat_small div_mult2_eq [symmetric])
  next
    case False
    then have "length (show_nat v) = length (show_nat (v div 10000)) + 4"
      using step [of v] step [of "v div 10"] step [of "v div 100"] step [of "v div 1000"]
      by (simp add: div_mult2_eq [symmetric])
    with False "1.IH" show ?thesis by (simp add: count_digits.simps [of v])
  qed
qed

lemma length_show_nat_less: "v < 10 ^ k \<Longrightarrow> 0 < k \<Longrightarrow> length (show_nat v) \<le> k"
proof (induction k arbitrary: v)
  case (Suc k)
  show ?case
  proof (cases "v < 10")
    case False
    with Suc have "v div 10 < 10 ^ k" by (simp add: less_mult_imp_div_less mult.commute)
    moreover from this False have "0 < k" by (cases k) auto
    ultimately have "length (show_nat (v div 10)) \<le> k" by (rule Suc.IH)
    with False show ?thesis by (simp add: show_nat_div)
  qed (simp add: show_nat_small)
qed simp

lemma dump_integer_show:
  assumes "- (2 ^ 63) \<le> x" and "x < 2 ^ 64" and "length buf = 64"
  shows "dump_integer buf x = show_int x"
proof -
  have len: "length (show_nat v) \<le> 20" if "v < 2 ^ 64" for v
    using that by (intro length_show_nat_less) simp_all
  consider "x = 0" | "0 < x" | "x < 0" by linarith
  then show ?thesis
  proof cases
    case 2
    with assms(2) have "nat x < 2 ^ 64" by (simp add: nat_less_iff)
    from len [OF this] 2 assms(3) show ?thesis
      by (simp add: dump_integer_def Let_def count_digits_show write_digits_result show_int_def)
  next
    case 3
    have rs: "remove_sign x = nat (- x)" using 3 by (simp add: remove_sign_def)
    from 3 assms(1) have "nat (- x) < 2 ^ 64" by (simp add: nat_less_iff)
    moreover obtain b bs where "buf = b # bs" using assms(3) by (cases buf) auto
    ultimately show ?thesis
      using len [of "nat (- x)"] 3 assms(3)
      by (simp add: dump_integer_def Let_def count_digits_show write_digits_result show_int_def rs)
  qed (simp add: dump_integer_def show_int_def show_nat_small)
qed

text \<open>
  \<^verbatim>\<open>dump_integer\<close> writes the decimal text of every 64-bit integer, signed or unsigned, whatever
  earlier calls have left in its buffer: the number of digits is counted right, the pairs of digits
  from the table land where they belong, and the least signed number is not special.
\<close>

theorem dump_integer_decimal:
  assumes "- (2 ^ 63) \<le> x" and "x < 2 ^ 64" and "length buf = 64"
  shows "dump_integer buf x = show_int x"
  using assms by (rule dump_integer_show)

theorem dump_integer_decimal_witness:
  "dump_integer (replicate 64 (CHR ''x'')) (- 9223372036854775808) = show_int (- 9223372036854775808)"
  using dump_integer_decimal [of "- 9223372036854775808" "replicate 64 (CHR ''x'')"] by simp

end
