(* ===== verification/Json.thy ===== *)
theory Json
  imports HttpTypes JsonNumber "HOL-Library.List_Lexorder" "HOL-Library.Char_ord"
begin

text \<open>
  JSON values as the gateway uses them through \<^verbatim>\<open>include/nlohmann/json.hpp\<close>: the value type, the
  checked accessors, and compact serialisation (\<^verbatim>\<open>serializer::dump\<close>, \<^verbatim>\<open>dump_escaped\<close> and the UTF-8
  automaton).  Text parsing (\<^verbatim>\<open>json::parse\<close>) is an argument of the definitions that call it: a
  function from text to a value or to the exception the library throws.  The library's own parser,
  for which the argument stands in the program, is \<open>json_parse\<close> of the theory \<open>JsonParser\<close>.

  Objects are \<^verbatim>\<open>std::map\<close>s: association lists ordered by key.
\<close>

datatype json =
    JNull
  | JBool bool
  | JInteger int
  | JUnsigned nat
  | JFloat double
  | JString string
  | JArray "json list"
  | JObject "(string \<times> json) list"

type_synonym json_parser = "string \<Rightarrow> cpp_exn + json"

section \<open>Accessors\<close>

fun is_object :: "json \<Rightarrow> bool" where
  "is_object (JObject _) = True"
| "is_object _ = False"

fun is_string :: "json \<Rightarrow> bool" where
  "is_string (JString _) = True"
| "is_string _ = False"

fun is_boolean :: "json \<Rightarrow> bool" where
  "is_boolean (JBool _) = True"
| "is_boolean _ = False"

fun is_number_integer :: "json \<Rightarrow> bool" where
  "is_number_integer (JInteger _) = True"
| "is_number_integer (JUnsigned _) = True"
| "is_number_integer _ = False"

fun is_number_unsigned :: "json \<Rightarrow> bool" where
  "is_number_unsigned (JUnsigned _) = True"
| "is_number_unsigned _ = False"

text \<open>\<^verbatim>\<open>contains(key)\<close> is false on values that are not objects.\<close>

fun contains :: "json \<Rightarrow> string \<Rightarrow> bool" where
  "contains (JObject kvs) k = (map_of kvs k \<noteq> None)"
| "contains _ k = False"

text \<open>\<^verbatim>\<open>at(key)\<close>: type error 304 on a value that is not an object, out-of-range 403 on a missing key.\<close>

fun json_at :: "json \<Rightarrow> string \<Rightarrow> cpp_exn + json" where
  "json_at (JObject kvs) k =
     (case map_of kvs k of Some v \<Rightarrow> Inr v | None \<Rightarrow> Inl (JsonOutOfRange 403))"
| "json_at _ k = Inl (JsonTypeError 304)"

text \<open>
  \<^verbatim>\<open>operator[](key)\<close> on a mutable value: a missing key of an object is created with a null value,
  null becomes an object, any other value is type error 305.  The gateway only reads with it, after
  \<open>contains\<close>; the value read is all that matters.
\<close>

fun json_index :: "json \<Rightarrow> string \<Rightarrow> cpp_exn + json" where
  "json_index (JObject kvs) k = Inr (case map_of kvs k of Some v \<Rightarrow> v | None \<Rightarrow> JNull)"
| "json_index JNull k = Inr JNull"
| "json_index _ k = Inl (JsonTypeError 305)"

fun get_string :: "json \<Rightarrow> cpp_exn + string" where
  "get_string (JString s) = Inr s"
| "get_string _ = Inl (JsonTypeError 302)"

fun get_bool :: "json \<Rightarrow> cpp_exn + bool" where
  "get_bool (JBool b) = Inr b"
| "get_bool _ = Inl (JsonTypeError 302)"

text \<open>
  \<^verbatim>\<open>get<int64_t>()\<close> of an integral value: a static cast of the stored 64-bit number.  (A double is
  converted too; the gateway never asks for one.)
\<close>

definition int64_cast :: "int \<Rightarrow> int" where
  "int64_cast i = (i + 2 ^ 63) mod 2 ^ 64 - 2 ^ 63"

section \<open>Construction of objects\<close>

fun obj_emplace :: "string \<Rightarrow> json \<Rightarrow> (string \<times> json) list \<Rightarrow> (string \<times> json) list" where
  "obj_emplace k v [] = [(k, v)]"
| "obj_emplace k v ((k', v') # rest) =
     (if k = k' then (k', v') # rest
      else if k < k' then (k, v) # (k', v') # rest
      else (k', v') # obj_emplace k v rest)"

text \<open>An object from an initializer list of pairs.\<close>

definition json_object :: "(string \<times> json) list \<Rightarrow> json" where
  "json_object kvs = JObject (fold (\<lambda>(k, v). obj_emplace k v) kvs [])"

section \<open>Serialisation\<close>

text \<open>
  The UTF-8 automaton.  \<open>utf8_class\<close> is the first half of the table \<^verbatim>\<open>utf8d\<close> (one class per byte,
  given by its rows), \<open>utf8_next\<close> the second half (16 entries per state).
\<close>

definition utf8_class :: "nat \<Rightarrow> nat" where
  "utf8_class b =
     (if b < 0x80 then 0 else if b < 0x90 then 1 else if b < 0xA0 then 9 else if b < 0xC0 then 7
      else if b < 0xC2 then 8 else if b < 0xE0 then 2 else if b = 0xE0 then 10
      else if b = 0xED then 4 else if b < 0xF0 then 3 else if b = 0xF0 then 11
      else if b < 0xF4 then 6 else if b = 0xF4 then 5 else 8)"

definition utf8_next :: "nat list" where
  "utf8_next =
     [0, 1, 2, 3, 5, 8, 7, 1, 1, 1, 4, 6, 1, 1, 1, 1,
      1, 1, 1, 1, 1, 1, 1, 1, 1, 1, 1, 1, 1, 1, 1, 1, 1, 0, 1, 1, 1, 1, 1, 0, 1, 0, 1, 1, 1, 1, 1, 1,
      1, 2, 1, 1, 1, 1, 1, 2, 1, 2, 1, 1, 1, 1, 1, 1, 1, 1, 1, 1, 1, 1, 1, 2, 1, 1, 1, 1, 1, 1, 1, 1,
      1, 2, 1, 1, 1, 1, 1, 1, 1, 2, 1, 1, 1, 1, 1, 1, 1, 1, 1, 1, 1, 1, 1, 3, 1, 3, 1, 1, 1, 1, 1, 1,
      1, 3, 1, 1, 1, 1, 1, 3, 1, 3, 1, 1, 1, 1, 1, 1, 1, 3, 1, 1, 1, 1, 1, 1, 1, 1, 1, 1, 1, 1, 1, 1]"

text \<open>One step: the new state and code point.  State 0 accepts, state 1 rejects.\<close>

definition utf8_decode :: "nat \<Rightarrow> u32 \<Rightarrow> nat \<Rightarrow> nat \<times> u32" where
  "utf8_decode state codep byte =
     (let type = utf8_class byte;
          codep' = (if state \<noteq> 0
                    then or (and (of_nat byte) 0x3F) (push_bit 6 codep)
                    else and (drop_bit type 0xFF) (of_nat byte))
      in (utf8_next ! (state * 16 + type), codep'))"

definition hex_digit :: "nat \<Rightarrow> char" where
  "hex_digit d = (if d < 10 then char_of (48 + d) else char_of (87 + d))"

text \<open>What \<^verbatim>\<open>dump_escaped\<close> writes for the last byte of a code point (\<open>ensure_ascii\<close> is false).\<close>

definition escape_codepoint :: "u32 \<Rightarrow> char \<Rightarrow> string" where
  "escape_codepoint cp c =
     (if cp = 0x08 then [CHR 0x5C, CHR ''b'']
      else if cp = 0x09 then [CHR 0x5C, CHR ''t'']
      else if cp = 0x0A then [CHR 0x5C, CHR ''n'']
      else if cp = 0x0C then [CHR 0x5C, CHR ''f'']
      else if cp = 0x0D then [CHR 0x5C, CHR ''r'']
      else if cp = 0x22 then [CHR 0x5C, CHR 0x22]
      else if cp = 0x5C then [CHR 0x5C, CHR 0x5C]
      else if cp \<le> 0x1F
        then [CHR 0x5C, CHR ''u'', CHR ''0'', CHR ''0'',
              hex_digit (unat cp div 16), hex_digit (unat cp mod 16)]
      else [c])"

text \<open>
  \<open>dump_escaped\<close> with the default strict error handler: a byte that is not part of a code point that
  has ended is copied as it is; an invalid byte or an unfinished sequence is type error 316.
\<close>

fun dump_escaped_from :: "nat \<Rightarrow> u32 \<Rightarrow> string \<Rightarrow> cpp_exn + string" where
  "dump_escaped_from state codep [] =
     (if state = 0 then Inr [] else Inl (JsonTypeError 316))"
| "dump_escaped_from state codep (c # cs) =
     (case utf8_decode state codep (of_char c) of (state', codep') \<Rightarrow>
        if state' = 1 then Inl (JsonTypeError 316)
        else
          (case dump_escaped_from state' codep' cs of
             Inl e \<Rightarrow> Inl e
           | Inr rest \<Rightarrow> Inr ((if state' = 0 then escape_codepoint codep' c else [c]) @ rest)))"

definition dump_escaped :: "string \<Rightarrow> cpp_exn + string" where
  "dump_escaped s = dump_escaped_from 0 0 s"

text \<open>Sequencing of two partial results, concatenating the text.\<close>

definition cat_results :: "cpp_exn + string \<Rightarrow> cpp_exn + string \<Rightarrow> cpp_exn + string" where
  "cat_results a b = (case a of Inl e \<Rightarrow> Inl e | Inr x \<Rightarrow> (case b of Inl e \<Rightarrow> Inl e | Inr y \<Rightarrow> Inr (x @ y)))"

definition dump_quoted :: "string \<Rightarrow> cpp_exn + string" where
  "dump_quoted s = cat_results (Inr [CHR 0x22]) (cat_results (dump_escaped s) (Inr [CHR 0x22]))"

text \<open>The buffer for numbers; what it holds does not matter, because every call writes what it uses.\<close>

definition number_buffer :: string where
  "number_buffer = replicate 64 (CHR 0x00)"

text \<open>Compact output (\<^verbatim>\<open>dump()\<close> without indentation).\<close>

fun dump :: "json \<Rightarrow> cpp_exn + string"
  and dump_elems :: "json list \<Rightarrow> cpp_exn + string"
  and dump_members :: "(string \<times> json) list \<Rightarrow> cpp_exn + string" where
  "dump JNull = Inr ''null''"
| "dump (JBool b) = Inr (if b then ''true'' else ''false'')"
| "dump (JInteger i) = Inr (dump_integer number_buffer i)"
| "dump (JUnsigned n) = Inr (dump_integer number_buffer (int n))"
| "dump (JFloat x) = Inr (dump_float x)"
| "dump (JString s) = dump_quoted s"
| "dump (JArray []) = Inr ''[]''"
| "dump (JArray (x # xs)) = cat_results (Inr ''['') (cat_results (dump_elems (x # xs)) (Inr '']''))"
| "dump (JObject []) = Inr ''{}''"
| "dump (JObject (m # ms)) = cat_results (Inr ''{'') (cat_results (dump_members (m # ms)) (Inr ''}''))"
| "dump_elems [] = Inr []"
| "dump_elems [x] = dump x"
| "dump_elems (x # y # xs) = cat_results (dump x) (cat_results (Inr '','') (dump_elems (y # xs)))"
| "dump_members [] = Inr []"
| "dump_members [(k, v)] = cat_results (dump_quoted k) (cat_results (Inr '':'') (dump v))"
| "dump_members ((k, v) # m # ms) =
     cat_results (dump_quoted k)
       (cat_results (Inr '':'') (cat_results (dump v) (cat_results (Inr '','') (dump_members (m # ms)))))"

section \<open>ASCII text always serialises\<close>

definition ascii :: "string \<Rightarrow> bool" where
  "ascii s \<longleftrightarrow> (\<forall>c\<in>set s. of_char c < (128 :: nat))"

lemma dump_escaped_ascii:
  assumes "ascii s"
  shows "\<exists>t. dump_escaped_from 0 cp s = Inr t"
  using assms
proof (induction s arbitrary: cp)
  case Nil
  show ?case by simp
next
  case (Cons c s)
  then have "(of_char c :: nat) < 128" by (simp add: ascii_def)
  then have "fst (utf8_decode 0 cp (of_char c)) = 0"
    by (simp add: utf8_decode_def utf8_class_def utf8_next_def Let_def)
  then obtain cp' where "utf8_decode 0 cp (of_char c) = (0, cp')" by (metis prod.collapse)
  moreover from Cons obtain t where "dump_escaped_from 0 cp' s = Inr t"
    by (auto simp: ascii_def)
  ultimately show ?case by simp
qed

text \<open>A value whose text needs no decoding: not a container, and ASCII if a string.\<close>

fun plain_value :: "json \<Rightarrow> bool" where
  "plain_value (JString s) = ascii s"
| "plain_value (JArray xs) = False"
| "plain_value (JObject kvs) = False"
| "plain_value _ = True"

lemma dump_quoted_ascii: "ascii s \<Longrightarrow> \<exists>t. dump_quoted s = Inr t"
  using dump_escaped_ascii [of s 0] by (auto simp: dump_quoted_def dump_escaped_def cat_results_def)

lemma dump_plain_value: "plain_value v \<Longrightarrow> \<exists>t. dump v = Inr t"
  by (cases v) (auto dest: dump_quoted_ascii)

lemma dump_members_plain:
  "\<forall>(k, v)\<in>set ms. ascii k \<and> plain_value v \<Longrightarrow> \<exists>t. dump_members ms = Inr t"
proof (induction ms rule: induct_list012)
  case (2 m)
  obtain k v where "m = (k, v)" by force
  with 2 show ?case
    using dump_quoted_ascii [of k] dump_plain_value [of v] by (auto simp: cat_results_def)
next
  case (3 m m' ms)
  obtain k v where "m = (k, v)" by force
  with 3 show ?case
    using dump_quoted_ascii [of k] dump_plain_value [of v] by (auto simp: cat_results_def)
qed simp

lemma set_obj_emplace: "set (obj_emplace k v kvs) \<subseteq> insert (k, v) (set kvs)"
  by (induction k v kvs rule: obj_emplace.induct) auto

lemma set_json_object:
  "json_object kvs = JObject ms \<Longrightarrow> set ms \<subseteq> set kvs"
proof -
  have "set (fold (\<lambda>(k, v). obj_emplace k v) kvs acc) \<subseteq> set kvs \<union> set acc" for acc
  proof (induction kvs arbitrary: acc)
    case (Cons m kvs)
    obtain k v where m: "m = (k, v)" by force
    have "set (fold (\<lambda>(k, v). obj_emplace k v) kvs (obj_emplace k v acc)) \<subseteq>
        set kvs \<union> set (obj_emplace k v acc)" by (rule Cons.IH)
    with set_obj_emplace [of k v acc] show ?case by (auto simp: m)
  qed simp
  then show "json_object kvs = JObject ms \<Longrightarrow> set ms \<subseteq> set kvs"
    by (fastforce simp: json_object_def)
qed

lemma dump_flat_object:
  assumes "\<forall>(k, v)\<in>set kvs. ascii k \<and> plain_value v"
  shows "\<exists>t. dump (json_object kvs) = Inr t"
proof -
  obtain ms where ms: "json_object kvs = JObject ms" by (simp add: json_object_def)
  with assms set_json_object [OF ms] have "\<exists>t. dump_members ms = Inr t"
    by (intro dump_members_plain) blast
  with ms show ?thesis by (cases ms) (auto simp: cat_results_def)
qed

end
