(* ===== verification/Gateway_Interfaces.thy ===== *)
theory Gateway_Interfaces
  imports Gateway_Prelude
begin

text \<open>
  The interfaces that several components share, as locales: transition systems with their invariants
  and refinements, readers of a stream that arrives in segments, and codecs.  Each is interpreted on
  the model in the theory of the component that provides the laws.
\<close>

section \<open>Transition systems\<close>

text \<open>
  A system given by its initial states and its steps; \<open>reach\<close> is the least set of states that holds
  the initial ones and is closed under steps.
\<close>

locale transition_system =
  fixes reach :: "'s \<Rightarrow> bool" and init :: "'s \<Rightarrow> bool" and step :: "'s \<Rightarrow> 's \<Rightarrow> bool"
  assumes reach_init: "init s \<Longrightarrow> reach s"
    and reach_step: "reach s \<Longrightarrow> step s s' \<Longrightarrow> reach s'"
    and reach_induct: "reach s \<Longrightarrow> (\<And>s. init s \<Longrightarrow> P s) \<Longrightarrow>
      (\<And>s s'. reach s \<Longrightarrow> P s \<Longrightarrow> step s s' \<Longrightarrow> P s') \<Longrightarrow> P s"
begin

lemma reach_run: "step\<^sup>*\<^sup>* s s' \<Longrightarrow> reach s \<Longrightarrow> reach s'"
  by (induction rule: rtranclp_induct) (auto intro: reach_step)

end

text \<open>A property of the initial states that every step from a reachable state keeps.\<close>

locale step_invariant = transition_system +
  fixes inv :: "'a \<Rightarrow> bool"
  assumes inv_init: "init s \<Longrightarrow> inv s"
    and inv_step: "reach s \<Longrightarrow> inv s \<Longrightarrow> step s s' \<Longrightarrow> inv s'"
begin

lemma inv_reach: "reach s \<Longrightarrow> inv s"
  by (rule reach_induct) (auto intro: inv_init inv_step)

end

text \<open>
  A functional refinement: \<open>abs\<close> shows every step from a reachable state as a step of the
  specification, so it shows every run as a run, and what the steps of the specification keep is kept.
\<close>

locale step_refinement = transition_system +
  fixes abs :: "'a \<Rightarrow> 'b" and spec :: "'b \<Rightarrow> 'b \<Rightarrow> bool"
  assumes simulates: "reach s \<Longrightarrow> step s s' \<Longrightarrow> spec (abs s) (abs s')"
begin

lemma run_simulates: "step\<^sup>*\<^sup>* s s' \<Longrightarrow> reach s \<Longrightarrow> spec\<^sup>*\<^sup>* (abs s) (abs s')"
proof (induction rule: rtranclp_induct)
  case (step t t')
  with simulates [OF reach_run] show ?case by (meson rtranclp.rtrancl_into_rtrancl)
qed simp

lemma run_monotone:
  fixes f :: "'b \<Rightarrow> 'o::preorder"
  assumes "step\<^sup>*\<^sup>* s s'" and "reach s" and "\<And>l l'. spec l l' \<Longrightarrow> f l \<le> f l'"
  shows "f (abs s) \<le> f (abs s')"
proof -
  from assms(1,2) have "spec\<^sup>*\<^sup>* (abs s) (abs s')" by (rule run_simulates)
  then show ?thesis by (induction rule: rtranclp_induct) (auto intro: order_trans assms(3))
qed

end

section \<open>Readers of a stream in segments\<close>

text \<open>
  A reader is given the bytes of a stream in segments.  What it has found out, its \<open>view\<close>, only
  depends on the bytes read so far; once it is \<open>final\<close> it takes no further segment.
\<close>

locale segmented_reader =
  fixes read :: "'s \<Rightarrow> 'c list \<Rightarrow> 's" and final :: "'s \<Rightarrow> bool" and view :: "'s \<Rightarrow> 'v"
  assumes read_resume: "\<not> final (read s a) \<Longrightarrow> view (read (read s a) b) = view (read s (a @ b))"
    and read_final: "final (read s a) \<Longrightarrow> view (read s (a @ b)) = view (read s a)"
begin

lemma read_all:
  assumes run: "\<And>s. runs s [] = read s []"
    "\<And>s c cs. runs s (c # cs) = (if final (read s c) then read s c else runs (read s c) cs)"
  shows "view (runs s cs) = view (read s (concat cs))"
proof (induction cs arbitrary: s)
  case (Cons c cs)
  then show ?case using run(2) read_resume read_final by simp
qed (simp add: run)

end

section \<open>Codecs\<close>

text \<open>
  Encoding succeeds on the admissible values and decoding the text gives the value back; so the text
  determines the value, and decoding after encoding in a list of messages gives the list back.
\<close>

locale codec =
  fixes encode :: "'v \<Rightarrow> 'e + 't" and decode :: "'t \<Rightarrow> 'f + 'v" and admissible :: "'v \<Rightarrow> bool"
  assumes decode_encode: "admissible v \<Longrightarrow> \<exists>t. encode v = Inr t \<and> decode t = Inr v"
begin

lemma encode_total: "admissible v \<Longrightarrow> \<exists>t. encode v = Inr t"
  using decode_encode by blast

lemma decode_encoded: "admissible v \<Longrightarrow> encode v = Inr t \<Longrightarrow> decode t = Inr v"
  using decode_encode by fastforce

lemma encode_injective: "admissible v \<Longrightarrow> admissible u \<Longrightarrow> encode v = encode u \<Longrightarrow> v = u"
  using decode_encode by (metis sum.inject(2))

end

end
