(* ===== verification/Protocol.thy ===== *)
theory Protocol
  imports Gateway_Interfaces
begin

text \<open>
  The length-prefixed binary protocol: \<^verbatim>\<open>include/protocol/\<close> and
  \<^verbatim>\<open>src/protocol/ProtocolCodec.cpp\<close>.  A frame is a 32-bit big-endian body length followed by the
  body: version, message type, 64-bit big-endian request id, payload.

  The theorems: the decoder inverts the encoder on whole streams; it consumes exactly the frames
  it reports; splitting the stream into reads does not change what is decoded; a declared length
  outside the limits is rejected from the four length bytes alone; and an incomplete tail kept
  for the next read is shorter than one frame.
\<close>

section \<open>Messages\<close>

text \<open>
  \<^verbatim>\<open>enum class MessageType : uint8_t\<close> has a fixed underlying type, so a value cast from a byte of
  the wire may be any 8-bit value; the enumerators are named values of it.
\<close>

type_synonym MessageType = u8

definition PING :: MessageType where "PING = 1"
definition ECHO :: MessageType where "ECHO = 2"
definition LOG_PUSH :: MessageType where "LOG_PUSH = 3"
definition STATS :: MessageType where "STATS = 4"
definition PONG :: MessageType where "PONG = 5"
definition ECHO_RESP :: MessageType where "ECHO_RESP = 6"
definition ERROR_RESP :: MessageType where "ERROR_RESP = 7"
definition LOG_ACK :: MessageType where "LOG_ACK = 8"
definition STATS_RESP :: MessageType where "STATS_RESP = 9"
definition AUTH :: MessageType where "AUTH = 10"
definition AUTH_RESP :: MessageType where "AUTH_RESP = 11"

lemmas MessageType_defs =
  PING_def ECHO_def LOG_PUSH_def STATS_def PONG_def ECHO_RESP_def ERROR_RESP_def LOG_ACK_def
  STATS_RESP_def AUTH_def AUTH_RESP_def

record Request =
  req_fd :: int
  req_conn_id :: u64
  req_version :: u8
  req_type :: MessageType
  req_request_id :: u64
  req_payload :: string

record Response =
  resp_fd :: int
  resp_conn_id :: u64
  resp_version :: u8
  resp_type :: MessageType
  resp_request_id :: u64
  resp_status_code :: int
  resp_payload :: string
  resp_client_id_to_authenticate :: "string option"
  resp_close_connection :: bool
  resp_skip_write :: bool

section \<open>The codec\<close>

definition MAX_PAYLOAD_SIZE :: u32 where
  "MAX_PAYLOAD_SIZE = 4 * 1024 * 1024"

datatype DecodeStatus = DecodeStatus_OK | NEED_MORE_DATA | INVALID_LENGTH

definition FIXED_BODY_SIZE :: u32 where
  "FIXED_BODY_SIZE = 1 + 1 + 8"

definition MAX_BODY_SIZE :: u32 where
  "MAX_BODY_SIZE = MAX_PAYLOAD_SIZE + FIXED_BODY_SIZE"

definition encode :: "Response \<Rightarrow> string" where
  "encode response =
     (let body_length = (of_nat (1 + 1 + 8 + length (resp_payload response)) :: u32)
      in be_encode 4 (unat body_length) @
         [char_of (unat (resp_version response))] @
         [char_of (unat (resp_type response))] @
         be_encode 8 (unat (resp_request_id response)) @
         resp_payload response)"

text \<open>
  The decoding loop, from \<open>read_index\<close> on.  Its result is the status, the final \<open>read_index\<close> and
  the requests decoded so far.  The length arithmetic is that of \<^verbatim>\<open>uint32_t\<close>.
\<close>

function decode_loop ::
  "string \<Rightarrow> int \<Rightarrow> u64 \<Rightarrow> u32 \<Rightarrow> nat \<Rightarrow> Request list \<Rightarrow> DecodeStatus \<times> nat \<times> Request list" where
  "decode_loop input_buffer fd conn_id max_body_size read_index out =
     (let remaining = length input_buffer - read_index in
      if remaining = 0 then (DecodeStatus_OK, read_index, out)
      else if remaining < 4 then (NEED_MORE_DATA, read_index, out)
      else
        let host_body_length = (of_nat (be_decode (str_substr input_buffer read_index 4)) :: u32) in
        if host_body_length < FIXED_BODY_SIZE \<or> host_body_length > MAX_BODY_SIZE \<or>
           host_body_length > max_body_size
        then (INVALID_LENGTH, read_index, out)
        else if remaining < unat (4 + host_body_length) then (NEED_MORE_DATA, read_index, out)
        else
          let req = \<lparr>req_fd = fd, req_conn_id = conn_id,
                     req_version = of_nat (of_char (input_buffer ! (read_index + 4))),
                     req_type = of_nat (of_char (input_buffer ! (read_index + 5))),
                     req_request_id = of_nat (be_decode (str_substr input_buffer (read_index + 6) 8)),
                     req_payload = str_substr input_buffer (read_index + 14)
                                     (unat (host_body_length - FIXED_BODY_SIZE))\<rparr>
          in decode_loop input_buffer fd conn_id max_body_size
               (read_index + unat (4 + host_body_length)) (out @ [req]))"
  by pat_completeness auto
termination
proof (relation "measure (\<lambda>(buf, fd, cid, m, i, out). length buf - i)", goal_cases)
  case 1
  then show ?case by simp
next
  case (2 buf fd cid m i out remaining host req)
  have "0 < unat (4 + host)"
  proof (rule ccontr)
    assume "\<not> 0 < unat (4 + host)"
    then have "4 + host = 0" by (simp add: unat_eq_zero)
    then have "host = - 4" by (simp add: add_eq_0_iff)
    with 2 show False by (simp add: MAX_BODY_SIZE_def MAX_PAYLOAD_SIZE_def FIXED_BODY_SIZE_def)
  qed
  with 2 show ?case by simp
qed

declare decode_loop.simps [simp del]

text \<open>
  \<open>decode\<close> returns the status, the input buffer it leaves behind and the requests.  On an invalid
  length the function returns early and leaves the buffer as it was.
\<close>

definition decode ::
  "string \<Rightarrow> int \<Rightarrow> Request list \<Rightarrow> u64 \<Rightarrow> u32 \<Rightarrow> DecodeStatus \<times> string \<times> Request list" where
  "decode input_buffer fd out_requests conn_id max_body_size =
     (case decode_loop input_buffer fd conn_id max_body_size 0 out_requests of
        (INVALID_LENGTH, read_index, out) \<Rightarrow> (INVALID_LENGTH, input_buffer, out)
      | (status, read_index, out) \<Rightarrow>
          (status, if read_index > 0 then drop read_index input_buffer else input_buffer, out))"

section \<open>Specification of the wire format\<close>

text \<open>The request a peer's decoder reports for an encoded message.\<close>

definition request_of :: "int \<Rightarrow> u64 \<Rightarrow> Response \<Rightarrow> Request" where
  "request_of fd conn_id r =
     \<lparr>req_fd = fd, req_conn_id = conn_id, req_version = resp_version r, req_type = resp_type r,
      req_request_id = resp_request_id r, req_payload = resp_payload r\<rparr>"

text \<open>The bytes of a frame, and the frames whose declared length both limits admit.\<close>

definition request_wire :: "Request \<Rightarrow> string" where
  "request_wire r =
     be_encode 4 (10 + length (req_payload r)) @
     [char_of (unat (req_version r)), char_of (unat (req_type r))] @
     be_encode 8 (unat (req_request_id r)) @ req_payload r"

definition admissible_length :: "u32 \<Rightarrow> nat \<Rightarrow> bool" where
  "admissible_length max_body_size n \<longleftrightarrow>
     unat FIXED_BODY_SIZE \<le> n \<and> n \<le> unat MAX_BODY_SIZE \<and> n \<le> unat max_body_size"

definition admissible :: "u32 \<Rightarrow> Request \<Rightarrow> bool" where
  "admissible max_body_size r \<longleftrightarrow> admissible_length max_body_size (10 + length (req_payload r))"

section \<open>One iteration of the loop, over the remaining input\<close>

lemma size_consts [simp]:
  "unat FIXED_BODY_SIZE = 10" "unat MAX_BODY_SIZE = 4194314"
  by (simp_all add: FIXED_BODY_SIZE_def MAX_BODY_SIZE_def MAX_PAYLOAD_SIZE_def)

definition frame_request :: "int \<Rightarrow> u64 \<Rightarrow> string \<Rightarrow> nat \<Rightarrow> Request" where
  "frame_request fd conn_id s n =
     \<lparr>req_fd = fd, req_conn_id = conn_id,
      req_version = of_nat (of_char (s ! 4)), req_type = of_nat (of_char (s ! 5)),
      req_request_id = of_nat (be_decode (take 8 (drop 6 s))),
      req_payload = take (n - 10) (drop 14 s)\<rparr>"

lemma declared_length:
  assumes "4 \<le> length s"
  defines "n \<equiv> be_decode (take 4 s)"
  defines "host \<equiv> (of_nat n :: u32)"
  shows "host < FIXED_BODY_SIZE \<or> host > MAX_BODY_SIZE \<or> host > m \<longleftrightarrow> \<not> admissible_length m n"
    and "admissible_length m n \<Longrightarrow> unat (4 + host) = 4 + n"
    and "admissible_length m n \<Longrightarrow> unat (host - FIXED_BODY_SIZE) = n - 10"
proof -
  from assms(1) have "length (take 4 s) = 4" by simp
  with be_decode_less [of "take 4 s"] have "n < 2 ^ 32"
    by (simp add: n_def)
  then have un: "unat host = n"
    by (simp add: host_def unat_of_nat take_bit_nat_eq_self)
  show "host < FIXED_BODY_SIZE \<or> host > MAX_BODY_SIZE \<or> host > m \<longleftrightarrow> \<not> admissible_length m n"
    by (auto simp: word_less_nat_alt un admissible_length_def)
  assume adm: "admissible_length m n"
  with un show "unat (4 + host) = 4 + n"
    by (simp add: unat_word_ariths admissible_length_def)
  from adm un have "FIXED_BODY_SIZE \<le> host"
    by (simp add: word_le_nat_alt admissible_length_def)
  with un show "unat (host - FIXED_BODY_SIZE) = n - 10"
    by (simp add: unat_sub)
qed

lemma decode_loop_step:
  "decode_loop buf fd cid m i out =
     (let s = drop i buf; n = be_decode (take 4 s) in
      if s = [] then (DecodeStatus_OK, i, out)
      else if length s < 4 then (NEED_MORE_DATA, i, out)
      else if \<not> admissible_length m n then (INVALID_LENGTH, i, out)
      else if length s < 4 + n then (NEED_MORE_DATA, i, out)
      else decode_loop buf fd cid m (i + (4 + n)) (out @ [frame_request fd cid s n]))"
proof (cases "4 \<le> length (drop i buf)")
  case False
  then show ?thesis by (subst decode_loop.simps) (auto simp: Let_def)
next
  case True
  then have frame: "frame_request fd cid (drop i buf) n =
      \<lparr>req_fd = fd, req_conn_id = cid, req_version = of_nat (of_char (buf ! (i + 4))),
       req_type = of_nat (of_char (buf ! (i + 5))),
       req_request_id = of_nat (be_decode (take 8 (drop (i + 6) buf))),
       req_payload = take (n - 10) (drop (i + 14) buf)\<rparr>" for n
    by (simp add: frame_request_def add.commute)
  show ?thesis
  proof (cases "admissible_length m (be_decode (take 4 (drop i buf)))")
    case False
    with True declared_length(1) [OF True, of m] show ?thesis
      by (subst decode_loop.simps) (simp add: Let_def str_substr_def)
  next
    case adm: True
    with True declared_length [OF True, of m] show ?thesis
      by (subst decode_loop.simps) (simp add: Let_def str_substr_def frame)
  qed
qed

text \<open>Either the remaining input starts with a complete admissible frame, or the loop stops.\<close>

definition frame_ready :: "u32 \<Rightarrow> string \<Rightarrow> bool" where
  "frame_ready m s \<longleftrightarrow>
     4 \<le> length s \<and> admissible_length m (be_decode (take 4 s)) \<and> 4 + be_decode (take 4 s) \<le> length s"

definition stop_status :: "u32 \<Rightarrow> string \<Rightarrow> DecodeStatus" where
  "stop_status m s =
     (if s = [] then DecodeStatus_OK
      else if length s < 4 \<or> admissible_length m (be_decode (take 4 s)) then NEED_MORE_DATA
      else INVALID_LENGTH)"

lemma decode_loop_next:
  "frame_ready m (drop i buf) \<Longrightarrow>
   decode_loop buf fd cid m i out =
     decode_loop buf fd cid m (i + (4 + be_decode (take 4 (drop i buf))))
       (out @ [frame_request fd cid (drop i buf) (be_decode (take 4 (drop i buf)))])"
  unfolding frame_ready_def by (subst decode_loop_step) (auto simp: Let_def)

lemma decode_loop_stop:
  "\<not> frame_ready m (drop i buf) \<Longrightarrow>
   decode_loop buf fd cid m i out = (stop_status m (drop i buf), i, out)"
  unfolding frame_ready_def stop_status_def by (subst decode_loop_step) (auto simp: Let_def)

lemma length_request_wire [wire_simps]: "length (request_wire r) = 14 + length (req_payload r)"
  by (simp add: request_wire_def)

lemma request_wire_head:
  assumes "admissible m r"
  shows "be_decode (take 4 (request_wire r @ rest)) = 10 + length (req_payload r)"
  using assms by (simp add: request_wire_def be_decode_encode admissible_def admissible_length_def)

lemma frame_request_wire:
  assumes "req_fd r = fd" "req_conn_id r = cid"
  shows "frame_request fd cid (request_wire r @ rest) (10 + length (req_payload r)) = r"
proof -
  have rid: "be_decode (be_encode 8 (unat x)) = unat x" for x :: u64
    by (simp add: be_decode_encode)
  have b: "of_nat (of_char (char_of (unat x) :: char)) = x" for x :: u8
    by (simp add: of_char_of)
  show ?thesis
    using assms
    by (cases r) (simp add: frame_request_def request_wire_def nth_append rid b)
qed

lemma wire_frame_request:
  assumes "4 + n \<le> length s" and "be_decode (take 4 s) = n" and "10 \<le> n"
  shows "request_wire (frame_request fd cid s n) @ drop (4 + n) s = s"
proof -
  have four: "be_encode 4 n = take 4 s"
    using be_encode_decode [of "take 4 s"] assms by simp
  have eight: "be_encode 8 (be_decode (take 8 (drop 6 s)) mod 2 ^ 64) = take 8 (drop 6 s)"
  proof -
    have "length (take 8 (drop 6 s)) = 8" using assms by simp
    with be_decode_less [of "take 8 (drop 6 s)"] be_encode_decode [of "take 8 (drop 6 s)"]
    show ?thesis by simp
  qed
  have pl: "10 + length (take (n - 10) (drop 14 s)) = n"
    using assms by simp
  have b: "char_of (unat (of_nat (of_char c) :: u8)) = c" for c :: char
    by (simp add: unat_of_nat take_bit_nat_eq_self)
  have d4: "s ! 4 # s ! 5 # drop 6 s = drop 4 s"
    using assms Cons_nth_drop_Suc [of 4 s] Cons_nth_drop_Suc [of 5 s] by simp
  have d6: "take 8 (drop 6 s) @ drop 14 s = drop 6 s"
    using append_take_drop_id [of 8 "drop 6 s"] by simp
  have d14: "take (n - 10) (drop 14 s) @ drop (4 + n) s = drop 14 s"
    using append_take_drop_id [of "n - 10" "drop 14 s"] assms by (simp add: add.commute)
  have "take 4 s @ [s ! 4, s ! 5] @ take 8 (drop 6 s) @ take (n - 10) (drop 14 s) @ drop (4 + n) s = s"
    by (simp add: d14 d6 d4)
  then show ?thesis
    using pl four eight b
    by (simp add: request_wire_def frame_request_def unat_of_nat take_bit_eq_mod)
qed

section \<open>Whole streams\<close>

definition from_peer :: "int \<Rightarrow> u64 \<Rightarrow> u32 \<Rightarrow> Request list \<Rightarrow> bool" where
  "from_peer fd conn_id m rs \<longleftrightarrow>
     (\<forall>r\<in>set rs. req_fd r = fd \<and> req_conn_id r = conn_id \<and> admissible m r)"

lemma decode_loop_frames:
  assumes "from_peer fd cid m rs" and "drop i buf = concat (map request_wire rs) @ rest"
  shows "decode_loop buf fd cid m i out =
           decode_loop buf fd cid m (i + length (concat (map request_wire rs))) (out @ rs)"
  using assms
proof (induction rs arbitrary: i out)
  case Nil
  then show ?case by simp
next
  case (Cons r rs)
  let ?n = "10 + length (req_payload r)"
  let ?rest = "concat (map request_wire rs) @ rest"
  from Cons.prems have adm: "admissible m r" and key: "req_fd r = fd" "req_conn_id r = cid"
    and tl: "from_peer fd cid m rs" and s: "drop i buf = request_wire r @ ?rest"
    by (auto simp: from_peer_def)
  have "drop (i + (4 + ?n)) buf = drop (4 + ?n) (drop i buf)"
    by (simp only: drop_drop add.commute)
  then have rest: "drop (i + (4 + ?n)) buf = ?rest"
    by (simp add: s length_request_wire)
  have "decode_loop buf fd cid m i out = decode_loop buf fd cid m (i + (4 + ?n)) (out @ [r])"
    using request_wire_head [OF adm] frame_request_wire [OF key] adm
    by (subst decode_loop_step)
      (simp add: s Let_def length_request_wire admissible_def, auto simp: request_wire_def)
  with Cons.IH [OF tl rest] show ?case
    by (simp add: length_request_wire algebra_simps)
qed

lemma decode_loop_sound:
  assumes "decode_loop buf fd cid m i out = (st, i', out')" and "i \<le> length buf"
  shows "\<exists>rs. out' = out @ rs \<and> from_peer fd cid m rs \<and> i \<le> i' \<and> i' \<le> length buf \<and>
           drop i buf = concat (map request_wire rs) @ drop i' buf \<and>
           \<not> frame_ready m (drop i' buf) \<and> st = stop_status m (drop i' buf)"
  using assms
proof (induction "length buf - i" arbitrary: i out rule: less_induct)
  case less
  let ?s = "drop i buf" and ?n = "be_decode (take 4 (drop i buf))"
  show ?case
  proof (cases "frame_ready m ?s")
    case False
    with less.prems show ?thesis
      by (simp add: decode_loop_stop) (auto simp: from_peer_def)
  next
    case True
    let ?r = "frame_request fd cid ?s ?n"
    from True have n: "10 \<le> ?n" "4 + ?n \<le> length ?s"
      by (simp_all add: frame_ready_def admissible_length_def)
    have wire: "request_wire ?r @ drop (i + (4 + ?n)) buf = ?s"
      using wire_frame_request [of ?n ?s fd cid] n by (simp add: add.commute)
    have "10 + length (req_payload ?r) = ?n"
      using n by (auto simp: frame_request_def min_def)
    with True have adm: "admissible m ?r"
      by (simp add: admissible_def frame_ready_def)
    from less.prems have step:
      "decode_loop buf fd cid m (i + (4 + ?n)) (out @ [?r]) = (st, i', out')"
      by (simp add: decode_loop_next [OF True])
    have "length buf - (i + (4 + ?n)) < length buf - i" and "i + (4 + ?n) \<le> length buf"
      using n less.prems(2) by auto
    from less.hyps [OF this(1) step this(2)] obtain rs where
      rs: "out' = (out @ [?r]) @ rs" "from_peer fd cid m rs" "i + (4 + ?n) \<le> i'" "i' \<le> length buf"
      "drop (i + (4 + ?n)) buf = concat (map request_wire rs) @ drop i' buf"
      "\<not> frame_ready m (drop i' buf)" "st = stop_status m (drop i' buf)"
      by blast
    have "from_peer fd cid m (?r # rs)"
      using rs(2) adm by (auto simp: from_peer_def frame_request_def)
    moreover have "?s = concat (map request_wire (?r # rs)) @ drop i' buf"
      using wire rs(5) by simp
    ultimately show ?thesis
      using rs by (intro exI [of _ "?r # rs"]) simp
  qed
qed

text \<open>
  What \<open>decode\<close> computes: the input splits uniquely into complete admissible frames and a tail
  that does not start with one.
\<close>

lemma decode_iff:
  "decode buf fd out cid m = (st, rest, out') \<longleftrightarrow>
     (\<exists>rs t. buf = concat (map request_wire rs) @ t \<and> from_peer fd cid m rs \<and>
        \<not> frame_ready m t \<and> st = stop_status m t \<and> out' = out @ rs \<and>
        rest = (if st = INVALID_LENGTH then buf else t))" (is "?L \<longleftrightarrow> ?R")
proof
  assume L: ?L
  obtain st1 i o1 where loop: "decode_loop buf fd cid m 0 out = (st1, i, o1)" by (metis prod_cases3)
  from decode_loop_sound [OF this] loop L show ?R
    by (auto simp: decode_def split: DecodeStatus.splits if_splits) force+
next
  assume ?R
  then obtain rs t where R: "buf = concat (map request_wire rs) @ t" "from_peer fd cid m rs"
    "\<not> frame_ready m t" "st = stop_status m t" "out' = out @ rs"
    "rest = (if st = INVALID_LENGTH then buf else t)" by blast
  then have t: "drop (length (concat (map request_wire rs))) buf = t" by simp
  have "decode_loop buf fd cid m 0 out =
      (stop_status m t, length (concat (map request_wire rs)), out @ rs)"
    using decode_loop_frames [of fd cid m rs 0 buf t out] R t by (simp add: decode_loop_stop)
  with R t show ?L
    by (cases st) (auto simp: decode_def)
qed

lemma encode_wire:
  assumes "admissible_length m (10 + length (resp_payload r))"
  shows "encode r = request_wire (request_of fd cid r)"
proof -
  from assms have "unat (of_nat (1 + 1 + 8 + length (resp_payload r)) :: u32) = 10 + length (resp_payload r)"
    unfolding unat_of_nat by (simp add: admissible_length_def take_bit_nat_eq_self)
  then show ?thesis
    unfolding encode_def Let_def by (simp add: request_wire_def request_of_def)
qed

lemma encode_wires:
  "\<forall>r\<in>set rs. admissible_length m (10 + length (resp_payload r)) \<Longrightarrow>
     concat (map encode rs) = concat (map request_wire (map (request_of fd cid) rs))"
  by (induction rs) (simp_all add: encode_wire [of m])

lemma partial_frame:
  assumes "admissible m r" and "k < length (request_wire r)"
  shows "\<not> frame_ready m (take k (request_wire r))"
    and "stop_status m (take k (request_wire r)) = (if k = 0 then DecodeStatus_OK else NEED_MORE_DATA)"
proof -
  have ne: "request_wire r \<noteq> []"
    using length_request_wire [of r] by auto
  have head: "4 \<le> k \<Longrightarrow> take (min 4 k) (request_wire r) = take 4 (request_wire r)"
    by (simp add: min_def)
  have "be_decode (take 4 (request_wire r)) = 10 + length (req_payload r)"
    using request_wire_head [OF assms(1), of "[]"] by simp
  with assms head ne show "\<not> frame_ready m (take k (request_wire r))"
    "stop_status m (take k (request_wire r)) = (if k = 0 then DecodeStatus_OK else NEED_MORE_DATA)"
    by (cases "4 \<le> k"; simp add: frame_ready_def stop_status_def length_request_wire admissible_def)+
qed

definition sample_response :: Response where
  "sample_response =
     \<lparr>resp_fd = 7, resp_conn_id = 1, resp_version = 1, resp_type = 2, resp_request_id = 9,
      resp_status_code = 0, resp_payload = ''hi'', resp_client_id_to_authenticate = None,
      resp_close_connection = False, resp_skip_write = False\<rparr>"

text \<open>
  C22: The decoder inverts the encoder.  A stream that consists of any number of encoded messages
  followed by the first \<open>k\<close> bytes of another, all within the size limits, decodes to exactly those
  messages in order; the cut-off bytes stay in the buffer, with \<open>NEED_MORE_DATA\<close> when there are any.
\<close>

theorem decode_encode_stream:
  assumes "\<forall>x\<in>set (last_one # rs). admissible_length m (10 + length (resp_payload x))"
    and "k < length (encode last_one)"
  shows "decode (concat (map encode rs) @ take k (encode last_one)) fd out cid m =
           (if k = 0 then DecodeStatus_OK else NEED_MORE_DATA, take k (encode last_one),
            out @ map (request_of fd cid) rs)"
proof -
  from assms(1) have adm: "admissible m (request_of fd cid last_one)"
    and rs: "from_peer fd cid m (map (request_of fd cid) rs)"
    and len: "admissible_length m (10 + length (resp_payload last_one))"
    by (auto simp: admissible_def from_peer_def request_of_def)
  note w = encode_wire [OF len, of fd cid]
  from assms(2) have k: "k < length (request_wire (request_of fd cid last_one))"
    by (simp add: w)
  show ?thesis
    unfolding decode_iff w
    using partial_frame [OF adm k] rs encode_wires [of rs m fd cid] assms(1)
    by (intro exI [of _ "map (request_of fd cid) rs"]
        exI [of _ "take k (request_wire (request_of fd cid last_one))"]) simp
qed

theorem decode_encode_stream_witness:
  "admissible_length 4096 (10 + length (resp_payload sample_response)) \<and>
   5 < length (encode sample_response) \<and>
   decode (encode sample_response @ encode sample_response @ take 5 (encode sample_response)) 7 [] 1 4096 =
     (NEED_MORE_DATA, take 5 (encode sample_response),
      [request_of 7 1 sample_response, request_of 7 1 sample_response])"
proof -
  have a: "admissible_length 4096 (10 + length (resp_payload sample_response))"
    by (simp add: admissible_length_def sample_response_def)
  have b: "5 < length (encode sample_response)" by (simp add: encode_def sample_response_def)
  show ?thesis
    using a b decode_encode_stream [of sample_response "[sample_response, sample_response]" 4096 5 7 "[]" 1]
    by simp
qed

text \<open>
  C23: Whatever bytes arrive, the decoder reports exactly the frames it consumes: the input is the
  concatenation of the wire form of the reported requests and of what is kept.  Every reported
  payload obeys both limits.  After \<open>OK\<close> nothing is kept, and after \<open>NEED_MORE_DATA\<close> the kept tail
  is non-empty and shorter than the largest admissible frame.  \<open>INVALID_LENGTH\<close> is reported only when
  the four length bytes after the last reported frame declare an inadmissible length.
\<close>

theorem decode_exact:
  "case decode buf fd out cid m of (st, rest, out') \<Rightarrow>
     \<exists>rs. out' = out @ rs \<and> from_peer fd cid m rs \<and>
       (case st of
          DecodeStatus_OK \<Rightarrow> rest = [] \<and> buf = concat (map request_wire rs)
        | NEED_MORE_DATA \<Rightarrow> buf = concat (map request_wire rs) @ rest \<and> rest \<noteq> [] \<and>
            length rest < 4 + min (unat MAX_BODY_SIZE) (max 10 (unat m))
        | INVALID_LENGTH \<Rightarrow> rest = buf \<and>
            (\<exists>t. buf = concat (map request_wire rs) @ t \<and> 4 \<le> length t \<and>
                 \<not> admissible_length m (be_decode (take 4 t))))"
proof -
  obtain st rest out' where eq: "decode buf fd out cid m = (st, rest, out')" by (metis prod_cases3)
  from eq [unfolded decode_iff] obtain rs t where
    "buf = concat (map request_wire rs) @ t" "from_peer fd cid m rs" "\<not> frame_ready m t"
    "st = stop_status m t" "out' = out @ rs" "rest = (if st = INVALID_LENGTH then buf else t)"
    by blast
  then show ?thesis
    unfolding eq prod.case
    by (intro exI [of _ rs])
      (auto simp: stop_status_def frame_ready_def admissible_length_def split: DecodeStatus.split)
qed

text \<open>The reads of one connection: each chunk is appended to the buffer, which is then decoded.\<close>

fun decode_reads ::
  "string \<Rightarrow> int \<Rightarrow> Request list \<Rightarrow> u64 \<Rightarrow> u32 \<Rightarrow> string list \<Rightarrow> DecodeStatus \<times> string \<times> Request list" where
  "decode_reads buf fd out cid m [] = decode buf fd out cid m"
| "decode_reads buf fd out cid m (c # cs) =
     (case decode (buf @ c) fd out cid m of
        (INVALID_LENGTH, buf', out') \<Rightarrow> (INVALID_LENGTH, buf', out')
      | (_, buf', out') \<Rightarrow> decode_reads buf' fd out' cid m cs)"

lemma decode_resume:
  assumes "decode buf fd out cid m = (st, rest, out')" and "st \<noteq> INVALID_LENGTH"
    and "decode (rest @ extra) fd out' cid m = (st2, rest2, out2)"
  shows "\<exists>rest1. decode (buf @ extra) fd out cid m = (st2, rest1, out2) \<and>
           (st2 \<noteq> INVALID_LENGTH \<longrightarrow> rest1 = rest2)"
proof -
  from assms(1,2) [unfolded decode_iff] obtain rs where
    1: "buf = concat (map request_wire rs) @ rest" "from_peer fd cid m rs" "out' = out @ rs" by auto
  from assms(3) [unfolded decode_iff] obtain rs2 t2 where
    2: "rest @ extra = concat (map request_wire rs2) @ t2" "from_peer fd cid m rs2" "\<not> frame_ready m t2"
      "st2 = stop_status m t2" "out2 = out' @ rs2"
      "rest2 = (if st2 = INVALID_LENGTH then rest @ extra else t2)" by blast
  let ?rest1 = "if st2 = INVALID_LENGTH then buf @ extra else t2"
  have "decode (buf @ extra) fd out cid m = (st2, ?rest1, out2)"
    unfolding decode_iff using 1 2
    by (intro exI [of _ "rs @ rs2"] exI [of _ t2]) (auto simp: from_peer_def)
  with 2 show ?thesis by auto
qed

lemma decode_invalid_stable:
  assumes "decode buf fd out cid m = (INVALID_LENGTH, rest, out')"
  shows "\<exists>rest1. decode (buf @ extra) fd out cid m = (INVALID_LENGTH, rest1, out')"
proof -
  from assms [unfolded decode_iff] obtain rs t where
    1: "buf = concat (map request_wire rs) @ t" "from_peer fd cid m rs" "out' = out @ rs"
      "stop_status m t = INVALID_LENGTH" by auto
  then have "4 \<le> length t" "\<not> admissible_length m (be_decode (take 4 t))"
    by (auto simp: stop_status_def split: if_splits)
  then have "\<not> frame_ready m (t @ extra)" "stop_status m (t @ extra) = INVALID_LENGTH"
    by (auto simp: frame_ready_def stop_status_def)
  with 1 have "decode (buf @ extra) fd out cid m = (INVALID_LENGTH, buf @ extra, out')"
    unfolding decode_iff by (intro exI [of _ rs] exI [of _ "t @ extra"]) auto
  then show ?thesis by blast
qed

text \<open>
  Decoding as a reader of segments: its state is the last status, the bytes left over and the requests
  found so far, and the bytes left over do not matter once the status is \<open>INVALID_LENGTH\<close>.
\<close>

definition decode_view :: "DecodeStatus \<times> string \<times> Request list \<Rightarrow> DecodeStatus \<times> string \<times> Request list" where
  "decode_view = (\<lambda>(st, buf, out). (st, if st = INVALID_LENGTH then [] else buf, out))"

lemma decode_resume_view:
  assumes "decode buf fd out cid m = (st, rest, out')" and "st \<noteq> INVALID_LENGTH"
  shows "decode_view (decode (rest @ extra) fd out' cid m) = decode_view (decode (buf @ extra) fd out cid m)"
  using decode_resume [OF assms, of extra] by (cases "decode (rest @ extra) fd out' cid m") (auto simp: decode_view_def)

interpretation frames: segmented_reader
  "\<lambda>(st, buf, out) c. decode (buf @ c) fd out cid m" "\<lambda>(st, buf, out). st = INVALID_LENGTH" decode_view
  for fd cid m
proof (unfold_locales, goal_cases)
  case (1 s a b)
  obtain st buf out where s: "s = (st, buf, out)" by (metis prod_cases3)
  obtain st1 rest out1 where d: "decode (buf @ a) fd out cid m = (st1, rest, out1)" by (metis prod_cases3)
  from 1 decode_resume_view [OF d, of b] show ?case by (simp add: s d)
next
  case (2 s a b)
  obtain st buf out where s: "s = (st, buf, out)" by (metis prod_cases3)
  obtain st1 rest out1 where d: "decode (buf @ a) fd out cid m = (st1, rest, out1)" by (metis prod_cases3)
  with 2 decode_invalid_stable [of "buf @ a" fd out cid m rest out1 b] show ?case
    by (auto simp: s decode_view_def)
qed

text \<open>
  C24: How the bytes of a connection are split into reads does not matter: decoding after every
  read gives the same status and the same requests as decoding all bytes at once, and, unless the
  connection is refused for an invalid length, the same bytes are kept.
\<close>

theorem decode_reads_segmentation:
  "case (decode_reads buf fd out cid m cs, decode (buf @ concat cs) fd out cid m) of
     ((st1, rest1, out1), (st2, rest2, out2)) \<Rightarrow>
       st1 = st2 \<and> out1 = out2 \<and> (st1 = INVALID_LENGTH \<or> rest1 = rest2)"
proof -
  have "decode_view (decode_reads buf fd out cid m cs) = decode_view (decode (buf @ concat cs) fd out cid m)"
    using frames.read_all [of "\<lambda>(st, buf, out) cs. decode_reads buf fd out cid m cs" fd cid m "(DecodeStatus_OK, buf, out)" cs]
    by (simp split: prod.splits DecodeStatus.splits)
  then show ?thesis by (auto simp: decode_view_def split: prod.splits if_splits)
qed

text \<open>
  A declared body length outside the limits is refused as soon as its four bytes are there,
  before any byte of the body is awaited, and the frames before it are all reported.
\<close>

theorem decode_rejects_length_early:
  assumes "\<not> admissible_length m (be_decode len_bytes)" and "length len_bytes = 4"
    and "from_peer fd cid m rs"
  shows "decode (concat (map request_wire rs) @ len_bytes @ anything) fd out cid m =
           (INVALID_LENGTH, concat (map request_wire rs) @ len_bytes @ anything, out @ rs)"
  unfolding decode_iff using assms
  by (intro exI [of _ rs] exI [of _ "len_bytes @ anything"])
    (auto simp: frame_ready_def stop_status_def)

theorem decode_rejects_length_early_witness:
  "decode (request_wire (request_of 7 1 sample_response) @ be_encode 4 5 @ ''x'') 7 [] 1 4096 =
     (INVALID_LENGTH, request_wire (request_of 7 1 sample_response) @ be_encode 4 5 @ ''x'',
      [request_of 7 1 sample_response])"
proof -
  have a: "\<not> admissible_length 4096 (be_decode (be_encode 4 5))" "length (be_encode 4 5) = 4"
    by (simp_all add: admissible_length_def be_decode_encode)
  have b: "from_peer 7 1 4096 [request_of 7 1 sample_response]"
    by (simp add: from_peer_def request_of_def admissible_def admissible_length_def sample_response_def)
  from decode_rejects_length_early [OF a b, of "''x''" "[]"] show ?thesis by simp
qed

end
