(* ===== verification/RuntimeConfig.thy ===== *)
theory RuntimeConfig
  imports Json Protocol
begin

text \<open>
  The run-time configuration pulled from the control plane: \<^verbatim>\<open>include/control/RuntimeConfig.hpp\<close> and
  \<^verbatim>\<open>src/control/RuntimeConfig.cpp\<close>.  A document is accepted as a whole or not at all, every number is
  range-checked before it is narrowed, and a candidate replaces the current snapshot only if its
  version is greater.
\<close>

section \<open>Data and operations\<close>

record RuntimeConfig =
  rc_version :: int
  rc_max_payload_size :: int
  rc_max_connections_per_client :: int
  rc_max_requests_per_client_per_second :: int
  rc_slow_client_output_limit :: nat
  rc_log_level :: string
  rc_request_queue_capacity_display :: nat

definition RuntimeConfig_default :: RuntimeConfig where
  "RuntimeConfig_default =
     \<lparr>rc_version = 1, rc_max_payload_size = 1048576, rc_max_connections_per_client = 2,
      rc_max_requests_per_client_per_second = 100,
      rc_slow_client_output_limit = 8 * 1024 * 1024, rc_log_level = ''INFO'',
      rc_request_queue_capacity_display = 4096\<rparr>"

text \<open>\<^verbatim>\<open>value.get<int64_t>()\<close> of an integral JSON value.\<close>

fun get_int64 :: "json \<Rightarrow> int" where
  "get_int64 (JInteger i) = int64_cast i"
| "get_int64 (JUnsigned n) = int64_cast (int n)"
| "get_int64 _ = 0"

fun get_uint64 :: "json \<Rightarrow> int" where
  "get_uint64 (JInteger i) = i mod 2 ^ 64"
| "get_uint64 (JUnsigned n) = int n mod 2 ^ 64"
| "get_uint64 _ = 0"

definition integerInRange :: "json \<Rightarrow> string \<Rightarrow> int \<Rightarrow> int \<Rightarrow> cpp_exn + int" where
  "integerInRange j field minimum maximum =
     (case json_at j field of
        Inl e \<Rightarrow> Inl e
      | Inr value \<Rightarrow>
          if \<not> is_number_integer value \<or>
             (is_number_unsigned value \<and> get_uint64 value > maximum mod 2 ^ 64)
          then Inl (InvalidArgument ''invalid runtime config integer'')
          else
            let number = get_int64 value in
            if number < minimum \<or> number > maximum
            then Inl (InvalidArgument ''runtime config integer out of range'')
            else Inr number)"

definition log_levels :: "string list" where
  "log_levels = [''DEBUG'', ''INFO'', ''WARN'', ''ERROR'']"

text \<open>
  The body of the \<^verbatim>\<open>try\<close> block: the exceptions it can throw, or \<^term>\<open>Inr None\<close> for the plain
  \<^verbatim>\<open>return false\<close> on an unknown log level.
\<close>

definition parseRuntimeConfig_body :: "json_parser \<Rightarrow> string \<Rightarrow> cpp_exn + RuntimeConfig option" where
  "parseRuntimeConfig_body parse json_body =
     try_bind (parse json_body) (\<lambda>j.
      try_bind (integerInRange j ''version'' 1 INT64_MAX) (\<lambda>v.
      try_bind (integerInRange j ''max_payload_size'' 10 (uint (MAX_PAYLOAD_SIZE + 10))) (\<lambda>mp.
      try_bind (integerInRange j ''max_connections_per_client'' 1 INT_MAX) (\<lambda>mc.
      try_bind (integerInRange j ''max_requests_per_client_per_second'' 1 INT_MAX) (\<lambda>mr.
      try_bind (integerInRange j ''slow_client_output_limit'' (mp + 4) (64 * 1024 * 1024)) (\<lambda>sl.
      try_bind (json_at j ''log_level'') (\<lambda>lv.
      try_bind (get_string lv) (\<lambda>level.
      try_bind (integerInRange j ''request_queue_capacity_display'' 1 65536) (\<lambda>rq.
        if level \<notin> set log_levels then Inr None
        else Inr (Some \<lparr>rc_version = v, rc_max_payload_size = mp, rc_max_connections_per_client = mc,
                        rc_max_requests_per_client_per_second = mr,
                        rc_slow_client_output_limit = size_t_of_int sl, rc_log_level = level,
                        rc_request_queue_capacity_display = size_t_of_int rq\<rparr>))))))))))"

text \<open>\<^term>\<open>None\<close> is the result \<^verbatim>\<open>false\<close>, which leaves the caller's configuration untouched.\<close>

definition parseRuntimeConfig :: "json_parser \<Rightarrow> string \<Rightarrow> RuntimeConfig option" where
  "parseRuntimeConfig parse json_body =
     (case parseRuntimeConfig_body parse json_body of Inl _ \<Rightarrow> None | Inr r \<Rightarrow> r)"

definition applyRuntimeConfigIfNewer :: "RuntimeConfig \<Rightarrow> RuntimeConfig \<Rightarrow> bool \<times> RuntimeConfig" where
  "applyRuntimeConfigIfNewer current candidate =
     (if rc_version candidate \<le> rc_version current then (False, current) else (True, candidate))"

section \<open>Valid configurations\<close>

definition valid_config :: "RuntimeConfig \<Rightarrow> bool" where
  "valid_config c \<longleftrightarrow>
     1 \<le> rc_version c \<and> rc_version c \<le> INT64_MAX \<and>
     10 \<le> rc_max_payload_size c \<and> rc_max_payload_size c \<le> 4194314 \<and>
     1 \<le> rc_max_connections_per_client c \<and> rc_max_connections_per_client c \<le> INT_MAX \<and>
     1 \<le> rc_max_requests_per_client_per_second c \<and> rc_max_requests_per_client_per_second c \<le> INT_MAX \<and>
     rc_max_payload_size c + 4 \<le> int (rc_slow_client_output_limit c) \<and>
     rc_slow_client_output_limit c \<le> 67108864 \<and>
     rc_log_level c \<in> set log_levels \<and>
     1 \<le> rc_request_queue_capacity_display c \<and> rc_request_queue_capacity_display c \<le> 65536"

section \<open>Theorems\<close>

lemma integerInRange_bounds:
  "integerInRange j f lo hi = Inr n \<Longrightarrow> lo \<le> n \<and> n \<le> hi"
  by (auto simp: integerInRange_def Let_def split: sum.splits if_splits)

lemma valid_config_default: "valid_config RuntimeConfig_default"
  by (simp add: valid_config_def RuntimeConfig_default_def log_levels_def INT_MAX_def INT64_MAX_def)

lemma size_t_of_int_small: "0 \<le> i \<Longrightarrow> i < 2 ^ 64 \<Longrightarrow> int (size_t_of_int i) = i"
  by (simp add: size_t_of_int_def)

text \<open>The number a field must hold is exactly the JSON integer, never a narrowed one.\<close>

lemma integerInRange_exact:
  assumes "integerInRange j f lo hi = Inr n" and "0 \<le> hi" "hi \<le> INT64_MAX"
    and "json_at j f = Inr (JUnsigned k)" "k < 2 ^ 64"
  shows "n = int k"
proof -
  from assms have "int k \<le> hi"
    by (auto simp: integerInRange_def Let_def INT64_MAX_def split: if_splits)
  moreover from assms have "n = int64_cast (int k)"
    by (auto simp: integerInRange_def Let_def split: if_splits)
  ultimately show ?thesis
    using assms(3) by (simp add: int64_cast_def INT64_MAX_def)
qed

lemma accepted_config_valid:
  assumes "parseRuntimeConfig parse body = Some c"
  shows "valid_config c"
proof -
  have "uint (MAX_PAYLOAD_SIZE + 10) = 4194314" by (simp add: MAX_PAYLOAD_SIZE_def)
  with assms show ?thesis
    unfolding parseRuntimeConfig_def parseRuntimeConfig_body_def
    by (auto simp: valid_config_def size_t_of_int_def INT_MAX_def INT64_MAX_def try_bind_Inr_iff
        split: sum.splits if_splits dest!: integerInRange_bounds)
qed

definition sample_config_json :: json where
  "sample_config_json =
     JObject [(''log_level'', JString ''WARN''), (''max_connections_per_client'', JUnsigned 3),
              (''max_payload_size'', JUnsigned 1000), (''max_requests_per_client_per_second'', JUnsigned 50),
              (''request_queue_capacity_display'', JUnsigned 64), (''slow_client_output_limit'', JUnsigned 2000),
              (''version'', JUnsigned 5)]"

definition sample_config :: RuntimeConfig where
  "sample_config =
     \<lparr>rc_version = 5, rc_max_payload_size = 1000, rc_max_connections_per_client = 3,
      rc_max_requests_per_client_per_second = 50, rc_slow_client_output_limit = 2000,
      rc_log_level = ''WARN'', rc_request_queue_capacity_display = 64\<rparr>"

lemma sample_config_parsed: "parseRuntimeConfig (\<lambda>_. Inr sample_config_json) text = Some sample_config"
  by (simp add: parseRuntimeConfig_def parseRuntimeConfig_body_def integerInRange_def sample_config_def
      sample_config_json_def log_levels_def INT_MAX_def INT64_MAX_def size_t_of_int_def int64_cast_def
      MAX_PAYLOAD_SIZE_def)

text \<open>
  C26: Whatever text the control plane returns and whatever the JSON parser makes of it, a
  configuration that is accepted satisfies every range of the gateway; in particular one whole
  frame of the largest admitted size always fits the output limit of a connection.
\<close>

theorem parseRuntimeConfig_valid:
  assumes "parseRuntimeConfig parse body = Some c"
  shows "valid_config c"
  using assms by (rule accepted_config_valid)

theorem parseRuntimeConfig_valid_witness: "valid_config sample_config"
  by (rule parseRuntimeConfig_valid [OF sample_config_parsed])

text \<open>The configuration after a sequence of pulls, each of which may have failed.\<close>

fun apply_pulls :: "RuntimeConfig \<Rightarrow> RuntimeConfig option list \<Rightarrow> RuntimeConfig" where
  "apply_pulls c [] = c"
| "apply_pulls c (None # ps) = apply_pulls c ps"
| "apply_pulls c (Some cand # ps) = apply_pulls (snd (applyRuntimeConfigIfNewer c cand)) ps"



end
