(* ===== verification/HttpResponseParser.thy ===== *)
theory HttpResponseParser
  imports HttpTypes
begin

text \<open>
  The incremental HTTP response parser of the control-plane client:
  \<^verbatim>\<open>src/control/HttpResponseParser.cpp\<close>.  It buffers what is received, parses the header block once
  its end has been seen, requires exactly one \<^verbatim>\<open>Content-Length\<close> and no transfer coding, and finishes
  when the body has that length.

  The theorems: a finished result is a complete message or an error without a body; the buffer is
  bounded; the split of the input into chunks does not matter; and the header rules.
\<close>

section \<open>Text helpers\<close>

definition is_blank_char :: "char \<Rightarrow> bool" where
  "is_blank_char c \<longleftrightarrow> c = CHR '' '' \<or> c = TAB"

definition trimAsciiWhitespace :: "string \<Rightarrow> string" where
  "trimAsciiWhitespace value = rev (dropWhile is_blank_char (rev (dropWhile is_blank_char value)))"

definition lowerAscii :: "string \<Rightarrow> string" where
  "lowerAscii value = map tolower value"

text \<open>The digit loop; a value beyond the limit is reported as one more than the limit.\<close>

fun parseContentLength_loop :: "nat \<Rightarrow> string \<Rightarrow> nat option" where
  "parseContentLength_loop parsed [] = Some parsed"
| "parseContentLength_loop parsed (c # cs) =
     (if \<not> is_digit c then None
      else
        let digit = digit_value c in
        if parsed > (MAX_CONTROL_PLANE_HTTP_BODY_BYTES - digit) div 10
        then Some (MAX_CONTROL_PLANE_HTTP_BODY_BYTES + 1)
        else parseContentLength_loop (parsed * 10 + digit) cs)"

definition parseContentLength :: "string \<Rightarrow> nat option" where
  "parseContentLength raw_value =
     (let text = trimAsciiWhitespace raw_value
      in if text = [] then None else parseContentLength_loop 0 text)"

section \<open>The parser\<close>

record HttpResponseParser =
  hp_received :: string
  hp_content_length :: "nat option"
  hp_body_offset :: nat
  hp_status_code :: int
  hp_headers_parsed :: bool
  hp_done :: bool
  hp_result :: HttpResult

definition parser_new :: HttpResponseParser where
  "parser_new =
     \<lparr>hp_received = [], hp_content_length = None, hp_body_offset = 0, hp_status_code = 0,
      hp_headers_parsed = False, hp_done = False, hp_result = HttpResult_default\<rparr>"

definition parser_fail :: "HttpError \<Rightarrow> int \<Rightarrow> HttpResponseParser \<Rightarrow> HttpResponseParser" where
  "parser_fail error status_code p =
     p\<lparr>hp_result := \<lparr>hr_error = error, hr_status_code = status_code, hr_body = []\<rparr>, hp_done := True\<rparr>"

definition finishBodyIfComplete :: "HttpResponseParser \<Rightarrow> HttpResponseParser" where
  "finishBodyIfComplete p =
     (let body_bytes = length (hp_received p) - hp_body_offset p;
          content_length = (case hp_content_length p of Some n \<Rightarrow> n | None \<Rightarrow> 0)
      in if body_bytes > content_length then parser_fail MalformedResponse (hp_status_code p) p
         else if body_bytes < content_length then p
         else
           p\<lparr>hp_result := \<lparr>hr_error = (if hp_status_code p < 200 \<or> hp_status_code p \<ge> 300
                                     then HttpStatusError else hr_error (hp_result p)),
                          hr_status_code = hp_status_code p,
                          hr_body = str_substr (hp_received p) (hp_body_offset p) content_length\<rparr>,
             hp_done := True\<rparr>)"

text \<open>
  One header line: the error it causes, if any, with the content length and the transfer-encoding
  flag after it.
\<close>

definition header_line ::
  "string \<Rightarrow> nat option \<Rightarrow> bool \<Rightarrow> HttpError option \<times> nat option \<times> bool" where
  "header_line line content_length has_te =
     (case str_find '':'' line of
        None \<Rightarrow> (Some MalformedResponse, content_length, has_te)
      | Some separator \<Rightarrow>
          if separator = 0 then (Some MalformedResponse, content_length, has_te)
          else
            let name = lowerAscii (str_substr line 0 separator);
                value = drop (separator + 1) line
            in
            if name = ''content-length'' then
              if content_length \<noteq> None then (Some DuplicateContentLength, content_length, has_te)
              else
                (case parseContentLength value of
                   None \<Rightarrow> (Some MalformedResponse, content_length, has_te)
                 | Some parsed \<Rightarrow>
                     if parsed > MAX_CONTROL_PLANE_HTTP_BODY_BYTES
                     then (Some BodyTooLarge, content_length, has_te)
                     else (None, Some parsed, has_te))
            else if name = ''transfer-encoding'' then (None, content_length, True)
            else if name = ''upgrade'' \<or> name = ''content-encoding''
            then (Some MalformedResponse, content_length, has_te)
            else (None, content_length, has_te))"

text \<open>The loop over the header lines, from \<open>cursor\<close> to the end of the header block.\<close>

function header_loop ::
  "string \<Rightarrow> nat \<Rightarrow> nat \<Rightarrow> nat option \<Rightarrow> bool \<Rightarrow> HttpError option \<times> nat option \<times> bool" where
  "header_loop received header_end cursor content_length has_te =
     (if cursor < header_end then
        let line_end = (case str_find_from CRLF received cursor of
                          None \<Rightarrow> header_end
                        | Some e \<Rightarrow> if e > header_end then header_end else e)
        in
        if line_end = cursor then (Some MalformedResponse, content_length, has_te)
        else
          (case header_line (str_substr received cursor (line_end - cursor)) content_length has_te of
             (Some e, cl, te) \<Rightarrow> (Some e, cl, te)
           | (None, cl, te) \<Rightarrow> header_loop received header_end (line_end + 2) cl te)
      else (None, content_length, has_te))"
  by pat_completeness auto
termination
  by (relation "measure (\<lambda>(received, header_end, cursor, cl, te). header_end - cursor)")
    (auto split: option.splits dest!: str_find_from_bounds)

declare header_loop.simps [simp del]

definition valid_status_line :: "string \<Rightarrow> bool" where
  "valid_status_line line \<longleftrightarrow>
     \<not> (length line < 12 \<or>
        (str_substr line 0 8 \<noteq> ''HTTP/1.0'' \<and> str_substr line 0 8 \<noteq> ''HTTP/1.1'') \<or>
        line ! 8 \<noteq> CHR '' '' \<or>
        of_char (line ! 9) < (49 :: nat) \<or> of_char (line ! 9) > (53 :: nat) \<or>
        \<not> is_digit (line ! 10) \<or> \<not> is_digit (line ! 11) \<or>
        (length line > 12 \<and> line ! 12 \<noteq> CHR '' ''))"

definition status_of_line :: "string \<Rightarrow> int" where
  "status_of_line line =
     int (digit_value (line ! 9)) * 100 + int (digit_value (line ! 10)) * 10 + int (digit_value (line ! 11))"

definition parseHeaders :: "nat \<Rightarrow> HttpResponseParser \<Rightarrow> bool \<times> HttpResponseParser" where
  "parseHeaders header_end p =
     (case str_find CRLF (hp_received p) of
        None \<Rightarrow> (False, parser_fail MalformedResponse 0 p)
      | Some status_end \<Rightarrow>
          if status_end \<ge> header_end then (False, parser_fail MalformedResponse 0 p)
          else
            let status_line = str_substr (hp_received p) 0 status_end in
            if \<not> valid_status_line status_line then (False, parser_fail MalformedResponse 0 p)
            else
              let p1 = p\<lparr>hp_status_code := status_of_line status_line\<rparr>;
                  status = hp_status_code p1 in
              (case header_loop (hp_received p1) header_end (status_end + 2) (hp_content_length p1) False of
                 (Some e, cl, te) \<Rightarrow> (False, parser_fail e status (p1\<lparr>hp_content_length := cl\<rparr>))
               | (None, cl, te) \<Rightarrow>
                   let p2 = p1\<lparr>hp_content_length := cl\<rparr> in
                   if te \<and> cl \<noteq> None then (False, parser_fail MalformedResponse status p2)
                   else if te then (False, parser_fail UnsupportedTransferEncoding status p2)
                   else if cl = None then (False, parser_fail MissingContentLength status p2)
                   else (True, p2)))"

definition consume :: "string \<Rightarrow> HttpResponseParser \<Rightarrow> HttpResponseParser" where
  "consume chunk p =
     (if hp_done p then p
      else
        let p1 = p\<lparr>hp_received := hp_received p @ chunk\<rparr> in
        if hp_headers_parsed p1 then finishBodyIfComplete p1
        else
          (case str_find (CRLF @ CRLF) (hp_received p1) of
             None \<Rightarrow>
               if length (hp_received p1) > MAX_CONTROL_PLANE_HTTP_HEADER_BYTES
               then parser_fail HeaderTooLarge 0 p1 else p1
           | Some header_end \<Rightarrow>
               if header_end + 4 > MAX_CONTROL_PLANE_HTTP_HEADER_BYTES
               then parser_fail HeaderTooLarge 0 p1
               else
                 (case parseHeaders header_end p1 of
                    (False, p2) \<Rightarrow> p2
                  | (True, p2) \<Rightarrow>
                      finishBodyIfComplete
                        (p2\<lparr>hp_body_offset := header_end + 4, hp_headers_parsed := True\<rparr>))))"

definition finishOnTransportError :: "HttpError \<Rightarrow> HttpResponseParser \<Rightarrow> HttpResponseParser" where
  "finishOnTransportError error p =
     (if \<not> hp_done p then parser_fail error (hp_status_code p) p else p)"

definition finishOnEof :: "HttpResponseParser \<Rightarrow> HttpResponseParser" where
  "finishOnEof p =
     (if \<not> hp_done p
      then parser_fail (if hp_headers_parsed p then PrematureEof else MalformedResponse) (hp_status_code p) p
      else p)"

definition takeResult :: "HttpResponseParser \<Rightarrow> HttpResult" where
  "takeResult p = hp_result p"

section \<open>The header block does not depend on what follows it\<close>

lemma header_loop_unfold:
  assumes "occurs_at CRLF r he" and "cursor < he"
  obtains e where "cursor \<le> e" "e \<le> he" "\<And>t. str_find_from CRLF (r @ t) cursor = Some e"
    "\<And>t cl te. header_loop (r @ t) he cursor cl te =
       (if e = cursor then (Some MalformedResponse, cl, te)
        else case header_line (str_substr r cursor (e - cursor)) cl te of
               (Some er, cl', te') \<Rightarrow> (Some er, cl', te')
             | (None, cl', te') \<Rightarrow> header_loop (r @ t) he (e + 2) cl' te')"
proof -
  from assms obtain e where e: "str_find_from CRLF r cursor = Some e" "cursor \<le> e" "e \<le> he"
    using str_find_from_found [of CRLF r he cursor] by auto
  have line: "str_substr (r @ t) cursor (e - cursor) = str_substr r cursor (e - cursor)" for t
    using e assms by (simp add: str_substr_def occurs_at_def)
  have ne: "(if e > he then he else e) = e" using e by simp
  have eqn: "header_loop (r @ t) he cursor cl te =
       (if e = cursor then (Some MalformedResponse, cl, te)
        else case header_line (str_substr r cursor (e - cursor)) cl te of
               (Some er, cl', te') \<Rightarrow> (Some er, cl', te')
             | (None, cl', te') \<Rightarrow> header_loop (r @ t) he (e + 2) cl' te')" for t cl te
    by (subst header_loop.simps)
      (simp only: str_find_from_append [OF e(1)] option.case ne line assms(2) Let_def if_True)
  from that [OF e(2,3) str_find_from_append [OF e(1)] eqn] show thesis .
qed

lemma header_loop_append:
  assumes "occurs_at CRLF r he"
  shows "header_loop (r @ t) he cursor cl te = header_loop r he cursor cl te"
proof (induction "he - cursor" arbitrary: cursor cl te rule: less_induct)
  case less
  show ?case
  proof (cases "cursor < he")
    case False
    then show ?thesis by (simp add: header_loop.simps)
  next
    case True
    show ?thesis
    proof (rule header_loop_unfold [OF assms True])
      fix e
      assume e: "cursor \<le> e" "e \<le> he"
        and eqn: "\<And>t cl te. header_loop (r @ t) he cursor cl te =
         (if e = cursor then (Some MalformedResponse, cl, te)
          else case header_line (str_substr r cursor (e - cursor)) cl te of
                 (Some er, cl', te') \<Rightarrow> (Some er, cl', te')
               | (None, cl', te') \<Rightarrow> header_loop (r @ t) he (e + 2) cl' te')"
      have IH: "header_loop (r @ t) he (e + 2) cl' te' = header_loop r he (e + 2) cl' te'" for cl' te'
        using less.hyps True e by simp
      from eqn [of "[]"] show ?thesis
        unfolding eqn [of t cl te] IH by (simp only: append_Nil2)
    qed
  qed
qed

lemma header_line_content_length:
  "header_line line cl te = (res, cl', te') \<Longrightarrow> cl' = Some n \<Longrightarrow>
   cl = Some n \<or> n \<le> MAX_CONTROL_PLANE_HTTP_BODY_BYTES"
  by (auto simp: header_line_def Let_def split: option.splits if_splits)

lemma header_loop_content_length:
  assumes "header_loop r he cursor cl te = (res, Some n, te')"
  shows "cl = Some n \<or> n \<le> MAX_CONTROL_PLANE_HTTP_BODY_BYTES"
  using assms
proof (induction r he cursor cl te rule: header_loop.induct)
  case (1 r he cursor cl te)
  define e where "e = (case str_find_from CRLF r cursor of None \<Rightarrow> he | Some e \<Rightarrow> if e > he then he else e)"
  obtain res1 cl1 te1 where line: "header_line (str_substr r cursor (e - cursor)) cl te = (res1, cl1, te1)"
    by (metis prod_cases3)
  have step: "header_loop r he cursor cl te =
      (if cursor < he then
         if e = cursor then (Some MalformedResponse, cl, te)
         else case res1 of Some er \<Rightarrow> (Some er, cl1, te1) | None \<Rightarrow> header_loop r he (e + 2) cl1 te1
       else (None, cl, te))"
    by (subst header_loop.simps) (simp only: Let_def line prod.case flip: e_def)
  show ?case
  proof (cases "cursor < he \<and> e \<noteq> cursor \<and> res1 = None")
    case True
    with "1.prems" step have "header_loop r he (e + 2) cl1 te1 = (res, Some n, te')" by simp
    with "1.IH" [OF _ e_def _ line [symmetric] _ refl] True
    have "cl1 = Some n \<or> n \<le> MAX_CONTROL_PLANE_HTTP_BODY_BYTES" by blast
    with header_line_content_length [OF line] show ?thesis by blast
  next
    case False
    with "1.prems" step have "cl = Some n \<or> cl1 = Some n"
      by (auto split: if_splits option.splits)
    with header_line_content_length [OF line] show ?thesis by blast
  qed
qed

definition parse_error :: "HttpError \<Rightarrow> bool" where
  "parse_error e \<longleftrightarrow> e \<noteq> HttpError_None \<and> e \<noteq> HttpStatusError"

lemma header_line_error: "header_line line cl te = (Some e, cl', te') \<Longrightarrow> parse_error e"
  by (auto simp: header_line_def Let_def parse_error_def split: option.splits if_splits)

lemma header_loop_error:
  assumes "header_loop r he cursor cl te = (Some e, cl', te')"
  shows "parse_error e"
  using assms
proof (induction r he cursor cl te rule: header_loop.induct)
  case (1 r he cursor cl te)
  define le where "le = (case str_find_from CRLF r cursor of None \<Rightarrow> he | Some e \<Rightarrow> if e > he then he else e)"
  obtain res1 cl1 te1 where line: "header_line (str_substr r cursor (le - cursor)) cl te = (res1, cl1, te1)"
    by (metis prod_cases3)
  have step: "header_loop r he cursor cl te =
      (if cursor < he then
         if le = cursor then (Some MalformedResponse, cl, te)
         else case res1 of Some er \<Rightarrow> (Some er, cl1, te1) | None \<Rightarrow> header_loop r he (le + 2) cl1 te1
       else (None, cl, te))"
    by (subst header_loop.simps) (simp only: Let_def line prod.case flip: le_def)
  show ?case
  proof (cases "cursor < he \<and> le \<noteq> cursor \<and> res1 = None")
    case True
    with "1.prems" step have "header_loop r he (le + 2) cl1 te1 = (Some e, cl', te')" by simp
    with "1.IH" [OF _ le_def _ line [symmetric] _ refl] True show ?thesis by blast
  next
    case False
    with "1.prems" step have "e = MalformedResponse \<or> res1 = Some e"
      by (auto split: if_splits option.splits)
    with header_line_error [of "str_substr r cursor (le - cursor)" cl te e cl1 te1] line
    show ?thesis by (auto simp: parse_error_def)
  qed
qed

section \<open>One chunk at a time or all at once\<close>

abbreviation parse_all :: "string \<Rightarrow> HttpResponseParser" where
  "parse_all m \<equiv> consume m parser_new"

definition body_phase :: "string \<Rightarrow> nat \<Rightarrow> nat \<Rightarrow> int \<Rightarrow> HttpResponseParser" where
  "body_phase m n off status =
     \<lparr>hp_received = m, hp_content_length = Some n, hp_body_offset = off, hp_status_code = status,
      hp_headers_parsed = True, hp_done = False, hp_result = HttpResult_default\<rparr>"

lemma parseHeaders_stable:
  assumes "occurs_at (CRLF @ CRLF) m he"
  shows "(\<exists>e st cl sc. parse_error e \<and> (\<forall>t. parseHeaders he (parser_new\<lparr>hp_received := m @ t\<rparr>) =
            (False, parser_fail e st (parser_new\<lparr>hp_received := m @ t, hp_content_length := cl, hp_status_code := sc\<rparr>)))) \<or>
         (\<exists>n sc. n \<le> MAX_CONTROL_PLANE_HTTP_BODY_BYTES \<and>
            (\<forall>t. parseHeaders he (parser_new\<lparr>hp_received := m @ t\<rparr>) =
              (True, parser_new\<lparr>hp_received := m @ t, hp_content_length := Some n, hp_status_code := sc\<rparr>)))"
proof -
  from assms have crlf: "occurs_at CRLF m he" by (rule occurs_at_prefix)
  then obtain se where se: "str_find CRLF m = Some se"
    using str_find_None_iff by (metis option.exhaust)
  then have se': "str_find CRLF (m @ t) = Some se" for t by (rule str_find_append)
  have le: "se \<le> length m" using str_find_bound [OF se] by simp
  let ?line = "str_substr m 0 se"
  have line: "str_substr (m @ t) 0 se = ?line" for t using le by (simp add: str_substr_def)
  obtain res cl te where loop: "header_loop m he (se + 2) None False = (res, cl, te)"
    by (metis prod_cases3)
  have loop': "header_loop (m @ t) he (se + 2) None False = (res, cl, te)" for t
    unfolding header_loop_append [OF crlf] by (rule loop)
  have new: "hp_content_length (parser_new\<lparr>hp_received := x\<rparr>) = None" for x
    by (simp add: parser_new_def)
  show ?thesis
  proof (cases "se < he \<and> valid_status_line ?line")
    case False
    then have "\<forall>t. parseHeaders he (parser_new\<lparr>hp_received := m @ t\<rparr>) =
            (False, parser_fail MalformedResponse 0 (parser_new\<lparr>hp_received := m @ t, hp_content_length := None, hp_status_code := 0\<rparr>))"
      by (auto simp: parseHeaders_def se' line Let_def parser_new_def)
    moreover have "parse_error MalformedResponse" by (simp add: parse_error_def)
    ultimately show ?thesis by blast
  next
    case True
    let ?sc = "status_of_line ?line"
    have eq: "parseHeaders he (parser_new\<lparr>hp_received := m @ t\<rparr>) =
       (let p2 = parser_new\<lparr>hp_received := m @ t, hp_content_length := cl, hp_status_code := ?sc\<rparr> in
        case res of Some e \<Rightarrow> (False, parser_fail e ?sc p2)
        | None \<Rightarrow>
            if te \<and> cl \<noteq> None then (False, parser_fail MalformedResponse ?sc p2)
            else if te then (False, parser_fail UnsupportedTransferEncoding ?sc p2)
            else if cl = None then (False, parser_fail MissingContentLength ?sc p2)
            else (True, p2))" for t
      using True
      by (simp add: parseHeaders_def se' line loop' Let_def parser_new_def split: option.split
          del: add_2_eq_Suc')
    have cl_bound: "cl = Some n \<Longrightarrow> n \<le> MAX_CONTROL_PLANE_HTTP_BODY_BYTES" for n
      using header_loop_content_length [of m he "se + 2" None False res n te] loop by simp
    have errs: "parse_error MalformedResponse" "parse_error UnsupportedTransferEncoding"
        "parse_error MissingContentLength"
      by (simp_all add: parse_error_def)
    have res_err: "res = Some e \<Longrightarrow> parse_error e" for e
      using header_loop_error loop by blast
    show ?thesis
      unfolding eq Let_def using cl_bound errs res_err by (cases res; cases te; cases cl; simp; blast)
  qed
qed

text \<open>
  What the parser makes of a message: it still waits for the end of the headers; it has refused the
  message for good, whatever follows; or it has parsed the headers and only the body is open.
\<close>

lemma parse_all_cases:
  obtains
    (open_head) "parse_all m = parser_new\<lparr>hp_received := m\<rparr>"
      "length m \<le> MAX_CONTROL_PLANE_HTTP_HEADER_BYTES"
  | (refused) e st cl sc where "parse_error e"
      "\<And>t. parse_all (m @ t) =
         parser_fail e st (parser_new\<lparr>hp_received := m @ t, hp_content_length := cl, hp_status_code := sc\<rparr>)"
  | (head) n off sc where
      "off \<le> MAX_CONTROL_PLANE_HTTP_HEADER_BYTES" "off \<le> length m"
      "n \<le> MAX_CONTROL_PLANE_HTTP_BODY_BYTES"
      "\<And>t. parse_all (m @ t) = finishBodyIfComplete (body_phase (m @ t) n off sc)"
proof -
  let ?new = "\<lambda>x. parser_new\<lparr>hp_received := x\<rparr>"
  have new: "\<not> hp_done parser_new" "\<not> hp_headers_parsed parser_new" "hp_received parser_new = []"
    by (simp_all add: parser_new_def)
  have too_large_error: "parse_error HeaderTooLarge" by (simp add: parse_error_def)
  have too_large: "parser_fail HeaderTooLarge 0 (?new x) =
      parser_fail HeaderTooLarge 0 (parser_new\<lparr>hp_received := x, hp_content_length := None, hp_status_code := 0\<rparr>)" for x
    by (simp add: parser_new_def)
  show thesis
  proof (cases "str_find (CRLF @ CRLF) m")
    case None
    show thesis
    proof (cases "length m \<le> MAX_CONTROL_PLANE_HTTP_HEADER_BYTES")
      case True
      with None new show thesis by (intro open_head) (simp_all add: consume_def)
    next
      case False
      have "parse_all (m @ t) = parser_fail HeaderTooLarge 0 (?new (m @ t))" for t
        using False new str_find_append_new [OF None, of t]
        by (cases "str_find (CRLF @ CRLF) (m @ t)") (auto simp: consume_def)
      with too_large refused [OF too_large_error] show thesis by metis
    qed
  next
    case (Some he)
    then have he: "str_find (CRLF @ CRLF) (m @ t) = Some he" for t by (rule str_find_append)
    from Some have occ: "occurs_at (CRLF @ CRLF) m he" by (simp add: str_find_Some_iff)
    show thesis
    proof (cases "he + 4 \<le> MAX_CONTROL_PLANE_HTTP_HEADER_BYTES")
      case False
      then have "parse_all (m @ t) = parser_fail HeaderTooLarge 0 (?new (m @ t))" for t
        using new he [of t] by (simp add: consume_def)
      with too_large refused [OF too_large_error] show thesis by metis
    next
      case True
      from parseHeaders_stable [OF occ] show thesis
      proof (elim disjE exE conjE)
        fix e st cl sc
        assume "parse_error e" "\<forall>t. parseHeaders he (?new (m @ t)) = (False, parser_fail e st
          (parser_new\<lparr>hp_received := m @ t, hp_content_length := cl, hp_status_code := sc\<rparr>))"
        with True new he show thesis
          by (intro refused [where e = e and st = st and cl = cl and sc = sc]) (simp_all add: consume_def)
      next
        fix n sc
        assume n: "n \<le> MAX_CONTROL_PLANE_HTTP_BODY_BYTES"
          and "\<forall>t. parseHeaders he (?new (m @ t)) =
            (True, parser_new\<lparr>hp_received := m @ t, hp_content_length := Some n, hp_status_code := sc\<rparr>)"
        with True new he have "parse_all (m @ t) = finishBodyIfComplete (body_phase (m @ t) n (he + 4) sc)" for t
          by (simp add: consume_def body_phase_def parser_new_def)
        with True n str_find_bound [OF Some] show thesis
          by (intro head [where off = "he + 4" and n = n and sc = sc]) simp_all
      qed
    qed
  qed
qed

lemma body_phase_simps [simp]:
  "\<not> hp_done (body_phase m n off sc)" "hp_headers_parsed (body_phase m n off sc)"
  "hp_received (body_phase m n off sc) = m"
  by (simp_all add: body_phase_def)

lemma finishBody_body_phase:
  "finishBodyIfComplete (body_phase m n off sc) =
     (if length m - off > n then parser_fail MalformedResponse sc (body_phase m n off sc)
      else if length m - off < n then body_phase m n off sc
      else (body_phase m n off sc)\<lparr>
             hp_result := \<lparr>hr_error = (if sc < 200 \<or> sc \<ge> 300 then HttpStatusError else HttpError_None),
                           hr_status_code = sc, hr_body = str_substr m off n\<rparr>,
             hp_done := True\<rparr>)"
  by (simp add: finishBodyIfComplete_def body_phase_def HttpResult_default_def)

lemma parser_fail_simps [simp]:
  "hp_done (parser_fail e st p)" "hp_result (parser_fail e st p) = \<lparr>hr_error = e, hr_status_code = st, hr_body = []\<rparr>"
  "hp_headers_parsed (parser_fail e st p) = hp_headers_parsed p"
  "hp_received (parser_fail e st p) = hp_received p"
  by (simp_all add: parser_fail_def)

text \<open>More bytes than the announced body, in a message whose headers were accepted.\<close>

definition body_overrun :: "string \<Rightarrow> bool" where
  "body_overrun m \<longleftrightarrow>
     hp_headers_parsed (parse_all m) \<and> hp_done (parse_all m) \<and>
     hr_error (takeResult (parse_all m)) = MalformedResponse"

lemma consume_done: "hp_done p \<Longrightarrow> consume c p = p"
  by (simp add: consume_def)

lemma consume_resume:
  assumes "\<not> hp_done (parse_all m)"
  shows "consume c (parse_all m) = parse_all (m @ c)"
proof (cases m rule: parse_all_cases)
  case open_head
  then show ?thesis by (simp add: consume_def parser_new_def)
next
  case (refused e st cl sc)
  from refused(2) [of "[]"] assms show ?thesis by simp
next
  case (head n off sc)
  from head(4) [of "[]"] assms have "parse_all m = body_phase m n off sc"
    by (simp add: finishBody_body_phase split: if_splits)
  with head(4) [of c] show ?thesis
    by (simp add: consume_def body_phase_def)
qed

lemma parse_all_done_extend:
  assumes "hp_done (parse_all m)"
  shows "hp_done (parse_all (m @ c)) \<and>
    (takeResult (parse_all (m @ c)) = takeResult (parse_all m) \<or> body_overrun (m @ c)) \<and>
    (body_overrun m \<longrightarrow> body_overrun (m @ c))"
proof (cases m rule: parse_all_cases)
  case open_head
  with assms show ?thesis by (simp add: parser_new_def)
next
  case (refused e st cl sc)
  from refused(2) [of "[]"] refused(2) [of c] show ?thesis
    by (simp add: takeResult_def body_overrun_def parser_new_def)
next
  case (head n off sc)
  from head(4) [of "[]"] assms have "n \<le> length m - off"
    by (simp add: finishBody_body_phase split: if_splits)
  with head(4) [of "[]"] head(4) [of c] head(2) show ?thesis
    by (cases c) (auto simp: finishBody_body_phase body_overrun_def takeResult_def)
qed

lemma parse_all_Nil: "parse_all [] = parser_new"
  by (simp add: consume_def parser_new_def)

lemma feed_open:
  assumes "\<not> hp_done (fold consume cs parser_new)"
  shows "fold consume cs parser_new = parse_all (concat cs)"
  using assms
proof (induction cs rule: rev_induct)
  case Nil
  show ?case by (simp add: parse_all_Nil)
next
  case (snoc d ds)
  then have "\<not> hp_done (fold consume ds parser_new)" by (auto simp: consume_done)
  with snoc.IH show ?case by (simp add: consume_resume)
qed

lemma feed_is_prefix: "\<exists>k\<le>length cs. fold consume cs parser_new = parse_all (concat (take k cs))"
proof (induction cs rule: rev_induct)
  case Nil
  show ?case by (simp add: parse_all_Nil)
next
  case (snoc c cs)
  then obtain k where k: "k \<le> length cs" "fold consume cs parser_new = parse_all (concat (take k cs))"
    by blast
  show ?case
  proof (cases "hp_done (fold consume cs parser_new)")
    case True
    with k show ?thesis by (intro exI [of _ k]) (simp add: consume_done)
  next
    case False
    have "fold consume cs parser_new = parse_all (concat cs)"
      using False by (rule feed_open)
    with False show ?thesis
      by (intro exI [of _ "Suc (length cs)"]) (simp add: consume_resume)
  qed
qed

lemma feed_agrees:
  "\<not> body_overrun (concat cs) \<Longrightarrow>
   hp_done (fold consume cs parser_new) = hp_done (parse_all (concat cs)) \<and>
   takeResult (fold consume cs parser_new) = takeResult (parse_all (concat cs))"
proof -
  assume ok: "\<not> body_overrun (concat cs)"
  obtain k where k: "k \<le> length cs" "fold consume cs parser_new = parse_all (concat (take k cs))"
    using feed_is_prefix by blast
  have cat: "concat (take k cs) @ concat (drop k cs) = concat cs"
    by (metis append_take_drop_id concat_append)
  show ?thesis
  proof (cases "hp_done (fold consume cs parser_new)")
    case True
    from parse_all_done_extend [of "concat (take k cs)" "concat (drop k cs)"] True ok
    show ?thesis unfolding cat k(2) by auto
  next
    case False
    then have "fold consume cs parser_new = parse_all (concat cs)" by (rule feed_open)
    then show ?thesis by simp
  qed
qed

section \<open>A complete message is accepted\<close>

lemma str_find_skip:
  assumes "p \<notin> set l"
  shows "str_find (p # ps) (l @ s) = map_option (\<lambda>i. length l + i) (str_find (p # ps) s)"
  using assms
proof (induction l)
  case Nil
  show ?case by (cases "str_find (p # ps) s") simp_all
next
  case (Cons a l)
  then show ?case by (cases "str_find (p # ps) s") auto
qed

lemma str_find_from_line:
  assumes "CR \<notin> set l"
  shows "str_find_from CRLF (pre @ l @ CRLF @ rest) (length pre) = Some (length pre + length l)"
proof -
  have "str_find CRLF (CRLF @ rest) = Some 0" by simp
  with str_find_skip [OF assms, of "[LF]" "CRLF @ rest"] show ?thesis
    by (simp add: str_find_from_def)
qed

definition header_block :: "string list \<Rightarrow> string" where
  "header_block ls = concat (map (\<lambda>l. l @ CRLF) ls)"

definition plain_line :: "string \<Rightarrow> bool" where
  "plain_line l \<longleftrightarrow> l \<noteq> [] \<and> CR \<notin> set l"

text \<open>Reading the header block is folding \<open>header_line\<close> over its lines.\<close>

fun header_fold :: "string list \<Rightarrow> nat option \<Rightarrow> bool \<Rightarrow> HttpError option \<times> nat option \<times> bool" where
  "header_fold [] cl te = (None, cl, te)"
| "header_fold (l # ls) cl te =
     (case header_line l cl te of
        (Some e, cl', te') \<Rightarrow> (Some e, cl', te')
      | (None, cl', te') \<Rightarrow> header_fold ls cl' te')"

lemma header_loop_line:
  assumes "plain_line l" and "length pre + length l \<le> he"
  shows "header_loop (pre @ l @ CRLF @ rest) he (length pre) cl te =
    (case header_line l cl te of
       (Some e, cl', te') \<Rightarrow> (Some e, cl', te')
     | (None, cl', te') \<Rightarrow> header_loop (pre @ l @ CRLF @ rest) he (length (pre @ l @ CRLF)) cl' te')"
proof -
  let ?r = "pre @ l @ CRLF @ rest" and ?e = "length pre + length l"
  from assms have "length l \<noteq> 0" by (simp add: plain_line_def)
  then have lt: "length pre < he"
    using assms(2) by linarith
  have ne: "(?e = length pre) = False" and le: "(?e > he) = False"
    using assms by (simp_all add: plain_line_def)
  have find: "str_find_from CRLF ?r (length pre) = Some ?e"
    by (rule str_find_from_line) (use assms in \<open>simp add: plain_line_def\<close>)
  have line: "str_substr ?r (length pre) (?e - length pre) = l"
    by (simp add: str_substr_def)
  have next_pos: "?e + 2 = length (pre @ l @ CRLF)" by simp
  show ?thesis
    by (subst header_loop.simps)
      (simp only: find option.case le ne if_False Let_def line next_pos lt if_True)
qed

lemma header_loop_block:
  assumes "\<forall>l\<in>set ls. plain_line l"
  shows "header_loop (pre @ header_block ls @ rest) (length pre + length (header_block ls) - 2) (length pre) cl te =
    header_fold ls cl te"
  using assms
proof (induction ls arbitrary: pre cl te)
  case Nil
  have "(length pre < length pre + length (header_block []) - 2) = False"
    by (simp add: header_block_def)
  then show ?case by (subst header_loop.simps) simp
next
  case (Cons l ls)
  let ?he = "length pre + length (header_block (l # ls)) - 2"
  have split: "pre @ header_block (l # ls) @ rest = pre @ l @ CRLF @ header_block ls @ rest"
    by (simp add: header_block_def)
  have he: "?he = length (pre @ l @ CRLF) + length (header_block ls) - 2"
    by (simp add: header_block_def)
  have le: "length pre + length l \<le> ?he" by (simp add: header_block_def)
  have IH: "header_loop (pre @ l @ CRLF @ header_block ls @ rest) ?he (length (pre @ l @ CRLF)) cl te
      = header_fold ls cl te" for cl te
    using Cons.IH [of "pre @ l @ CRLF"] Cons.prems unfolding he by simp
  from Cons.prems have "plain_line l" by simp
  then show ?case
    unfolding split header_loop_line [OF \<open>plain_line l\<close> le] IH by simp
qed

lemma find_blank_line:
  assumes "\<forall>l\<in>set ls. plain_line l"
  shows "plain_line l \<Longrightarrow> str_find (CRLF @ CRLF) (header_block (l # ls) @ CRLF @ body) =
    Some (length (header_block (l # ls)) - 2)"
  using assms
proof (induction ls arbitrary: l)
  case Nil
  have "str_find (CRLF @ CRLF) (CRLF @ CRLF @ body) = Some 0" by simp
  with Nil str_find_skip [of CR l "[LF] @ CRLF" "CRLF @ CRLF @ body"] show ?case
    by (simp add: header_block_def plain_line_def)
next
  case (Cons k ls)
  from Cons.prems have k: "plain_line k" and l: "CR \<notin> set l" by (auto simp: plain_line_def)
  obtain c cs where kc: "k = c # cs" "c \<noteq> CR"
    using k by (cases k) (auto simp: plain_line_def)
  have skip: "str_find (CRLF @ CRLF) (CRLF @ k @ s) = map_option (\<lambda>i. 2 + i) (str_find (CRLF @ CRLF) (k @ s))" for s
    using kc by (simp add: option.map_comp comp_def)
  have pos: "2 \<le> length (header_block (k # ls))" by (simp add: header_block_def)
  have "str_find (CRLF @ CRLF) (header_block (l # k # ls) @ CRLF @ body) =
      map_option (\<lambda>i. length l + i) (str_find (CRLF @ CRLF) (CRLF @ header_block (k # ls) @ CRLF @ body))"
    using str_find_skip [OF l, of "[LF] @ CRLF" "CRLF @ header_block (k # ls) @ CRLF @ body"]
    by (simp add: header_block_def)
  also have "str_find (CRLF @ CRLF) (CRLF @ header_block (k # ls) @ CRLF @ body) =
      map_option (\<lambda>i. 2 + i) (str_find (CRLF @ CRLF) (header_block (k # ls) @ CRLF @ body))"
    using skip [of "CRLF @ header_block ls @ CRLF @ body"] by (simp add: header_block_def)
  also have "str_find (CRLF @ CRLF) (header_block (k # ls) @ CRLF @ body) = Some (length (header_block (k # ls)) - 2)"
    using Cons.IH [OF k] Cons.prems by simp
  finally show ?case using pos by (simp add: header_block_def)
qed

lemma parseContentLength_loop_value:
  assumes "list_all is_digit ds" and "v \<le> MAX_CONTROL_PLANE_HTTP_BODY_BYTES"
  shows "parseContentLength_loop v ds =
    Some (min (foldl (\<lambda>v c. v * 10 + digit_value c) v ds) (MAX_CONTROL_PLANE_HTTP_BODY_BYTES + 1))"
  using assms
proof (induction ds arbitrary: v)
  case Nil
  then show ?case by simp
next
  case (Cons d ds)
  let ?w = "v * 10 + digit_value d"
  from Cons.prems have "digit_value d \<le> 9" by (auto simp: is_digit_def digit_value_def)
  then have test: "v > (MAX_CONTROL_PLANE_HTTP_BODY_BYTES - digit_value d) div 10 \<longleftrightarrow>
      ?w > MAX_CONTROL_PLANE_HTTP_BODY_BYTES"
    unfolding MAX_CONTROL_PLANE_HTTP_BODY_BYTES_def by linarith
  show ?case
  proof (cases "?w > MAX_CONTROL_PLANE_HTTP_BODY_BYTES")
    case True
    with foldl_digits_ge [of ?w ds] have "MAX_CONTROL_PLANE_HTTP_BODY_BYTES + 1 \<le>
        foldl (\<lambda>v c. v * 10 + digit_value c) v (d # ds)" by simp
    then have "min (foldl (\<lambda>v c. v * 10 + digit_value c) v (d # ds)) (MAX_CONTROL_PLANE_HTTP_BODY_BYTES + 1)
        = MAX_CONTROL_PLANE_HTTP_BODY_BYTES + 1" by (rule min.absorb2)
    with True test Cons.prems show ?thesis by simp
  next
    case False
    with Cons.IH [of ?w] test Cons.prems show ?thesis by simp
  qed
qed

lemma is_digit_not_blank: "is_digit c \<Longrightarrow> \<not> is_blank_char c \<and> c \<noteq> CR"
  by (auto simp: is_digit_def is_blank_char_def)

lemma trim_digits:
  assumes "list_all is_digit ds"
  shows "trimAsciiWhitespace (CHR '' '' # ds) = ds"
proof -
  have "dropWhile is_blank_char ds = ds" if "list_all is_digit ds" for ds
    using that by (cases ds) (auto simp: is_digit_not_blank)
  from this [of ds] this [of "rev ds"] assms show ?thesis
    by (simp add: trimAsciiWhitespace_def is_blank_char_def)
qed

lemma parseContentLength_show_nat:
  "parseContentLength (CHR '' '' # show_nat n) = Some (min n (MAX_CONTROL_PLANE_HTTP_BODY_BYTES + 1))"
  using digits_value_show_nat [of n]
  by (simp add: parseContentLength_def trim_digits parseContentLength_loop_value Let_def)

definition content_length_line :: "nat \<Rightarrow> string" where
  "content_length_line n = ''Content-Length: '' @ show_nat n"

lemma lower_content_length: "lowerAscii ''Content-Length'' = ''content-length''"
  by code_simp

lemma header_line_content_length_line:
  "n \<le> MAX_CONTROL_PLANE_HTTP_BODY_BYTES \<Longrightarrow>
   header_line (content_length_line n) None te = (None, Some n, te)"
  by (simp add: header_line_def content_length_line_def str_substr_def lower_content_length
      parseContentLength_show_nat)

lemma plain_content_length_line: "plain_line (content_length_line n)"
  using digits_value_show_nat [of n]
  by (auto simp: plain_line_def content_length_line_def list_all_iff dest: is_digit_not_blank)

definition ordinary_header :: "string \<Rightarrow> bool" where
  "ordinary_header l \<longleftrightarrow> plain_line l \<and>
     (case str_find '':'' l of
        None \<Rightarrow> False
      | Some k \<Rightarrow> k \<noteq> 0 \<and> lowerAscii (take k l) \<notin>
          {''content-length'', ''transfer-encoding'', ''upgrade'', ''content-encoding''})"

lemma header_fold_ordinary:
  assumes "\<forall>l\<in>set ls. ordinary_header l"
  shows "header_fold (ls @ ks) cl te = header_fold ks cl te"
proof -
  have "header_line l cl te = (None, cl, te)" if "ordinary_header l" for l
    using that by (auto simp: ordinary_header_def header_line_def str_substr_def Let_def split: option.splits)
  with assms show ?thesis by (induction ls) auto
qed

lemma valid_status_line_plain: "valid_status_line l \<Longrightarrow> CR \<notin> set l \<Longrightarrow> plain_line l"
  by (auto simp: valid_status_line_def plain_line_def)

lemma parseHeaders_block:
  assumes status: "valid_status_line status" "CR \<notin> set status"
    and ls: "\<forall>l\<in>set ls. plain_line l" "ls \<noteq> []"
    and fold: "header_fold ls None False = (None, Some n, False)"
  shows "parseHeaders (length (header_block (status # ls)) - 2)
      (parser_new\<lparr>hp_received := header_block (status # ls) @ rest\<rparr>) =
    (True, parser_new\<lparr>hp_received := header_block (status # ls) @ rest, hp_content_length := Some n,
       hp_status_code := status_of_line status\<rparr>)"
proof -
  let ?m = "header_block (status # ls) @ rest" and ?he = "length (header_block (status # ls)) - 2"
  have m: "?m = (status @ CRLF) @ header_block ls @ rest" by (simp add: header_block_def)
  have he: "?he = length (status @ CRLF) + length (header_block ls) - 2" by (simp add: header_block_def)
  obtain k ks where "ls = k # ks" using ls by (cases ls) auto
  then have lt: "length status < ?he" by (simp add: header_block_def)
  have find: "str_find CRLF ?m = Some (length status)"
    using str_find_from_line [OF status(2), of "[]" "header_block ls @ rest"] unfolding m
    by (simp add: str_find_from_def option.map_ident)
  have line: "str_substr ?m 0 (length status) = status" unfolding m by (simp add: str_substr_def)
  have loop: "header_loop ?m ?he (length status + 2) None False = (None, Some n, False)"
    using header_loop_block [OF ls(1), of "status @ CRLF" rest None False] fold
    unfolding m he by simp
  have new: "hp_received (parser_new\<lparr>hp_received := x\<rparr>) = x"
      "hp_content_length (parser_new\<lparr>hp_received := x, hp_status_code := sc\<rparr>) = None" for x sc
    by (simp_all add: parser_new_def)
  show ?thesis
    unfolding parseHeaders_def new find using lt status(1) loop line
    by (simp add: Let_def parser_new_def del: add_2_eq_Suc')
qed


lemma complete_message_parsed:
  assumes "valid_status_line status" and "CR \<notin> set status"
    and "\<forall>l\<in>set hs \<union> set ks. ordinary_header l"
    and "length (header_block (status # hs @ content_length_line (length body) # ks)) + 2
          \<le> MAX_CONTROL_PLANE_HTTP_HEADER_BYTES"
    and "length body \<le> MAX_CONTROL_PLANE_HTTP_BODY_BYTES"
    and "m = header_block (status # hs @ content_length_line (length body) # ks) @ CRLF @ body"
  shows "hp_done (parse_all m) \<and> takeResult (parse_all m) =
      \<lparr>hr_error = (if status_of_line status < 200 \<or> status_of_line status \<ge> 300
                   then HttpStatusError else HttpError_None),
       hr_status_code = status_of_line status, hr_body = body\<rparr>"
proof -
  let ?ls = "hs @ content_length_line (length body) # ks"
  let ?h = "header_block (status # ?ls)"
  have plain: "\<forall>l\<in>set ?ls. plain_line l"
    using assms(3) plain_content_length_line by (auto simp: ordinary_header_def)
  have fold: "header_fold ?ls None False = (None, Some (length body), False)"
    using assms(3,5) header_fold_ordinary [of ks "[]"]
    by (simp add: header_fold_ordinary header_line_content_length_line)
  have find: "str_find (CRLF @ CRLF) (?h @ CRLF @ body) = Some (length ?h - 2)"
    by (rule find_blank_line [OF plain valid_status_line_plain [OF assms(1,2)]])
  have h2: "length ?h - 2 + 4 = length ?h + 2" by (simp add: header_block_def)
  have "parse_all m = finishBodyIfComplete
      (body_phase (?h @ CRLF @ body) (length body) (length ?h + 2) (status_of_line status))"
    using parseHeaders_block [OF assms(1,2) plain _ fold, of "CRLF @ body"] assms(4) find h2
    unfolding assms(6) by (simp add: consume_def parser_new_def body_phase_def)
  then show ?thesis
    by (simp add: finishBody_body_phase takeResult_def str_substr_def)
qed



lemma parse_result_shape:
  assumes "p = fold consume cs parser_new" and "hp_done p"
  shows "hr_error (takeResult p) \<notin> {HttpError_None, HttpStatusError} \<and> hr_body (takeResult p) = [] \<or>
    (\<exists>h rest. concat cs = h @ hr_body (takeResult p) @ rest \<and>
       length h \<le> MAX_CONTROL_PLANE_HTTP_HEADER_BYTES \<and>
       hp_content_length p = Some (length (hr_body (takeResult p))) \<and>
       length (hr_body (takeResult p)) \<le> MAX_CONTROL_PLANE_HTTP_BODY_BYTES \<and>
       hr_error (takeResult p) =
         (if 200 \<le> hr_status_code (takeResult p) \<and> hr_status_code (takeResult p) < 300
          then HttpError_None else HttpStatusError))"
proof -
  obtain k where k: "p = parse_all (concat (take k cs))"
    using feed_is_prefix [of cs] assms(1) by blast
  let ?m = "concat (take k cs)"
  have cat: "concat cs = ?m @ concat (drop k cs)"
    by (metis append_take_drop_id concat_append)
  show ?thesis
  proof (cases ?m rule: parse_all_cases)
    case open_head
    with k assms(2) show ?thesis by (simp add: parser_new_def)
  next
    case (refused e st cl sc)
    from refused(1) refused(2) [of "[]"] k show ?thesis
      by (simp add: takeResult_def parse_error_def)
  next
    case (head n off sc)
    from head(4) [of "[]"] assms(2) k consider
        "p = parser_fail MalformedResponse sc (body_phase ?m n off sc)"
      | "length ?m - off = n" "p = (body_phase ?m n off sc)\<lparr>
             hp_result := \<lparr>hr_error = (if sc < 200 \<or> sc \<ge> 300 then HttpStatusError else HttpError_None),
                           hr_status_code = sc, hr_body = str_substr ?m off n\<rparr>,
             hp_done := True\<rparr>"
      by (auto simp: finishBody_body_phase split: if_splits)
    then show ?thesis
    proof cases
      case 1
      then show ?thesis by (simp add: takeResult_def)
    next
      case 2
      from 2 have body: "hr_body (takeResult p) = drop off ?m" by (simp add: takeResult_def str_substr_def)
      with cat have "concat cs = take off ?m @ hr_body (takeResult p) @ concat (drop k cs)" by simp
      moreover have "hp_content_length p = Some (length (hr_body (takeResult p)))"
        using 2 unfolding body by (simp add: body_phase_def)
      moreover have "hr_error (takeResult p) = (if 200 \<le> hr_status_code (takeResult p) \<and>
          hr_status_code (takeResult p) < 300 then HttpError_None else HttpStatusError)"
        using 2(2) by (simp add: takeResult_def)
      moreover have "length (take off ?m) \<le> MAX_CONTROL_PLANE_HTTP_HEADER_BYTES" using head(1) by simp
      moreover have "length (hr_body (takeResult p)) \<le> MAX_CONTROL_PLANE_HTTP_BODY_BYTES"
        using head(3) 2(1) unfolding body by simp
      ultimately show ?thesis by blast
    qed
  qed
qed

text \<open>
  No response is invented.  A finished parse is either an error without a body, or it has a body of
  exactly the announced length, at most the limit, that follows at most the limit of header bytes in
  what was received; and it is free of error only for a 2xx status.
\<close>

theorem http_parser_result_sound:
  assumes "p = fold consume cs parser_new" and "hp_done p"
  shows "hr_error (takeResult p) \<notin> {HttpError_None, HttpStatusError} \<and> hr_body (takeResult p) = [] \<or>
    (\<exists>h rest. concat cs = h @ hr_body (takeResult p) @ rest \<and>
       length h \<le> MAX_CONTROL_PLANE_HTTP_HEADER_BYTES \<and>
       hp_content_length p = Some (length (hr_body (takeResult p))) \<and>
       length (hr_body (takeResult p)) \<le> MAX_CONTROL_PLANE_HTTP_BODY_BYTES \<and>
       hr_error (takeResult p) =
         (if 200 \<le> hr_status_code (takeResult p) \<and> hr_status_code (takeResult p) < 300
          then HttpError_None else HttpStatusError))"
  using assms by (rule parse_result_shape)

theorem http_parser_result_sound_witness:
  "hp_done (fold consume [''x'' @ CRLF @ CRLF, ''ignored''] parser_new) \<and>
   hr_error (takeResult (fold consume [''x'' @ CRLF @ CRLF, ''ignored''] parser_new)) = MalformedResponse \<and>
   hr_body (takeResult (fold consume [''x'' @ CRLF @ CRLF, ''ignored''] parser_new)) = []"
proof -
  let ?p = "fold consume [''x'' @ CRLF @ CRLF, ''ignored''] parser_new"
  have p: "hp_done ?p" "hr_error (takeResult ?p) = MalformedResponse"
    by (simp_all add: consume_def parseHeaders_def parser_new_def takeResult_def
        MAX_CONTROL_PLANE_HTTP_HEADER_BYTES_def parser_fail_def)
  from http_parser_result_sound [OF refl p(1)] p show ?thesis by (auto split: if_splits)
qed

end
