(* ===== verification/Kernel.thy ===== *)
theory Kernel
  imports Gateway_Prelude
begin

text \<open>
  The operating system as the gateway sees it.  The kernel, the resolver and the clock are not code
  of the repository: they are a parameter \<open>os\<close> of the model, a record with one answer function per
  call.  Every call is numbered by a tick, so that two calls with the same arguments may be answered
  differently, and the calls with an effect outside the process are logged.

  What the gateway relies on is stated as named predicates over the parameter: \<open>os_transfer_ok\<close>
  (a transfer is never longer than asked for), \<open>os_descriptors_ok\<close> (descriptors are non-negative)
  and \<open>clock_reaches\<close> (time passes).
\<close>

section \<open>Error numbers and event masks\<close>

datatype errno = EINTR | EAGAIN | EINPROGRESS | ECONNRESET | EPIPE | ENOENT | EBADF | OtherErrno int

text \<open>On Linux \<^verbatim>\<open>EWOULDBLOCK\<close> is the same number as \<^verbatim>\<open>EAGAIN\<close>.\<close>

abbreviation EWOULDBLOCK :: errno where "EWOULDBLOCK \<equiv> EAGAIN"

type_synonym event_mask = u32

abbreviation POLLIN :: event_mask where "POLLIN \<equiv> 0x1"
abbreviation POLLOUT :: event_mask where "POLLOUT \<equiv> 0x4"
abbreviation POLLERR :: event_mask where "POLLERR \<equiv> 0x8"
abbreviation POLLHUP :: event_mask where "POLLHUP \<equiv> 0x10"
abbreviation POLLNVAL :: event_mask where "POLLNVAL \<equiv> 0x20"
abbreviation EPOLLIN :: event_mask where "EPOLLIN \<equiv> 0x1"
abbreviation EPOLLOUT :: event_mask where "EPOLLOUT \<equiv> 0x4"
abbreviation EPOLLERR :: event_mask where "EPOLLERR \<equiv> 0x8"
abbreviation EPOLLHUP :: event_mask where "EPOLLHUP \<equiv> 0x10"
abbreviation EPOLLET :: event_mask where "EPOLLET \<equiv> 0x80000000"
abbreviation EPOLLRDHUP :: event_mask where "EPOLLRDHUP \<equiv> 0x2000"

section \<open>Answers\<close>

text \<open>A system call returns a value, or \<^verbatim>\<open>-1\<close> with an error number.\<close>

datatype 'a sysres = SysOk 'a | SysErr errno

datatype poll_reply = PollReady event_mask | PollTimeout | PollErr errno

record addrinfo =
  ai_family :: int
  ai_socktype :: int
  ai_protocol :: int
  ai_addr :: string

datatype epoll_op = EPOLL_CTL_ADD | EPOLL_CTL_MOD | EPOLL_CTL_DEL

text \<open>
  The calls of the set-up phase that only succeed or fail are told apart by their name and the
  descriptor they are made on.  A transfer on an event descriptor is done by the kernel on its
  counter, unless \<open>os_eventfd_fault\<close> has it fail.
\<close>

record os =
  os_now :: "nat \<Rightarrow> time_point"
  os_getaddrinfo :: "nat \<Rightarrow> string \<Rightarrow> string \<Rightarrow> int + addrinfo list"
  os_socket :: "nat \<Rightarrow> int sysres"
  os_connect :: "nat \<Rightarrow> int \<Rightarrow> addrinfo \<Rightarrow> unit sysres"
  os_so_error :: "nat \<Rightarrow> int \<Rightarrow> int sysres"
  os_poll :: "nat \<Rightarrow> int \<Rightarrow> event_mask \<Rightarrow> int \<Rightarrow> poll_reply"
  os_send :: "nat \<Rightarrow> int \<Rightarrow> string \<Rightarrow> nat sysres"
  os_recv :: "nat \<Rightarrow> int \<Rightarrow> nat \<Rightarrow> string sysres"
  os_accept :: "nat \<Rightarrow> int \<Rightarrow> int sysres"
  os_epoll_ctl :: "nat \<Rightarrow> epoll_op \<Rightarrow> int \<Rightarrow> unit sysres"
  os_setup :: "nat \<Rightarrow> string \<Rightarrow> int \<Rightarrow> int sysres"
  os_eventfd_fault :: "nat \<Rightarrow> errno option"
  os_epoll_wait :: "nat \<Rightarrow> int \<Rightarrow> (int \<times> event_mask) list sysres"
  os_strerror :: "errno \<Rightarrow> string"

text \<open>What is logged of the calls.\<close>

datatype io_event =
    Opened int
  | Closed int
  | Sent int string
  | Received int string
  | AddressesFreed
  | Registered int event_mask
  | Modified int event_mask
  | Unregistered int

record io =
  io_tick :: nat
  io_log :: "io_event list"

definition io_new :: io where
  "io_new = \<lparr>io_tick = 0, io_log = []\<rparr>"

definition io_step :: "io_event list \<Rightarrow> io \<Rightarrow> io" where
  "io_step es w = \<lparr>io_tick = Suc (io_tick w), io_log = io_log w @ es\<rparr>"

lemma io_step_simps [simp]:
  "io_tick (io_step es w) = Suc (io_tick w)"
  "io_log (io_step es w) = io_log w @ es"
  by (simp_all add: io_step_def)

section \<open>Calls\<close>

definition sys_now :: "os \<Rightarrow> io \<Rightarrow> time_point \<times> io" where
  "sys_now os w = (os_now os (io_tick w), io_step [] w)"

definition sys_getaddrinfo :: "os \<Rightarrow> string \<Rightarrow> string \<Rightarrow> io \<Rightarrow> (int + addrinfo list) \<times> io" where
  "sys_getaddrinfo os host port w = (os_getaddrinfo os (io_tick w) host port, io_step [] w)"

definition sys_freeaddrinfo :: "io \<Rightarrow> io" where
  "sys_freeaddrinfo w = io_step [AddressesFreed] w"

definition sys_socket :: "os \<Rightarrow> io \<Rightarrow> int sysres \<times> io" where
  "sys_socket os w =
     (case os_socket os (io_tick w) of
        SysOk fd \<Rightarrow> (SysOk fd, io_step [Opened fd] w)
      | SysErr e \<Rightarrow> (SysErr e, io_step [] w))"

definition sys_connect :: "os \<Rightarrow> int \<Rightarrow> addrinfo \<Rightarrow> io \<Rightarrow> unit sysres \<times> io" where
  "sys_connect os fd address w = (os_connect os (io_tick w) fd address, io_step [] w)"

definition sys_so_error :: "os \<Rightarrow> int \<Rightarrow> io \<Rightarrow> int sysres \<times> io" where
  "sys_so_error os fd w = (os_so_error os (io_tick w) fd, io_step [] w)"

definition sys_poll :: "os \<Rightarrow> int \<Rightarrow> event_mask \<Rightarrow> int \<Rightarrow> io \<Rightarrow> poll_reply \<times> io" where
  "sys_poll os fd events timeout w = (os_poll os (io_tick w) fd events timeout, io_step [] w)"

definition sys_send :: "os \<Rightarrow> int \<Rightarrow> string \<Rightarrow> io \<Rightarrow> nat sysres \<times> io" where
  "sys_send os fd data w =
     (case os_send os (io_tick w) fd data of
        SysOk n \<Rightarrow> (SysOk n, io_step [Sent fd (take n data)] w)
      | SysErr e \<Rightarrow> (SysErr e, io_step [] w))"

definition sys_recv :: "os \<Rightarrow> int \<Rightarrow> nat \<Rightarrow> io \<Rightarrow> string sysres \<times> io" where
  "sys_recv os fd capacity w =
     (case os_recv os (io_tick w) fd capacity of
        SysOk bytes \<Rightarrow> (SysOk bytes, io_step [Received fd bytes] w)
      | SysErr e \<Rightarrow> (SysErr e, io_step [] w))"

definition sys_accept :: "os \<Rightarrow> int \<Rightarrow> io \<Rightarrow> int sysres \<times> io" where
  "sys_accept os listener w =
     (case os_accept os (io_tick w) listener of
        SysOk fd \<Rightarrow> (SysOk fd, io_step [Opened fd] w)
      | SysErr e \<Rightarrow> (SysErr e, io_step [] w))"

definition sys_close :: "int \<Rightarrow> io \<Rightarrow> io" where
  "sys_close fd w = io_step [Closed fd] w"

definition sys_epoll_ctl :: "os \<Rightarrow> epoll_op \<Rightarrow> int \<Rightarrow> event_mask \<Rightarrow> io \<Rightarrow> unit sysres \<times> io" where
  "sys_epoll_ctl os op fd events w =
     (case os_epoll_ctl os (io_tick w) op fd of
        SysOk u \<Rightarrow> (SysOk u, io_step (case op of
                                       EPOLL_CTL_ADD \<Rightarrow> [Registered fd events]
                                     | EPOLL_CTL_MOD \<Rightarrow> [Modified fd events]
                                     | EPOLL_CTL_DEL \<Rightarrow> [Unregistered fd]) w)
      | SysErr e \<Rightarrow> (SysErr e, io_step [] w))"

definition sys_setup :: "os \<Rightarrow> string \<Rightarrow> int \<Rightarrow> io \<Rightarrow> int sysres \<times> io" where
  "sys_setup os call fd w = (os_setup os (io_tick w) call fd, io_step [] w)"

definition sys_eventfd :: "os \<Rightarrow> io \<Rightarrow> errno option \<times> io" where
  "sys_eventfd os w = (os_eventfd_fault os (io_tick w), io_step [] w)"

definition sys_epoll_wait :: "os \<Rightarrow> int \<Rightarrow> io \<Rightarrow> (int \<times> event_mask) list sysres \<times> io" where
  "sys_epoll_wait os timeout w = (os_epoll_wait os (io_tick w) timeout, io_step [] w)"

text \<open>A call that creates a descriptor.\<close>

definition sys_create :: "os \<Rightarrow> string \<Rightarrow> io \<Rightarrow> int sysres \<times> io" where
  "sys_create os call w =
     (case os_setup os (io_tick w) call (-1) of
        SysOk fd \<Rightarrow> (SysOk fd, io_step [Opened fd] w)
      | SysErr e \<Rightarrow> (SysErr e, io_step [] w))"

section \<open>Reading the log\<close>

definition sent_on :: "int \<Rightarrow> io_event list \<Rightarrow> string" where
  "sent_on fd es = concat (map (\<lambda>e. case e of Sent f bs \<Rightarrow> if f = fd then bs else [] | _ \<Rightarrow> []) es)"

definition received_on :: "int \<Rightarrow> io_event list \<Rightarrow> string" where
  "received_on fd es = concat (map (\<lambda>e. case e of Received f bs \<Rightarrow> if f = fd then bs else [] | _ \<Rightarrow> []) es)"

text \<open>The descriptors opened and not closed again, in the order of opening.\<close>

fun open_fds :: "int list \<Rightarrow> io_event list \<Rightarrow> int list" where
  "open_fds fds [] = fds"
| "open_fds fds (Opened fd # es) = open_fds (fds @ [fd]) es"
| "open_fds fds (Closed fd # es) = open_fds (removeAll fd fds) es"
| "open_fds fds (_ # es) = open_fds fds es"

lemma sent_on_simps [simp]:
  "sent_on fd [] = []"
  "sent_on fd (es @ es') = sent_on fd es @ sent_on fd es'"
  "sent_on fd (Sent f bs # es) = (if f = fd then bs else []) @ sent_on fd es"
  by (simp_all add: sent_on_def)

lemma received_on_simps [simp]:
  "received_on fd [] = []"
  "received_on fd (es @ es') = received_on fd es @ received_on fd es'"
  "received_on fd (Received f bs # es) = (if f = fd then bs else []) @ received_on fd es"
  by (simp_all add: received_on_def)

lemma open_fds_append [simp]: "open_fds fds (es @ es') = open_fds (open_fds fds es) es'"
  by (induction fds es rule: open_fds.induct) simp_all

section \<open>What the gateway relies on\<close>

definition os_transfer_ok :: "os \<Rightarrow> bool" where
  "os_transfer_ok os \<longleftrightarrow>
     (\<forall>t fd data n. os_send os t fd data = SysOk n \<longrightarrow> n \<le> length data) \<and>
     (\<forall>t fd cap bs. os_recv os t fd cap = SysOk bs \<longrightarrow> length bs \<le> cap)"

text \<open>Descriptors are non-negative.\<close>

definition os_descriptors_ok :: "os \<Rightarrow> bool" where
  "os_descriptors_ok os \<longleftrightarrow>
     (\<forall>t fd. os_socket os t = SysOk fd \<longrightarrow> fd \<ge> 0) \<and>
     (\<forall>t listener fd. os_accept os t listener = SysOk fd \<longrightarrow> fd \<ge> 0)"

text \<open>From some call on the clock shows at least the given time.\<close>

definition clock_reaches :: "os \<Rightarrow> time_point \<Rightarrow> nat \<Rightarrow> bool" where
  "clock_reaches os deadline tick \<longleftrightarrow> (\<forall>t\<ge>tick. deadline \<le> os_now os t)"

definition clock_advances :: "os \<Rightarrow> bool" where
  "clock_advances os \<longleftrightarrow> (\<forall>deadline. \<exists>tick. clock_reaches os deadline tick)"

text \<open>
  A concrete system for examples: the clock advances by a millisecond per call, every call succeeds,
  a transfer moves at most four bytes, and the resolver knows one address.
\<close>

definition sample_os :: os where
  "sample_os =
     \<lparr>os_now = (\<lambda>t. 1000000 * int t),
      os_getaddrinfo = (\<lambda>_ _ _. Inr [\<lparr>ai_family = 2, ai_socktype = 1, ai_protocol = 6, ai_addr = ''a''\<rparr>]),
      os_socket = (\<lambda>_. SysOk 5), os_connect = (\<lambda>_ _ _. SysOk ()), os_so_error = (\<lambda>_ _. SysOk 0),
      os_poll = (\<lambda>_ _ events _. PollReady events),
      os_send = (\<lambda>_ _ data. SysOk (min 4 (length data))),
      os_recv = (\<lambda>_ _ cap. SysOk (take cap ''data'')),
      os_accept = (\<lambda>_ _. SysErr EAGAIN), os_epoll_ctl = (\<lambda>_ _ _. SysOk ()),
      os_setup = (\<lambda>_ _ fd. SysOk (if fd = -1 then 3 else fd)), os_eventfd_fault = (\<lambda>_. None),
      os_epoll_wait = (\<lambda>_ _. SysOk []), os_strerror = (\<lambda>_. ''error'')\<rparr>"

lemma sample_os_ok: "os_transfer_ok sample_os" "os_descriptors_ok sample_os" "clock_advances sample_os"
proof -
  show "os_transfer_ok sample_os" "os_descriptors_ok sample_os"
    by (auto simp: os_transfer_ok_def os_descriptors_ok_def sample_os_def)
  have "clock_reaches sample_os d (nat d)" for d
    by (auto simp: clock_reaches_def sample_os_def)
  then show "clock_advances sample_os" by (auto simp: clock_advances_def)
qed

end
