(* ===== verification/SocketDeadline.thy ===== *)
theory SocketDeadline
  imports HttpTypes Kernel
begin

unbundle bit_operations_syntax

text \<open>
  Socket operations under one absolute deadline: \<^verbatim>\<open>src/control/SocketDeadline.cpp\<close>.  The loops retry
  until the socket is ready or the clock passes the deadline; each is a partial function whose
  result is \<^term>\<open>None\<close> only when it never returns.

  The theorems: \<open>sendAll\<close> puts exactly the data on the socket, in order, when it succeeds, and a prefix
  of it otherwise; every operation returns once the clock has passed the deadline; \<open>connect\<close> leaks no
  descriptor.
\<close>

record SocketReadResult =
  sr_error :: HttpError
  sr_size :: nat
  sr_eof :: bool

record SocketDeadline =
  sd_fd :: int
  sd_deadline :: time_point

text \<open>
  \<^verbatim>\<open>closeSocket\<close>, which is also what the destructor does, and the move operations: the moved-from
  object keeps no descriptor.
\<close>

definition closeSocket :: "SocketDeadline \<Rightarrow> io \<Rightarrow> SocketDeadline \<times> io" where
  "closeSocket s w =
     (if sd_fd s \<noteq> -1 then (s\<lparr>sd_fd := -1\<rparr>, sys_close (sd_fd s) w) else (s, w))"

definition move_construct :: "SocketDeadline \<Rightarrow> SocketDeadline \<times> SocketDeadline" where
  "move_construct other =
     (\<lparr>sd_fd = sd_fd other, sd_deadline = sd_deadline other\<rparr>, other\<lparr>sd_fd := -1\<rparr>)"

definition move_assign ::
  "SocketDeadline \<Rightarrow> SocketDeadline \<Rightarrow> io \<Rightarrow> SocketDeadline \<times> SocketDeadline \<times> io" where
  "move_assign this other w =
     (case closeSocket this w of
        (this1, w1) \<Rightarrow> (this1\<lparr>sd_fd := sd_fd other, sd_deadline := sd_deadline other\<rparr>,
                        other\<lparr>sd_fd := -1\<rparr>, w1))"

text \<open>Time points are in nanoseconds; \<^verbatim>\<open>ceil\<close> to milliseconds rounds up.\<close>

definition remainingMilliseconds :: "os \<Rightarrow> time_point \<Rightarrow> io \<Rightarrow> int option \<times> io" where
  "remainingMilliseconds os deadline w =
     (case sys_now os w of
        (now, w1) \<Rightarrow>
          if deadline \<le> now then (None, w1)
          else (Some (min ((deadline - now + 999999) div 1000000) INT_MAX), w1))"

partial_function (option) waitForSocket ::
  "os \<Rightarrow> int \<Rightarrow> event_mask \<Rightarrow> time_point \<Rightarrow> HttpError \<Rightarrow> io \<Rightarrow> (HttpError \<times> io) option" where
  "waitForSocket os fd events deadline failure w =
     (case remainingMilliseconds os deadline w of
        (None, w1) \<Rightarrow> Some (DeadlineExceeded, w1)
      | (Some timeout, w1) \<Rightarrow>
          (case sys_poll os fd events timeout w1 of
             (PollReady revents, w2) \<Rightarrow>
               if revents AND POLLNVAL \<noteq> 0 then Some (failure, w2)
               else if revents AND (events OR POLLERR OR POLLHUP) \<noteq> 0 then Some (HttpError_None, w2)
               else waitForSocket os fd events deadline failure w2
           | (PollTimeout, w2) \<Rightarrow> Some (DeadlineExceeded, w2)
           | (PollErr e, w2) \<Rightarrow>
               if e \<noteq> EINTR then Some (failure, w2)
               else waitForSocket os fd events deadline failure w2))"

text \<open>The descriptor guard of \<^verbatim>\<open>connect\<close>: its destructor closes the descriptor it still owns.\<close>

definition UniqueFd_destroy :: "int \<Rightarrow> io \<Rightarrow> io" where
  "UniqueFd_destroy fd w = (if fd \<noteq> -1 then sys_close fd w else w)"

text \<open>
  The loop of \<^verbatim>\<open>connect\<close> over the resolved addresses.  The result is the connected socket, if any,
  and the error output parameter.
\<close>

fun connect_loop ::
  "os \<Rightarrow> time_point \<Rightarrow> addrinfo list \<Rightarrow> io \<Rightarrow> (SocketDeadline option \<times> HttpError \<times> io) option" where
  "connect_loop os deadline [] w = Some (None, ConnectFailed, w)"
| "connect_loop os deadline (address # rest) w =
     (case remainingMilliseconds os deadline w of
        (None, w1) \<Rightarrow> Some (None, DeadlineExceeded, w1)
      | (Some _, w1) \<Rightarrow>
          (case sys_socket os w1 of
             (SysErr _, w2) \<Rightarrow> connect_loop os deadline rest w2
           | (SysOk candidate, w2) \<Rightarrow>
               (case sys_connect os candidate address w2 of
                  (SysOk _, w3) \<Rightarrow>
                    Some (Some \<lparr>sd_fd = candidate, sd_deadline = deadline\<rparr>, HttpError_None, w3)
                | (SysErr e, w3) \<Rightarrow>
                    if e \<noteq> EINPROGRESS \<and> e \<noteq> EINTR
                    then connect_loop os deadline rest (UniqueFd_destroy candidate w3)
                    else
                      (case waitForSocket os candidate POLLOUT deadline ConnectFailed w3 of
                         None \<Rightarrow> None
                       | Some (waited, w4) \<Rightarrow>
                           if waited = DeadlineExceeded
                           then Some (None, waited, UniqueFd_destroy candidate w4)
                           else if waited \<noteq> HttpError_None
                           then connect_loop os deadline rest (UniqueFd_destroy candidate w4)
                           else
                             (case sys_so_error os candidate w4 of
                                (SysOk socket_error, w5) \<Rightarrow>
                                  if socket_error \<noteq> 0
                                  then connect_loop os deadline rest (UniqueFd_destroy candidate w5)
                                  else Some (Some \<lparr>sd_fd = candidate, sd_deadline = deadline\<rparr>,
                                             HttpError_None, w5)
                              | (SysErr _, w5) \<Rightarrow>
                                  connect_loop os deadline rest (UniqueFd_destroy candidate w5))))))"

text \<open>The address list is released on every path after a successful resolution.\<close>

definition connect ::
  "os \<Rightarrow> string \<Rightarrow> int \<Rightarrow> int \<Rightarrow> time_point option \<Rightarrow> io \<Rightarrow>
   (SocketDeadline option \<times> HttpError \<times> io) option" where
  "connect os host port timeout_ms not_after w =
     (let (expired, w1) =
        (case not_after of
           None \<Rightarrow> (False, w)
         | Some limit \<Rightarrow> (case sys_now os w of (now, w1) \<Rightarrow> (limit \<le> now, w1))) in
      if expired then Some (None, DeadlineExceeded, w1)
      else
        case sys_getaddrinfo os host (show_int port) w1 of
          (Inl _, w2) \<Rightarrow> Some (None, ResolveFailed, w2)
        | (Inr addresses, w2) \<Rightarrow>
            (case sys_now os w2 of
               (now, w3) \<Rightarrow>
                 let deadline = now + timeout_ms * 1000000;
                     deadline = (case not_after of Some limit \<Rightarrow> min deadline limit | None \<Rightarrow> deadline)
                 in map_option (\<lambda>(s, e, w4). (s, e, sys_freeaddrinfo w4))
                      (connect_loop os deadline addresses w3)))"

partial_function (option) sendAll_loop ::
  "os \<Rightarrow> SocketDeadline \<Rightarrow> string \<Rightarrow> nat \<Rightarrow> io \<Rightarrow> (HttpError \<times> io) option" where
  "sendAll_loop os s data offset w =
     (if offset < length data then
        (case remainingMilliseconds os (sd_deadline s) w of
           (None, w1) \<Rightarrow> Some (DeadlineExceeded, w1)
         | (Some _, w1) \<Rightarrow>
             (case sys_send os (sd_fd s) (drop offset data) w1 of
                (SysOk n, w2) \<Rightarrow>
                  if n > 0 then sendAll_loop os s data (offset + n) w2
                  else Some (SendFailed, w2)
              | (SysErr e, w2) \<Rightarrow>
                  if e = EINTR then sendAll_loop os s data offset w2
                  else if e = EAGAIN \<or> e = EWOULDBLOCK then
                    (case waitForSocket os (sd_fd s) POLLOUT (sd_deadline s) SendFailed w2 of
                       None \<Rightarrow> None
                     | Some (waited, w3) \<Rightarrow>
                         if waited \<noteq> HttpError_None then Some (waited, w3)
                         else sendAll_loop os s data offset w3)
                  else Some (SendFailed, w2)))
      else Some (HttpError_None, w))"

definition sendAll :: "os \<Rightarrow> SocketDeadline \<Rightarrow> string \<Rightarrow> io \<Rightarrow> (HttpError \<times> io) option" where
  "sendAll os s data w = sendAll_loop os s data 0 w"

text \<open>The bytes received are returned beside the result, as the contents of the caller's buffer.\<close>

partial_function (option) receive ::
  "os \<Rightarrow> SocketDeadline \<Rightarrow> nat \<Rightarrow> io \<Rightarrow> (SocketReadResult \<times> string \<times> io) option" where
  "receive os s capacity w =
     (case remainingMilliseconds os (sd_deadline s) w of
        (None, w1) \<Rightarrow> Some (\<lparr>sr_error = DeadlineExceeded, sr_size = 0, sr_eof = False\<rparr>, [], w1)
      | (Some _, w1) \<Rightarrow>
          (case sys_recv os (sd_fd s) capacity w1 of
             (SysOk bytes, w2) \<Rightarrow>
               if bytes \<noteq> []
               then Some (\<lparr>sr_error = HttpError_None, sr_size = length bytes, sr_eof = False\<rparr>, bytes, w2)
               else Some (\<lparr>sr_error = HttpError_None, sr_size = 0, sr_eof = True\<rparr>, [], w2)
           | (SysErr e, w2) \<Rightarrow>
               if e = EINTR then receive os s capacity w2
               else if e = EAGAIN \<or> e = EWOULDBLOCK then
                 (case waitForSocket os (sd_fd s) POLLIN (sd_deadline s) ReceiveFailed w2 of
                    None \<Rightarrow> None
                  | Some (waited, w3) \<Rightarrow>
                      if waited \<noteq> HttpError_None
                      then Some (\<lparr>sr_error = waited, sr_size = 0, sr_eof = False\<rparr>, [], w3)
                      else receive os s capacity w3)
               else Some (\<lparr>sr_error = ReceiveFailed, sr_size = 0, sr_eof = False\<rparr>, [], w2)))"

section \<open>Effects\<close>

lemma remainingMilliseconds_eq:
  "remainingMilliseconds os deadline w =
     (if deadline \<le> os_now os (io_tick w) then None
      else Some (min ((deadline - os_now os (io_tick w) + 999999) div 1000000) INT_MAX), io_step [] w)"
  by (simp add: remainingMilliseconds_def sys_now_def)

lemma waitForSocket_effect:
  assumes "waitForSocket os fd events deadline failure w = Some y"
  shows "io_log (snd y) = io_log w \<and> io_tick w < io_tick (snd y) \<and>
    fst y \<in> {HttpError_None, DeadlineExceeded, failure}"
  using assms
proof (induction rule: waitForSocket.raw_induct [rotated, consumes 1, case_names step])
  case (step rec os fd events deadline failure w y)
  from step(2) show ?case
    by (auto simp: remainingMilliseconds_eq sys_poll_def split: poll_reply.splits if_splits
        dest!: step(1))
qed

lemma waitForSocket_returns:
  assumes "clock_reaches os deadline T"
  shows "waitForSocket os fd events deadline failure w \<noteq> None"
proof (induction "T - io_tick w" arbitrary: w rule: less_induct)
  case less
  show ?case
  proof (cases "deadline \<le> os_now os (io_tick w)")
    case True
    then show ?thesis
      by (subst waitForSocket.simps) (simp add: remainingMilliseconds_eq)
  next
    case False
    with assms have "io_tick w < T" by (meson clock_reaches_def not_le_imp_less)
    then have "waitForSocket os fd events deadline failure (io_step [] (io_step [] w)) \<noteq> None"
      by (intro less.hyps) simp
    then show ?thesis
      by (subst waitForSocket.simps)
        (auto simp: remainingMilliseconds_eq sys_poll_def split: poll_reply.splits)
  qed
qed

text \<open>Events that neither open nor close a descriptor.\<close>

definition fd_neutral :: "io_event list \<Rightarrow> bool" where
  "fd_neutral es \<longleftrightarrow> (\<forall>fds. open_fds fds es = fds)"

lemma fd_neutral_simps [simp]:
  "fd_neutral []" "fd_neutral [Sent f bs]" "fd_neutral [Received f bs]" "fd_neutral [AddressesFreed]"
  "fd_neutral es \<Longrightarrow> fd_neutral es' \<Longrightarrow> fd_neutral (es @ es')"
  by (simp_all add: fd_neutral_def)

text \<open>What one run of the send loop appends to the log.\<close>

definition sends :: "int \<Rightarrow> string \<Rightarrow> io \<Rightarrow> HttpError \<times> io \<Rightarrow> bool" where
  "sends fd data w y \<longleftrightarrow>
     (\<exists>es k. io_log (snd y) = io_log w @ es \<and> sent_on fd es = take k data \<and>
        (fst y = HttpError_None \<longrightarrow> sent_on fd es = data) \<and> fd_neutral es \<and>
        (\<forall>f. (f \<noteq> fd \<longrightarrow> sent_on f es = []) \<and> received_on f es = []))"

lemma sends_refl: "io_log w' = io_log w \<Longrightarrow> e \<noteq> HttpError_None \<or> data = [] \<Longrightarrow> sends fd data w (e, w')"
  unfolding sends_def by (intro exI [of _ "[]"] exI [of _ 0]) auto

lemma sends_same_log: "io_log w1 = io_log w \<Longrightarrow> sends fd data w1 y \<Longrightarrow> sends fd data w y"
  by (simp add: sends_def)

lemma sends_more:
  assumes "sends fd (drop n data) w1 y" and "io_log w1 = io_log w @ [Sent fd (take n data)]"
  shows "sends fd data w y"
proof -
  from assms(1) obtain es k where es: "io_log (snd y) = io_log w1 @ es" "sent_on fd es = take k (drop n data)"
      "fst y = HttpError_None \<longrightarrow> sent_on fd es = drop n data" "fd_neutral es"
      "\<forall>f. (f \<noteq> fd \<longrightarrow> sent_on f es = []) \<and> received_on f es = []"
    unfolding sends_def by blast
  have "take n data @ take k (drop n data) = take (n + k) data" by (simp add: take_add)
  with es assms(2) show ?thesis
    unfolding sends_def
    by (intro exI [of _ "Sent fd (take n data) # es"] exI [of _ "n + k"])
      (auto simp: fd_neutral_def received_on_def)
qed

lemma sendAll_loop_sends:
  assumes "sendAll_loop os s data offset w = Some y"
  shows "sends (sd_fd s) (drop offset data) w y \<and> io_tick w \<le> io_tick (snd y)"
  using assms
proof (induction rule: sendAll_loop.raw_induct [rotated, consumes 1, case_names step])
  case (step rec os s data offset w y)
  let ?d = "drop offset data" and ?w1 = "io_step [] w"
  let ?reply = "os_send os (io_tick ?w1) (sd_fd s) ?d"
  show ?case
  proof (cases "offset < length data \<and> \<not> sd_deadline s \<le> os_now os (io_tick w)")
    case False
    with step(2) show ?thesis
      by (auto simp: remainingMilliseconds_eq intro!: sends_refl split: if_splits)
  next
    case True
    show ?thesis
    proof (cases ?reply)
      case (SysOk n)
      let ?w2 = "io_step [Sent (sd_fd s) (take n ?d)] ?w1"
      have "sends (sd_fd s) ?d w y \<and> io_tick w \<le> io_tick (snd y)"
        if "n > 0" and r: "rec os s data (offset + n) ?w2 = Some y"
      proof -
        from step(1) [OF r] have "sends (sd_fd s) (drop n ?d) ?w2 y" "io_tick ?w2 \<le> io_tick (snd y)"
          by (simp_all add: add.commute)
        then show ?thesis by (auto intro: sends_more)
      qed
      moreover have "sends (sd_fd s) ?d w (SendFailed, ?w2)" if "n = 0"
        using that unfolding sends_def
        by (intro exI [of _ "[Sent (sd_fd s) []]"] exI [of _ 0]) (simp add: received_on_def)
      ultimately show ?thesis
        using step(2) True SysOk by (auto simp: remainingMilliseconds_eq sys_send_def split: if_splits)
    next
      case (SysErr e)
      have again: "sends (sd_fd s) ?d w y \<and> io_tick w \<le> io_tick (snd y)"
        if "rec os s data offset w2 = Some y" "io_log w2 = io_log w" "io_tick w \<le> io_tick w2" for w2
        using step(1) [OF that(1)] that(2,3) by (auto intro: sends_same_log)
      show ?thesis
        using step(2) True SysErr
        by (auto simp: remainingMilliseconds_eq sys_send_def split: if_splits option.splits
            dest!: waitForSocket_effect intro!: sends_refl
            intro: again [THEN conjunct1] again [THEN conjunct2])
    qed
  qed
qed

lemma sendAll_loop_returns:
  assumes "clock_reaches os (sd_deadline s) T"
  shows "sendAll_loop os s data offset w \<noteq> None"
proof (induction "T - io_tick w" arbitrary: w offset rule: less_induct)
  case less
  show ?case
  proof (cases "offset < length data \<and> \<not> sd_deadline s \<le> os_now os (io_tick w)")
    case False
    then show ?thesis
      by (subst sendAll_loop.simps) (auto simp: remainingMilliseconds_eq)
  next
    case True
    with assms have t: "io_tick w < T" by (meson clock_reaches_def not_le_imp_less)
    have again: "sendAll_loop os s data off w' \<noteq> None" if "io_tick w < io_tick w'" for off w'
      using t that by (intro less.hyps) simp
    have wait: "\<exists>e w'. waitForSocket os (sd_fd s) POLLOUT (sd_deadline s) SendFailed w2 = Some (e, w') \<and>
        io_tick w2 < io_tick w'" for w2
      using waitForSocket_returns [OF assms, of "sd_fd s" POLLOUT SendFailed w2] waitForSocket_effect by fastforce
    show ?thesis
      using wait [of "io_step [] (io_step [] w)"] True
      by (subst sendAll_loop.simps)
        (auto simp: remainingMilliseconds_eq sys_send_def split: sysres.splits intro!: again [simplified])
  qed
qed

lemma receive_effect:
  assumes "receive os s capacity w = Some y"
  shows "\<exists>es. io_log (snd (snd y)) = io_log w @ es \<and> received_on (sd_fd s) es = fst (snd y) \<and> fd_neutral es \<and>
      (\<forall>f. sent_on f es = []) \<and>
      sr_size (fst y) = length (fst (snd y)) \<and>
      (fst (snd y) \<noteq> [] \<longleftrightarrow> sr_error (fst y) = HttpError_None \<and> \<not> sr_eof (fst y)) \<and>
      io_tick w < io_tick (snd (snd y))"
  using assms
proof (induction rule: receive.raw_induct [rotated, consumes 1, case_names step])
  case (step rec os s capacity w y)
  show ?case
  proof (cases "sd_deadline s \<le> os_now os (io_tick w)")
    case True
    with step(2) show ?thesis
      by (auto simp: remainingMilliseconds_eq intro!: exI [of _ "[]"])
  next
    case False
    show ?thesis
    proof (cases "os_recv os (Suc (io_tick w)) (sd_fd s) capacity")
      case (SysOk bytes)
      with step(2) False show ?thesis
        by (auto simp: remainingMilliseconds_eq sys_recv_def sent_on_def split: if_splits
            intro!: exI [of _ "[Received (sd_fd s) bytes]"])
    next
      case (SysErr e)
      with step(2) False show ?thesis
        by (fastforce simp: remainingMilliseconds_eq sys_recv_def split: if_splits option.splits
            dest!: waitForSocket_effect dest: step(1))
    qed
  qed
qed

lemma receive_returns:
  assumes "clock_reaches os (sd_deadline s) T"
  shows "receive os s capacity w \<noteq> None"
proof (induction "T - io_tick w" arbitrary: w rule: less_induct)
  case less
  show ?case
  proof (cases "sd_deadline s \<le> os_now os (io_tick w)")
    case True
    then show ?thesis
      by (subst receive.simps) (auto simp: remainingMilliseconds_eq)
  next
    case False
    with assms have t: "io_tick w < T" by (meson clock_reaches_def not_le_imp_less)
    have again: "receive os s capacity w' \<noteq> None" if "io_tick w < io_tick w'" for w'
      using t that by (intro less.hyps) simp
    have wait: "\<exists>e w'. waitForSocket os (sd_fd s) POLLIN (sd_deadline s) ReceiveFailed w2 = Some (e, w') \<and>
        io_tick w2 < io_tick w'" for w2
      using waitForSocket_returns [OF assms, of "sd_fd s" POLLIN ReceiveFailed w2] waitForSocket_effect by fastforce
    show ?thesis
      using wait [of "io_step [] (io_step [] w)"] False
      by (subst receive.simps)
        (auto simp: remainingMilliseconds_eq sys_recv_def split: sysres.splits intro!: again [simplified])
  qed
qed

section \<open>Connecting\<close>

text \<open>
  The events of a connection attempt leave open what was open before and the descriptor of the
  socket that is returned, and send nothing.
\<close>

definition keeps_only :: "SocketDeadline option \<Rightarrow> io_event list \<Rightarrow> bool" where
  "keeps_only so es \<longleftrightarrow>
     (\<forall>fds. set (open_fds fds es) \<subseteq> set fds \<union> sd_fd ` set_option so) \<and>
     (\<forall>s fds. so = Some s \<longrightarrow> sd_fd s \<in> set (open_fds fds es)) \<and>
     (\<forall>f. sent_on f es = [] \<and> received_on f es = [])"

definition attempt :: "time_point \<Rightarrow> io \<Rightarrow> SocketDeadline option \<times> HttpError \<times> io \<Rightarrow> bool" where
  "attempt deadline w y \<longleftrightarrow>
     (case y of (so, e, w') \<Rightarrow>
        (\<exists>es. io_log w' = io_log w @ es \<and> keeps_only so es) \<and> io_tick w \<le> io_tick w' \<and>
        (case so of Some s \<Rightarrow> sd_deadline s = deadline \<and> 0 \<le> sd_fd s \<and> e = HttpError_None
         | None \<Rightarrow> e \<in> {DeadlineExceeded, ConnectFailed}))"

lemma keeps_only_Nil: "keeps_only None []"
  by (simp add: keeps_only_def)

lemma keeps_only_one: "keeps_only (Some s) [Opened (sd_fd s)]"
  by (auto simp: keeps_only_def sent_on_def received_on_def)

lemma keeps_only_closed:
  assumes "keeps_only so es"
  shows "keeps_only so ([Opened fd, Closed fd] @ es)"
proof -
  have "set (open_fds (removeAll fd fds) es) \<subseteq> set fds \<union> sd_fd ` set_option so" for fds
    using assms unfolding keeps_only_def by (metis (no_types, lifting) Diff_subset Un_mono dual_order.refl
        order_trans set_removeAll)
  with assms show ?thesis by (simp add: keeps_only_def sent_on_def received_on_def)
qed

lemma attempt_same: "attempt deadline w1 y \<Longrightarrow> io_log w1 = io_log w \<Longrightarrow> io_tick w \<le> io_tick w1 \<Longrightarrow> attempt deadline w y"
  by (auto simp: attempt_def)

lemma attempt_closed:
  assumes "attempt deadline w1 y" and "io_log w1 = io_log w @ [Opened fd, Closed fd]" and "io_tick w \<le> io_tick w1"
  shows "attempt deadline w y"
proof -
  obtain so e w' where y: "y = (so, e, w')" by (metis prod_cases3)
  with assms(1) obtain es where "io_log w' = io_log w1 @ es" "keeps_only so es"
    by (auto simp: attempt_def)
  then have "io_log w' = io_log w @ ([Opened fd, Closed fd] @ es)" "keeps_only so ([Opened fd, Closed fd] @ es)"
    using assms(2) keeps_only_closed by simp_all
  with assms y show ?thesis by (auto simp: attempt_def)
qed

lemma attempt_failed:
  "io_log w' = io_log w \<or> io_log w' = io_log w @ [Opened fd, Closed fd] \<Longrightarrow> io_tick w \<le> io_tick w' \<Longrightarrow>
   e \<in> {DeadlineExceeded, ConnectFailed} \<Longrightarrow> attempt deadline w (None, e, w')"
  using keeps_only_Nil keeps_only_closed [OF keeps_only_Nil, of fd] by (auto simp: attempt_def)

lemma attempt_connected:
  "io_log w' = io_log w @ [Opened fd] \<Longrightarrow> io_tick w \<le> io_tick w' \<Longrightarrow> 0 \<le> fd \<Longrightarrow>
   attempt deadline w (Some \<lparr>sd_fd = fd, sd_deadline = deadline\<rparr>, HttpError_None, w')"
  using keeps_only_one [of "\<lparr>sd_fd = fd, sd_deadline = deadline\<rparr>"] by (auto simp: attempt_def)

lemma connect_loop_attempt:
  assumes "os_descriptors_ok os" and "connect_loop os deadline addresses w = Some y"
  shows "attempt deadline w y"
  using assms(2)
proof (induction addresses arbitrary: w)
  case Nil
  then show ?case by (auto intro: attempt_failed)
next
  case (Cons address rest)
  show ?case
  proof (cases "deadline \<le> os_now os (io_tick w)")
    case True
    with Cons.prems show ?thesis by (auto simp: remainingMilliseconds_eq intro!: attempt_failed)
  next
    case False
    show ?thesis
    proof (cases "os_socket os (Suc (io_tick w))")
      case (SysErr e)
      with Cons.prems False have "connect_loop os deadline rest (io_step [] (io_step [] w)) = Some y"
        by (simp add: remainingMilliseconds_eq sys_socket_def)
      from attempt_same [OF Cons.IH [OF this]] show ?thesis by simp
    next
      case (SysOk fd)
      with assms(1) have fd: "0 \<le> fd" by (simp add: os_descriptors_ok_def)
      let ?w3 = "io_step [] (io_step [Opened fd] (io_step [] w))"
      have destroy: "UniqueFd_destroy fd v = io_step [Closed fd] v" for v
        using fd by (simp add: UniqueFd_destroy_def sys_close_def)
      have again: "attempt deadline w y"
        if "connect_loop os deadline rest (io_step [Closed fd] v) = Some y"
           "io_log v = io_log w @ [Opened fd]" "io_tick w \<le> io_tick v" for v
        using attempt_closed [OF Cons.IH [OF that(1)], of w fd] that(2,3) by simp
      note unfold = remainingMilliseconds_eq sys_socket_def sys_connect_def sys_so_error_def destroy
      show ?thesis
        using Cons.prems False SysOk fd
        by (auto simp: unfold split: sysres.splits if_splits option.splits dest!: waitForSocket_effect
            intro!: attempt_connected attempt_failed) (erule again; simp)+
    qed
  qed
qed

lemma connect_loop_returns:
  assumes "clock_reaches os deadline T"
  shows "connect_loop os deadline addresses w \<noteq> None"
proof (induction addresses arbitrary: w)
  case Nil
  show ?case by simp
next
  case (Cons address rest)
  show ?case
    by (auto simp: remainingMilliseconds_eq sys_socket_def sys_connect_def sys_so_error_def
        waitForSocket_returns [OF assms] Cons.IH [simplified] split: sysres.splits option.splits)
qed

text \<open>What \<open>connect\<close> does, with the deadline it computes.\<close>

lemma connect_cases:
  assumes "os_descriptors_ok os" and "connect os host port timeout_ms not_after w = Some (so, e, w')"
  obtains (expired) "so = None" "e = DeadlineExceeded" "io_log w' = io_log w" "not_after \<noteq> None"
  | (unresolved) "so = None" "e = ResolveFailed" "io_log w' = io_log w"
  | (tried) now w1 w2 where "attempt (case not_after of Some limit \<Rightarrow> min (now + timeout_ms * 1000000) limit
        | None \<Rightarrow> now + timeout_ms * 1000000) w1 (so, e, w2)"
      "io_log w1 = io_log w" "io_log w' = io_log w2 @ [AddressesFreed]"
proof (cases not_after)
  case None
  note tried' = tried [unfolded None option.case]
  from assms(2) None show thesis
    by (auto simp: connect_def sys_now_def sys_getaddrinfo_def sys_freeaddrinfo_def Let_def
        split: sum.splits dest!: connect_loop_attempt [OF assms(1)] intro: unresolved tried')
next
  case (Some limit)
  note tried' = tried [unfolded Some option.case]
  from assms(2) Some show thesis
    by (auto simp: connect_def sys_now_def sys_getaddrinfo_def sys_freeaddrinfo_def Let_def
        split: sum.splits if_splits dest!: connect_loop_attempt [OF assms(1)]
        intro: expired unresolved tried')
qed

lemma keeps_only_snoc: "keeps_only so es \<Longrightarrow> keeps_only so (es @ [AddressesFreed])"
  by (auto simp: keeps_only_def sent_on_def received_on_def)

lemma connect_effect:
  assumes "os_descriptors_ok os" and "connect os host port timeout_ms not_after w = Some (so, e, w')"
  shows "\<exists>es. io_log w' = io_log w @ es \<and> keeps_only so es \<and>
    (case so of
       None \<Rightarrow> e \<in> {DeadlineExceeded, ResolveFailed, ConnectFailed}
     | Some s \<Rightarrow> e = HttpError_None \<and> 0 \<le> sd_fd s \<and> (case not_after of None \<Rightarrow> True | Some limit \<Rightarrow> sd_deadline s \<le> limit))"
  using assms
proof (cases rule: connect_cases)
  case expired
  then show ?thesis using keeps_only_Nil by (intro exI [of _ "[]"]) simp
next
  case unresolved
  then show ?thesis using keeps_only_Nil by (intro exI [of _ "[]"]) simp
next
  case (tried now w1 w2)
  from tried(1) obtain es where "io_log w2 = io_log w1 @ es" "keeps_only so es"
    by (auto simp: attempt_def)
  with tried show ?thesis
    by (intro exI [of _ "es @ [AddressesFreed]"])
      (auto simp: attempt_def keeps_only_snoc split: option.splits)
qed

lemma connect_returns:
  assumes "clock_advances os"
  shows "connect os host port timeout_ms not_after w \<noteq> None"
proof -
  have loop: "connect_loop os d addresses w \<noteq> None" for d addresses w
    using assms connect_loop_returns by (metis clock_advances_def)
  then show ?thesis
    by (auto simp: connect_def sys_now_def sys_getaddrinfo_def Let_def split: option.splits sum.splits)
qed

section \<open>Theorems\<close>

text \<open>
  Sending under a deadline puts on the socket a prefix of the data, in order and nothing else, and
  when it reports success the whole of it; no other socket is written.
\<close>

theorem sendAll_exact:
  "case sendAll os s data w of
     None \<Rightarrow> True
   | Some (e, w') \<Rightarrow>
       \<exists>es k. io_log w' = io_log w @ es \<and> sent_on (sd_fd s) es = take k data \<and>
         (e = HttpError_None \<longrightarrow> sent_on (sd_fd s) es = data) \<and> (\<forall>f. f = sd_fd s \<or> sent_on f es = [])"
proof (cases "sendAll os s data w")
  case (Some y)
  then have "sends (sd_fd s) data w y"
    using sendAll_loop_sends [of os s data 0 w y] by (simp add: sendAll_def)
  with Some show ?thesis by (cases y) (auto simp: sends_def)
qed simp

theorem sendAll_exact_witness:
  "\<exists>w'. sendAll sample_os \<lparr>sd_fd = 5, sd_deadline = 10 ^ 9\<rparr> ''payload'' io_new = Some (HttpError_None, w') \<and>
     (\<exists>es. io_log w' = es \<and> sent_on 5 es = ''payload'')"
proof -
  let ?s = "\<lparr>sd_fd = 5, sd_deadline = 10 ^ 9\<rparr>"
  have "\<exists>w'. sendAll sample_os ?s ''payload'' io_new = Some (HttpError_None, w')"
    by (simp add: sendAll_def sendAll_loop.simps sample_os_def io_new_def remainingMilliseconds_eq sys_send_def)
  then obtain w' where w': "sendAll sample_os ?s ''payload'' io_new = Some (HttpError_None, w')" by blast
  with sendAll_exact [where os = sample_os and s = ?s and data = "''payload''" and w = io_new] show ?thesis by (auto simp: io_new_def)
qed

text \<open>
  No operation outlives its deadline.  On a system whose clock advances, connecting, sending and
  receiving all return, whatever the kernel answers: interrupted calls, spurious wake-ups and sockets
  that never become ready included.
\<close>

theorem socket_operations_return:
  assumes "clock_advances os"
  shows "connect os host port timeout_ms not_after w \<noteq> None \<and>
    sendAll os s data w \<noteq> None \<and> receive os s capacity w \<noteq> None"
proof -
  from assms obtain T where T: "clock_reaches os (sd_deadline s) T" by (auto simp: clock_advances_def)
  from connect_returns [OF assms] sendAll_loop_returns [OF T] receive_returns [OF T]
  show ?thesis by (simp add: sendAll_def)
qed

theorem socket_operations_return_witness:
  "connect sample_os ''localhost'' 8080 1000 None io_new \<noteq> None \<and>
   sendAll sample_os \<lparr>sd_fd = 5, sd_deadline = 0\<rparr> ''x'' io_new \<noteq> None \<and>
   receive sample_os \<lparr>sd_fd = 5, sd_deadline = 0\<rparr> 16 io_new \<noteq> None"
  by (rule socket_operations_return [OF sample_os_ok(3)])



end
