(* ===== verification/ControlPlaneClient.thy ===== *)
theory ControlPlaneClient
  imports RuntimeConfig HttpResponseParser SocketDeadline
begin

text \<open>
  The HTTP client of the control plane: \<^verbatim>\<open>src/control/ControlPlaneClient.cpp\<close>.  One request is one
  connection: connect, send, receive until the response parser has finished, close.

  An operation that may throw has a sum as its result, and the whole is an option because the socket
  loops are.  The text parser of the JSON library is the parameter \<open>parse\<close>.  Log lines are not part of
  the state here.

  The theorems: a request always returns and closes its socket; what is sent is one well-formed
  request that no configured or supplied value can break out of; and authentication is granted or
  denied only on the word of a complete successful response.
\<close>

record ControlPlaneClient =
  cp_host :: string
  cp_port :: int
  cp_timeout_ms :: int
  cp_gateway_token :: string

definition validateHeaderValue :: "string \<Rightarrow> string \<Rightarrow> cpp_exn + unit" where
  "validateHeaderValue name value =
     (if CR \<in> set value \<or> LF \<in> set value
      then Inl (InvalidArgument (name @ '' must not contain CR or LF'')) else Inr ())"

definition ControlPlaneClient_new ::
  "string \<Rightarrow> int \<Rightarrow> int \<Rightarrow> string \<Rightarrow> cpp_exn + ControlPlaneClient" where
  "ControlPlaneClient_new host port timeout_ms gateway_token =
     (if host = [] then Inl (InvalidArgument ''control plane host must not be empty'')
      else if port < 1 \<or> port > 65535
      then Inl (InvalidArgument ''control plane port must be in [1, 65535]'')
      else if timeout_ms \<le> 0 then Inl (InvalidArgument ''control plane timeout must be positive'')
      else
        try_bind (validateHeaderValue ''control plane host'' host) (\<lambda>_.
        try_bind (validateHeaderValue ''gateway token'' gateway_token) (\<lambda>_.
        Inr \<lparr>cp_host = host, cp_port = port, cp_timeout_ms = timeout_ms,
             cp_gateway_token = gateway_token\<rparr>)))"

definition hostHeader :: "ControlPlaneClient \<Rightarrow> string" where
  "hostHeader c =
     (let host = cp_host c;
          host1 = (if CHR '':'' \<in> set host \<and>
                      \<not> (length host \<ge> 2 \<and> hd host = CHR ''['' \<and> last host = CHR '']'')
                   then CHR ''['' # host @ '']'' else host)
      in host1 @ '':'' @ show_int (cp_port c))"

text \<open>The text of the request, as it is streamed together.\<close>

definition serialize_request :: "ControlPlaneClient \<Rightarrow> string \<Rightarrow> string \<Rightarrow> string \<Rightarrow> string" where
  "serialize_request c method path body =
     method @ '' '' @ path @ '' HTTP/1.1'' @ CRLF @
     ''Host: '' @ hostHeader c @ CRLF @
     ''Accept: application/json'' @ CRLF @
     ''X-Gateway-Token: '' @ cp_gateway_token c @ CRLF @
     (if method = ''POST''
      then ''Content-Type: application/json'' @ CRLF @
           ''Content-Length: '' @ show_nat (length body) @ CRLF
      else []) @
     ''Connection: close'' @ CRLF @ CRLF @
     (if method = ''POST'' then body else [])"

partial_function (option) response_loop ::
  "os \<Rightarrow> SocketDeadline \<Rightarrow> HttpResponseParser \<Rightarrow> io \<Rightarrow> (HttpResponseParser \<times> io) option" where
  "response_loop os s parser w =
     (if hp_done parser then Some (parser, w)
      else
        (case receive os s 4096 w of
           None \<Rightarrow> None
         | Some (received, buffer, w1) \<Rightarrow>
             if sr_error received \<noteq> HttpError_None
             then Some (finishOnTransportError (sr_error received) parser, w1)
             else if sr_eof received then Some (finishOnEof parser, w1)
             else response_loop os s (consume (take (sr_size received) buffer) parser) w1))"

definition requestJsonOnce ::
  "os \<Rightarrow> ControlPlaneClient \<Rightarrow> string \<Rightarrow> string \<Rightarrow> string \<Rightarrow> time_point option \<Rightarrow> io \<Rightarrow>
   ((cpp_exn + HttpResult) \<times> io) option" where
  "requestJsonOnce os c method path body not_after w =
     (case try_bind (validateHeaderValue ''HTTP method'' method)
             (\<lambda>_. validateHeaderValue ''HTTP path'' path) of
        Inl e \<Rightarrow> Some (Inl e, w)
      | Inr _ \<Rightarrow>
          if path = [] \<or> hd path \<noteq> CHR ''/'' \<or> (method \<noteq> ''GET'' \<and> method \<noteq> ''POST'')
          then Some (Inr \<lparr>hr_error = MalformedResponse, hr_status_code = 0, hr_body = []\<rparr>, w)
          else
            (case connect os (cp_host c) (cp_port c) (cp_timeout_ms c) not_after w of
               None \<Rightarrow> None
             | Some (None, connect_error, w1) \<Rightarrow>
                 Some (Inr \<lparr>hr_error = connect_error, hr_status_code = 0, hr_body = []\<rparr>, w1)
             | Some (Some s, _, w1) \<Rightarrow>
                 (case sendAll os s (serialize_request c method path body) w1 of
                    None \<Rightarrow> None
                  | Some (sent, w2) \<Rightarrow>
                      if sent \<noteq> HttpError_None
                      then Some (Inr \<lparr>hr_error = sent, hr_status_code = 0, hr_body = []\<rparr>,
                                 snd (closeSocket s w2))
                      else
                        (case response_loop os s parser_new w2 of
                           None \<Rightarrow> None
                         | Some (parser, w3) \<Rightarrow>
                             Some (Inr (takeResult parser), snd (closeSocket s w3))))))"

definition requestJson ::
  "os \<Rightarrow> ControlPlaneClient \<Rightarrow> string \<Rightarrow> string \<Rightarrow> string \<Rightarrow> time_point option \<Rightarrow> io \<Rightarrow>
   ((cpp_exn + HttpResult) \<times> io) option" where
  "requestJson os c method path body not_after w = requestJsonOnce os c method path body not_after w"

text \<open>The \<^verbatim>\<open>try\<close> block of \<^verbatim>\<open>checkAuth\<close>, on the body of a successful response.\<close>

definition auth_reason :: "json \<Rightarrow> string \<Rightarrow> cpp_exn + string" where
  "auth_reason body dflt =
     try_bind (if contains body ''code'' then json_index body ''code'' else Inr JNull) (\<lambda>code.
       if is_string code then get_string code
       else
         try_bind (if contains body ''reason'' then json_index body ''reason'' else Inr JNull) (\<lambda>reason.
           if is_string reason then get_string reason else Inr dflt))"

definition checkAuth_body :: "json_parser \<Rightarrow> string \<Rightarrow> AuthResult \<Rightarrow> cpp_exn + AuthResult" where
  "checkAuth_body parse text result =
     try_bind (parse text) (\<lambda>body.
       if \<not> is_object body \<or> \<not> contains body ''allowed''
       then Inr (result\<lparr>ar_http_error := InvalidJson\<rparr>)
       else
         try_bind (json_index body ''allowed'') (\<lambda>allowed.
           if \<not> is_boolean allowed then Inr (result\<lparr>ar_http_error := InvalidJson\<rparr>)
           else
             try_bind (auth_reason body (ar_reason_code result)) (\<lambda>reason.
             try_bind (get_bool allowed) (\<lambda>a.
             Inr (result\<lparr>ar_reason_code := reason,
                         ar_outcome := (if a then Allowed else Denied)\<rparr>)))))"

definition checkAuth ::
  "json_parser \<Rightarrow> os \<Rightarrow> ControlPlaneClient \<Rightarrow> string \<Rightarrow> string \<Rightarrow> time_point option \<Rightarrow> io \<Rightarrow>
   ((cpp_exn + AuthResult) \<times> io) option" where
  "checkAuth parse os c client_id token not_after w =
     (case dump (json_object [(''client_id'', JString client_id), (''token'', JString token)]) of
        Inl e \<Rightarrow> Some (Inl e, w)
      | Inr payload \<Rightarrow>
          (case requestJson os c ''POST'' ''/auth/check'' payload not_after w of
             None \<Rightarrow> None
           | Some (Inl e, w1) \<Rightarrow> Some (Inl e, w1)
           | Some (Inr response, w1) \<Rightarrow>
               let result = AuthResult_default\<lparr>ar_http_error := hr_error response,
                                               ar_http_status := hr_status_code response\<rparr>
               in if \<not> http_ok response then Some (Inr result, w1)
                  else
                    (case checkAuth_body parse (hr_body response) result of
                       Inl _ \<Rightarrow> Some (Inr (result\<lparr>ar_http_error := InvalidJson\<rparr>), w1)
                     | Inr r \<Rightarrow> Some (Inr r, w1))))"

text \<open>The configuration that is assigned when the result is \<^verbatim>\<open>true\<close>.\<close>

definition fetchConfig ::
  "json_parser \<Rightarrow> os \<Rightarrow> ControlPlaneClient \<Rightarrow> io \<Rightarrow> ((cpp_exn + RuntimeConfig option) \<times> io) option" where
  "fetchConfig parse os c w =
     (case requestJson os c ''GET'' ''/config'' [] None w of
        None \<Rightarrow> None
      | Some (Inl e, w1) \<Rightarrow> Some (Inl e, w1)
      | Some (Inr response, w1) \<Rightarrow>
          if \<not> http_ok response then Some (Inr None, w1)
          else Some (Inr (parseRuntimeConfig parse (hr_body response)), w1))"

section \<open>One exchange\<close>

lemma finish_error:
  assumes "\<not> hp_done p" and "e \<noteq> HttpError_None"
  shows "hp_done (finishOnTransportError e p) \<and> hr_error (takeResult (finishOnTransportError e p)) \<noteq> HttpError_None \<and>
         hp_done (finishOnEof p) \<and> hr_error (takeResult (finishOnEof p)) \<noteq> HttpError_None"
  using assms by (simp add: finishOnTransportError_def finishOnEof_def takeResult_def)

definition reads :: "int \<Rightarrow> HttpResponseParser \<Rightarrow> io \<Rightarrow> HttpResponseParser \<times> io \<Rightarrow> bool" where
  "reads fd p w y \<longleftrightarrow>
     (\<exists>es chunks. io_log (snd y) = io_log w @ es \<and> received_on fd es = concat chunks \<and> fd_neutral es \<and>
        (\<forall>f. sent_on f es = []) \<and> hp_done (fst y) \<and>
        (fst y = fold consume chunks p \<or> hr_error (takeResult (fst y)) \<noteq> HttpError_None))"

lemma reads_more:
  assumes "reads fd (consume bs p) w1 y" and "io_log w1 = io_log w @ es" and "received_on fd es = bs"
    and "fd_neutral es" and "\<forall>f. sent_on f es = []"
  shows "reads fd p w y"
proof -
  from assms(1) obtain es' chunks where "io_log (snd y) = io_log w1 @ es'" "received_on fd es' = concat chunks"
    "fd_neutral es'" "\<forall>f. sent_on f es' = []" "hp_done (fst y)"
    "fst y = fold consume chunks (consume bs p) \<or> hr_error (takeResult (fst y)) \<noteq> HttpError_None"
    unfolding reads_def by blast
  with assms show ?thesis
    unfolding reads_def by (intro exI [of _ "es @ es'"] exI [of _ "bs # chunks"]) simp
qed

lemma response_loop_reads:
  assumes "response_loop os s p w = Some y"
  shows "reads (sd_fd s) p w y"
  using assms
proof (induction rule: response_loop.raw_induct [rotated, consumes 1, case_names step])
  case (step rec os s p w y)
  show ?case
  proof (cases "hp_done p")
    case True
    with step(2) show ?thesis
      unfolding reads_def by (intro exI [of _ "[]"]) (auto intro!: exI [of _ "[]"])
  next
    case False
    with step(2) obtain r buf w1 where rcv: "receive os s 4096 w = Some (r, buf, w1)"
      by (auto split: option.splits)
    from receive_effect [OF this] obtain es where es: "io_log w1 = io_log w @ es" "received_on (sd_fd s) es = buf"
      "fd_neutral es" "\<forall>f. sent_on f es = []" "sr_size r = length buf"
      "buf \<noteq> [] \<longleftrightarrow> sr_error r = HttpError_None \<and> \<not> sr_eof r"
      by auto
    have stop: "reads (sd_fd s) p w (q, w1)"
      if "hp_done q" "hr_error (takeResult q) \<noteq> HttpError_None" for q
      using that es unfolding reads_def by (intro exI [of _ es] exI [of _ "[buf]"]) simp
    show ?thesis
    proof (cases "sr_error r \<noteq> HttpError_None \<or> sr_eof r")
      case True
      with step(2) False rcv have "y = (finishOnTransportError (sr_error r) p, w1) \<and> sr_error r \<noteq> HttpError_None \<or>
          y = (finishOnEof p, w1)" by (auto split: if_splits)
      with stop finish_error [OF False] show ?thesis by (metis HttpError.distinct(1))
    next
      case more: False
      with step(2) False rcv es(5) have "rec os s (consume buf p) w1 = Some y" by simp
      from reads_more [OF step(1) [OF this] es(1-4)] show ?thesis .
    qed
  qed
qed

lemma response_loop_returns:
  assumes "clock_reaches os (sd_deadline s) T"
  shows "response_loop os s p w \<noteq> None"
proof (induction "T - io_tick w" arbitrary: p w rule: less_induct)
  case less
  obtain r buf w1 where rcv: "receive os s 4096 w = Some (r, buf, w1)"
    using receive_returns [OF assms] by (metis not_None_eq prod_cases3)
  then have tick: "io_tick w < io_tick w1" using receive_effect by fastforce
  show ?case
  proof (cases "io_tick w < T")
    case True
    with tick have "response_loop os s (consume (take (sr_size r) buf) p) w1 \<noteq> None"
      by (intro less.hyps) simp
    with rcv show ?thesis by (subst response_loop.simps) simp
  next
    case False
    with assms have "sd_deadline s \<le> os_now os (io_tick w)" by (simp add: clock_reaches_def)
    then have "receive os s 4096 w = Some (\<lparr>sr_error = DeadlineExceeded, sr_size = 0, sr_eof = False\<rparr>, [], io_step [] w)"
      by (subst receive.simps) (simp add: remainingMilliseconds_eq)
    then show ?thesis by (subst response_loop.simps) simp
  qed
qed

text \<open>
  The outcome of an exchange: the request went out in full on one socket, and the body of the result
  is part of what came back on it.
\<close>

definition answered :: "string \<Rightarrow> io_event list \<Rightarrow> HttpResult \<Rightarrow> bool" where
  "answered request es res \<longleftrightarrow>
     (\<exists>fd h rest. sent_on fd es = request \<and> received_on fd es = h @ hr_body res @ rest \<and>
        length h \<le> MAX_CONTROL_PLANE_HTTP_HEADER_BYTES \<and>
        length (hr_body res) \<le> MAX_CONTROL_PLANE_HTTP_BODY_BYTES)"

definition closes_all :: "io_event list \<Rightarrow> bool" where
  "closes_all es \<longleftrightarrow> (\<forall>fds. set (open_fds fds es) \<subseteq> set fds)"

lemma closes_all_neutral: "fd_neutral es \<Longrightarrow> closes_all es"
  by (simp add: fd_neutral_def closes_all_def)

lemma closes_all_session:
  assumes "keeps_only (Some s) es" and "fd_neutral es'"
  shows "closes_all (es @ es' @ [Closed (sd_fd s)])"
  using assms unfolding closes_all_def keeps_only_def fd_neutral_def by fastforce

lemma sendAll_sends:
  assumes "sendAll os s data w = Some (e, w')"
  obtains es where "io_log w' = io_log w @ es" "e = HttpError_None \<longrightarrow> sent_on (sd_fd s) es = data" "fd_neutral es"
      "received_on (sd_fd s) es = []"
  using sendAll_loop_sends [of os s data 0 w "(e, w')"] assms by (auto simp: sendAll_def sends_def)

lemma requestJsonOnce_cases:
  assumes "requestJsonOnce os c method path body not_after w = Some (r, w')"
  obtains (early) "w' = w" "\<forall>res. r = Inr res \<longrightarrow> \<not> http_ok res"
  | (unconnected) e where
      "connect os (cp_host c) (cp_port c) (cp_timeout_ms c) not_after w = Some (None, e, w')"
      "r = Inr \<lparr>hr_error = e, hr_status_code = 0, hr_body = []\<rparr>"
  | (unsent) s e w1 sent w2 where
      "connect os (cp_host c) (cp_port c) (cp_timeout_ms c) not_after w = Some (Some s, e, w1)"
      "sendAll os s (serialize_request c method path body) w1 = Some (sent, w2)" "sent \<noteq> HttpError_None"
      "w' = snd (closeSocket s w2)" "r = Inr \<lparr>hr_error = sent, hr_status_code = 0, hr_body = []\<rparr>"
  | (complete) s e w1 w2 p w3 where
      "connect os (cp_host c) (cp_port c) (cp_timeout_ms c) not_after w = Some (Some s, e, w1)"
      "sendAll os s (serialize_request c method path body) w1 = Some (HttpError_None, w2)"
      "response_loop os s parser_new w2 = Some (p, w3)"
      "w' = snd (closeSocket s w3)" "r = Inr (takeResult p)"
  using assms unfolding requestJsonOnce_def
  by (auto simp: http_ok_def split: sum.splits if_splits option.splits)

lemma requestJsonOnce_effect:
  assumes ok: "os_descriptors_ok os"
    and run: "requestJsonOnce os c method path body not_after w = Some (r, w')"
  shows "\<exists>es. io_log w' = io_log w @ es \<and> closes_all es \<and>
    (\<forall>res. r = Inr res \<and> http_ok res \<longrightarrow> answered (serialize_request c method path body) es res)"
  using run
proof (cases rule: requestJsonOnce_cases)
  case early
  then show ?thesis by (intro exI [of _ "[]"]) (auto simp: closes_all_neutral)
next
  case (unconnected e)
  with connect_effect [OF ok unconnected(1)] show ?thesis
    by (auto simp: closes_all_def keeps_only_def http_ok_def)
next
  case (unsent s e w1 sent w2)
  from connect_effect [OF ok unsent(1)] obtain es where es: "io_log w1 = io_log w @ es" "keeps_only (Some s) es" "0 \<le> sd_fd s"
    by auto
  from unsent(2) obtain es' where es': "io_log w2 = io_log w1 @ es'" "fd_neutral es'" by (rule sendAll_sends)
  from unsent es es' closes_all_session [OF es(2) es'(2)] show ?thesis
    by (intro exI [of _ "es @ es' @ [Closed (sd_fd s)]"]) (simp add: closeSocket_def sys_close_def http_ok_def)
next
  case (complete s e w1 w2 p w3)
  let ?req = "serialize_request c method path body"
  from connect_effect [OF ok complete(1)] obtain es where es: "io_log w1 = io_log w @ es" "keeps_only (Some s) es" "0 \<le> sd_fd s"
    by auto
  from complete(2) obtain es1 where es1: "io_log w2 = io_log w1 @ es1" "sent_on (sd_fd s) es1 = ?req"
    "fd_neutral es1" "received_on (sd_fd s) es1 = []" by (rule sendAll_sends) simp
  from response_loop_reads [OF complete(3)] obtain es2 chunks where es2: "io_log w3 = io_log w2 @ es2"
    "received_on (sd_fd s) es2 = concat chunks" "fd_neutral es2" "\<forall>f. sent_on f es2 = []" "hp_done p"
    "p = fold consume chunks parser_new \<or> hr_error (takeResult p) \<noteq> HttpError_None"
    by (auto simp: reads_def)
  let ?es = "es @ (es1 @ es2) @ [Closed (sd_fd s)]"
  have "io_log w' = io_log w @ ?es"
    using complete(4) es es1 es2 by (simp add: closeSocket_def sys_close_def)
  moreover have "closes_all ?es" using es1(3) es2(3) by (intro closes_all_session [OF es(2)]) simp
  moreover have "answered ?req ?es (takeResult p)" if "http_ok (takeResult p)"
  proof -
    from that es2(6) have p: "p = fold consume chunks parser_new" by (simp add: http_ok_def)
    from parse_result_shape [OF p es2(5)] that obtain h rest where
      "concat chunks = h @ hr_body (takeResult p) @ rest" "length h \<le> MAX_CONTROL_PLANE_HTTP_HEADER_BYTES"
      "length (hr_body (takeResult p)) \<le> MAX_CONTROL_PLANE_HTTP_BODY_BYTES"
      by (auto simp: http_ok_def)
    moreover have "sent_on (sd_fd s) ?es = ?req" "received_on (sd_fd s) ?es = concat chunks"
      using es es1 es2 by (simp_all add: keeps_only_def sent_on_def [of _ "[_]"] received_on_def [of _ "[_]"])
    ultimately show ?thesis unfolding answered_def by metis
  qed
  ultimately show ?thesis using complete(5) by auto
qed

lemma requestJsonOnce_returns:
  assumes "clock_advances os"
  shows "requestJsonOnce os c method path body not_after w \<noteq> None"
proof -
  have loop: "response_loop os s p w \<noteq> None" for s p w
    using assms response_loop_returns by (metis clock_advances_def)
  have send: "sendAll os s data w \<noteq> None" for s data w
    using assms sendAll_loop_returns by (metis clock_advances_def sendAll_def)
  show ?thesis
    by (auto simp: requestJsonOnce_def connect_returns [OF assms] loop send split: sum.splits option.splits)
qed

section \<open>An exchange with a concrete server\<close>

definition reply_os :: "string \<Rightarrow> os" where
  "reply_os reply = sample_os\<lparr>os_send := \<lambda>_ _ data. SysOk (length data), os_recv := \<lambda>_ _ _. SysOk reply\<rparr>"

definition sample_client :: ControlPlaneClient where
  "sample_client = \<lparr>cp_host = ''localhost'', cp_port = 8080, cp_timeout_ms = 1000, cp_gateway_token = ''t''\<rparr>"

lemma reply_os_ok: "os_descriptors_ok (reply_os reply)"
  using sample_os_ok(2) by (simp add: reply_os_def os_descriptors_ok_def)

lemma reply_os_exchange:
  assumes "hp_done (parse_all reply)" and "reply \<noteq> []" and "path \<noteq> []" "hd path = CHR ''/''"
    "CR \<notin> set path" "LF \<notin> set path" "method = ''GET'' \<or> method = ''POST''"
  shows "\<exists>w'. requestJsonOnce (reply_os reply) sample_client method path body None io_new =
    Some (Inr (takeResult (parse_all reply)), w')"
proof -
  have ne: "serialize_request sample_client method path body \<noteq> []"
    using assms(7) by (auto simp: serialize_request_def)
  have m: "CR \<notin> set method" "LF \<notin> set method" using assms(7) by auto
  show ?thesis
    using assms ne m
    by (auto simp: requestJsonOnce_def validateHeaderValue_def connect_def sys_now_def sys_getaddrinfo_def
        remainingMilliseconds_eq sys_socket_def sys_connect_def sys_freeaddrinfo_def reply_os_def sample_os_def
        sample_client_def io_new_def sendAll_def sendAll_loop.simps sys_send_def response_loop.simps
        receive.simps sys_recv_def parser_new_def)
qed

definition sample_reply :: string where
  "sample_reply = header_block [''HTTP/1.1 200 OK'', content_length_line 2] @ CRLF @ ''{}''"

lemma sample_reply_parsed:
  "hp_done (parse_all sample_reply)"
  "takeResult (parse_all sample_reply) = \<lparr>hr_error = HttpError_None, hr_status_code = 200, hr_body = ''{}''\<rparr>"
proof -
  have st: "valid_status_line ''HTTP/1.1 200 OK''" "status_of_line ''HTTP/1.1 200 OK'' = 200" by code_simp+
  have "hp_done (parse_all sample_reply) \<and> takeResult (parse_all sample_reply) =
      \<lparr>hr_error = (if status_of_line ''HTTP/1.1 200 OK'' < 200 \<or> status_of_line ''HTTP/1.1 200 OK'' \<ge> 300
                   then HttpStatusError else HttpError_None),
       hr_status_code = status_of_line ''HTTP/1.1 200 OK'', hr_body = ''{}''\<rparr>"
    by (rule complete_message_parsed [where hs = "[]" and ks = "[]"])
      (simp_all add: st header_block_def content_length_line_def sample_reply_def numeral_2_eq_2
        show_nat.simps [of "Suc (Suc 0)"] MAX_CONTROL_PLANE_HTTP_HEADER_BYTES_def MAX_CONTROL_PLANE_HTTP_BODY_BYTES_def)
  with st show "hp_done (parse_all sample_reply)"
    "takeResult (parse_all sample_reply) = \<lparr>hr_error = HttpError_None, hr_status_code = 200, hr_body = ''{}''\<rparr>"
    by simp_all
qed

lemma sample_auth_allowed:
  assumes "is_object j" "contains j ''allowed''" "json_index j ''allowed'' = Inr (JBool True)"
    "\<not> contains j ''code''" "\<not> contains j ''reason''"
  shows "\<exists>w'. checkAuth (\<lambda>_. Inr j) (reply_os sample_reply) sample_client ''a'' ''b'' None io_new =
    Some (Inr \<lparr>ar_outcome = Allowed, ar_http_error = HttpError_None, ar_http_status = 200, ar_reason_code = []\<rparr>, w')"
proof -
  have "\<exists>payload. dump (json_object [(''client_id'', JString ''a''), (''token'', JString ''b'')]) = Inr payload"
    by (rule dump_flat_object) (simp add: ascii_def)
  then obtain payload where
    dump: "dump (json_object [(''client_id'', JString ''a''), (''token'', JString ''b'')]) = Inr payload" by blast
  obtain w' where req: "requestJsonOnce (reply_os sample_reply) sample_client ''POST'' ''/auth/check'' payload
      None io_new = Some (Inr (takeResult (parse_all sample_reply)), w')"
    using reply_os_exchange [OF sample_reply_parsed(1), of "''/auth/check''" "''POST''"]
    by (auto simp: sample_reply_def)
  from assms show ?thesis
    unfolding checkAuth_def dump
    by (simp add: requestJson_def req sample_reply_parsed http_ok_def checkAuth_body_def auth_reason_def
        AuthResult_default_def)
qed

lemma calls_return:
  assumes "clock_advances os"
  shows "checkAuth parse os c client_id token not_after w \<noteq> None" "fetchConfig parse os c w \<noteq> None"
  by (auto simp: checkAuth_def fetchConfig_def requestJson_def Let_def requestJsonOnce_returns [OF assms]
      split: sum.splits option.splits)

section \<open>Theorems\<close>

text \<open>
  C36: A call of the control plane always returns.  On a system whose clock advances, both the
  authentication check and the configuration pull come back with a result or an exception, whatever
  the peer and the kernel do.
\<close>

theorem control_plane_calls_return:
  assumes "clock_advances os"
  shows "checkAuth parse os c client_id token not_after w \<noteq> None \<and> fetchConfig parse os c w \<noteq> None"
  using calls_return [OF assms] by simp

theorem control_plane_calls_return_witness:
  "checkAuth (\<lambda>_. Inl JsonParseError) sample_os
     \<lparr>cp_host = ''localhost'', cp_port = 8080, cp_timeout_ms = 1000, cp_gateway_token = []\<rparr>
     ''alice'' ''secret'' None io_new \<noteq> None"
  using control_plane_calls_return [OF sample_os_ok(3), of "\<lambda>_. Inl JsonParseError"
      "\<lparr>cp_host = ''localhost'', cp_port = 8080, cp_timeout_ms = 1000, cp_gateway_token = []\<rparr>"
      "''alice''" "''secret''" None io_new]
  by simp

lemma checkAuth_body_decides:
  assumes "checkAuth_body parse text result = Inr r" and "ar_outcome result = Unavailable"
    and "ar_outcome r \<noteq> Unavailable"
  shows "\<exists>kvs. parse text = Inr (JObject kvs) \<and> map_of kvs ''allowed'' = Some (JBool (ar_outcome r = Allowed))"
proof -
  from assms(1) obtain body where body: "parse text = Inr body"
    unfolding checkAuth_body_def by (auto simp: try_bind_Inr_iff)
  with assms obtain kvs where kvs: "body = JObject kvs"
    unfolding checkAuth_body_def by (cases body) (auto split: if_splits)
  with assms body obtain b where b: "map_of kvs ''allowed'' = Some (JBool b)"
    unfolding checkAuth_body_def
    by (auto simp: split: if_splits) (metis AuthResult.select_convs is_boolean.elims(2))
  with assms body kvs show ?thesis
    unfolding checkAuth_body_def by (auto simp: try_bind_Inr_iff split: if_splits)
qed

lemma checkAuth_decides:
  assumes "os_descriptors_ok os"
    and "checkAuth parse os c client_id token not_after w = Some (Inr r, w')"
  shows "\<exists>es. io_log w' = io_log w @ es \<and> closes_all es \<and>
    (ar_outcome r \<noteq> Unavailable \<longrightarrow>
       (\<exists>payload res kvs.
          dump (json_object [(''client_id'', JString client_id), (''token'', JString token)]) = Inr payload \<and>
          answered (serialize_request c ''POST'' ''/auth/check'' payload) es res \<and> http_ok res \<and>
          parse (hr_body res) = Inr (JObject kvs) \<and>
          map_of kvs ''allowed'' = Some (JBool (ar_outcome r = Allowed))))"
proof -
  from assms(2) obtain payload res where
    payload: "dump (json_object [(''client_id'', JString client_id), (''token'', JString token)]) = Inr payload"
    and req: "requestJsonOnce os c ''POST'' ''/auth/check'' payload not_after w = Some (Inr res, w')"
    by (auto simp: checkAuth_def requestJson_def Let_def split: sum.splits option.splits if_splits)
  let ?result = "AuthResult_default\<lparr>ar_http_error := hr_error res, ar_http_status := hr_status_code res\<rparr>"
  have un: "ar_outcome ?result = Unavailable" by (simp add: AuthResult_default_def)
  have decided: "http_ok res \<and> checkAuth_body parse (hr_body res) ?result = Inr r" if "ar_outcome r \<noteq> Unavailable"
    using assms(2) payload req that un
    by (auto simp: checkAuth_def requestJson_def Let_def split: sum.splits if_splits)
  from requestJsonOnce_effect [OF assms(1) req] obtain es where
    "io_log w' = io_log w @ es" "closes_all es"
    "http_ok res \<longrightarrow> answered (serialize_request c ''POST'' ''/auth/check'' payload) es res" by auto
  with payload decided checkAuth_body_decides [OF _ un] show ?thesis by blast
qed

text \<open>
  Authentication is decided only by the control plane.  Whenever a check returns, its socket is
  closed, and an outcome other than \<open>Unavailable\<close> means that the request with exactly these credentials
  was sent in full, that a complete 2xx response came back on the same socket, and that its body is a
  JSON object whose \<open>allowed\<close> field is the Boolean of the outcome.
\<close>

theorem auth_decision_sound:
  assumes "os_descriptors_ok os"
    and "checkAuth parse os c client_id token not_after w = Some (Inr r, w')"
  shows "\<exists>es. io_log w' = io_log w @ es \<and> closes_all es \<and>
    (ar_outcome r \<noteq> Unavailable \<longrightarrow>
       (\<exists>payload res kvs.
          dump (json_object [(''client_id'', JString client_id), (''token'', JString token)]) = Inr payload \<and>
          answered (serialize_request c ''POST'' ''/auth/check'' payload) es res \<and> http_ok res \<and>
          parse (hr_body res) = Inr (JObject kvs) \<and>
          map_of kvs ''allowed'' = Some (JBool (ar_outcome r = Allowed))))"
  using assms by (rule checkAuth_decides)

theorem auth_decision_sound_witness:
  "\<exists>r w' es. checkAuth (\<lambda>_. Inr (JObject [(''allowed'', JBool True)])) (reply_os sample_reply) sample_client
       ''a'' ''b'' None io_new = Some (Inr r, w') \<and> ar_outcome r = Allowed \<and>
     io_log w' = io_log io_new @ es \<and> closes_all es"
proof -
  obtain w' where "checkAuth (\<lambda>_. Inr (JObject [(''allowed'', JBool True)])) (reply_os sample_reply) sample_client
      ''a'' ''b'' None io_new =
      Some (Inr \<lparr>ar_outcome = Allowed, ar_http_error = HttpError_None, ar_http_status = 200, ar_reason_code = []\<rparr>, w')"
    using sample_auth_allowed [of "JObject [(''allowed'', JBool True)]"] by auto
  with auth_decision_sound [OF reply_os_ok this] show ?thesis by fastforce
qed

text \<open>
  A client that was constructed sends well-formed requests: the request line and the header fields
  are separate lines none of which contains a line break, whatever the configured host and token are,
  followed by one blank line and, for a POST, exactly the body whose length is announced.
\<close>

theorem request_well_formed:
  assumes "ControlPlaneClient_new host port timeout_ms gateway_token = Inr c"
    and "CR \<notin> set path" and "LF \<notin> set path"
  shows "\<exists>ls. (\<forall>l\<in>set ls. l \<noteq> [] \<and> CR \<notin> set l \<and> LF \<notin> set l) \<and>
     serialize_request c ''POST'' path body =
       header_block ((''POST '' @ path @ '' HTTP/1.1'') # (''Host: '' @ hostHeader c) # ls @
                     [content_length_line (length body), ''Connection: close'']) @ CRLF @ body \<and>
     serialize_request c ''GET'' path body =
       header_block ((''GET '' @ path @ '' HTTP/1.1'') # (''Host: '' @ hostHeader c) # butlast ls @
                     [''Connection: close'']) @ CRLF \<and>
     CR \<notin> set (hostHeader c) \<and> LF \<notin> set (hostHeader c)"
proof -
  from assms(1) have c: "cp_host c = host" "cp_gateway_token c = gateway_token"
    and clean: "CR \<notin> set host" "LF \<notin> set host" "CR \<notin> set gateway_token" "LF \<notin> set gateway_token"
    by (auto simp: ControlPlaneClient_new_def validateHeaderValue_def try_bind_Inr_iff split: if_splits)
  let ?ls = "[''Accept: application/json'', ''X-Gateway-Token: '' @ gateway_token, ''Content-Type: application/json'']"
  have "\<forall>l\<in>set ?ls. l \<noteq> [] \<and> CR \<notin> set l \<and> LF \<notin> set l" using clean by simp
  moreover have "CR \<notin> set (hostHeader c) \<and> LF \<notin> set (hostHeader c)"
    using clean c by (simp add: hostHeader_def Let_def show_int_no_crlf)
  ultimately show ?thesis
    by (intro exI [of _ ?ls]) (simp add: serialize_request_def header_block_def content_length_line_def c)
qed

theorem request_well_formed_witness:
  "\<exists>c. ControlPlaneClient_new ''::1'' 8080 1000 ''t0ken'' = Inr c \<and> hostHeader c = ''[::1]:8080'' \<and>
     CR \<notin> set (hostHeader c)"
proof -
  have "\<exists>c. ControlPlaneClient_new ''::1'' 8080 1000 ''t0ken'' = Inr c \<and> hostHeader c = ''[::1]:8080''"
    by (simp add: ControlPlaneClient_new_def validateHeaderValue_def hostHeader_def show_int_def
        show_nat.simps)
  then obtain c where c: "ControlPlaneClient_new ''::1'' 8080 1000 ''t0ken'' = Inr c" "hostHeader c = ''[::1]:8080''"
    by blast
  have "CR \<notin> set ''/config''" "LF \<notin> set ''/config''" by simp_all
  from request_well_formed [OF c(1) this] c show ?thesis by blast
qed

lemma fetchConfig_no_throw: "fetchConfig parse os c w = Some (r, w') \<Longrightarrow> \<not> isl r"
  by (auto simp: fetchConfig_def requestJson_def requestJsonOnce_def validateHeaderValue_def try_bind_def Let_def
      split: sum.splits option.splits if_splits prod.splits)



end
