(* ===== verification/StatsManager.thy ===== *)
theory StatsManager
  imports HttpTypes
begin

text \<open>
  The process-wide counters of \<^verbatim>\<open>src/business/StatsManager.cpp\<close>: 64-bit atomics that wrap around.
  Each operation is one atomic update, except \<open>decrementConnections\<close>, whose compare-and-swap loop
  is modelled attempt by attempt with the interference of other threads.
\<close>

section \<open>Counters and updates\<close>

record StatsManager =
  st_total_requests :: u64
  st_total_log_messages :: u64
  st_total_errors :: u64
  st_active_connections :: u64
  st_total_bytes_read :: u64
  st_total_bytes_sent :: u64
  st_request_queue_rejected :: u64
  st_response_queue_rejected :: u64
  st_response_queue_rejected_normal :: u64
  st_response_queue_rejected_auth :: u64
  st_slow_client_closed :: u64
  st_stale_response_dropped :: u64
  st_auth_success :: u64
  st_auth_failure :: u64
  st_auth_queue_rejected :: u64
  st_auth_tasks_cancelled_before_start :: u64
  st_auth_allowed :: u64
  st_auth_denied :: u64
  st_auth_unavailable :: u64
  st_auth_duration_count :: u64
  st_auth_duration_total_us :: u64

definition stats_init :: StatsManager where
  "stats_init =
     \<lparr>st_total_requests = 0, st_total_log_messages = 0, st_total_errors = 0,
      st_active_connections = 0, st_total_bytes_read = 0, st_total_bytes_sent = 0,
      st_request_queue_rejected = 0, st_response_queue_rejected = 0,
      st_response_queue_rejected_normal = 0, st_response_queue_rejected_auth = 0,
      st_slow_client_closed = 0, st_stale_response_dropped = 0, st_auth_success = 0,
      st_auth_failure = 0, st_auth_queue_rejected = 0, st_auth_tasks_cancelled_before_start = 0,
      st_auth_allowed = 0, st_auth_denied = 0, st_auth_unavailable = 0,
      st_auth_duration_count = 0, st_auth_duration_total_us = 0\<rparr>"

definition incrementRequests :: "StatsManager \<Rightarrow> StatsManager" where
  "incrementRequests s = s\<lparr>st_total_requests := st_total_requests s + 1\<rparr>"

definition incrementLogMessages :: "StatsManager \<Rightarrow> StatsManager" where
  "incrementLogMessages s = s\<lparr>st_total_log_messages := st_total_log_messages s + 1\<rparr>"

definition incrementErrors :: "StatsManager \<Rightarrow> StatsManager" where
  "incrementErrors s = s\<lparr>st_total_errors := st_total_errors s + 1\<rparr>"

definition incrementReadBytes :: "nat \<Rightarrow> StatsManager \<Rightarrow> StatsManager" where
  "incrementReadBytes n s = s\<lparr>st_total_bytes_read := st_total_bytes_read s + of_nat n\<rparr>"

definition incrementWriteBytes :: "nat \<Rightarrow> StatsManager \<Rightarrow> StatsManager" where
  "incrementWriteBytes n s = s\<lparr>st_total_bytes_sent := st_total_bytes_sent s + of_nat n\<rparr>"

definition incrementConnections :: "StatsManager \<Rightarrow> StatsManager" where
  "incrementConnections s = s\<lparr>st_active_connections := st_active_connections s + 1\<rparr>"

text \<open>
  The compare-and-swap loop.  Each element of the list is one attempt: the value the atomic holds
  when \<^verbatim>\<open>compare_exchange_weak\<close> runs, which other threads may have changed, and whether the attempt
  fails spuriously.  The outer \<^term>\<open>None\<close> means that the loop has not finished;
  \<^term>\<open>Some None\<close> that it returned without a store; \<^term>\<open>Some (Some v)\<close> that it stored \<open>v\<close>.
\<close>

fun decrement_loop :: "u64 \<Rightarrow> (u64 \<times> bool) list \<Rightarrow> u64 option option" where
  "decrement_loop current [] = (if current > 0 then None else Some None)"
| "decrement_loop current ((held, spurious) # attempts) =
     (if current > 0
      then if held = current \<and> \<not> spurious then Some (Some (current - 1))
           else decrement_loop held attempts
      else Some None)"

text \<open>Its effect when no other thread interferes.\<close>

definition decrementConnections :: "StatsManager \<Rightarrow> StatsManager" where
  "decrementConnections s =
     (case decrement_loop (st_active_connections s) [(st_active_connections s, False)] of
        Some (Some v) \<Rightarrow> s\<lparr>st_active_connections := v\<rparr>
      | _ \<Rightarrow> s)"

definition incrementRequestQueueRejected :: "StatsManager \<Rightarrow> StatsManager" where
  "incrementRequestQueueRejected s = s\<lparr>st_request_queue_rejected := st_request_queue_rejected s + 1\<rparr>"

definition incrementResponseQueueRejected :: "StatsManager \<Rightarrow> StatsManager" where
  "incrementResponseQueueRejected s = s\<lparr>st_response_queue_rejected := st_response_queue_rejected s + 1\<rparr>"

definition incrementResponseQueueRejectedNormal :: "StatsManager \<Rightarrow> StatsManager" where
  "incrementResponseQueueRejectedNormal s =
     incrementResponseQueueRejected
       (s\<lparr>st_response_queue_rejected_normal := st_response_queue_rejected_normal s + 1\<rparr>)"

definition incrementResponseQueueRejectedAuth :: "StatsManager \<Rightarrow> StatsManager" where
  "incrementResponseQueueRejectedAuth s =
     incrementResponseQueueRejected
       (s\<lparr>st_response_queue_rejected_auth := st_response_queue_rejected_auth s + 1\<rparr>)"

definition incrementSlowClientClosed :: "StatsManager \<Rightarrow> StatsManager" where
  "incrementSlowClientClosed s = s\<lparr>st_slow_client_closed := st_slow_client_closed s + 1\<rparr>"

definition incrementStaleResponseDropped :: "StatsManager \<Rightarrow> StatsManager" where
  "incrementStaleResponseDropped s = s\<lparr>st_stale_response_dropped := st_stale_response_dropped s + 1\<rparr>"

definition incrementAuthSuccess :: "StatsManager \<Rightarrow> StatsManager" where
  "incrementAuthSuccess s = s\<lparr>st_auth_success := st_auth_success s + 1\<rparr>"

definition incrementAuthFailure :: "StatsManager \<Rightarrow> StatsManager" where
  "incrementAuthFailure s = s\<lparr>st_auth_failure := st_auth_failure s + 1\<rparr>"

definition incrementAuthQueueRejected :: "StatsManager \<Rightarrow> StatsManager" where
  "incrementAuthQueueRejected s = s\<lparr>st_auth_queue_rejected := st_auth_queue_rejected s + 1\<rparr>"

definition incrementAuthTaskCancelledBeforeStart :: "StatsManager \<Rightarrow> StatsManager" where
  "incrementAuthTaskCancelledBeforeStart s =
     s\<lparr>st_auth_tasks_cancelled_before_start := st_auth_tasks_cancelled_before_start s + 1\<rparr>"

definition recordAuthResult :: "AuthOutcome \<Rightarrow> u64 \<Rightarrow> StatsManager \<Rightarrow> StatsManager" where
  "recordAuthResult outcome duration_us s =
     (let s1 = (case outcome of
                  Allowed \<Rightarrow> s\<lparr>st_auth_allowed := st_auth_allowed s + 1\<rparr>
                | Denied \<Rightarrow> s\<lparr>st_auth_denied := st_auth_denied s + 1\<rparr>
                | Unavailable \<Rightarrow> s\<lparr>st_auth_unavailable := st_auth_unavailable s + 1\<rparr>);
          s2 = s1\<lparr>st_auth_duration_count := st_auth_duration_count s1 + 1\<rparr>
      in s2\<lparr>st_auth_duration_total_us := st_auth_duration_total_us s2 + duration_us\<rparr>)"

record StatsSnapshot =
  sn_total_requests :: u64
  sn_errors :: u64
  sn_bytes_in :: u64
  sn_bytes_out :: u64
  sn_active_connections :: u64
  sn_request_queue_rejected :: u64
  sn_response_queue_rejected :: u64
  sn_response_queue_rejected_normal :: u64
  sn_response_queue_rejected_auth :: u64
  sn_slow_client_closed :: u64
  sn_stale_response_dropped :: u64
  sn_auth_success :: u64
  sn_auth_failure :: u64
  sn_auth_queue_rejected :: u64
  sn_auth_tasks_cancelled_before_start :: u64
  sn_auth_allowed :: u64
  sn_auth_denied :: u64
  sn_auth_unavailable :: u64
  sn_auth_duration_count :: u64
  sn_auth_duration_total_us :: u64

definition snapshot :: "StatsManager \<Rightarrow> StatsSnapshot" where
  "snapshot s =
     \<lparr>sn_total_requests = st_total_requests s,
      sn_errors = st_total_errors s,
      sn_bytes_in = st_total_bytes_read s,
      sn_bytes_out = st_total_bytes_sent s,
      sn_active_connections = st_active_connections s,
      sn_request_queue_rejected = st_request_queue_rejected s,
      sn_response_queue_rejected = st_response_queue_rejected s,
      sn_response_queue_rejected_normal = st_response_queue_rejected_normal s,
      sn_response_queue_rejected_auth = st_response_queue_rejected_auth s,
      sn_slow_client_closed = st_slow_client_closed s,
      sn_stale_response_dropped = st_stale_response_dropped s,
      sn_auth_success = st_auth_success s,
      sn_auth_failure = st_auth_failure s,
      sn_auth_queue_rejected = st_auth_queue_rejected s,
      sn_auth_tasks_cancelled_before_start = st_auth_tasks_cancelled_before_start s,
      sn_auth_allowed = st_auth_allowed s,
      sn_auth_denied = st_auth_denied s,
      sn_auth_unavailable = st_auth_unavailable s,
      sn_auth_duration_count = st_auth_duration_count s,
      sn_auth_duration_total_us = st_auth_duration_total_us s\<rparr>"

definition getTotalRequests :: "StatsManager \<Rightarrow> u64" where
  "getTotalRequests s = st_total_requests s"

definition getTotalLogMessages :: "StatsManager \<Rightarrow> u64" where
  "getTotalLogMessages s = st_total_log_messages s"

definition getTotalErrors :: "StatsManager \<Rightarrow> u64" where
  "getTotalErrors s = st_total_errors s"

definition getReadBytes :: "StatsManager \<Rightarrow> u64" where
  "getReadBytes s = st_total_bytes_read s"

definition getWriteBytes :: "StatsManager \<Rightarrow> u64" where
  "getWriteBytes s = st_total_bytes_sent s"

definition getConnections :: "StatsManager \<Rightarrow> u64" where
  "getConnections s = st_active_connections s"

definition getRequestQueueRejected :: "StatsManager \<Rightarrow> u64" where
  "getRequestQueueRejected s = st_request_queue_rejected s"

definition getResponseQueueRejected :: "StatsManager \<Rightarrow> u64" where
  "getResponseQueueRejected s = st_response_queue_rejected s"

section \<open>Sequences of updates\<close>

text \<open>
  The updates the rest of the gateway issues: every public mutator but
  \<open>incrementResponseQueueRejected\<close>, which only the two rejection counters call.
\<close>

datatype stats_op =
    StRequests | StLogMessages | StErrors | StReadBytes nat | StWriteBytes nat | StConnect
  | StDisconnect | StRequestRejected | StResponseRejectedNormal | StResponseRejectedAuth
  | StSlowClient | StStale | StAuthSuccess | StAuthFailure | StAuthQueueRejected
  | StAuthCancelled | StAuthResult AuthOutcome u64

fun stats_apply :: "stats_op \<Rightarrow> StatsManager \<Rightarrow> StatsManager" where
  "stats_apply StRequests = incrementRequests"
| "stats_apply StLogMessages = incrementLogMessages"
| "stats_apply StErrors = incrementErrors"
| "stats_apply (StReadBytes n) = incrementReadBytes n"
| "stats_apply (StWriteBytes n) = incrementWriteBytes n"
| "stats_apply StConnect = incrementConnections"
| "stats_apply StDisconnect = decrementConnections"
| "stats_apply StRequestRejected = incrementRequestQueueRejected"
| "stats_apply StResponseRejectedNormal = incrementResponseQueueRejectedNormal"
| "stats_apply StResponseRejectedAuth = incrementResponseQueueRejectedAuth"
| "stats_apply StSlowClient = incrementSlowClientClosed"
| "stats_apply StStale = incrementStaleResponseDropped"
| "stats_apply StAuthSuccess = incrementAuthSuccess"
| "stats_apply StAuthFailure = incrementAuthFailure"
| "stats_apply StAuthQueueRejected = incrementAuthQueueRejected"
| "stats_apply StAuthCancelled = incrementAuthTaskCancelledBeforeStart"
| "stats_apply (StAuthResult r d) = recordAuthResult r d"

text \<open>The totals agree with their breakdowns, at 64-bit width.\<close>

definition stats_inv :: "StatsManager \<Rightarrow> bool" where
  "stats_inv s \<longleftrightarrow>
     st_response_queue_rejected s =
       st_response_queue_rejected_normal s + st_response_queue_rejected_auth s \<and>
     st_auth_duration_count s = st_auth_allowed s + st_auth_denied s + st_auth_unavailable s"

named_theorems stats_defs \<open>definitions of the counter updates\<close>

declare incrementRequests_def [stats_defs] incrementLogMessages_def [stats_defs]
  incrementErrors_def [stats_defs] incrementReadBytes_def [stats_defs]
  incrementWriteBytes_def [stats_defs] incrementConnections_def [stats_defs]
  decrementConnections_def [stats_defs] incrementRequestQueueRejected_def [stats_defs]
  incrementResponseQueueRejected_def [stats_defs] incrementResponseQueueRejectedNormal_def [stats_defs]
  incrementResponseQueueRejectedAuth_def [stats_defs] incrementSlowClientClosed_def [stats_defs]
  incrementStaleResponseDropped_def [stats_defs] incrementAuthSuccess_def [stats_defs]
  incrementAuthFailure_def [stats_defs] incrementAuthQueueRejected_def [stats_defs]
  incrementAuthTaskCancelledBeforeStart_def [stats_defs] recordAuthResult_def [stats_defs]

section \<open>Theorems\<close>

lemma decrementConnections_eq:
  "decrementConnections s =
     (if st_active_connections s = 0 then s
      else s\<lparr>st_active_connections := st_active_connections s - 1\<rparr>)"
  by (simp add: decrementConnections_def word_gt_0)

lemma stats_apply_inv: "stats_inv s \<Longrightarrow> stats_inv (stats_apply e s)"
  by (cases e)
    (simp_all add: stats_inv_def stats_defs decrementConnections_eq Let_def split: AuthOutcome.split)

text \<open>
  C25: After any sequence of counter updates the gateway can issue, the total of rejected responses
  is the sum of the normal and authentication rejections, and the number of timed authentications
  is the sum over the three outcomes.
\<close>

theorem stats_totals_agree: "stats_inv (fold stats_apply es stats_init)"
proof -
  have "stats_inv s \<Longrightarrow> stats_inv (fold stats_apply es s)" for s
    by (induction es arbitrary: s) (simp_all add: stats_apply_inv)
  then show ?thesis
    by (simp add: stats_inv_def stats_init_def)
qed

text \<open>
  However other threads interfere and however often the weak exchange fails, the loop that
  decrements the connection counter only ever stores one less than a positive value it found in
  the counter, so the counter never wraps below zero; and it returns without a store only after it
  has seen the counter at zero.
\<close>

theorem decrement_loop_no_underflow:
  "case decrement_loop current attempts of
     None \<Rightarrow> True
   | Some None \<Rightarrow> 0 \<in> set (current # map fst attempts)
   | Some (Some v) \<Rightarrow> \<exists>held \<in> set (map fst attempts). held \<noteq> 0 \<and> v = held - 1 \<and> v < held"
proof (induction current attempts rule: decrement_loop.induct)
  case (1 current)
  then show ?case by (simp add: word_gt_0)
next
  case (2 current held spurious attempts)
  have "current \<noteq> 0 \<Longrightarrow> current - 1 < current"
    by (simp add: word_less_nat_alt measure_unat)
  with 2 show ?case
    by (auto simp: word_gt_0 split: option.splits)
qed

end
