(* ===== verification/LogStorage.thy ===== *)
theory LogStorage
  imports Gateway_Prelude
begin

text \<open>
  The store of pushed log lines: \<^verbatim>\<open>src/business/LogStorage.cpp\<close>.  It appends to standard output, or to a
  file whose directory is created on start.  Whether the directory can be made, the file opened and a
  line written is the environment's answer; a stream that has failed once stays failed.
\<close>

record LogStorage =
  ls_use_stdout :: bool
  ls_is_open :: bool
  ls_failed :: bool
  ls_lines :: "string list"

text \<open>\<^verbatim>\<open>parent_path\<close> of a path, empty when it has no separator.\<close>

definition parent_path :: "string \<Rightarrow> string" where
  "parent_path p =
     (if CHR ''/'' \<in> set p then
        let dir = rev (dropWhile (\<lambda>c. c = CHR ''/'') (dropWhile (\<lambda>c. c \<noteq> CHR ''/'') (rev p)))
        in if dir = [] then ''/'' else dir
      else [])"

definition LogStorage_new ::
  "(string \<Rightarrow> bool) \<Rightarrow> (string \<Rightarrow> bool) \<Rightarrow> (string \<Rightarrow> string option) \<Rightarrow> LogStorage" where
  "LogStorage_new create_directories open_file env =
     (case env ''GATEWAY_LOG_PATH'' of
        None \<Rightarrow> \<lparr>ls_use_stdout = True, ls_is_open = False, ls_failed = False, ls_lines = []\<rparr>
      | Some path \<Rightarrow>
          if path = [] then \<lparr>ls_use_stdout = True, ls_is_open = False, ls_failed = False, ls_lines = []\<rparr>
          else if parent_path path \<noteq> [] \<and> \<not> create_directories (parent_path path)
          then \<lparr>ls_use_stdout = False, ls_is_open = False, ls_failed = False, ls_lines = []\<rparr>
          else \<lparr>ls_use_stdout = False, ls_is_open = open_file path, ls_failed = \<not> open_file path,
                ls_lines = []\<rparr>)"

text \<open>\<open>write_ok\<close> is whether the device takes the line.\<close>

definition log_append :: "bool \<Rightarrow> string \<Rightarrow> LogStorage \<Rightarrow> bool \<times> LogStorage" where
  "log_append write_ok log_line s =
     (if \<not> ls_use_stdout s \<and> \<not> ls_is_open s then (False, s)
      else if ls_failed s \<or> \<not> write_ok then (False, s\<lparr>ls_failed := True\<rparr>)
      else (True, s\<lparr>ls_lines := ls_lines s @ [log_line]\<rparr>))"

text \<open>A line is reported as stored exactly when it is the last line of the store.\<close>

lemma log_append_result:
  "log_append ok line s = (b, s') \<Longrightarrow>
   (b \<longrightarrow> ls_lines s' = ls_lines s @ [line]) \<and> (\<not> b \<longrightarrow> ls_lines s' = ls_lines s)"
  by (auto simp: log_append_def split: if_splits)

lemma log_append_sticky: "ls_failed s \<Longrightarrow> fst (log_append ok line s) = False"
  by (simp add: log_append_def)

end
