(* ===== verification/Handlers.thy ===== *)
theory Handlers
  imports ControlPlaneClient StatsManager LogStorage
begin

text \<open>
  The request handlers and the dispatcher: \<^verbatim>\<open>src/business/Handlers.cpp\<close>,
  \<^verbatim>\<open>src/business/Dispatcher.cpp\<close> and \<^verbatim>\<open>include/business/AuthTask.hpp\<close>.  The counters and the log store,
  which the code reaches through singletons, are passed and returned; what the handlers read of the
  server is a record of gauges.  The rendering of the wall clock is a parameter.

  The theorems: a response always goes back to the connection and request it answers; a client is
  authenticated exactly when the control plane allowed it; a log line is acknowledged exactly when it
  was stored.
\<close>

section \<open>Authentication tasks\<close>

text \<open>
  A cancellation flag is shared between a connection and its task; it is an address into a store of
  flags, and the null pointer is \<^term>\<open>None\<close>.
\<close>

type_synonym cancellation = nat

record AuthTask =
  at_request :: Request
  at_cancellation :: cancellation

definition makeAuthTask :: "Request \<Rightarrow> cancellation option \<Rightarrow> AuthTask option" where
  "makeAuthTask request cancel =
     (case cancel of
        None \<Rightarrow> None
      | Some c \<Rightarrow> if req_type request \<noteq> AUTH then None
                  else Some \<lparr>at_request = request, at_cancellation = c\<rparr>)"

section \<open>Responses\<close>

text \<open>A response addressed to the sender of a request, as every handler starts.\<close>

definition response_to :: "Request \<Rightarrow> MessageType \<Rightarrow> Response" where
  "response_to request type =
     \<lparr>resp_fd = req_fd request, resp_conn_id = req_conn_id request, resp_version = req_version request,
      resp_type = type, resp_request_id = req_request_id request, resp_status_code = 0, resp_payload = [],
      resp_client_id_to_authenticate = None, resp_close_connection = False, resp_skip_write = False\<rparr>"

definition makeErrorResponse :: "Request \<Rightarrow> Response" where
  \<open>makeErrorResponse request =
     (response_to request ERROR_RESP)\<lparr>resp_payload := ''{"status":400,"message":"unknown type"}''\<rparr>\<close>

definition makeErrorResponse_status :: "Request \<Rightarrow> int \<Rightarrow> string \<Rightarrow> cpp_exn + Response" where
  "makeErrorResponse_status request status message =
     try_bind (dump (json_object [(''status'', JInteger status), (''message'', JString message)])) (\<lambda>payload.
       Inr ((response_to request ERROR_RESP)\<lparr>resp_payload := payload\<rparr>))"

definition handlePing :: "Request \<Rightarrow> Response" where
  \<open>handlePing request = (response_to request PONG)\<lparr>resp_payload := ''{"status":0,"message":"pong"}''\<rparr>\<close>

definition handleEcho :: "Request \<Rightarrow> Response" where
  "handleEcho request = (response_to request ECHO_RESP)\<lparr>resp_payload := req_payload request\<rparr>"

section \<open>Authentication\<close>

definition auth_invalid :: "Request \<Rightarrow> Response" where
  \<open>auth_invalid request =
     (response_to request AUTH_RESP)\<lparr>resp_status_code := 400,
        resp_payload := ''{"allowed":false,"code":"INVALID_REQUEST"}'', resp_close_connection := True\<rparr>\<close>

definition auth_refusal :: "Request \<Rightarrow> AuthResult \<Rightarrow> cpp_exn + Response" where
  "auth_refusal request result =
     (let code = (if ar_outcome result = Denied
                  then (if ar_reason_code result = [] then ''INVALID_CREDENTIALS'' else ar_reason_code result)
                  else ''AUTH_UNAVAILABLE'')
      in try_bind (dump (json_object [(''allowed'', JBool False), (''code'', JString code)])) (\<lambda>payload.
           Inr ((response_to request AUTH_RESP)\<lparr>
                  resp_status_code := (if ar_outcome result = Denied then 401 else 503),
                  resp_payload := payload, resp_close_connection := True\<rparr>)))"

definition auth_accepted :: "Request \<Rightarrow> string \<Rightarrow> Response" where
  \<open>auth_accepted request client_id =
     (response_to request AUTH_RESP)\<lparr>resp_status_code := 0,
        resp_payload := ''{"allowed":true,"code":"OK"}'',
        resp_client_id_to_authenticate := Some client_id\<rparr>\<close>

text \<open>The credentials in the payload, or \<^term>\<open>Inr None\<close> when the fields are not as required.\<close>

definition auth_credentials :: "json_parser \<Rightarrow> string \<Rightarrow> cpp_exn + (string \<times> string) option" where
  "auth_credentials parse text =
     try_bind (parse text) (\<lambda>payload.
       if \<not> is_object payload \<or> \<not> contains payload ''client_id'' \<or> \<not> contains payload ''token''
       then Inr None
       else
         try_bind (json_index payload ''client_id'') (\<lambda>c.
         try_bind (json_index payload ''token'') (\<lambda>t.
           if \<not> is_string c \<or> \<not> is_string t then Inr None
           else
             try_bind (get_string c) (\<lambda>client_id.
             try_bind (get_string t) (\<lambda>token.
             Inr (Some (client_id, token)))))))"

definition handleAuth ::
  "json_parser \<Rightarrow> os \<Rightarrow> ControlPlaneClient \<Rightarrow> time_point option \<Rightarrow> Request \<Rightarrow> StatsManager \<Rightarrow> io \<Rightarrow>
   (Response \<times> AuthOutcome \<times> StatsManager \<times> io) option" where
  "handleAuth parse os control_plane not_after request stats w =
     (case auth_credentials parse (req_payload request) of
        Inl _ \<Rightarrow> Some (auth_invalid request, Denied, incrementErrors stats, w)
      | Inr None \<Rightarrow> Some (auth_invalid request, Denied, incrementErrors stats, w)
      | Inr (Some (client_id, token)) \<Rightarrow>
          (case checkAuth parse os control_plane client_id token not_after w of
             None \<Rightarrow> None
           | Some (Inl _, w1) \<Rightarrow> Some (auth_invalid request, Denied, incrementErrors stats, w1)
           | Some (Inr result, w1) \<Rightarrow>
               if ar_outcome result \<noteq> Allowed then
                 let stats1 = incrementErrors stats in
                 (case auth_refusal request result of
                    Inl _ \<Rightarrow> Some (auth_invalid request, Denied, incrementErrors stats1, w1)
                  | Inr resp \<Rightarrow> Some (resp, ar_outcome result, stats1, w1))
               else Some (auth_accepted request client_id, Allowed, stats, w1)))"

section \<open>Log lines\<close>

definition valid_log_entry :: "json \<Rightarrow> cpp_exn + bool" where
  "valid_log_entry j =
     (if \<not> is_object j \<or> \<not> contains j ''level'' \<or> \<not> contains j ''service'' \<or> \<not> contains j ''message''
      then Inr False
      else
        try_bind (json_index j ''level'') (\<lambda>level.
        try_bind (json_index j ''service'') (\<lambda>service.
        try_bind (json_index j ''message'') (\<lambda>message.
        Inr (is_string level \<and> is_string service \<and> is_string message)))))"

text \<open>The line that is stored; \<open>time_text\<close> is the rendered local time.\<close>

definition log_line :: "string \<Rightarrow> Request \<Rightarrow> string" where
  "log_line time_text request =
     time_text @ '' fd='' @ show_int (req_fd request) @
     '' request_id='' @ show_nat (unat (req_request_id request)) @
     '' payload='' @ req_payload request"

definition handleLogPush ::
  "json_parser \<Rightarrow> string \<Rightarrow> bool \<Rightarrow> Request \<Rightarrow> StatsManager \<Rightarrow> LogStorage \<Rightarrow>
   (cpp_exn + Response) \<times> StatsManager \<times> LogStorage" where
  \<open>handleLogPush parse time_text write_ok request stats store =
     (if req_payload request = [] then
        (Inr ((response_to request ERROR_RESP)\<lparr>
                resp_payload := ''{"status":400,"message":"payload is empty"}''\<rparr>),
         incrementErrors stats, store)
      else if length (req_payload request) > 4096 then
        (Inr ((response_to request ERROR_RESP)\<lparr>
                resp_payload := ''{"status":400,"message":"payload too large"}''\<rparr>),
         incrementErrors stats, store)
      else
        (case try_bind (parse (req_payload request)) valid_log_entry of
           Inl JsonParseError \<Rightarrow>
             (makeErrorResponse_status request 400 ''invalid json'', incrementErrors stats, store)
         | Inl e \<Rightarrow> (Inl e, stats, store)
         | Inr False \<Rightarrow>
             (makeErrorResponse_status request 400 ''invalid log format'', incrementErrors stats, store)
         | Inr True \<Rightarrow>
             (case log_append write_ok (log_line time_text request) store of
                (True, store1) \<Rightarrow>
                  (Inr ((response_to request LOG_ACK)\<lparr>resp_payload := ''{"status":"success"}''\<rparr>),
                   incrementLogMessages stats, store1)
              | (False, store1) \<Rightarrow>
                  (Inr ((response_to request ERROR_RESP)\<lparr>
                          resp_payload := ''{"status":500, "message":"log write failed."}''\<rparr>),
                   incrementErrors stats, store1))))\<close>

section \<open>Statistics\<close>

text \<open>What the handler reads of the server.\<close>

record gauges =
  g_request_queue_size :: nat
  g_response_queue_size :: nat
  g_request_queue_capacity :: nat
  g_response_queue_capacity :: nat
  g_request_queue_peak :: nat
  g_response_queue_peak :: nat
  g_auth_queue_size :: nat
  g_auth_queue_capacity :: nat
  g_auth_queue_peak :: nat
  g_auth_in_flight :: nat

definition stats_document :: "gauges \<Rightarrow> StatsManager \<Rightarrow> json" where
  "stats_document g stats =
     (let s = snapshot stats; num = (\<lambda>v. JUnsigned (unat v)) in
      json_object
       [(''total_requests'', num (getTotalRequests stats)),
        (''total_logs'', num (getTotalLogMessages stats)),
        (''total_errors'', num (getTotalErrors stats)),
        (''total_recv_bytes'', num (getReadBytes stats)),
        (''total_sent_bytes'', num (getWriteBytes stats)),
        (''active_connections'', num (getConnections stats)),
        (''total_request_queue_backlog'', JUnsigned (g_request_queue_size g)),
        (''total_response_queue_backlog'', JUnsigned (g_response_queue_size g)),
        (''request_queue_capacity'', JUnsigned (g_request_queue_capacity g)),
        (''response_queue_capacity'', JUnsigned (g_response_queue_capacity g)),
        (''request_queue_peak'', JUnsigned (g_request_queue_peak g)),
        (''response_queue_peak'', JUnsigned (g_response_queue_peak g)),
        (''request_queue_rejected'', num (getRequestQueueRejected stats)),
        (''response_queue_rejected'', num (getResponseQueueRejected stats)),
        (''auth_queue_capacity'', JUnsigned (g_auth_queue_capacity g)),
        (''auth_queue_backlog'', JUnsigned (g_auth_queue_size g)),
        (''auth_queue_peak'', JUnsigned (g_auth_queue_peak g)),
        (''auth_queue_rejected'', num (sn_auth_queue_rejected s)),
        (''auth_in_flight'', JUnsigned (g_auth_in_flight g)),
        (''auth_tasks_cancelled_before_start'', num (sn_auth_tasks_cancelled_before_start s)),
        (''auth_allowed'', num (sn_auth_allowed s)),
        (''auth_denied'', num (sn_auth_denied s)),
        (''auth_unavailable'', num (sn_auth_unavailable s)),
        (''auth_duration_count'', num (sn_auth_duration_count s)),
        (''auth_duration_total_us'', num (sn_auth_duration_total_us s)),
        (''response_queue_rejected_normal'', num (sn_response_queue_rejected_normal s)),
        (''response_queue_rejected_auth'', num (sn_response_queue_rejected_auth s)),
        (''slow_client_closed'', num (sn_slow_client_closed s)),
        (''stale_response_dropped'', num (sn_stale_response_dropped s))])"

definition handleStats :: "gauges \<Rightarrow> Request \<Rightarrow> StatsManager \<Rightarrow> cpp_exn + Response" where
  "handleStats g request stats =
     try_bind (dump (stats_document g stats)) (\<lambda>payload.
       Inr ((response_to request STATS_RESP)\<lparr>resp_payload := payload\<rparr>))"

section \<open>Dispatch\<close>

definition dispatch ::
  "json_parser \<Rightarrow> string \<Rightarrow> bool \<Rightarrow> gauges \<Rightarrow> Request \<Rightarrow> StatsManager \<Rightarrow> LogStorage \<Rightarrow>
   (cpp_exn + Response) \<times> StatsManager \<times> LogStorage" where
  "dispatch parse time_text write_ok g request stats store =
     (let stats1 = incrementRequests stats in
      if req_type request = AUTH then
        (makeErrorResponse_status request 500 ''AUTH reached normal worker'', incrementErrors stats1, store)
      else if req_type request = PING then (Inr (handlePing request), stats1, store)
      else if req_type request = ECHO then (Inr (handleEcho request), stats1, store)
      else if req_type request = LOG_PUSH
      then handleLogPush parse time_text write_ok request stats1 store
      else if req_type request = STATS then (handleStats g request stats1, stats1, store)
      else (Inr (makeErrorResponse request), stats1, store))"

section \<open>Theorems\<close>

definition answers :: "Request \<Rightarrow> Response \<Rightarrow> bool" where
  "answers request resp \<longleftrightarrow>
     resp_fd resp = req_fd request \<and> resp_conn_id resp = req_conn_id request \<and>
     resp_version resp = req_version request \<and> resp_request_id resp = req_request_id request"

lemma answers_response_to [simp]:
  "answers request (response_to request t)"
  "answers request (r\<lparr>resp_payload := x\<rparr>) = answers request r"
  "answers request (r\<lparr>resp_status_code := i\<rparr>) = answers request r"
  "answers request (r\<lparr>resp_close_connection := b\<rparr>) = answers request r"
  "answers request (r\<lparr>resp_client_id_to_authenticate := c\<rparr>) = answers request r"
  by (simp_all add: answers_def response_to_def)

lemma response_to_simps [simp]:
  "resp_type (response_to request t) = t"
  "resp_client_id_to_authenticate (response_to request t) = None"
  "\<not> resp_close_connection (response_to request t)"
  "\<not> resp_skip_write (response_to request t)"
  by (simp_all add: response_to_def)

lemma auth_credentials_fields:
  assumes "auth_credentials parse text = Inr (Some (client_id, token))"
  shows "\<exists>kvs. parse text = Inr (JObject kvs) \<and> map_of kvs ''client_id'' = Some (JString client_id) \<and>
    map_of kvs ''token'' = Some (JString token)"
proof -
  from assms obtain j where j: "parse text = Inr j"
    unfolding auth_credentials_def by (auto simp: try_bind_Inr_iff)
  with assms obtain kvs where kvs: "j = JObject kvs"
    unfolding auth_credentials_def by (cases j) (auto split: if_splits)
  from assms j kvs obtain c t where c: "map_of kvs ''client_id'' = Some c" and t: "map_of kvs ''token'' = Some t"
    unfolding auth_credentials_def by (auto split: if_splits)
  with assms j kvs show ?thesis
    unfolding auth_credentials_def by (cases c; cases t) (auto split: if_splits)
qed

lemma handleAuth_returns:
  assumes "clock_advances os"
  shows "handleAuth parse os c not_after request stats w \<noteq> None"
  by (simp add: handleAuth_def Let_def calls_return(1) [OF assms] del: not_None_eq split: sum.split option.split)

lemma handleAuth_response:
  assumes "handleAuth parse os control_plane not_after request stats w = Some (resp, outcome, stats', w')"
  shows "answers request resp \<and> resp_type resp = AUTH_RESP \<and> \<not> resp_skip_write resp \<and>
    (resp_client_id_to_authenticate resp \<noteq> None \<longrightarrow> \<not> resp_close_connection resp) \<and>
    (\<forall>client_id. resp_client_id_to_authenticate resp = Some client_id \<longrightarrow> outcome = Allowed \<and>
       (\<exists>token. auth_credentials parse (req_payload request) = Inr (Some (client_id, token))))"
  using assms
  by (auto simp: handleAuth_def auth_invalid_def auth_refusal_def auth_accepted_def Let_def try_bind_def
      split: sum.splits option.splits if_splits prod.splits)

lemma handleAuth_decides:
  assumes "os_descriptors_ok os"
    and "handleAuth parse os control_plane not_after request stats w = Some (resp, outcome, stats', w')"
  shows "answers request resp \<and> resp_type resp = AUTH_RESP \<and> \<not> resp_skip_write resp \<and>
    (resp_close_connection resp \<longleftrightarrow> outcome \<noteq> Allowed) \<and>
    (case resp_client_id_to_authenticate resp of
       None \<Rightarrow> outcome \<noteq> Allowed
     | Some client_id \<Rightarrow>
         outcome = Allowed \<and>
         (\<exists>kvs token payload es response kvs'.
            parse (req_payload request) = Inr (JObject kvs) \<and>
            map_of kvs ''client_id'' = Some (JString client_id) \<and> map_of kvs ''token'' = Some (JString token) \<and>
            dump (json_object [(''client_id'', JString client_id), (''token'', JString token)]) = Inr payload \<and>
            io_log w' = io_log w @ es \<and> closes_all es \<and>
            answered (serialize_request control_plane ''POST'' ''/auth/check'' payload) es response \<and>
            http_ok response \<and> parse (hr_body response) = Inr (JObject kvs') \<and>
            map_of kvs' ''allowed'' = Some (JBool True)))"
proof (cases "\<exists>client_id token result. auth_credentials parse (req_payload request) = Inr (Some (client_id, token)) \<and>
    checkAuth parse os control_plane client_id token not_after w = Some (Inr result, w') \<and> ar_outcome result = Allowed")
  case False
  with assms(2) show ?thesis
    by (auto simp: handleAuth_def auth_invalid_def auth_refusal_def Let_def try_bind_Inr_iff
        split: sum.splits option.splits if_splits)
next
  case True
  then obtain client_id token result where
    cred: "auth_credentials parse (req_payload request) = Inr (Some (client_id, token))"
    and run: "checkAuth parse os control_plane client_id token not_after w = Some (Inr result, w')"
    and ok: "ar_outcome result = Allowed" by blast
  with assms(2) have resp: "resp = auth_accepted request client_id" "outcome = Allowed"
    by (simp_all add: handleAuth_def)
  from auth_credentials_fields [OF cred] obtain kvs where kvs: "parse (req_payload request) = Inr (JObject kvs)"
    "map_of kvs ''client_id'' = Some (JString client_id)" "map_of kvs ''token'' = Some (JString token)" by blast
  from checkAuth_decides [OF assms(1) run] ok obtain es payload response kvs' where
    "io_log w' = io_log w @ es" "closes_all es"
    "dump (json_object [(''client_id'', JString client_id), (''token'', JString token)]) = Inr payload"
    "answered (serialize_request control_plane ''POST'' ''/auth/check'' payload) es response"
    "http_ok response" "parse (hr_body response) = Inr (JObject kvs')"
    "map_of kvs' ''allowed'' = Some (JBool True)" by auto
  with kvs resp show ?thesis by (simp add: auth_accepted_def) blast
qed

lemma makeErrorResponse_status_ok:
  assumes "ascii message"
  shows "\<exists>payload. makeErrorResponse_status request status message =
    Inr ((response_to request ERROR_RESP)\<lparr>resp_payload := payload\<rparr>)"
proof -
  have keys: "ascii ''status''" "ascii ''message''" by (simp_all add: ascii_def)
  obtain t where "dump (json_object [(''status'', JInteger status), (''message'', JString message)]) = Inr t"
    using dump_flat_object [of "[(''status'', JInteger status), (''message'', JString message)]"] assms keys by auto
  then show ?thesis by (intro exI [of _ t]) (simp add: makeErrorResponse_status_def)
qed

lemma handleStats_ok:
  "\<exists>payload. handleStats g request stats = Inr ((response_to request STATS_RESP)\<lparr>resp_payload := payload\<rparr>)"
proof -
  have "\<exists>t. dump (stats_document g stats) = Inr t"
    unfolding stats_document_def Let_def by (rule dump_flat_object) (simp add: ascii_def)
  then show ?thesis by (auto simp: handleStats_def)
qed

lemma valid_log_entry_total: "\<exists>b. valid_log_entry j = Inr b"
  by (cases j) (auto simp: valid_log_entry_def)

lemma valid_log_entry_fields:
  assumes "valid_log_entry j = Inr True"
  shows "\<exists>kvs a b c. j = JObject kvs \<and> map_of kvs ''level'' = Some (JString a) \<and>
    map_of kvs ''service'' = Some (JString b) \<and> map_of kvs ''message'' = Some (JString c)"
proof (cases j)
  case (JObject kvs)
  with assms obtain x y z where "map_of kvs ''level'' = Some x" "map_of kvs ''service'' = Some y"
      "map_of kvs ''message'' = Some z"
    by (auto simp: valid_log_entry_def split: if_splits)
  with assms JObject show ?thesis
    by (cases x; cases y; cases z) (auto simp: valid_log_entry_def)
qed (use assms in \<open>simp_all add: valid_log_entry_def\<close>)

lemma ascii_messages:
  "ascii ''invalid json''" "ascii ''invalid log format''" "ascii ''AUTH reached normal worker''"
  by (simp_all add: ascii_def)

text \<open>The outcomes of a log push, one per branch of the code.\<close>

lemma handleLogPush_cases:
  obtains (refused) resp where
      "handleLogPush parse tt ok request stats store = (Inr resp, incrementErrors stats, store)"
      "answers request resp" "resp_type resp = ERROR_RESP" "resp_client_id_to_authenticate resp = None"
      "\<not> resp_close_connection resp" "\<not> resp_skip_write resp"
  | (escaped) e where "handleLogPush parse tt ok request stats store = (Inl e, stats, store)"
      "parse (req_payload request) = Inl e" "e \<noteq> JsonParseError"
  | (unwritten) resp store1 where
      "handleLogPush parse tt ok request stats store = (Inr resp, incrementErrors stats, store1)"
      "answers request resp" "resp_type resp = ERROR_RESP" "resp_client_id_to_authenticate resp = None"
      "\<not> resp_close_connection resp" "\<not> resp_skip_write resp" "ls_lines store1 = ls_lines store"
  | (stored) resp store1 kvs a b c where
      "handleLogPush parse tt ok request stats store = (Inr resp, incrementLogMessages stats, store1)"
      "answers request resp" "resp_type resp = LOG_ACK" "resp_client_id_to_authenticate resp = None"
      "\<not> resp_close_connection resp" "\<not> resp_skip_write resp"
      "ls_lines store1 = ls_lines store @ [log_line tt request]"
      "length (req_payload request) \<le> 4096" "parse (req_payload request) = Inr (JObject kvs)"
      "map_of kvs ''level'' = Some (JString a)" "map_of kvs ''service'' = Some (JString b)"
      "map_of kvs ''message'' = Some (JString c)"
proof (cases "req_payload request = [] \<or> length (req_payload request) > 4096")
  case True
  then show thesis
  proof (cases "req_payload request = []")
    case True
    then show thesis by (intro refused) (auto simp: handleLogPush_def)
  next
    case False
    with \<open>req_payload request = [] \<or> length (req_payload request) > 4096\<close> show thesis
      by (intro refused) (auto simp: handleLogPush_def)
  qed
next
  case small: False
  show thesis
  proof (cases "try_bind (parse (req_payload request)) valid_log_entry")
    case (Inl e)
    then have pe: "parse (req_payload request) = Inl e"
      using valid_log_entry_total by (cases "parse (req_payload request)") (auto, metis sum.distinct(1))
    obtain pl where pl: "makeErrorResponse_status request 400 ''invalid json'' =
        Inr ((response_to request ERROR_RESP)\<lparr>resp_payload := pl\<rparr>)"
      using makeErrorResponse_status_ok [OF ascii_messages(1)] by blast
    show thesis
    proof (cases "e = JsonParseError")
      case True
      with small Inl pl show thesis by (intro refused) (auto simp: handleLogPush_def)
    next
      case False
      with small Inl pe show thesis by (intro escaped) (auto simp: handleLogPush_def split: cpp_exn.splits)
    qed
  next
    case (Inr valid)
    obtain pl where pl: "makeErrorResponse_status request 400 ''invalid log format'' =
        Inr ((response_to request ERROR_RESP)\<lparr>resp_payload := pl\<rparr>)"
      using makeErrorResponse_status_ok [OF ascii_messages(2)] by blast
    show thesis
    proof (cases valid)
      case False
      with small Inr pl show thesis by (intro refused) (auto simp: handleLogPush_def)
    next
      case True
      with Inr obtain j where j: "parse (req_payload request) = Inr j" "valid_log_entry j = Inr True"
        by (auto simp: try_bind_Inr_iff)
      from valid_log_entry_fields [OF j(2)] obtain kvs a b c where f: "j = JObject kvs"
        "map_of kvs ''level'' = Some (JString a)" "map_of kvs ''service'' = Some (JString b)"
        "map_of kvs ''message'' = Some (JString c)" by blast
      obtain written store1 where ap: "log_append ok (log_line tt request) store = (written, store1)" by force
      show thesis
      proof (cases written)
        case True
        with ap small Inr \<open>valid\<close> j f log_append_result [OF ap] show thesis
          by (intro stored) (auto simp: handleLogPush_def)
      next
        case False
        with ap small Inr \<open>valid\<close> log_append_result [OF ap] show thesis
          by (intro unwritten [of _ store1]) (auto simp: handleLogPush_def)
      qed
    qed
  qed
qed

lemmas message_types = AUTH_def PING_def ECHO_def LOG_PUSH_def STATS_def PONG_def ECHO_RESP_def
  ERROR_RESP_def LOG_ACK_def STATS_RESP_def AUTH_RESP_def

lemma dispatch_cases:
  "case dispatch parse tt ok g request stats store of (r, stats', store') \<Rightarrow>
     st_total_requests stats' = st_total_requests stats + 1 \<and>
     (case r of
        Inl e \<Rightarrow> req_type request = LOG_PUSH \<and> parse (req_payload request) = Inl e \<and> e \<noteq> JsonParseError
      | Inr resp \<Rightarrow>
          answers request resp \<and> resp_client_id_to_authenticate resp = None \<and>
          \<not> resp_close_connection resp \<and> \<not> resp_skip_write resp \<and>
          (if req_type request = PING then resp_type resp = PONG
           else if req_type request = ECHO
           then resp_type resp = ECHO_RESP \<and> resp_payload resp = req_payload request
           else if req_type request = STATS then resp_type resp = STATS_RESP
           else if req_type request = LOG_PUSH then resp_type resp \<in> {LOG_ACK, ERROR_RESP}
           else resp_type resp = ERROR_RESP))"
proof -
  have inc: "st_total_requests (incrementRequests stats) = st_total_requests stats + 1"
    by (simp add: incrementRequests_def)
  have keep: "st_total_requests (incrementErrors s) = st_total_requests s"
    "st_total_requests (incrementLogMessages s) = st_total_requests s" for s
    by (simp_all add: incrementErrors_def incrementLogMessages_def)
  obtain pl where pl: "makeErrorResponse_status request 500 ''AUTH reached normal worker'' =
      Inr ((response_to request ERROR_RESP)\<lparr>resp_payload := pl\<rparr>)"
    using makeErrorResponse_status_ok [OF ascii_messages(3)] by blast
  obtain ps where ps: "handleStats g request (incrementRequests stats) =
      Inr ((response_to request STATS_RESP)\<lparr>resp_payload := ps\<rparr>)"
    using handleStats_ok by blast
  show ?thesis
  proof (cases "req_type request = LOG_PUSH")
    case True
    then have d: "dispatch parse tt ok g request stats store =
        handleLogPush parse tt ok request (incrementRequests stats) store"
      by (simp add: dispatch_def message_types)
    show ?thesis
      unfolding d
      by (cases rule: handleLogPush_cases [of parse tt ok request "incrementRequests stats" store])
        (use True in \<open>simp_all add: inc keep message_types\<close>)
  next
    case False
    then show ?thesis
      using inc keep pl ps
      by (simp add: dispatch_def handlePing_def handleEcho_def makeErrorResponse_def message_types Let_def)
  qed
qed

text \<open>
  C39: A log line is acknowledged exactly when it was stored.  The store grows only by the line of an
  acknowledged push, whose payload is a JSON object of at most 4096 bytes with the three string
  fields; every other request leaves the stored lines alone.
\<close>

theorem log_push_acknowledged:
  "case dispatch parse tt ok g request stats store of (r, stats', store') \<Rightarrow>
     (if \<exists>resp. r = Inr resp \<and> resp_type resp = LOG_ACK
      then req_type request = LOG_PUSH \<and> ls_lines store' = ls_lines store @ [log_line tt request] \<and>
        length (req_payload request) \<le> 4096 \<and>
        st_total_log_messages stats' = st_total_log_messages stats + 1 \<and>
        (\<exists>kvs a b c. parse (req_payload request) = Inr (JObject kvs) \<and>
           map_of kvs ''level'' = Some (JString a) \<and> map_of kvs ''service'' = Some (JString b) \<and>
           map_of kvs ''message'' = Some (JString c))
      else ls_lines store' = ls_lines store \<and> st_total_log_messages stats' = st_total_log_messages stats)"
proof -
  have inc: "st_total_log_messages (incrementRequests s) = st_total_log_messages s"
    "st_total_log_messages (incrementErrors s) = st_total_log_messages s"
    "st_total_log_messages (incrementLogMessages s) = st_total_log_messages s + 1" for s
    by (simp_all add: incrementErrors_def incrementLogMessages_def incrementRequests_def)
  obtain pl where pl: "makeErrorResponse_status request 500 ''AUTH reached normal worker'' =
      Inr ((response_to request ERROR_RESP)\<lparr>resp_payload := pl\<rparr>)"
    using makeErrorResponse_status_ok [OF ascii_messages(3)] by blast
  obtain ps where ps: "handleStats g request (incrementRequests stats) =
      Inr ((response_to request STATS_RESP)\<lparr>resp_payload := ps\<rparr>)"
    using handleStats_ok by blast
  show ?thesis
  proof (cases "req_type request = LOG_PUSH")
    case True
    then have d: "dispatch parse tt ok g request stats store =
        handleLogPush parse tt ok request (incrementRequests stats) store"
      by (simp add: dispatch_def message_types)
    show ?thesis
      unfolding d
      by (cases rule: handleLogPush_cases [of parse tt ok request "incrementRequests stats" store])
        (use True in \<open>simp_all add: inc message_types\<close>)
  next
    case False
    then show ?thesis
      using inc pl ps
      by (simp add: dispatch_def handlePing_def handleEcho_def makeErrorResponse_def message_types Let_def)
  qed
qed

end
