(* ===== verification/BlockQueue.thy ===== *)
theory BlockQueue
  imports Gateway_Prelude
begin

text \<open>
  The bounded blocking queue \<^verbatim>\<open>include/concurrent/BlockQueue.hpp\<close>.  Every public method holds
  the queue's mutex for its whole body, so each is one atomic operation on the record below.
  The condition variable has no state of its own: \<open>pop\<close> waits while its predicate is false,
  which the model shows as the result \<open>PopWaits\<close> with the queue unchanged.

  The interface that the server relies on is the locale \<open>bounded_fifo\<close>; the record and its
  operations interpret it, and the queue theorems (capacity, no loss, no duplication, arrival
  order, behaviour after \<open>stop\<close> and \<open>abort\<close>) follow from the interface.
\<close>

section \<open>Data and operations\<close>

datatype PushResult = PushResult_OK | PushResult_FULL | PushResult_STOPPED

record 'a BlockQueue =
  q_capacity :: nat
  q_data :: "'a list"
  q_peak_size :: nat
  q_stopped :: bool

definition bq_new :: "nat \<Rightarrow> 'a BlockQueue" where
  "bq_new cap = \<lparr>q_capacity = cap, q_data = [], q_peak_size = 0, q_stopped = False\<rparr>"

text \<open>Both overloads of \<^verbatim>\<open>push\<close> (copy and move) have this effect on the queue.\<close>

definition bq_push :: "'a \<Rightarrow> 'a BlockQueue \<Rightarrow> PushResult \<times> 'a BlockQueue" where
  "bq_push x q =
     (if q_stopped q then (PushResult_STOPPED, q)
      else if length (q_data q) \<ge> q_capacity q then (PushResult_FULL, q)
      else
        let q1 = q\<lparr>q_data := q_data q @ [x]\<rparr>;
            q2 = (if length (q_data q1) > q_peak_size q1
                  then q1\<lparr>q_peak_size := length (q_data q1)\<rparr> else q1)
        in (PushResult_OK, q2))"

datatype 'a PopResult = PopWaits | PopFalse | PopItem 'a

definition bq_pop :: "'a BlockQueue \<Rightarrow> 'a PopResult \<times> 'a BlockQueue" where
  "bq_pop q =
     (if \<not> (q_data q \<noteq> [] \<or> q_stopped q) then (PopWaits, q)
      else case q_data q of
        [] \<Rightarrow> (PopFalse, q)
      | x # xs \<Rightarrow> (PopItem x, q\<lparr>q_data := xs\<rparr>))"

definition bq_tryPop :: "'a BlockQueue \<Rightarrow> 'a option \<times> 'a BlockQueue" where
  "bq_tryPop q =
     (case q_data q of
        [] \<Rightarrow> (None, q)
      | x # xs \<Rightarrow> (Some x, q\<lparr>q_data := xs\<rparr>))"

definition bq_stop :: "'a BlockQueue \<Rightarrow> 'a BlockQueue" where
  "bq_stop q = q\<lparr>q_stopped := True\<rparr>"

definition bq_abort :: "'a BlockQueue \<Rightarrow> nat \<times> 'a BlockQueue" where
  "bq_abort q =
     (let q1 = q\<lparr>q_stopped := True\<rparr>; discarded = length (q_data q1)
      in (discarded, q1\<lparr>q_data := []\<rparr>))"

definition bq_size :: "'a BlockQueue \<Rightarrow> nat" where
  "bq_size q = length (q_data q)"

definition bq_peakSize :: "'a BlockQueue \<Rightarrow> nat" where
  "bq_peakSize q = q_peak_size q"

text \<open>
  What every operation keeps: the backlog never exceeds the capacity, and the recorded peak is
  an upper bound of the backlog that itself stays within the capacity.
\<close>

definition bq_inv :: "'a BlockQueue \<Rightarrow> bool" where
  "bq_inv q \<longleftrightarrow> length (q_data q) \<le> q_peak_size q \<and> q_peak_size q \<le> q_capacity q"

section \<open>Histories\<close>

datatype 'a queue_op = OpPush 'a | OpPop | OpTryPop | OpStop | OpAbort

text \<open>
  One operation with what it moves: the items accepted, the items handed to a consumer and the
  items discarded by \<open>abort\<close>.
\<close>

fun bq_step :: "'a queue_op \<Rightarrow> 'a BlockQueue \<Rightarrow> 'a list \<times> 'a list \<times> 'a list \<times> 'a BlockQueue" where
  "bq_step (OpPush x) q =
     (case bq_push x q of (r, q') \<Rightarrow> (if r = PushResult_OK then [x] else [], [], [], q'))"
| "bq_step OpPop q =
     (case bq_pop q of (r, q') \<Rightarrow> ([], case r of PopItem x \<Rightarrow> [x] | _ \<Rightarrow> [], [], q'))"
| "bq_step OpTryPop q =
     (case bq_tryPop q of (r, q') \<Rightarrow> ([], case r of Some x \<Rightarrow> [x] | None \<Rightarrow> [], [], q'))"
| "bq_step OpStop q = ([], [], [], bq_stop q)"
| "bq_step OpAbort q = ([], [], q_data q, snd (bq_abort q))"

fun bq_run :: "'a queue_op list \<Rightarrow> 'a BlockQueue \<Rightarrow> 'a list \<times> 'a list \<times> 'a list \<times> 'a BlockQueue" where
  "bq_run [] q = ([], [], [], q)"
| "bq_run (e # es) q =
     (case bq_step e q of (acc, out, dropped, q1) \<Rightarrow>
        (case bq_run es q1 of (acc', out', dropped', q2) \<Rightarrow>
           (acc @ acc', out @ out', dropped @ dropped', q2)))"

section \<open>The interface\<close>

locale bounded_fifo =
  fixes contents :: "'q \<Rightarrow> 'a list"
    and cap :: "'q \<Rightarrow> nat"
    and closed :: "'q \<Rightarrow> bool"
    and invar :: "'q \<Rightarrow> bool"
    and push :: "'a \<Rightarrow> 'q \<Rightarrow> PushResult \<times> 'q"
    and pop :: "'q \<Rightarrow> 'a PopResult \<times> 'q"
    and tryPop :: "'q \<Rightarrow> 'a option \<times> 'q"
    and stop :: "'q \<Rightarrow> 'q"
    and abort :: "'q \<Rightarrow> nat \<times> 'q"
  assumes push_closed: "closed q \<Longrightarrow> push x q = (PushResult_STOPPED, q)"
    and push_full: "\<not> closed q \<Longrightarrow> cap q \<le> length (contents q) \<Longrightarrow> push x q = (PushResult_FULL, q)"
    and push_room: "\<not> closed q \<Longrightarrow> length (contents q) < cap q \<Longrightarrow>
          \<exists>q'. push x q = (PushResult_OK, q') \<and> contents q' = contents q @ [x] \<and>
               cap q' = cap q \<and> closed q' = closed q"
    and pop_empty: "contents q = [] \<Longrightarrow>
          pop q = (if closed q then PopFalse else PopWaits, q)"
    and pop_item: "contents q = x # xs \<Longrightarrow>
          \<exists>q'. pop q = (PopItem x, q') \<and> contents q' = xs \<and> cap q' = cap q \<and> closed q' = closed q"
    and tryPop_empty: "contents q = [] \<Longrightarrow> tryPop q = (None, q)"
    and tryPop_item: "contents q = x # xs \<Longrightarrow>
          \<exists>q'. tryPop q = (Some x, q') \<and> contents q' = xs \<and> cap q' = cap q \<and> closed q' = closed q"
    and stop_spec: "contents (stop q) = contents q \<and> cap (stop q) = cap q \<and> closed (stop q)"
    and abort_spec: "fst (abort q) = length (contents q) \<and> contents (snd (abort q)) = [] \<and>
          cap (snd (abort q)) = cap q \<and> closed (snd (abort q))"
    and invar_push: "invar q \<Longrightarrow> invar (snd (push x q))"
    and invar_pop: "invar q \<Longrightarrow> invar (snd (pop q))"
    and invar_tryPop: "invar q \<Longrightarrow> invar (snd (tryPop q))"
    and invar_stop: "invar q \<Longrightarrow> invar (stop q)"
    and invar_abort: "invar q \<Longrightarrow> invar (snd (abort q))"
    and invar_bound: "invar q \<Longrightarrow> length (contents q) \<le> cap q"
begin

lemma push_cases:
  obtains (stopped) "closed q" "push x q = (PushResult_STOPPED, q)"
  | (full) "\<not> closed q" "cap q \<le> length (contents q)" "push x q = (PushResult_FULL, q)"
  | (ok) q' where "\<not> closed q" "length (contents q) < cap q" "push x q = (PushResult_OK, q')"
      "contents q' = contents q @ [x]" "cap q' = cap q" "closed q' = closed q"
  using push_closed push_full push_room by (meson not_le)

lemma push_contents:
  "contents (snd (push x q)) =
     contents q @ (if fst (push x q) = PushResult_OK then [x] else [])"
  by (rule push_cases [of q x]) auto

lemma push_ok_iff:
  "fst (push x q) = PushResult_OK \<longleftrightarrow> \<not> closed q \<and> length (contents q) < cap q"
  by (rule push_cases [of q x]) auto

lemma push_frame: "cap (snd (push x q)) = cap q" "closed (snd (push x q)) = closed q"
  by (rule push_cases [of q x]; simp)+

lemma pop_contents:
  "(case fst (pop q) of PopItem x \<Rightarrow> [x] | _ \<Rightarrow> []) @ contents (snd (pop q)) = contents q"
proof (cases "contents q")
  case Nil
  then show ?thesis by (simp add: pop_empty)
next
  case (Cons x xs)
  from pop_item [OF Cons] Cons show ?thesis by auto
qed

lemma pop_waits_iff: "fst (pop q) = PopWaits \<longleftrightarrow> contents q = [] \<and> \<not> closed q"
proof (cases "contents q")
  case Nil
  then show ?thesis by (simp add: pop_empty)
next
  case (Cons x xs)
  from pop_item [OF Cons] Cons show ?thesis by auto
qed

lemma pop_frame: "cap (snd (pop q)) = cap q" "closed (snd (pop q)) = closed q"
proof -
  have "cap (snd (pop q)) = cap q \<and> closed (snd (pop q)) = closed q"
  proof (cases "contents q")
    case Nil
    then show ?thesis by (simp add: pop_empty)
  next
    case (Cons x xs)
    from pop_item [OF Cons] show ?thesis by auto
  qed
  then show "cap (snd (pop q)) = cap q" "closed (snd (pop q)) = closed q" by auto
qed

lemma tryPop_contents:
  "(case fst (tryPop q) of Some x \<Rightarrow> [x] | None \<Rightarrow> []) @ contents (snd (tryPop q)) = contents q"
proof (cases "contents q")
  case Nil
  then show ?thesis by (simp add: tryPop_empty)
next
  case (Cons x xs)
  from tryPop_item [OF Cons] Cons show ?thesis by auto
qed

lemma tryPop_frame: "cap (snd (tryPop q)) = cap q" "closed (snd (tryPop q)) = closed q"
proof -
  have "cap (snd (tryPop q)) = cap q \<and> closed (snd (tryPop q)) = closed q"
  proof (cases "contents q")
    case Nil
    then show ?thesis by (simp add: tryPop_empty)
  next
    case (Cons x xs)
    from tryPop_item [OF Cons] show ?thesis by auto
  qed
  then show "cap (snd (tryPop q)) = cap q" "closed (snd (tryPop q)) = closed q" by auto
qed

end

interpretation bq: bounded_fifo
  q_data q_capacity q_stopped bq_inv bq_push bq_pop bq_tryPop bq_stop bq_abort
  by unfold_locales
    (auto simp: bq_push_def bq_pop_def bq_tryPop_def bq_stop_def bq_abort_def bq_inv_def Let_def
      split: list.splits)

lemmas bq_frames = bq.push_frame bq.pop_frame bq.tryPop_frame

section \<open>Theorems\<close>

lemma bq_step_inv: "bq_inv q \<Longrightarrow> bq_step e q = (a, t, d, q') \<Longrightarrow> bq_inv q'"
  by (cases e)
    (auto simp: case_prod_beta
      intro: bq.invar_push bq.invar_pop bq.invar_tryPop bq.invar_stop bq.invar_abort)

lemma bq_step_frame:
  "bq_step e q = (a, t, d, q') \<Longrightarrow> q_capacity q' = q_capacity q \<and> (q_stopped q \<longrightarrow> q_stopped q')"
  by (cases e) (auto simp: case_prod_beta bq_frames bq.stop_spec bq.abort_spec)

lemma bq_step_conserves:
  assumes "bq_step e q = (a, t, d, q')"
  shows "q_data q @ a = t @ d @ q_data q'"
proof (cases e)
  case (OpPush x)
  with assms show ?thesis by (auto simp: case_prod_beta bq.push_contents)
next
  case OpPop
  with assms bq.pop_contents [of q] show ?thesis by (auto simp: case_prod_beta)
next
  case OpTryPop
  with assms bq.tryPop_contents [of q] show ?thesis by (auto simp: case_prod_beta)
next
  case OpStop
  with assms show ?thesis by (auto simp: bq.stop_spec)
next
  case OpAbort
  with assms show ?thesis by (auto simp: bq.abort_spec)
qed

lemma bq_step_after_stop:
  assumes "bq_step e q = (a, t, d, q')" and "q_stopped q"
  shows "a = []"
  using assms by (cases e) (auto simp: case_prod_beta bq.push_ok_iff split: if_splits)

lemma bq_step_discards:
  assumes "bq_step e q = (a, t, d, q')" and "d \<noteq> []"
  shows "q_stopped q' \<and> q_data q' = []"
  using assms by (cases e) (auto simp: case_prod_beta bq.abort_spec)

text \<open>Once the queue is stopped and empty, nothing enters or leaves it any more.\<close>

lemma bq_run_dead:
  "q_stopped q \<Longrightarrow> q_data q = [] \<Longrightarrow> bq_run es q = (a, t, d, q') \<Longrightarrow>
     a = [] \<and> t = [] \<and> d = [] \<and> q_data q' = []"
proof (induction es arbitrary: q q' a t d)
  case Nil
  then show ?case by simp
next
  case (Cons e es)
  obtain a1 t1 d1 q1 where st: "bq_step e q = (a1, t1, d1, q1)" by (metis prod_cases4)
  obtain a2 t2 d2 q2 where run: "bq_run es q1 = (a2, t2, d2, q2)" by (metis prod_cases4)
  from bq_step_conserves [OF st] bq_step_after_stop [OF st Cons.prems(1)] Cons.prems(2)
  have "a1 = [] \<and> t1 = [] \<and> d1 = [] \<and> q_data q1 = []" by auto
  moreover from bq_step_frame [OF st] Cons.prems(1) have "q_stopped q1" by simp
  ultimately show ?case
    using Cons.IH [OF _ _ run] Cons.prems(3) st run by simp
qed

lemma bq_run_conserves:
  "bq_run es q = (a, t, d, q') \<Longrightarrow> q_data q @ a = t @ d @ q_data q'"
proof (induction es arbitrary: q q' a t d)
  case Nil
  then show ?case by simp
next
  case (Cons e es)
  obtain a1 t1 d1 q1 where st: "bq_step e q = (a1, t1, d1, q1)" by (metis prod_cases4)
  obtain a2 t2 d2 q2 where run: "bq_run es q1 = (a2, t2, d2, q2)" by (metis prod_cases4)
  from Cons.prems st run have eqs: "a = a1 @ a2" "t = t1 @ t2" "d = d1 @ d2" "q' = q2" by auto
  show ?case
  proof (cases "d1 = []")
    case True
    with bq_step_conserves [OF st] have "q_data q @ a1 = t1 @ q_data q1" by simp
    then have "q_data q @ a1 @ a2 = t1 @ q_data q1 @ a2"
      by (simp flip: append_assoc)
    with Cons.IH [OF run] eqs True show ?thesis by simp
  next
    case False
    from bq_step_discards [OF st False] run
    have "a2 = [] \<and> t2 = [] \<and> d2 = [] \<and> q_data q2 = []" using bq_run_dead by blast
    with bq_step_conserves [OF st] bq_step_discards [OF st False] eqs show ?thesis by simp
  qed
qed

lemma bq_run_inv:
  "bq_inv q \<Longrightarrow> bq_run es q = (a, t, d, q') \<Longrightarrow> bq_inv q' \<and> q_capacity q' = q_capacity q"
proof (induction es arbitrary: q q' a t d)
  case Nil
  then show ?case by simp
next
  case (Cons e es)
  obtain a1 t1 d1 q1 where st: "bq_step e q = (a1, t1, d1, q1)" by (metis prod_cases4)
  obtain a2 t2 d2 q2 where run: "bq_run es q1 = (a2, t2, d2, q2)" by (metis prod_cases4)
  from Cons.IH [OF bq_step_inv [OF Cons.prems(1) st] run] bq_step_frame [OF st] Cons.prems(2) st run
  show ?case by auto
qed

fun bq_pop_all :: "nat \<Rightarrow> 'a BlockQueue \<Rightarrow> 'a list \<times> 'a PopResult" where
  "bq_pop_all 0 q = ([], fst (bq_pop q))"
| "bq_pop_all (Suc n) q =
     (case bq_pop q of
        (PopItem x, q') \<Rightarrow> (case bq_pop_all n q' of (xs, r) \<Rightarrow> (x # xs, r))
      | (r, q') \<Rightarrow> ([], r))"

lemma bq_pop_all_stopped:
  "q_stopped q \<Longrightarrow> bq_pop_all (length (q_data q)) q = (q_data q, PopFalse)"
proof (induction "q_data q" arbitrary: q)
  case Nil
  then show ?case by (simp add: bq_pop_def)
next
  case (Cons x xs)
  from Cons.hyps(2) have "bq_pop q = (PopItem x, q\<lparr>q_data := xs\<rparr>)"
    by (simp add: bq_pop_def flip: Cons.hyps(2))
  with Cons.hyps(1) [of "q\<lparr>q_data := xs\<rparr>"] Cons.prems show ?case
    by (simp flip: Cons.hyps(2))
qed

text \<open>
  C21: For every sequence of \<open>push\<close>, \<open>pop\<close>, \<open>tryPop\<close>, \<open>stop\<close> and \<open>abort\<close> calls on a new queue, the
  items that were accepted are, in order, exactly those handed to consumers followed by those
  discarded by \<open>abort\<close> followed by those still queued: nothing is lost, duplicated or reordered.
  The backlog and the reported peak never exceed the capacity.
\<close>

theorem bq_history:
  "case bq_run es (bq_new cap) of (accepted, taken, dropped, q) \<Rightarrow>
     accepted = taken @ dropped @ q_data q \<and>
     bq_size q \<le> bq_peakSize q \<and> bq_peakSize q \<le> cap"
proof -
  obtain a t d q where run: "bq_run es (bq_new cap) = (a, t, d, q)" by (metis prod_cases4)
  have "bq_inv (bq_new cap)" by (simp add: bq_inv_def bq_new_def)
  from bq_run_inv [OF this run] bq_run_conserves [OF run] run show ?thesis
    by (simp add: bq_inv_def bq_new_def bq_size_def bq_peakSize_def)
qed

text \<open>
  A consumer of a stopped queue receives every item that was queued when it stopped, in
  order, and then the \<open>false\<close> that ends its loop; it never waits.
\<close>

theorem bq_drain_after_stop:
  "bq_pop_all (length (q_data q)) (bq_stop q) = (q_data q, PopFalse)"
  using bq_pop_all_stopped [of "bq_stop q"] by (simp add: bq_stop_def)

end
