(* ===== verification/Logger.thy ===== *)
theory Logger
  imports Gateway_Prelude
begin

text \<open>
  Log levels and filtering of \<^verbatim>\<open>src/common/Logger.cpp\<close>.  The state is the configured level and
  whether the environment variable has been read; the output is the list of lines written, each
  with its stream, level and text.  Formatting of the message (\<^verbatim>\<open>vfprintf\<close>) is done by the caller.
\<close>

datatype log_stream = Stdout | Stderr

record Logger =
  lg_initialized :: bool
  lg_configured_level :: int
  lg_lines :: "(log_stream \<times> string \<times> string) list"

definition logger_init :: Logger where
  "logger_init = \<lparr>lg_initialized = False, lg_configured_level = 1, lg_lines = []\<rparr>"

definition parseLevel :: "string \<Rightarrow> int" where
  "parseLevel level =
     (if level = ''DEBUG'' then 0 else if level = ''INFO'' then 1
      else if level = ''WARN'' then 2 else 3)"

text \<open>The argument is the value of the environment variable \<^verbatim>\<open>GATEWAY_LOG_LEVEL\<close>.\<close>

definition initializeLogLevel :: "string option \<Rightarrow> Logger \<Rightarrow> Logger" where
  "initializeLogLevel env lg =
     (if lg_initialized lg then lg
      else lg\<lparr>lg_configured_level := parseLevel (case env of None \<Rightarrow> ''INFO'' | Some l \<Rightarrow> l),
              lg_initialized := True\<rparr>)"

definition debugLoggingEnabled :: "string option \<Rightarrow> Logger \<Rightarrow> bool \<times> Logger" where
  "debugLoggingEnabled env lg =
     (let lg1 = initializeLogLevel env lg in (lg_configured_level lg1 = 0, lg1))"

definition writeLog :: "log_stream \<Rightarrow> string \<Rightarrow> string \<Rightarrow> Logger \<Rightarrow> Logger" where
  "writeLog stream level line lg = lg\<lparr>lg_lines := lg_lines lg @ [(stream, level, line)]\<rparr>"

definition setGatewayLogLevel :: "string option \<Rightarrow> string \<Rightarrow> Logger \<Rightarrow> Logger" where
  "setGatewayLogLevel env level lg =
     (initializeLogLevel env lg)\<lparr>lg_configured_level := parseLevel level\<rparr>"

definition gatewayLog :: "string option \<Rightarrow> log_stream \<Rightarrow> string \<Rightarrow> string \<Rightarrow> Logger \<Rightarrow> Logger" where
  "gatewayLog env stream level line lg =
     (let lg1 = initializeLogLevel env lg;
          message_level = (if level = ''INFO'' then 1 else 3)
      in if message_level < lg_configured_level lg1 then lg1 else writeLog stream level line lg1)"

definition gatewayDebugLog :: "string option \<Rightarrow> string \<Rightarrow> Logger \<Rightarrow> Logger" where
  "gatewayDebugLog env line lg =
     (case debugLoggingEnabled env lg of (enabled, lg1) \<Rightarrow>
        if \<not> enabled then lg1 else writeLog Stdout ''DEBUG'' line lg1)"

text \<open>
  After the level has been set, a line of level L is written exactly when L is at least the
  configured level: errors always, information only at INFO or below, debugging only at DEBUG.
\<close>

theorem log_filtering:
  "lg_lines (gatewayLog env Stderr ''ERROR'' line (setGatewayLogLevel env level lg)) =
     lg_lines lg @ [(Stderr, ''ERROR'', line)] \<and>
   lg_lines (gatewayLog env Stdout ''INFO'' line (setGatewayLogLevel env level lg)) =
     lg_lines lg @ (if parseLevel level \<le> 1 then [(Stdout, ''INFO'', line)] else []) \<and>
   lg_lines (gatewayDebugLog env line (setGatewayLogLevel env level lg)) =
     lg_lines lg @ (if parseLevel level = 0 then [(Stdout, ''DEBUG'', line)] else [])"
  by (simp add: gatewayLog_def gatewayDebugLog_def debugLoggingEnabled_def setGatewayLogLevel_def
      initializeLogLevel_def writeLog_def Let_def parseLevel_def)

end
