(* ===== verification/StartupConfig.thy ===== *)
theory StartupConfig
  imports HttpTypes
begin

text \<open>
  Start-up configuration from the process environment: \<^verbatim>\<open>include/control/StartupConfig.hpp\<close> and
  \<^verbatim>\<open>src/control/StartupConfig.cpp\<close>.  The environment is a partial function from variable names to
  their values; every rejected value is the \<^verbatim>\<open>std::invalid_argument\<close> the code throws.
\<close>

section \<open>Data\<close>

type_synonym environment = "string \<Rightarrow> string option"

record StartupConfig =
  sc_app_environment :: string
  sc_gateway_port :: int
  sc_control_plane_host :: string
  sc_control_plane_port :: int
  sc_control_plane_timeout_ms :: int
  sc_gateway_token :: string
  sc_request_queue_capacity :: nat
  sc_response_queue_capacity :: nat
  sc_shutdown_timeout_ms :: int
  sc_worker_count :: nat
  sc_auth_worker_count :: nat
  sc_auth_queue_capacity :: nat

definition StartupConfig_default :: StartupConfig where
  "StartupConfig_default =
     \<lparr>sc_app_environment = ''production'', sc_gateway_port = 9000,
      sc_control_plane_host = ''127.0.0.1'', sc_control_plane_port = 8080,
      sc_control_plane_timeout_ms = 1000, sc_gateway_token = [],
      sc_request_queue_capacity = 4096, sc_response_queue_capacity = 4096,
      sc_shutdown_timeout_ms = 5000, sc_worker_count = 0, sc_auth_worker_count = 2,
      sc_auth_queue_capacity = 32\<rparr>"

definition SHUTDOWN_SAFETY_MARGIN_MS :: nat where
  "SHUTDOWN_SAFETY_MARGIN_MS = 100"

section \<open>Readers\<close>

definition readString :: "environment \<Rightarrow> string \<Rightarrow> string \<Rightarrow> bool \<Rightarrow> cpp_exn + string" where
  "readString env name default_value allow_empty =
     (case env name of
        None \<Rightarrow> Inr default_value
      | Some raw \<Rightarrow>
          if \<not> allow_empty \<and> raw = [] then Inl (InvalidArgument (name @ '' must not be empty''))
          else Inr raw)"

text \<open>
  \<^verbatim>\<open>std::from_chars\<close> for \<^verbatim>\<open>uint64_t\<close>: the longest run of digits is consumed; no digit is
  \<^verbatim>\<open>invalid_argument\<close>, a value of 65 bits or more is \<^verbatim>\<open>result_out_of_range\<close>.  The result is the number
  of characters consumed, and the value unless the range error occurred.
\<close>

definition from_chars_u64 :: "string \<Rightarrow> (nat \<times> nat option) option" where
  "from_chars_u64 text =
     (let digits = takeWhile is_digit text;
          value = foldl (\<lambda>v c. v * 10 + digit_value c) 0 digits
      in if digits = [] then None
         else Some (length digits, if value < 2 ^ 64 then Some value else None))"

definition readUnsigned :: "environment \<Rightarrow> string \<Rightarrow> nat \<Rightarrow> nat \<Rightarrow> nat \<Rightarrow> cpp_exn + nat" where
  "readUnsigned env name default_value minimum maximum =
     (case env name of
        None \<Rightarrow> Inr default_value
      | Some text \<Rightarrow>
          let err = InvalidArgument (name @ '' must be an integer in ['' @ show_nat minimum @ '', '' @
                                     show_nat maximum @ '']'')
          in case from_chars_u64 text of
               Some (consumed, Some value) \<Rightarrow>
                 if text = [] \<or> consumed \<noteq> length text \<or> value < minimum \<or> value > maximum
                 then Inl err else Inr value
             | _ \<Rightarrow> Inl err)"

definition strip_spaces :: "string \<Rightarrow> string" where
  "strip_spaces s = rev (dropWhile isspace (rev (dropWhile isspace s)))"

definition app_environments :: "string list" where
  "app_environments = [''development'', ''test'', ''staging'', ''production'']"

definition readApplicationEnvironment :: "environment \<Rightarrow> cpp_exn + string" where
  "readApplicationEnvironment env =
     (case readString env ''APP_ENV'' ''production'' False of
        Inl e \<Rightarrow> Inl e
      | Inr raw \<Rightarrow>
          let e = map tolower (strip_spaces raw) in
          if e \<notin> set app_environments
          then Inl (InvalidArgument ''APP_ENV must be development, test, staging, or production'')
          else Inr e)"

definition isBlank :: "string \<Rightarrow> bool" where
  "isBlank v \<longleftrightarrow> v = [] \<or> list_all isspace v"

definition parseStartupConfig :: "environment \<Rightarrow> cpp_exn + StartupConfig" where
  "parseStartupConfig env =
     (let d = StartupConfig_default in
      try_bind (readApplicationEnvironment env) (\<lambda>ae.
      try_bind (readUnsigned env ''GATEWAY_PORT'' (nat (sc_gateway_port d)) 1 65535) (\<lambda>gp.
      try_bind (readString env ''CONTROL_PLANE_HOST'' (sc_control_plane_host d) False) (\<lambda>ch.
      try_bind (readUnsigned env ''CONTROL_PLANE_PORT'' (nat (sc_control_plane_port d)) 1 65535) (\<lambda>cp.
      try_bind (readUnsigned env ''CONTROL_PLANE_TIMEOUT_MS'' (nat (sc_control_plane_timeout_ms d)) 100 30000) (\<lambda>ct.
      try_bind (readString env ''GATEWAY_SHARED_TOKEN'' [] True) (\<lambda>tok.
      if ae \<noteq> ''development'' \<and> isBlank tok
      then Inl (InvalidArgument ''GATEWAY_SHARED_TOKEN must be set unless APP_ENV=development'') else
      try_bind (readUnsigned env ''REQUEST_QUEUE_CAPACITY'' (sc_request_queue_capacity d) 1 65536) (\<lambda>rq.
      try_bind (readUnsigned env ''RESPONSE_QUEUE_CAPACITY'' (sc_response_queue_capacity d) 1 65536) (\<lambda>pq.
      try_bind (readUnsigned env ''SHUTDOWN_TIMEOUT_MS'' (nat (sc_shutdown_timeout_ms d)) 1 300000) (\<lambda>st.
      try_bind (readUnsigned env ''WORKER_COUNT'' (sc_worker_count d) 0 1024) (\<lambda>wc.
      try_bind (readUnsigned env ''AUTH_WORKER_COUNT'' (sc_auth_worker_count d) 1 16) (\<lambda>aw.
      try_bind (readUnsigned env ''AUTH_QUEUE_CAPACITY'' (sc_auth_queue_capacity d) 1 65536) (\<lambda>aq.
      let minimum_shutdown_ms = 2 * ct + SHUTDOWN_SAFETY_MARGIN_MS in
      if st < minimum_shutdown_ms
      then Inl (InvalidArgument (''SHUTDOWN_TIMEOUT_MS must be at least 2 * CONTROL_PLANE_TIMEOUT_MS + '' @
                                 show_nat SHUTDOWN_SAFETY_MARGIN_MS))
      else Inr \<lparr>sc_app_environment = ae, sc_gateway_port = int gp, sc_control_plane_host = ch,
                sc_control_plane_port = int cp, sc_control_plane_timeout_ms = int ct,
                sc_gateway_token = tok, sc_request_queue_capacity = rq,
                sc_response_queue_capacity = pq, sc_shutdown_timeout_ms = int st,
                sc_worker_count = wc, sc_auth_worker_count = aw, sc_auth_queue_capacity = aq\<rparr>)))))))))))))"

section \<open>Theorems\<close>

lemma readUnsigned_range:
  "readUnsigned env name d lo hi = Inr v \<Longrightarrow> lo \<le> d \<Longrightarrow> d \<le> hi \<Longrightarrow> lo \<le> v \<and> v \<le> hi"
  by (auto simp: readUnsigned_def Let_def split: option.splits prod.splits if_splits)

lemma readString_nonempty:
  "readString env name d False = Inr v \<Longrightarrow> d \<noteq> [] \<Longrightarrow> v \<noteq> []"
  by (auto simp: readString_def split: option.splits if_splits)

lemma readApplicationEnvironment_known:
  "readApplicationEnvironment env = Inr e \<Longrightarrow> e \<in> set app_environments"
  by (auto simp: readApplicationEnvironment_def Let_def split: sum.splits if_splits)

text \<open>What a start-up configuration promises to the server that is built from it.\<close>

definition valid_startup :: "StartupConfig \<Rightarrow> bool" where
  "valid_startup c \<longleftrightarrow>
     sc_app_environment c \<in> set app_environments \<and>
     1 \<le> sc_gateway_port c \<and> sc_gateway_port c \<le> 65535 \<and>
     sc_control_plane_host c \<noteq> [] \<and>
     1 \<le> sc_control_plane_port c \<and> sc_control_plane_port c \<le> 65535 \<and>
     100 \<le> sc_control_plane_timeout_ms c \<and> sc_control_plane_timeout_ms c \<le> 30000 \<and>
     (sc_app_environment c = ''development'' \<or> \<not> isBlank (sc_gateway_token c)) \<and>
     1 \<le> sc_request_queue_capacity c \<and> sc_request_queue_capacity c \<le> 65536 \<and>
     1 \<le> sc_response_queue_capacity c \<and> sc_response_queue_capacity c \<le> 65536 \<and>
     1 \<le> sc_auth_worker_count c \<and> sc_auth_worker_count c \<le> 16 \<and>
     1 \<le> sc_auth_queue_capacity c \<and> sc_auth_queue_capacity c \<le> 65536 \<and>
     sc_worker_count c \<le> 1024 \<and>
     2 * sc_control_plane_timeout_ms c + 100 \<le> sc_shutdown_timeout_ms c \<and>
     sc_shutdown_timeout_ms c \<le> 300000"

text \<open>
  C29: Whatever the environment holds, a start-up configuration that is accepted is within all its
  ranges: ports, capacities and worker counts are usable, a shared token is present outside
  development, and the shutdown time covers two control-plane timeouts and the safety margin.
\<close>

theorem parseStartupConfig_valid:
  assumes "parseStartupConfig env = Inr c"
  shows "valid_startup c"
proof -
  from assms obtain ae gp ch cp ct tok rq pq st wc aw aq where
    r: "readApplicationEnvironment env = Inr ae"
      "readString env ''CONTROL_PLANE_HOST'' ''127.0.0.1'' False = Inr ch"
      "ae = ''development'' \<or> \<not> isBlank tok" "\<not> st < 2 * ct + 100"
    and u: "readUnsigned env ''GATEWAY_PORT'' 9000 1 65535 = Inr gp"
      "readUnsigned env ''CONTROL_PLANE_PORT'' 8080 1 65535 = Inr cp"
      "readUnsigned env ''CONTROL_PLANE_TIMEOUT_MS'' 1000 100 30000 = Inr ct"
      "readUnsigned env ''REQUEST_QUEUE_CAPACITY'' 4096 1 65536 = Inr rq"
      "readUnsigned env ''RESPONSE_QUEUE_CAPACITY'' 4096 1 65536 = Inr pq"
      "readUnsigned env ''SHUTDOWN_TIMEOUT_MS'' 5000 1 300000 = Inr st"
      "readUnsigned env ''WORKER_COUNT'' 0 0 1024 = Inr wc"
      "readUnsigned env ''AUTH_WORKER_COUNT'' 2 1 16 = Inr aw"
      "readUnsigned env ''AUTH_QUEUE_CAPACITY'' 32 1 65536 = Inr aq"
    and c: "c = \<lparr>sc_app_environment = ae, sc_gateway_port = int gp, sc_control_plane_host = ch,
                sc_control_plane_port = int cp, sc_control_plane_timeout_ms = int ct,
                sc_gateway_token = tok, sc_request_queue_capacity = rq,
                sc_response_queue_capacity = pq, sc_shutdown_timeout_ms = int st,
                sc_worker_count = wc, sc_auth_worker_count = aw, sc_auth_queue_capacity = aq\<rparr>"
    unfolding parseStartupConfig_def Let_def StartupConfig_default_def SHUTDOWN_SAFETY_MARGIN_MS_def
    by (simp add: try_bind_Inr_iff throw_if_Inr_iff) (elim exE conjE, blast)
  from u [THEN readUnsigned_range] have "1 \<le> gp \<and> gp \<le> 65535" "1 \<le> cp \<and> cp \<le> 65535"
    "100 \<le> ct \<and> ct \<le> 30000" "1 \<le> rq \<and> rq \<le> 65536" "1 \<le> pq \<and> pq \<le> 65536" "st \<le> 300000"
    "wc \<le> 1024" "1 \<le> aw \<and> aw \<le> 16" "1 \<le> aq \<and> aq \<le> 65536"
    by simp_all
  with r c readApplicationEnvironment_known [OF r(1)] readString_nonempty [OF r(2)] show ?thesis
    by (auto simp: valid_startup_def)
qed

theorem parseStartupConfig_valid_witness:
  "\<exists>c. parseStartupConfig [''GATEWAY_SHARED_TOKEN'' \<mapsto> ''s3cret'', ''GATEWAY_PORT'' \<mapsto> ''8081''] = Inr c \<and>
     valid_startup c"
proof -
  let ?env = "[''GATEWAY_SHARED_TOKEN'' \<mapsto> ''s3cret'', ''GATEWAY_PORT'' \<mapsto> ''8081'']"
  have dflt: "env name = None \<Longrightarrow> readUnsigned env name d lo hi = Inr d" for env name d lo hi
    by (simp add: readUnsigned_def)
  have port: "readUnsigned ?env ''GATEWAY_PORT'' d 1 65535 = Inr 8081" for d
    by (simp add: readUnsigned_def from_chars_u64_def is_digit_def digit_value_def)
  have env: "readApplicationEnvironment ?env = Inr ''production''"
    by (simp add: readApplicationEnvironment_def readString_def strip_spaces_def isspace_def tolower_def
        app_environments_def)
  have "\<exists>c. parseStartupConfig ?env = Inr c"
    by (simp add: parseStartupConfig_def env port [simplified] dflt readString_def isBlank_def isspace_def
        StartupConfig_default_def SHUTDOWN_SAFETY_MARGIN_MS_def)
  then show ?thesis using parseStartupConfig_valid by blast
qed

text \<open>
  A numeric variable is read exactly: the decimal text of a number in the range yields that
  number, and the decimal text of a number outside the range is refused.
\<close>

theorem readUnsigned_decimal:
  assumes "env name = Some (show_nat n)" and "n < 2 ^ 64"
  shows "readUnsigned env name d lo hi =
           (if lo \<le> n \<and> n \<le> hi then Inr n
            else Inl (InvalidArgument (name @ '' must be an integer in ['' @ show_nat lo @ '', '' @
                                       show_nat hi @ '']'')))"
proof -
  from digits_value_show_nat [of n] have tw: "takeWhile is_digit (show_nat n) = show_nat n"
    by (auto simp: takeWhile_eq_all_conv list_all_iff)
  have "from_chars_u64 (show_nat n) = Some (length (show_nat n), Some n)"
    unfolding from_chars_u64_def tw using digits_value_show_nat [of n] assms(2) by simp
  with assms digits_value_show_nat [of n] show ?thesis
    by (simp add: readUnsigned_def)
qed

theorem readUnsigned_decimal_witness:
  "readUnsigned [''WORKER_COUNT'' \<mapsto> show_nat 16] ''WORKER_COUNT'' 4 0 1024 = Inr 16"
  using readUnsigned_decimal [of "[''WORKER_COUNT'' \<mapsto> show_nat 16]" "''WORKER_COUNT''" 16 4 0 1024]
  by simp

end
