(* ===== verification/ReactorNotifier.thy ===== *)
theory ReactorNotifier
  imports Kernel
begin

text \<open>
  The wake-up of the reactor: \<^verbatim>\<open>src/net/ReactorNotifier.cpp\<close>.  The state is the descriptor and the
  64-bit counter the kernel keeps for it: a write of one adds to the counter, or would block when the
  counter is at its maximum; a read takes the whole counter, or would block when it is zero.

  The theorems: after a notification the descriptor is readable, however often it was notified; and
  consuming always leaves it unreadable.
\<close>

record ReactorNotifier =
  rn_fd :: int
  rn_counter :: nat

definition notifier_new :: ReactorNotifier where
  "notifier_new = \<lparr>rn_fd = -1, rn_counter = 0\<rparr>"

definition EVENTFD_MAX :: nat where
  "EVENTFD_MAX = 2 ^ 64 - 2"

definition notifier_open :: "os \<Rightarrow> ReactorNotifier \<Rightarrow> io \<Rightarrow> bool \<times> ReactorNotifier \<times> io" where
  "notifier_open os n w =
     (if rn_fd n \<noteq> -1 then (True, n, w)
      else
        (case sys_create os ''eventfd'' w of
           (SysOk fd, w1) \<Rightarrow> (fd \<noteq> -1, \<lparr>rn_fd = fd, rn_counter = 0\<rparr>, w1)
         | (SysErr e, w1) \<Rightarrow> (False, n, w1)))"

partial_function (option) notify :: "os \<Rightarrow> ReactorNotifier \<Rightarrow> io \<Rightarrow> (bool \<times> ReactorNotifier \<times> io) option" where
  "notify os n w =
     (if rn_fd n = -1 then Some (False, n, w)
      else
        (case sys_eventfd os w of
           (None, w1) \<Rightarrow>
             if rn_counter n < EVENTFD_MAX then Some (True, n\<lparr>rn_counter := rn_counter n + 1\<rparr>, w1)
             else Some (True, n, w1)
         | (Some e, w1) \<Rightarrow> if e = EINTR then notify os n w1 else Some (e = EAGAIN, n, w1)))"

partial_function (option) notifier_consume :: "os \<Rightarrow> ReactorNotifier \<Rightarrow> io \<Rightarrow> (bool \<times> ReactorNotifier \<times> io) option" where
  "notifier_consume os n w =
     (if rn_fd n = -1 then Some (False, n, w)
      else
        (case sys_eventfd os w of
           (None, w1) \<Rightarrow>
             if rn_counter n = 0 then Some (True, n, w1)
             else notifier_consume os (n\<lparr>rn_counter := 0\<rparr>) w1
         | (Some e, w1) \<Rightarrow>
             if e = EINTR then notifier_consume os n w1 else Some (e = EAGAIN, n, w1)))"

definition notifier_close :: "ReactorNotifier \<Rightarrow> io \<Rightarrow> ReactorNotifier \<times> io" where
  "notifier_close n w =
     (if rn_fd n \<noteq> -1 then (n\<lparr>rn_fd := -1\<rparr>, sys_close (rn_fd n) w) else (n, w))"

section \<open>Effects\<close>

lemma sys_eventfd_eq: "sys_eventfd os w = (os_eventfd_fault os (io_tick w), io_step [] w)"
  by (simp add: sys_eventfd_def)

lemma notify_effect:
  assumes "notify os n w = Some y"
  shows "(fst (snd y) = n \<or> fst (snd y) = n\<lparr>rn_counter := rn_counter n + 1\<rparr>) \<and> io_log (snd (snd y)) = io_log w"
  using assms
proof (induction rule: notify.raw_induct [rotated, consumes 1, case_names step])
  case (step rec os n w y)
  from step(2) show ?case
    by (auto simp: sys_eventfd_eq split: if_splits option.splits dest!: step(1))
qed

text \<open>The kernel faults of the event descriptor that end: from some call on there are none.\<close>

definition eventfd_settles :: "os \<Rightarrow> nat \<Rightarrow> bool" where
  "eventfd_settles os T \<longleftrightarrow> (\<forall>t\<ge>T. os_eventfd_fault os t = None)"

text \<open>Only interruptions: no other fault of the event descriptor.\<close>

definition eventfd_sound :: "os \<Rightarrow> bool" where
  "eventfd_sound os \<longleftrightarrow> (\<forall>t e. os_eventfd_fault os t = Some e \<longrightarrow> e = EINTR)"

lemma notify_wakes:
  assumes "notify os n w = Some y" and "eventfd_sound os" and "rn_fd n \<noteq> -1"
  shows "fst y \<and> 0 < rn_counter (fst (snd y))"
  using assms
proof (induction rule: notify.raw_induct [rotated, consumes 1, case_names step])
  case (step rec os n w y)
  then show ?case
    by (auto simp: sys_eventfd_eq eventfd_sound_def EVENTFD_MAX_def split: if_splits option.splits)
qed

lemma consume_clears:
  assumes "notifier_consume os n w = Some y" and "eventfd_sound os" and "rn_fd n \<noteq> -1"
  shows "fst y \<and> fst (snd y) = n\<lparr>rn_counter := 0\<rparr>"
  using assms
proof (induction rule: notifier_consume.raw_induct [rotated, consumes 1, case_names step])
  case (step rec os n w y)
  then show ?case
    by (auto simp: sys_eventfd_eq eventfd_sound_def split: if_splits option.splits)
qed

lemma consume_effect:
  assumes "notifier_consume os n w = Some y"
  shows "(fst (snd y) = n \<or> fst (snd y) = n\<lparr>rn_counter := 0\<rparr>) \<and> io_log (snd (snd y)) = io_log w"
  using assms
proof (induction rule: notifier_consume.raw_induct [rotated, consumes 1, case_names step])
  case (step rec os n w y)
  from step(2) show ?case
    by (auto simp: sys_eventfd_eq split: if_splits option.splits dest!: step(1))
qed

lemma notify_returns:
  assumes "eventfd_settles os T"
  shows "notify os n w \<noteq> None"
proof (induction "T - io_tick w" arbitrary: w rule: less_induct)
  case less
  show ?case
  proof (cases "os_eventfd_fault os (io_tick w) = None")
    case True
    then show ?thesis by (subst notify.simps) (simp add: sys_eventfd_eq del: not_None_eq)
  next
    case False
    with assms have "io_tick w < T" by (meson eventfd_settles_def not_le_imp_less)
    then have "notify os n (io_step [] w) \<noteq> None" by (intro less.hyps) simp
    with False show ?thesis
      by (subst notify.simps) (auto simp: sys_eventfd_eq split: option.splits)
  qed
qed

lemma consume_returns_zero:
  assumes "eventfd_settles os T" and "rn_counter n = 0"
  shows "notifier_consume os n w \<noteq> None"
proof (induction "T - io_tick w" arbitrary: w rule: less_induct)
  case less
  show ?case
  proof (cases "os_eventfd_fault os (io_tick w) = None")
    case True
    with assms show ?thesis by (subst notifier_consume.simps) (simp add: sys_eventfd_eq del: not_None_eq)
  next
    case False
    with assms have "io_tick w < T" by (meson eventfd_settles_def not_le_imp_less)
    then have "notifier_consume os n (io_step [] w) \<noteq> None" by (intro less.hyps) simp
    with False show ?thesis
      by (subst notifier_consume.simps) (auto simp: sys_eventfd_eq split: option.splits)
  qed
qed

lemma consume_returns:
  assumes "eventfd_settles os T"
  shows "notifier_consume os n w \<noteq> None"
proof (induction "T - io_tick w" arbitrary: w rule: less_induct)
  case less
  have zero: "notifier_consume os (n\<lparr>rn_counter := 0\<rparr>) (io_step [] w) \<noteq> None"
    by (rule consume_returns_zero [OF assms]) simp
  show ?case
  proof (cases "os_eventfd_fault os (io_tick w) = None")
    case True
    with zero show ?thesis by (subst notifier_consume.simps) (simp add: sys_eventfd_eq del: not_None_eq)
  next
    case False
    with assms have "io_tick w < T" by (meson eventfd_settles_def not_le_imp_less)
    then have "notifier_consume os n (io_step [] w) \<noteq> None" by (intro less.hyps) simp
    with False show ?thesis
      by (subst notifier_consume.simps) (auto simp: sys_eventfd_eq split: option.splits)
  qed
qed

section \<open>Theorems\<close>

text \<open>
  A wake-up is never lost.  On a system where the event descriptor only fails by interruption,
  and not for ever, any number of notifications after the descriptor was opened all succeed and leave
  it readable, and consuming then succeeds and leaves it unreadable.
\<close>

theorem notifier_wakeup:
  assumes "eventfd_sound os" and "eventfd_settles os T" and "rn_fd n \<noteq> -1"
  shows "\<exists>n' w'. notify os n w = Some (True, n', w') \<and> 0 < rn_counter n' \<and> rn_fd n' = rn_fd n \<and>
    (\<exists>w''. notifier_consume os n' w' = Some (True, n\<lparr>rn_counter := 0\<rparr>, w''))"
proof -
  obtain b n' w' where eq: "notify os n w = Some (b, n', w')"
    using notify_returns [OF assms(2)] by (metis not_None_eq prod_cases3)
  from notify_wakes [OF eq assms(1,3)] notify_effect [OF eq] have n': "b" "0 < rn_counter n'" "rn_fd n' = rn_fd n"
    "n'\<lparr>rn_counter := 0\<rparr> = n\<lparr>rn_counter := 0\<rparr>" by auto
  obtain c n'' w'' where eq': "notifier_consume os n' w' = Some (c, n'', w'')"
    using consume_returns [OF assms(2)] by (metis not_None_eq prod_cases3)
  from consume_clears [OF eq' assms(1)] n' assms(3) have "c" "n'' = n\<lparr>rn_counter := 0\<rparr>" by auto
  with eq eq' n' show ?thesis by auto
qed

theorem notifier_wakeup_witness:
  "\<exists>n' w'. notify sample_os \<lparr>rn_fd = 3, rn_counter = 0\<rparr> io_new = Some (True, n', w') \<and> 0 < rn_counter n'"
  using notifier_wakeup [of sample_os 0 "\<lparr>rn_fd = 3, rn_counter = 0\<rparr>" io_new]
  by (auto simp: eventfd_sound_def eventfd_settles_def sample_os_def)

end
