(* ===== verification/TcpServer.thy ===== *)
theory TcpServer
  imports Handlers BlockQueue Logger StartupConfig ReactorNotifier
begin

unbundle bit_operations_syntax

text \<open>
  The server: \<^verbatim>\<open>src/net/TcpServer.cpp\<close> with \<^verbatim>\<open>include/net/TcpServer.hpp\<close> and
  \<^verbatim>\<open>include/net/Connection.hpp\<close>.  The state of the object, together with the singletons it uses, is
  one record; every member function is a function on it.  The functions of the reactor thread that
  loop over system calls are partial functions.  The worker functions are split where the thread
  waits: taking an item from a queue, and processing it.

  Two fields are not in the code: \<open>sv_accepted\<close> counts the accepted connections beyond 64 bits, and
  \<open>sv_violation\<close> records that the assertion on the accounting of work in flight failed.  Log lines
  are left out.
\<close>

section \<open>State\<close>

record Connection =
  cn_fd :: int
  cn_conn_id :: u64
  cn_input_buffer :: string
  cn_output_buffer :: string
  cn_write_offset :: nat
  cn_client_id :: string
  cn_authenticated :: bool
  cn_auth_pending :: bool
  cn_closing :: bool
  cn_read_eof :: bool
  cn_in_flight_work :: nat
  cn_auth_cancellation :: "cancellation option"

definition Connection_new :: "int \<Rightarrow> u64 \<Rightarrow> Connection" where
  "Connection_new fd conn_id =
     \<lparr>cn_fd = fd, cn_conn_id = conn_id, cn_input_buffer = [], cn_output_buffer = [], cn_write_offset = 0,
      cn_client_id = ''client_'' @ show_nat (unat conn_id), cn_authenticated = False,
      cn_auth_pending = False, cn_closing = False, cn_read_eof = False, cn_in_flight_work = 0,
      cn_auth_cancellation = None\<rparr>"

datatype ServerState = RUNNING | DRAINING | STOPPED

datatype ResponseProducer = NormalWorker | AuthWorker

datatype ResponseOrigin = Local | Worker

type_synonym ConnectionKey = "int \<times> u64"

record RateLimitWindow =
  rw_started_at :: time_point
  rw_count :: int

record TcpServer =
  sv_port :: int
  sv_listen_fd :: int
  sv_epfd :: int
  sv_instance :: bool
  sv_signal_stop_requested :: bool
  sv_state :: ServerState
  sv_started :: bool
  sv_shutdown_finished :: bool
  sv_stop_requested :: bool
  sv_response_producers_remaining :: nat
  sv_auth_in_flight :: nat
  sv_shutdown_deadline :: time_point
  sv_shutdown_timeout :: int
  sv_configured_worker_count :: nat
  sv_configured_auth_worker_count :: nat
  sv_next_conn_id :: u64
  sv_request_queue :: "Request BlockQueue"
  sv_auth_queue :: "AuthTask BlockQueue"
  sv_response_queue :: "Response BlockQueue"
  sv_notifier :: ReactorNotifier
  sv_rejected :: "ConnectionKey list"
  sv_connections :: "(int \<times> Connection) list"
  sv_control_plane :: ControlPlaneClient
  sv_ready :: bool
  sv_runtime_config :: RuntimeConfig
  sv_rate_limit_windows :: "(string \<times> RateLimitWindow) list"
  sv_cancellations :: "bool list"
  sv_stats :: StatsManager
  sv_log_storage :: LogStorage
  sv_logger :: Logger
  sv_io :: io
  sv_accepted :: nat
  sv_violation :: bool

text \<open>
  The connection table is an association list with one entry per descriptor, so that the loops over
  it compute.  A cancellation flag is an index into \<open>sv_cancellations\<close>.
\<close>

abbreviation find_conn :: "TcpServer \<Rightarrow> int \<Rightarrow> Connection option" where
  "find_conn s fd \<equiv> map_of (sv_connections s) fd"

definition put_conn :: "int \<Rightarrow> Connection \<Rightarrow> TcpServer \<Rightarrow> TcpServer" where
  "put_conn fd c s = s\<lparr>sv_connections := AList.update fd c (sv_connections s)\<rparr>"

definition count_stat :: "(StatsManager \<Rightarrow> StatsManager) \<Rightarrow> TcpServer \<Rightarrow> TcpServer" where
  "count_stat f s = s\<lparr>sv_stats := f (sv_stats s)\<rparr>"

definition server_now :: "os \<Rightarrow> TcpServer \<Rightarrow> time_point \<times> TcpServer" where
  "server_now os s = (case sys_now os (sv_io s) of (now, w) \<Rightarrow> (now, s\<lparr>sv_io := w\<rparr>))"

definition server_close :: "int \<Rightarrow> TcpServer \<Rightarrow> TcpServer" where
  "server_close fd s = s\<lparr>sv_io := sys_close fd (sv_io s)\<rparr>"

definition server_ctl :: "os \<Rightarrow> epoll_op \<Rightarrow> int \<Rightarrow> event_mask \<Rightarrow> TcpServer \<Rightarrow> unit sysres \<times> TcpServer" where
  "server_ctl os op fd events s =
     (case sys_epoll_ctl os op fd events (sv_io s) of (r, w) \<Rightarrow> (r, s\<lparr>sv_io := w\<rparr>))"

definition server_notify :: "os \<Rightarrow> TcpServer \<Rightarrow> TcpServer option" where
  "server_notify os s =
     map_option (\<lambda>(_, n, w). s\<lparr>sv_notifier := n, sv_io := w\<rparr>) (notify os (sv_notifier s) (sv_io s))"

section \<open>Responses made by the server\<close>

definition makeOverloadResponse :: "Request \<Rightarrow> bool \<Rightarrow> Response" where
  \<open>makeOverloadResponse request close_connection =
     (response_to request ERROR_RESP)\<lparr>resp_status_code := 503,
        resp_payload := ''{"status":503,"message":"gateway overloaded"}'',
        resp_close_connection := close_connection\<rparr>\<close>

definition makeInternalErrorResponse :: "Request \<Rightarrow> Response" where
  \<open>makeInternalErrorResponse request =
     (response_to request ERROR_RESP)\<lparr>resp_status_code := 500,
        resp_payload := ''{"status":500,"message":"internal server error"}''\<rparr>\<close>

definition makeInternalAuthErrorResponse :: "Request \<Rightarrow> Response" where
  \<open>makeInternalAuthErrorResponse request =
     (makeInternalErrorResponse request)\<lparr>resp_type := AUTH_RESP,
        resp_payload := ''{"allowed":false,"code":"INTERNAL_ERROR"}'', resp_close_connection := True\<rparr>\<close>

definition auth_overload_response :: "Request \<Rightarrow> Response" where
  \<open>auth_overload_response request =
     (makeOverloadResponse request True)\<lparr>resp_type := AUTH_RESP,
        resp_payload := ''{"allowed":false,"code":"AUTH_OVERLOADED"}''\<rparr>\<close>

text \<open>The local answers of \<^verbatim>\<open>decodeAndEnqueue\<close>, addressed by the connection.\<close>

definition already_authenticated_response :: "Connection \<Rightarrow> Request \<Rightarrow> Response" where
  \<open>already_authenticated_response c request =
     (response_to request ERROR_RESP)\<lparr>resp_fd := cn_fd c, resp_conn_id := cn_conn_id c,
        resp_status_code := 400, resp_payload := ''{"status":400,"message":"already authenticated"}''\<rparr>\<close>

definition rate_limited_response :: "Connection \<Rightarrow> Request \<Rightarrow> Response" where
  \<open>rate_limited_response c request =
     (response_to request ERROR_RESP)\<lparr>resp_fd := cn_fd c, resp_conn_id := cn_conn_id c,
        resp_status_code := 429, resp_payload := ''{"status":429,"message":"rate limited"}''\<rparr>\<close>

section \<open>Connections\<close>

definition CLIENT_BASE_EVENTS :: event_mask where
  "CLIENT_BASE_EVENTS = EPOLLET OR EPOLLRDHUP"

definition connectionEvents :: "TcpServer \<Rightarrow> Connection \<Rightarrow> event_mask" where
  "connectionEvents s c =
     CLIENT_BASE_EVENTS OR
     (if sv_state s = RUNNING \<and> \<not> cn_closing c \<and> \<not> cn_read_eof c then EPOLLIN else 0) OR
     (if cn_write_offset c < length (cn_output_buffer c) then EPOLLOUT else 0)"

definition canCloseAfterDrain :: "TcpServer \<Rightarrow> Connection \<Rightarrow> bool" where
  "canCloseAfterDrain s c \<longleftrightarrow>
     (let output_empty = cn_write_offset c \<ge> length (cn_output_buffer c);
          drain_requested = cn_closing c \<or> cn_read_eof c \<or> sv_state s = DRAINING
      in drain_requested \<and> cn_in_flight_work c = 0 \<and> output_empty)"

definition countAuthenticatedConnectionsForClient :: "TcpServer \<Rightarrow> string \<Rightarrow> int \<Rightarrow> nat" where
  "countAuthenticatedConnectionsForClient s client_id exclude_fd =
     length (filter (\<lambda>(fd, c). fd \<noteq> exclude_fd \<and> cn_authenticated c \<and> cn_client_id c = client_id)
              (sv_connections s))"

definition closeConnection :: "os \<Rightarrow> int \<Rightarrow> TcpServer \<Rightarrow> TcpServer" where
  "closeConnection os fd s =
     (case find_conn s fd of
        None \<Rightarrow> s
      | Some c \<Rightarrow>
          let s1 = (case cn_auth_cancellation c of
                      None \<Rightarrow> s
                    | Some a \<Rightarrow> s\<lparr>sv_cancellations := (sv_cancellations s)[a := True]\<rparr>);
              s2 = s1\<lparr>sv_connections := AList.delete fd (sv_connections s1)\<rparr>;
              s3 = (if cn_authenticated c \<and>
                       countAuthenticatedConnectionsForClient s2 (cn_client_id c) (-1) = 0
                    then s2\<lparr>sv_rate_limit_windows := AList.delete (cn_client_id c) (sv_rate_limit_windows s2)\<rparr>
                    else s2);
              s4 = (if sv_epfd s3 \<noteq> -1 then snd (server_ctl os EPOLL_CTL_DEL fd 0 s3) else s3)
          in count_stat decrementConnections (server_close fd s4))"

definition modifyConnectionEvents :: "os \<Rightarrow> int \<Rightarrow> event_mask \<Rightarrow> TcpServer \<Rightarrow> bool \<times> TcpServer" where
  "modifyConnectionEvents os fd events s =
     (case server_ctl os EPOLL_CTL_MOD fd events s of
        (SysOk _, s1) \<Rightarrow> (True, s1)
      | (SysErr _, s1) \<Rightarrow> (False, closeConnection os fd s1))"

definition maybeCloseAfterDrain :: "os \<Rightarrow> int \<Rightarrow> TcpServer \<Rightarrow> TcpServer" where
  "maybeCloseAfterDrain os fd s =
     (case find_conn s fd of
        None \<Rightarrow> s
      | Some c \<Rightarrow> if canCloseAfterDrain s c then closeConnection os fd s else s)"

definition markReadEof :: "os \<Rightarrow> int \<Rightarrow> TcpServer \<Rightarrow> TcpServer" where
  "markReadEof os fd s =
     (case find_conn s fd of
        None \<Rightarrow> s
      | Some c \<Rightarrow>
          if cn_read_eof c then maybeCloseAfterDrain os fd s
          else
            let c1 = c\<lparr>cn_read_eof := True\<rparr>; s1 = put_conn fd c1 s in
            if canCloseAfterDrain s1 c1 then closeConnection os fd s1
            else snd (modifyConnectionEvents os fd (connectionEvents s1 c1) s1))"

text \<open>
  The fixed window of the rate limit: a window that has never been started (the epoch of the clock)
  or is a second old starts anew.
\<close>

definition rate_window :: "time_point \<Rightarrow> int \<Rightarrow> RateLimitWindow \<Rightarrow> bool \<times> RateLimitWindow" where
  "rate_window now limit win =
     (let win1 = (if rw_started_at win = 0 \<or> now - rw_started_at win \<ge> 1000000000
                  then \<lparr>rw_started_at = now, rw_count = 0\<rparr> else win)
      in if rw_count win1 \<ge> limit then (False, win1)
         else (True, win1\<lparr>rw_count := rw_count win1 + 1\<rparr>))"

definition allowRequestForClient :: "os \<Rightarrow> string \<Rightarrow> RuntimeConfig \<Rightarrow> TcpServer \<Rightarrow> bool \<times> TcpServer" where
  "allowRequestForClient os client_id config s =
     (case server_now os s of
        (now, s1) \<Rightarrow>
          let win = (case map_of (sv_rate_limit_windows s1) client_id of
                       Some x \<Rightarrow> x | None \<Rightarrow> \<lparr>rw_started_at = 0, rw_count = 0\<rparr>)
          in case rate_window now (rc_max_requests_per_client_per_second config) win of
               (ok, win1) \<Rightarrow>
                 (ok, s1\<lparr>sv_rate_limit_windows := AList.update client_id win1 (sv_rate_limit_windows s1)\<rparr>))"

section \<open>Responses\<close>

text \<open>
  The effect of a response on the authentication of its connection: the response as it is then
  written, the connection and the counters.
\<close>

definition apply_authentication ::
  "Response \<Rightarrow> RuntimeConfig \<Rightarrow> Connection \<Rightarrow> TcpServer \<Rightarrow> Response \<times> Connection \<times> TcpServer" where
  \<open>apply_authentication response config c s =
     (case resp_client_id_to_authenticate response of
        Some client_id \<Rightarrow>
          if countAuthenticatedConnectionsForClient s client_id (cn_fd c)
               \<ge> size_t_of_int (rc_max_connections_per_client config)
          then (response\<lparr>resp_client_id_to_authenticate := None, resp_close_connection := True,
                         resp_type := AUTH_RESP,
                         resp_payload := ''{"allowed":false,"reason":"max connections exceeded"}''\<rparr>,
                c, count_stat incrementAuthFailure (count_stat incrementErrors s))
          else (response, c\<lparr>cn_authenticated := True, cn_client_id := client_id\<rparr>,
                count_stat incrementAuthSuccess s)
      | None \<Rightarrow>
          if resp_type response = AUTH_RESP then (response, c, count_stat incrementAuthFailure s)
          else (response, c, s))\<close>

text \<open>
  The accounting of work in flight for a response of a worker.  In \<^verbatim>\<open>applyResponse\<close> every path sets one
  of \<^verbatim>\<open>close_now\<close> and \<^verbatim>\<open>enable_write\<close>, so its last \<^verbatim>\<open>else\<close> branch has no counterpart here.
\<close>

definition complete_work :: "ResponseOrigin \<Rightarrow> Connection \<Rightarrow> TcpServer \<Rightarrow> Connection \<times> TcpServer" where
  "complete_work origin c s =
     (if origin = Worker then
        if cn_in_flight_work c = 0 then (c, s\<lparr>sv_violation := True\<rparr>)
        else (c\<lparr>cn_in_flight_work := cn_in_flight_work c - 1\<rparr>, s)
      else (c, s))"

definition applyResponse :: "os \<Rightarrow> Response \<Rightarrow> ResponseOrigin \<Rightarrow> TcpServer \<Rightarrow> TcpServer" where
  "applyResponse os response origin s =
     (let config = sv_runtime_config s; fd = resp_fd response in
      case find_conn s fd of
        None \<Rightarrow> count_stat incrementStaleResponseDropped s
      | Some current \<Rightarrow>
          if cn_conn_id current \<noteq> resp_conn_id response
          then count_stat incrementStaleResponseDropped s
          else
            case complete_work origin current s of
              (c1, s1) \<Rightarrow>
            let c2 = (if resp_type response = AUTH_RESP \<or> resp_close_connection response
                      then c1\<lparr>cn_auth_pending := False, cn_auth_cancellation := None\<rparr> else c1) in
            case apply_authentication response config c2 s1 of
              (response1, c3, s2) \<Rightarrow>
            if resp_close_connection response1 \<and> resp_skip_write response1
            then closeConnection os fd (put_conn fd c3 s2)
            else
              let encoded = encode response1;
                  pending_bytes = length (cn_output_buffer c3) - cn_write_offset c3 in
              if pending_bytes + length encoded > rc_slow_client_output_limit config
              then closeConnection os fd
                     (put_conn fd c3 (count_stat incrementSlowClientClosed (count_stat incrementErrors s2)))
              else
                let c4 = c3\<lparr>cn_output_buffer := drop (cn_write_offset c3) (cn_output_buffer c3) @ encoded,
                            cn_write_offset := 0,
                            cn_closing := cn_closing c3 \<or> resp_close_connection response1\<rparr>;
                    s3 = put_conn fd c4 s2
                in snd (modifyConnectionEvents os fd (connectionEvents s3 c4) s3))"

section \<open>Decoding and admission\<close>

text \<open>What the admission loop collects: requests, authentication tasks and local answers.\<close>

record admitted =
  ad_requests :: "Request list"
  ad_auth_tasks :: "AuthTask list"
  ad_local_responses :: "Response list"

definition admitted_none :: admitted where
  "admitted_none = \<lparr>ad_requests = [], ad_auth_tasks = [], ad_local_responses = []\<rparr>"

text \<open>
  The loop over the decoded requests.  The result says whether the connection is to be closed at once.
  The connection exists throughout; the missing case only makes the function total.
\<close>

fun admit_requests ::
  "os \<Rightarrow> RuntimeConfig \<Rightarrow> int \<Rightarrow> Request list \<Rightarrow> admitted \<Rightarrow> TcpServer \<Rightarrow> bool \<times> admitted \<times> TcpServer" where
  "admit_requests os config fd [] acc s = (False, acc, s)"
| "admit_requests os config fd (request # requests) acc s =
     (case find_conn s fd of
        None \<Rightarrow> (False, acc, s)
      | Some current \<Rightarrow>
          if length (req_payload request) + 10 > size_t_of_int (rc_max_payload_size config)
          then (True, acc, count_stat incrementErrors s)
          else if \<not> cn_authenticated current then
            if req_type request \<noteq> AUTH \<or> cn_auth_pending current
            then (True, acc, count_stat incrementErrors s)
            else
              let cancellation = length (sv_cancellations s);
                  current1 = current\<lparr>cn_auth_pending := True\<rparr>;
                  s1 = (put_conn fd current1 s)\<lparr>sv_cancellations := sv_cancellations s @ [False]\<rparr> in
              (case makeAuthTask request (Some cancellation) of
                 None \<Rightarrow> (True, acc, count_stat incrementErrors s1)
               | Some task \<Rightarrow>
                   admit_requests os config fd requests
                     (acc\<lparr>ad_auth_tasks := ad_auth_tasks acc @ [task]\<rparr>)
                     (put_conn fd (current1\<lparr>cn_auth_cancellation := Some cancellation\<rparr>) s1))
          else if req_type request = AUTH then
            admit_requests os config fd requests
              (acc\<lparr>ad_local_responses :=
                     ad_local_responses acc @ [already_authenticated_response current request]\<rparr>) s
          else
            (case allowRequestForClient os (cn_client_id current) config s of
               (False, s1) \<Rightarrow>
                 admit_requests os config fd requests
                   (acc\<lparr>ad_local_responses :=
                          ad_local_responses acc @ [rate_limited_response current request]\<rparr>)
                   (count_stat incrementErrors s1)
             | (True, s1) \<Rightarrow>
                 admit_requests os config fd requests
                   (acc\<lparr>ad_requests := ad_requests acc @ [request]\<rparr>) s1))"

text \<open>One more item in flight for the connection an item was admitted from.\<close>

definition work_admitted :: "int \<Rightarrow> u64 \<Rightarrow> TcpServer \<Rightarrow> TcpServer" where
  "work_admitted fd conn_id s =
     (case find_conn s fd of
        None \<Rightarrow> s
      | Some c \<Rightarrow>
          if cn_conn_id c = conn_id
          then put_conn fd (c\<lparr>cn_in_flight_work := cn_in_flight_work c + 1\<rparr>) s else s)"

fun enqueue_auth_tasks :: "AuthTask list \<Rightarrow> Response list \<Rightarrow> TcpServer \<Rightarrow> Response list \<times> TcpServer" where
  "enqueue_auth_tasks [] responses s = (responses, s)"
| "enqueue_auth_tasks (task # tasks) responses s =
     (let request = at_request task in
      case bq_push task (sv_auth_queue s) of
        (PushResult_OK, q) \<Rightarrow>
          enqueue_auth_tasks tasks responses
            (work_admitted (req_fd request) (req_conn_id request) (s\<lparr>sv_auth_queue := q\<rparr>))
      | (_, q) \<Rightarrow>
          enqueue_auth_tasks tasks (responses @ [auth_overload_response request])
            (count_stat (recordAuthResult Unavailable 0)
              (count_stat incrementAuthQueueRejected
                (count_stat incrementErrors (s\<lparr>sv_auth_queue := q\<rparr>)))))"

fun enqueue_requests :: "Request list \<Rightarrow> Response list \<Rightarrow> TcpServer \<Rightarrow> Response list \<times> TcpServer" where
  "enqueue_requests [] responses s = (responses, s)"
| "enqueue_requests (request # requests) responses s =
     (case bq_push request (sv_request_queue s) of
        (PushResult_OK, q) \<Rightarrow>
          enqueue_requests requests responses
            (work_admitted (req_fd request) (req_conn_id request) (s\<lparr>sv_request_queue := q\<rparr>))
      | (_, q) \<Rightarrow>
          enqueue_requests requests (responses @ [makeOverloadResponse request False])
            (count_stat incrementRequestQueueRejected
              (count_stat incrementErrors (s\<lparr>sv_request_queue := q\<rparr>))))"

definition decodeAndEnqueue :: "os \<Rightarrow> int \<Rightarrow> bool \<Rightarrow> TcpServer \<Rightarrow> bool \<times> TcpServer" where
  "decodeAndEnqueue os fd read_eof s =
     (let config = sv_runtime_config s in
      case find_conn s fd of
        None \<Rightarrow> (False, s)
      | Some current \<Rightarrow>
          let eof = read_eof \<or> cn_read_eof current in
          case decode (cn_input_buffer current) (cn_fd current) [] (cn_conn_id current)
                 (of_int (rc_max_payload_size config)) of
            (status, rest, decoded_requests) \<Rightarrow>
          let s1 = put_conn fd (current\<lparr>cn_input_buffer :=
                     (if status \<noteq> INVALID_LENGTH \<and> eof \<and> status = NEED_MORE_DATA then [] else rest)\<rparr>) s;
              s2 = (if status = INVALID_LENGTH then count_stat incrementErrors s1 else s1) in
          case admit_requests os config fd decoded_requests admitted_none s2 of
            (refused, acc, s3) \<Rightarrow>
          if status = INVALID_LENGTH \<or> refused then (False, closeConnection os fd s3)
          else
            case enqueue_auth_tasks (ad_auth_tasks acc) (ad_local_responses acc) s3 of
              (responses1, s4) \<Rightarrow>
            case enqueue_requests (ad_requests acc) responses1 s4 of
              (responses2, s5) \<Rightarrow>
            (True, fold (\<lambda>response. applyResponse os response Local) responses2 s5))"

section \<open>Events of a connection\<close>

definition connection_accepted :: "os \<Rightarrow> int \<Rightarrow> TcpServer \<Rightarrow> TcpServer" where
  "connection_accepted os fd s =
     (let connection_id = sv_next_conn_id s;
          s1 = s\<lparr>sv_next_conn_id := sv_next_conn_id s + 1, sv_accepted := Suc (sv_accepted s)\<rparr>;
          connection = Connection_new fd connection_id
      in case server_ctl os EPOLL_CTL_ADD fd (connectionEvents s1 connection) s1 of
           (SysErr _, s2) \<Rightarrow> server_close fd s2
         | (SysOk _, s2) \<Rightarrow>
             count_stat incrementConnections
               (if find_conn s2 fd = None
                then s2\<lparr>sv_connections := sv_connections s2 @ [(fd, connection)]\<rparr> else s2))"

partial_function (option) handleAccept :: "os \<Rightarrow> TcpServer \<Rightarrow> TcpServer option" where
  "handleAccept os s =
     (if sv_state s = RUNNING then
        (case sys_accept os (sv_listen_fd s) (sv_io s) of
           (SysErr e, w) \<Rightarrow>
             if e = EINTR then handleAccept os (s\<lparr>sv_io := w\<rparr>) else Some (s\<lparr>sv_io := w\<rparr>)
         | (SysOk fd, w) \<Rightarrow> handleAccept os (connection_accepted os fd (s\<lparr>sv_io := w\<rparr>)))
      else Some s)"

definition bytes_received :: "int \<Rightarrow> Connection \<Rightarrow> string \<Rightarrow> TcpServer \<Rightarrow> TcpServer" where
  "bytes_received fd c bytes s =
     count_stat (incrementReadBytes (length bytes))
       (put_conn fd (c\<lparr>cn_input_buffer := cn_input_buffer c @ bytes\<rparr>) s)"

partial_function (option) handleRead :: "os \<Rightarrow> int \<Rightarrow> TcpServer \<Rightarrow> TcpServer option" where
  "handleRead os fd s =
     (if sv_state s \<noteq> RUNNING then Some s
      else
        (case find_conn s fd of
           None \<Rightarrow> Some s
         | Some c \<Rightarrow>
             if cn_closing c \<or> cn_read_eof c then Some s
             else
               (case sys_recv os fd 4096 (sv_io s) of
                  (SysOk bytes, w) \<Rightarrow>
                    if bytes \<noteq> [] then
                      (case decodeAndEnqueue os fd False (bytes_received fd c bytes (s\<lparr>sv_io := w\<rparr>)) of
                         (go_on, s1) \<Rightarrow> if \<not> go_on then Some s1 else handleRead os fd s1)
                    else Some (markReadEof os fd (snd (decodeAndEnqueue os fd True (s\<lparr>sv_io := w\<rparr>))))
                | (SysErr e, w) \<Rightarrow>
                    if e = EINTR then handleRead os fd (s\<lparr>sv_io := w\<rparr>)
                    else if e = EAGAIN \<or> e = EWOULDBLOCK
                    then Some (snd (decodeAndEnqueue os fd False (s\<lparr>sv_io := w\<rparr>)))
                    else Some (closeConnection os fd (s\<lparr>sv_io := w\<rparr>)))))"

text \<open>What follows when the output of a connection is empty.\<close>

definition output_flushed :: "os \<Rightarrow> int \<Rightarrow> Connection \<Rightarrow> TcpServer \<Rightarrow> TcpServer" where
  "output_flushed os fd c s =
     (if canCloseAfterDrain s c then closeConnection os fd s
      else snd (modifyConnectionEvents os fd (connectionEvents s c) s))"

definition bytes_sent :: "int \<Rightarrow> Connection \<Rightarrow> nat \<Rightarrow> TcpServer \<Rightarrow> Connection \<times> TcpServer" where
  "bytes_sent fd c n s =
     (let c1 = c\<lparr>cn_write_offset := cn_write_offset c + n\<rparr>;
          c2 = (if cn_write_offset c1 = length (cn_output_buffer c1)
                then c1\<lparr>cn_output_buffer := [], cn_write_offset := 0\<rparr> else c1)
      in (c2, count_stat (incrementWriteBytes n) (put_conn fd c2 s)))"

partial_function (option) handleWrite :: "os \<Rightarrow> int \<Rightarrow> TcpServer \<Rightarrow> TcpServer option" where
  "handleWrite os fd s =
     (case find_conn s fd of
        None \<Rightarrow> Some s
      | Some c \<Rightarrow>
          if cn_write_offset c \<ge> length (cn_output_buffer c) then Some (output_flushed os fd c s)
          else
            (case sys_send os fd (drop (cn_write_offset c) (cn_output_buffer c)) (sv_io s) of
               (SysOk n, w) \<Rightarrow>
                 if n > 0 then
                   (case bytes_sent fd c n (s\<lparr>sv_io := w\<rparr>) of
                      (c1, s1) \<Rightarrow>
                        if cn_output_buffer c1 = [] then Some (output_flushed os fd c1 s1)
                        else handleWrite os fd s1)
                 else Some (closeConnection os fd (s\<lparr>sv_io := w\<rparr>))
             | (SysErr e, w) \<Rightarrow>
                 if e = EINTR then handleWrite os fd (s\<lparr>sv_io := w\<rparr>)
                 else if e = EAGAIN \<or> e = EWOULDBLOCK then Some (s\<lparr>sv_io := w\<rparr>)
                 else Some (closeConnection os fd (s\<lparr>sv_io := w\<rparr>))))"

section \<open>Workers\<close>

text \<open>
  \<^verbatim>\<open>enqueueWorkerResponse\<close> in two steps, because the reactor may run between them: the push, with the
  record of a rejected response, and the wake-up of the reactor.
\<close>

definition enqueue_push :: "Response \<Rightarrow> ResponseProducer \<Rightarrow> TcpServer \<Rightarrow> bool \<times> TcpServer" where
  "enqueue_push response producer s =
     (case bq_push response (sv_response_queue s) of
        (PushResult_OK, q) \<Rightarrow> (True, s\<lparr>sv_response_queue := q\<rparr>)
      | (_, q) \<Rightarrow>
          let s1 = count_stat incrementErrors (s\<lparr>sv_response_queue := q\<rparr>);
              s2 = (if producer = AuthWorker then count_stat incrementResponseQueueRejectedAuth s1
                    else count_stat incrementResponseQueueRejectedNormal s1)
          in (False, s2\<lparr>sv_rejected := List.insert (resp_fd response, resp_conn_id response) (sv_rejected s2)\<rparr>))"

definition enqueueWorkerResponse ::
  "os \<Rightarrow> Response \<Rightarrow> ResponseProducer \<Rightarrow> TcpServer \<Rightarrow> (bool \<times> TcpServer) option" where
  "enqueueWorkerResponse os response producer s =
     (case enqueue_push response producer s of
        (pushed, s1) \<Rightarrow> map_option (\<lambda>s2. (pushed, s2)) (server_notify os s1))"

text \<open>The gauges the statistics handler reads.\<close>

definition server_gauges :: "TcpServer \<Rightarrow> gauges" where
  "server_gauges s =
     \<lparr>g_request_queue_size = bq_size (sv_request_queue s),
      g_response_queue_size = bq_size (sv_response_queue s),
      g_request_queue_capacity = q_capacity (sv_request_queue s),
      g_response_queue_capacity = q_capacity (sv_response_queue s),
      g_request_queue_peak = bq_peakSize (sv_request_queue s),
      g_response_queue_peak = bq_peakSize (sv_response_queue s),
      g_auth_queue_size = bq_size (sv_auth_queue s),
      g_auth_queue_capacity = q_capacity (sv_auth_queue s),
      g_auth_queue_peak = bq_peakSize (sv_auth_queue s),
      g_auth_in_flight = sv_auth_in_flight s\<rparr>"

text \<open>
  The body of the loop of a normal worker, for a request it has taken from the queue: up to the
  wake-up of the reactor, and the whole of it.
\<close>

definition normal_worker_respond ::
  "json_parser \<Rightarrow> string \<Rightarrow> bool \<Rightarrow> Request \<Rightarrow> TcpServer \<Rightarrow> TcpServer" where
  "normal_worker_respond parse time_text write_ok request s =
     (case dispatch parse time_text write_ok (server_gauges s) request (sv_stats s) (sv_log_storage s) of
        (result, stats1, store1) \<Rightarrow>
          let s1 = s\<lparr>sv_stats := stats1, sv_log_storage := store1\<rparr> in
          case result of
            Inr response \<Rightarrow> snd (enqueue_push response NormalWorker s1)
          | Inl _ \<Rightarrow>
              snd (enqueue_push (makeInternalErrorResponse request) NormalWorker (count_stat incrementErrors s1)))"

definition normal_worker_process ::
  "json_parser \<Rightarrow> string \<Rightarrow> bool \<Rightarrow> os \<Rightarrow> Request \<Rightarrow> TcpServer \<Rightarrow> TcpServer option" where
  "normal_worker_process parse time_text write_ok os request s =
     server_notify os (normal_worker_respond parse time_text write_ok request s)"

text \<open>
  An authentication worker, for a task it has taken: the check of the cancellation flag, with the
  deadline it will work under and the time it started at; and the work itself.
\<close>

definition auth_task_cancelled :: "AuthTask \<Rightarrow> TcpServer \<Rightarrow> bool" where
  "auth_task_cancelled task s \<longleftrightarrow> sv_cancellations s ! at_cancellation task"

definition shutdownDeadline :: "TcpServer \<Rightarrow> time_point" where
  "shutdownDeadline s = sv_shutdown_deadline s"

definition auth_worker_start :: "os \<Rightarrow> TcpServer \<Rightarrow> time_point \<times> time_point option \<times> TcpServer" where
  "auth_worker_start os s =
     (case server_now os s of
        (started_at, s1) \<Rightarrow>
          let s2 = s1\<lparr>sv_auth_in_flight := Suc (sv_auth_in_flight s1)\<rparr>;
              s3 = count_stat incrementRequests s2;
              not_after = (if sv_state s3 \<noteq> RUNNING then Some (shutdownDeadline s3) else None)
          in (started_at, not_after, s3))"

text \<open>
  \<open>handleAuth\<close> catches everything it can throw, so the two \<^verbatim>\<open>catch\<close> clauses around it are for
  exceptions outside the model.
\<close>

definition auth_worker_respond ::
  "json_parser \<Rightarrow> os \<Rightarrow> AuthTask \<Rightarrow> time_point \<Rightarrow> time_point option \<Rightarrow> TcpServer \<Rightarrow>
   (AuthOutcome \<times> Response \<times> TcpServer) option" where
  "auth_worker_respond parse os task started_at not_after s =
     (case handleAuth parse os (sv_control_plane s) not_after (at_request task) (sv_stats s) (sv_io s) of
        None \<Rightarrow> None
      | Some (response, outcome, stats1, w1) \<Rightarrow>
          (case server_now os (s\<lparr>sv_stats := stats1, sv_io := w1\<rparr>) of
             (now, s1) \<Rightarrow>
               let duration = (now - started_at) div 1000;
                   s2 = count_stat (recordAuthResult outcome (of_int duration)) s1
               in Some (outcome, response, snd (enqueue_push response AuthWorker s2))))"

text \<open>The wake-up, and the guard of the counter of authentications in flight going out of scope.\<close>

definition auth_worker_done :: "os \<Rightarrow> TcpServer \<Rightarrow> TcpServer option" where
  "auth_worker_done os s =
     map_option (\<lambda>s1. s1\<lparr>sv_auth_in_flight := sv_auth_in_flight s1 - 1\<rparr>) (server_notify os s)"

definition onResponseProducerExited :: "os \<Rightarrow> TcpServer \<Rightarrow> TcpServer option" where
  "onResponseProducerExited os s =
     (let remaining = sv_response_producers_remaining s;
          s1 = s\<lparr>sv_response_producers_remaining := remaining - 1\<rparr>
      in if remaining = 1
         then server_notify os (s1\<lparr>sv_response_queue := bq_stop (sv_response_queue s1)\<rparr>)
         else Some s1)"

text \<open>One round of the configuration puller; \<open>w\<close> is its own view of the system calls.\<close>

definition configPuller_round ::
  "string option \<Rightarrow> json_parser \<Rightarrow> os \<Rightarrow> io \<Rightarrow> TcpServer \<Rightarrow> (cpp_exn + TcpServer) option" where
  "configPuller_round level_env parse os w s =
     (case fetchConfig parse os (sv_control_plane s) w of
        None \<Rightarrow> None
      | Some (Inl e, _) \<Rightarrow> Some (Inl e)
      | Some (Inr None, _) \<Rightarrow> Some (Inr s)
      | Some (Inr (Some fetched), _) \<Rightarrow>
          (case applyRuntimeConfigIfNewer (sv_runtime_config s) fetched of
             (True, config) \<Rightarrow>
               Some (Inr (s\<lparr>sv_runtime_config := config,
                            sv_logger := setGatewayLogLevel level_env (rc_log_level config) (sv_logger s)\<rparr>))
           | (False, config) \<Rightarrow> Some (Inr (s\<lparr>sv_runtime_config := config\<rparr>))))"

section \<open>Draining and shutting down\<close>

definition drainResponse_step :: "os \<Rightarrow> TcpServer \<Rightarrow> bool \<times> TcpServer" where
  "drainResponse_step os s =
     (case bq_tryPop (sv_response_queue s) of
        (None, q) \<Rightarrow> (False, s\<lparr>sv_response_queue := q\<rparr>)
      | (Some response, q) \<Rightarrow> (True, applyResponse os response Worker (s\<lparr>sv_response_queue := q\<rparr>)))"

definition close_rejected :: "os \<Rightarrow> ConnectionKey \<Rightarrow> TcpServer \<Rightarrow> TcpServer" where
  "close_rejected os key s =
     (case find_conn s (fst key) of
        None \<Rightarrow> s
      | Some c \<Rightarrow> if cn_conn_id c = snd key then closeConnection os (fst key) s else s)"

definition drainRejectedResponses :: "os \<Rightarrow> TcpServer \<Rightarrow> TcpServer" where
  "drainRejectedResponses os s = fold (close_rejected os) (sv_rejected s) (s\<lparr>sv_rejected := []\<rparr>)"

definition markReady :: "os \<Rightarrow> TcpServer \<Rightarrow> TcpServer" where
  "markReady os s =
     (case sys_setup os ''ready'' 0 (sv_io s) of
        (SysOk _, w) \<Rightarrow> s\<lparr>sv_ready := True, sv_io := w\<rparr>
      | (SysErr _, w) \<Rightarrow> s\<lparr>sv_io := w\<rparr>)"

definition markNotReady :: "os \<Rightarrow> TcpServer \<Rightarrow> TcpServer" where
  "markNotReady os s =
     (case sys_setup os ''unlink'' 0 (sv_io s) of
        (SysOk _, w) \<Rightarrow> s\<lparr>sv_ready := False, sv_io := w\<rparr>
      | (SysErr e, w) \<Rightarrow> if e = ENOENT then s\<lparr>sv_ready := False, sv_io := w\<rparr> else s\<lparr>sv_io := w\<rparr>)"

definition closeListener :: "os \<Rightarrow> TcpServer \<Rightarrow> TcpServer" where
  "closeListener os s =
     (if sv_listen_fd s = -1 then s
      else
        let s1 = (if sv_epfd s \<noteq> -1 then snd (server_ctl os EPOLL_CTL_DEL (sv_listen_fd s) 0 s) else s)
        in (server_close (sv_listen_fd s) s1)\<lparr>sv_listen_fd := -1\<rparr>)"

definition beginDraining :: "os \<Rightarrow> TcpServer \<Rightarrow> TcpServer" where
  "beginDraining os s =
     (if sv_state s \<noteq> RUNNING then s
      else
        case server_now os (s\<lparr>sv_state := DRAINING\<rparr>) of
          (now, s1) \<Rightarrow>
        let s2 = s1\<lparr>sv_shutdown_deadline := now + sv_shutdown_timeout s1 * 1000000\<rparr>;
            s3 = closeListener os (markNotReady os s2);
            s4 = s3\<lparr>sv_request_queue := bq_stop (sv_request_queue s3),
                    sv_auth_queue := bq_stop (sv_auth_queue s3)\<rparr>;
            connection_events = map (\<lambda>(fd, c). (fd, connectionEvents s4 c)) (sv_connections s4)
        in fold (\<lambda>(fd, events) s. snd (modifyConnectionEvents os fd events s)) connection_events s4)"

definition drainComplete :: "os \<Rightarrow> TcpServer \<Rightarrow> bool \<times> TcpServer" where
  "drainComplete os s =
     (if sv_response_producers_remaining s \<noteq> 0 \<or>
         \<not> q_stopped (sv_request_queue s) \<or> bq_size (sv_request_queue s) \<noteq> 0 \<or>
         \<not> q_stopped (sv_auth_queue s) \<or> bq_size (sv_auth_queue s) \<noteq> 0 \<or>
         \<not> q_stopped (sv_response_queue s) \<or> bq_size (sv_response_queue s) \<noteq> 0
      then (False, s)
      else if sv_rejected s \<noteq> [] then (False, s)
      else
        let completed = map fst (filter (\<lambda>(fd, c). canCloseAfterDrain s c) (sv_connections s));
            s1 = fold (closeConnection os) completed s
        in (sv_connections s1 = [], s1))"

definition epollTimeoutMs :: "os \<Rightarrow> TcpServer \<Rightarrow> int \<times> TcpServer" where
  "epollTimeoutMs os s =
     (if sv_state s \<noteq> DRAINING then (-1, s)
      else
        case server_now os s of
          (now, s1) \<Rightarrow>
            let delta = shutdownDeadline s1 - now;
                remaining = (if delta < 0 then - ((- delta) div 1000000) else delta div 1000000)
            in (if remaining \<le> 0 then 0 else min remaining INT_MAX, s1))"

text \<open>The joins of \<^verbatim>\<open>finishShutdown\<close> wait; what it does after them is here.\<close>

definition finishShutdown_begin :: "os \<Rightarrow> TcpServer \<Rightarrow> TcpServer" where
  "finishShutdown_begin os s =
     (let s1 = markNotReady os s
      in s1\<lparr>sv_request_queue := bq_stop (sv_request_queue s1), sv_auth_queue := bq_stop (sv_auth_queue s1),
            sv_response_queue := bq_stop (sv_response_queue s1)\<rparr>)"

definition finishShutdown_end :: "os \<Rightarrow> TcpServer \<Rightarrow> TcpServer" where
  "finishShutdown_end os s =
     (let s1 = fold (closeConnection os) (map fst (sv_connections s)) s;
          s2 = closeListener os s1;
          s3 = (case notifier_close (sv_notifier s2) (sv_io s2) of (n, w) \<Rightarrow> s2\<lparr>sv_notifier := n, sv_io := w\<rparr>);
          s4 = (if sv_epfd s3 \<noteq> -1 then (server_close (sv_epfd s3) s3)\<lparr>sv_epfd := -1\<rparr> else s3)
      in s4\<lparr>sv_instance := False, sv_state := STOPPED, sv_shutdown_finished := True\<rparr>)"

section \<open>Start and stop\<close>

text \<open>The delegating constructors only supply the default arguments.\<close>

definition TcpServer_new ::
  "int \<Rightarrow> string \<Rightarrow> int \<Rightarrow> nat \<Rightarrow> nat \<Rightarrow> int \<Rightarrow> nat \<Rightarrow> string \<Rightarrow> int \<Rightarrow> nat \<Rightarrow> nat \<Rightarrow>
   LogStorage \<Rightarrow> cpp_exn + TcpServer" where
  "TcpServer_new port control_plane_host control_plane_port request_queue_capacity
     response_queue_capacity shutdown_timeout_ms worker_count gateway_token control_plane_timeout_ms
     auth_worker_count auth_queue_capacity log_storage =
     try_bind (ControlPlaneClient_new control_plane_host control_plane_port control_plane_timeout_ms
                 gateway_token) (\<lambda>control_plane.
       if auth_worker_count = 0 \<or> auth_worker_count > 16
       then Inl (InvalidArgument ''auth worker count must be in [1, 16]'')
       else if auth_queue_capacity = 0 \<or> auth_queue_capacity > 65536
       then Inl (InvalidArgument ''auth queue capacity must be in [1, 65536]'')
       else Inr
         \<lparr>sv_port = port, sv_listen_fd = -1, sv_epfd = -1, sv_instance = False,
          sv_signal_stop_requested = False, sv_state = STOPPED, sv_started = False,
          sv_shutdown_finished = False, sv_stop_requested = False,
          sv_response_producers_remaining = 0, sv_auth_in_flight = 0, sv_shutdown_deadline = 0,
          sv_shutdown_timeout = max shutdown_timeout_ms 1, sv_configured_worker_count = worker_count,
          sv_configured_auth_worker_count = auth_worker_count, sv_next_conn_id = 1,
          sv_request_queue = bq_new (max request_queue_capacity 1),
          sv_auth_queue = bq_new (max auth_queue_capacity 1),
          sv_response_queue = bq_new (max response_queue_capacity 1),
          sv_notifier = notifier_new, sv_rejected = [], sv_connections = [],
          sv_control_plane = control_plane, sv_ready = False, sv_runtime_config = RuntimeConfig_default,
          sv_rate_limit_windows = [], sv_cancellations = [], sv_stats = stats_init,
          sv_log_storage = log_storage, sv_logger = logger_init, sv_io = io_new, sv_accepted = 0,
          sv_violation = False\<rparr>)"

text \<open>
  One step of \<^verbatim>\<open>initServer\<close> that only succeeds or fails.  A failure throws with the text of the error;
  what was opened before it is in the state.
\<close>

definition setup_step ::
  "os \<Rightarrow> string \<Rightarrow> string \<Rightarrow> TcpServer \<Rightarrow> (TcpServer \<Rightarrow> (cpp_exn \<times> TcpServer) + TcpServer) \<Rightarrow>
   (cpp_exn \<times> TcpServer) + TcpServer" where
  "setup_step os call message s k =
     (case sys_setup os call (sv_listen_fd s) (sv_io s) of
        (SysErr e, w) \<Rightarrow> Inl (RuntimeError (message @ os_strerror os e), s\<lparr>sv_io := w\<rparr>)
      | (SysOk _, w) \<Rightarrow> k (s\<lparr>sv_io := w\<rparr>))"

definition setup_register ::
  "os \<Rightarrow> int \<Rightarrow> event_mask \<Rightarrow> string \<Rightarrow> TcpServer \<Rightarrow> (TcpServer \<Rightarrow> (cpp_exn \<times> TcpServer) + TcpServer) \<Rightarrow>
   (cpp_exn \<times> TcpServer) + TcpServer" where
  "setup_register os fd events message s k =
     (case server_ctl os EPOLL_CTL_ADD fd events s of
        (SysErr e, s1) \<Rightarrow> Inl (RuntimeError (message @ os_strerror os e), s1)
      | (SysOk _, s1) \<Rightarrow> k s1)"

definition initServer :: "os \<Rightarrow> TcpServer \<Rightarrow> (cpp_exn \<times> TcpServer) + TcpServer" where
  "initServer os s =
     (case sys_create os ''socket'' (sv_io s) of
        (SysErr e, w) \<Rightarrow> Inl (RuntimeError (''socket failed: '' @ os_strerror os e), s\<lparr>sv_io := w\<rparr>)
      | (SysOk listen_fd, w) \<Rightarrow>
          setup_step os ''setsockopt'' ''setsockopt(SO_REUSEADDR) failed: ''
            (s\<lparr>sv_listen_fd := listen_fd, sv_io := w\<rparr>) (\<lambda>s1.
          setup_step os ''bind'' ''bind failed: '' s1 (\<lambda>s2.
          setup_step os ''listen'' ''listen failed: '' s2 (\<lambda>s3.
          (case sys_create os ''epoll_create1'' (sv_io s3) of
             (SysErr e, w) \<Rightarrow>
               Inl (RuntimeError (''epoll_create1 failed: '' @ os_strerror os e), s3\<lparr>sv_io := w\<rparr>)
           | (SysOk epfd, w) \<Rightarrow>
               (case notifier_open os (sv_notifier s3) w of
                  (opened, n, w1) \<Rightarrow>
                    let s4 = s3\<lparr>sv_epfd := epfd, sv_notifier := n, sv_io := w1\<rparr> in
                    if \<not> opened
                    then Inl (RuntimeError (''eventfd failed: '' @
                                (case os_setup os (io_tick w) ''eventfd'' (-1) of
                                   SysErr e \<Rightarrow> os_strerror os e | SysOk _ \<Rightarrow> [])), s4)
                    else
                      setup_register os (sv_listen_fd s4) (EPOLLIN OR EPOLLET)
                        ''epoll add listener failed: '' s4 (\<lambda>s5.
                      setup_register os (rn_fd (sv_notifier s5)) EPOLLIN
                        ''epoll add eventfd failed: '' s5 Inr)))))))"

text \<open>
  \<^verbatim>\<open>start\<close> up to the creation of the threads; the result has the number of normal workers.  When
  \<open>initServer\<close> throws, everything it opened is closed again and the exception is rethrown.
\<close>

definition undo_init :: "os \<Rightarrow> TcpServer \<Rightarrow> TcpServer" where
  "undo_init os s =
     (let s1 = closeListener os s;
          s2 = (case notifier_close (sv_notifier s1) (sv_io s1) of (n, w) \<Rightarrow> s1\<lparr>sv_notifier := n, sv_io := w\<rparr>);
          s3 = (if sv_epfd s2 \<noteq> -1 then (server_close (sv_epfd s2) s2)\<lparr>sv_epfd := -1\<rparr> else s2)
      in s3\<lparr>sv_started := False\<rparr>)"

definition worker_count_of :: "nat \<Rightarrow> nat \<Rightarrow> nat" where
  "worker_count_of configured hardware_concurrency =
     (if configured = 0
      then min (if hardware_concurrency = 0 then 4 else hardware_concurrency) 4
      else configured)"

definition start_server :: "os \<Rightarrow> nat \<Rightarrow> TcpServer \<Rightarrow> (cpp_exn \<times> TcpServer) + (nat \<times> TcpServer)" where
  "start_server os hardware_concurrency s =
     (if sv_started s then Inl (LogicError ''TcpServer::start may only be called once'', s)
      else
        case initServer os (s\<lparr>sv_started := True, sv_shutdown_finished := False\<rparr>) of
          Inl (e, s1) \<Rightarrow> Inl (e, undo_init os s1)
        | Inr s1 \<Rightarrow>
            let s2 = markReady os (s1\<lparr>sv_instance := True, sv_signal_stop_requested := False,
                                      sv_state := RUNNING\<rparr>);
                workers = worker_count_of (sv_configured_worker_count s2) hardware_concurrency
            in Inr (workers,
                    s2\<lparr>sv_response_producers_remaining := workers + sv_configured_auth_worker_count s2\<rparr>))"

text \<open>\<^verbatim>\<open>stop\<close>, without the wait of a caller on another thread, and the signal handler.\<close>

definition stop_server :: "os \<Rightarrow> TcpServer \<Rightarrow> TcpServer option" where
  "stop_server os s =
     (if \<not> sv_started s then Some (s\<lparr>sv_state := STOPPED, sv_shutdown_finished := True\<rparr>)
      else if sv_shutdown_finished s then Some s
      else server_notify os (s\<lparr>sv_stop_requested := True\<rparr>))"

definition staticSignalHandler :: "os \<Rightarrow> TcpServer \<Rightarrow> TcpServer option" where
  "staticSignalHandler os s =
     (let s1 = s\<lparr>sv_signal_stop_requested := True\<rparr>
      in if sv_instance s1 then server_notify os s1 else Some s1)"

section \<open>The reactor loop\<close>

text \<open>One event of \<^verbatim>\<open>epoll_wait\<close>.\<close>

definition handle_event :: "os \<Rightarrow> int \<times> event_mask \<Rightarrow> TcpServer \<Rightarrow> TcpServer option" where
  "handle_event os event s =
     (case event of
        (fd, flags) \<Rightarrow>
          if fd = rn_fd (sv_notifier s) then
            map_option (\<lambda>(_, n, w). s\<lparr>sv_notifier := n, sv_io := w\<rparr>)
              (notifier_consume os (sv_notifier s) (sv_io s))
          else if fd = sv_listen_fd s then
            (if sv_state s = RUNNING then handleAccept os s else Some s)
          else if flags AND EPOLLERR \<noteq> 0 then Some (closeConnection os fd s)
          else
            (case (if flags AND (EPOLLIN OR EPOLLRDHUP OR EPOLLHUP) \<noteq> 0 \<and> sv_state s = RUNNING
                   then handleRead os fd s else Some s) of
               None \<Rightarrow> None
             | Some s1 \<Rightarrow>
                 if find_conn s1 fd = None then Some s1
                 else
                   let s2 = (if flags AND (EPOLLRDHUP OR EPOLLHUP) \<noteq> 0 then markReadEof os fd s1 else s1)
                   in if flags AND EPOLLOUT \<noteq> 0 then handleWrite os fd s2 else Some s2))"

text \<open>The end of an iteration while draining.\<close>

definition drain_check :: "os \<Rightarrow> TcpServer \<Rightarrow> TcpServer" where
  "drain_check os s =
     (if sv_state s \<noteq> DRAINING then s
      else
        case drainComplete os s of
          (True, s1) \<Rightarrow> s1\<lparr>sv_state := STOPPED\<rparr>
        | (False, s1) \<Rightarrow>
            (case server_now os s1 of
               (now, s2) \<Rightarrow>
                 if now \<ge> shutdownDeadline s2
                 then s2\<lparr>sv_request_queue := snd (bq_abort (sv_request_queue s2)),
                         sv_auth_queue := snd (bq_abort (sv_auth_queue s2)),
                         sv_response_queue := snd (bq_abort (sv_response_queue s2)),
                         sv_state := STOPPED\<rparr>
                 else s2))"

text \<open>
  The thread of the reactor is a control point and the state: at the top of the loop, waiting for
  events, with events still to handle, taking responses, closing rejected connections, checking the
  drain, joining the other threads, and gone.  The other threads run between the steps.
\<close>

datatype reactor_pc =
    LoopTop | Waiting int | Handling "(int \<times> event_mask) list" | DrainResponses | DrainRejected | DrainCheck
  | Joining | Exited

definition loop_top :: "os \<Rightarrow> TcpServer \<Rightarrow> reactor_pc \<times> TcpServer" where
  "loop_top os s =
     (if sv_state s = STOPPED then (Joining, finishShutdown_begin os s)
      else
        let s1 = (if (sv_stop_requested s \<or> sv_signal_stop_requested s) \<and> sv_state s = RUNNING
                  then beginDraining os s else s) in
        case epollTimeoutMs os s1 of (timeout, s2) \<Rightarrow> (Waiting timeout, s2))"

definition loop_wait :: "os \<Rightarrow> int \<Rightarrow> TcpServer \<Rightarrow> reactor_pc \<times> TcpServer" where
  "loop_wait os timeout s =
     (case sys_epoll_wait os timeout (sv_io s) of
        (SysErr e, w) \<Rightarrow>
          let s1 = s\<lparr>sv_io := w\<rparr> in (LoopTop, if e = EINTR then s1 else beginDraining os s1)
      | (SysOk events, w) \<Rightarrow> (Handling events, s\<lparr>sv_io := w\<rparr>))"

fun reactor_step :: "os \<Rightarrow> reactor_pc \<Rightarrow> TcpServer \<Rightarrow> (reactor_pc \<times> TcpServer) option" where
  "reactor_step os LoopTop s = Some (loop_top os s)"
| "reactor_step os (Waiting timeout) s = Some (loop_wait os timeout s)"
| "reactor_step os (Handling []) s = Some (DrainResponses, s)"
| "reactor_step os (Handling (event # events)) s =
     map_option (\<lambda>s1. (Handling events, s1)) (handle_event os event s)"
| "reactor_step os DrainResponses s =
     (case drainResponse_step os s of
        (True, s1) \<Rightarrow> Some (DrainResponses, s1)
      | (False, s1) \<Rightarrow> Some (DrainRejected, s1))"
| "reactor_step os DrainRejected s = Some (DrainCheck, drainRejectedResponses os s)"
| "reactor_step os DrainCheck s = Some (LoopTop, drain_check os s)"
| "reactor_step os Joining s = Some (Exited, finishShutdown_end os s)"
| "reactor_step os Exited s = None"

section \<open>The main program\<close>

text \<open>
  \<^verbatim>\<open>main\<close> up to \<^verbatim>\<open>start\<close>: the configuration is read from the environment, the server is built from
  it and started.  An exception of any of them is exit status 1.
\<close>

definition gateway_main ::
  "environment \<Rightarrow> LogStorage \<Rightarrow> os \<Rightarrow> nat \<Rightarrow> cpp_exn + (nat \<times> TcpServer)" where
  "gateway_main env log_storage os hardware_concurrency =
     try_bind (parseStartupConfig env) (\<lambda>config.
     try_bind (TcpServer_new (sc_gateway_port config) (sc_control_plane_host config)
                 (sc_control_plane_port config) (sc_request_queue_capacity config)
                 (sc_response_queue_capacity config) (sc_shutdown_timeout_ms config)
                 (sc_worker_count config) (sc_gateway_token config)
                 (sc_control_plane_timeout_ms config) (sc_auth_worker_count config)
                 (sc_auth_queue_capacity config) log_storage) (\<lambda>server.
     case start_server os hardware_concurrency server of
       Inl (e, _) \<Rightarrow> Inl e
     | Inr started \<Rightarrow> Inr started))"

end
