(* ===== verification/ServerInvariant.thy ===== *)
theory ServerInvariant
  imports TcpServer
begin

text \<open>
  The invariant of the server and that every operation of the reactor keeps it.

  An item of work is a request or an authentication task that was admitted and whose response has not
  been applied: it is in one of the three queues or held by a worker.  The invariant ties the items to
  the connections: a connection accounts for at least the items that carry its key, an unauthenticated
  connection has at most one authentication under way and no other work, and the cancellation flag of
  a task is that of its connection as long as the connection lives, and set after that.

  Connection ids are 64-bit words; the invariant is claimed for the first \<open>2 ^ 64 - 1\<close> connections.
\<close>

section \<open>Work\<close>

definition req_key :: "Request \<Rightarrow> ConnectionKey" where
  "req_key r = (req_fd r, req_conn_id r)"

definition resp_key :: "Response \<Rightarrow> ConnectionKey" where
  "resp_key r = (resp_fd r, resp_conn_id r)"

abbreviation task_key :: "AuthTask \<Rightarrow> ConnectionKey" where
  "task_key t \<equiv> req_key (at_request t)"

text \<open>What the workers hold, and the clients the control plane has allowed so far.\<close>

record held =
  hd_requests :: "Request list"
  hd_tasks :: "AuthTask list"

type_synonym grants = "(u64 \<times> string) set"

definition all_requests :: "held \<Rightarrow> TcpServer \<Rightarrow> Request list" where
  "all_requests h s = q_data (sv_request_queue s) @ hd_requests h"

definition all_tasks :: "held \<Rightarrow> TcpServer \<Rightarrow> AuthTask list" where
  "all_tasks h s = q_data (sv_auth_queue s) @ hd_tasks h"

definition auth_keys :: "held \<Rightarrow> TcpServer \<Rightarrow> ConnectionKey list" where
  "auth_keys h s = map task_key (all_tasks h s) @
     map resp_key (filter (\<lambda>r. resp_type r = AUTH_RESP) (q_data (sv_response_queue s)))"

definition work_keys :: "held \<Rightarrow> TcpServer \<Rightarrow> ConnectionKey list" where
  "work_keys h s = map req_key (all_requests h s) @ map task_key (all_tasks h s) @
     map resp_key (q_data (sv_response_queue s))"

lemma count_auth_le_work: "count_list (auth_keys h s) k \<le> count_list (work_keys h s) k"
proof -
  have "count_list (map resp_key (filter P rs)) k \<le> count_list (map resp_key rs) k" for P rs
    by (induction rs) auto
  then show ?thesis by (simp add: auth_keys_def work_keys_def trans_le_add2)
qed

section \<open>The invariant\<close>

definition OUTPUT_MAX :: nat where
  "OUTPUT_MAX = 67108864"

text \<open>What holds of one connection.\<close>

definition conn_ok :: "held \<Rightarrow> grants \<Rightarrow> TcpServer \<Rightarrow> int \<Rightarrow> Connection \<Rightarrow> bool" where
  "conn_ok h G s fd c \<longleftrightarrow>
     cn_fd c = fd \<and> unat (cn_conn_id c) \<le> sv_accepted s \<and>
     count_list (work_keys h s) (fd, cn_conn_id c) \<le> cn_in_flight_work c \<and>
     cn_write_offset c \<le> length (cn_output_buffer c) \<and>
     length (cn_output_buffer c) - cn_write_offset c \<le> OUTPUT_MAX \<and>
     (cn_authenticated c \<longrightarrow> (cn_conn_id c, cn_client_id c) \<in> G \<and> \<not> cn_auth_pending c) \<and>
     count_list (auth_keys h s) (fd, cn_conn_id c) \<le> (if cn_auth_pending c then 1 else 0)"

text \<open>A connection that is open under a key.\<close>

definition open_conn :: "TcpServer \<Rightarrow> ConnectionKey \<Rightarrow> Connection option" where
  "open_conn s k =
     (case find_conn s (fst k) of
        None \<Rightarrow> None
      | Some c \<Rightarrow> if cn_conn_id c = snd k then Some c else None)"

definition request_ok :: "TcpServer \<Rightarrow> Request \<Rightarrow> bool" where
  "request_ok s r \<longleftrightarrow> req_type r \<noteq> AUTH \<and>
     (case open_conn s (req_key r) of None \<Rightarrow> True | Some c \<Rightarrow> cn_authenticated c)"

definition task_ok :: "TcpServer \<Rightarrow> AuthTask \<Rightarrow> bool" where
  "task_ok s t \<longleftrightarrow> req_type (at_request t) = AUTH \<and> at_cancellation t < length (sv_cancellations s) \<and>
     (case open_conn s (task_key t) of
        None \<Rightarrow> sv_cancellations s ! at_cancellation t
      | Some c \<Rightarrow> cn_auth_cancellation c = Some (at_cancellation t))"

definition response_ok :: "grants \<Rightarrow> Response \<Rightarrow> bool" where
  "response_ok G r \<longleftrightarrow> \<not> resp_skip_write r \<and>
     (resp_close_connection r \<longrightarrow> resp_type r = AUTH_RESP) \<and>
     (case resp_client_id_to_authenticate r of
        None \<Rightarrow> True
      | Some client_id \<Rightarrow> resp_type r = AUTH_RESP \<and> \<not> resp_close_connection r \<and>
                          (resp_conn_id r, client_id) \<in> G)"

definition conns_ok :: "held \<Rightarrow> grants \<Rightarrow> TcpServer \<Rightarrow> bool" where
  "conns_ok h G s \<longleftrightarrow> distinct (map fst (sv_connections s)) \<and>
     (\<forall>fd c. find_conn s fd = Some c \<longrightarrow> conn_ok h G s fd c) \<and>
     (\<forall>fd c fd' c'. find_conn s fd = Some c \<longrightarrow> find_conn s fd' = Some c' \<longrightarrow>
        cn_conn_id c = cn_conn_id c' \<longrightarrow> fd = fd')"

definition work_ok :: "held \<Rightarrow> grants \<Rightarrow> TcpServer \<Rightarrow> bool" where
  "work_ok h G s \<longleftrightarrow>
     (\<forall>k\<in>set (work_keys h s). unat (snd k) \<le> sv_accepted s) \<and>
     (\<forall>r\<in>set (all_requests h s). request_ok s r) \<and>
     (\<forall>t\<in>set (all_tasks h s). task_ok s t) \<and>
     (\<forall>r\<in>set (q_data (sv_response_queue s)). response_ok G r)"

definition globals_ok :: "TcpServer \<Rightarrow> bool" where
  "globals_ok s \<longleftrightarrow>
     sv_next_conn_id s = of_nat (Suc (sv_accepted s)) \<and> \<not> sv_violation s \<and>
     valid_config (sv_runtime_config s) \<and>
     bq_inv (sv_request_queue s) \<and> bq_inv (sv_auth_queue s) \<and> bq_inv (sv_response_queue s) \<and>
     (\<forall>fd c a. find_conn s fd = Some c \<longrightarrow> cn_auth_cancellation c = Some a \<longrightarrow>
        a < length (sv_cancellations s))"

definition server_ok :: "held \<Rightarrow> grants \<Rightarrow> TcpServer \<Rightarrow> bool" where
  "server_ok h G s \<longleftrightarrow> conns_ok h G s \<and> work_ok h G s \<and> globals_ok s"

text \<open>The fields the invariant reads.\<close>

definition same_core :: "TcpServer \<Rightarrow> TcpServer \<Rightarrow> bool" where
  "same_core s s' \<longleftrightarrow>
     sv_connections s' = sv_connections s \<and> sv_request_queue s' = sv_request_queue s \<and>
     sv_auth_queue s' = sv_auth_queue s \<and> sv_response_queue s' = sv_response_queue s \<and>
     sv_cancellations s' = sv_cancellations s \<and> sv_next_conn_id s' = sv_next_conn_id s \<and>
     sv_accepted s' = sv_accepted s \<and> sv_violation s' = sv_violation s \<and>
     sv_runtime_config s' = sv_runtime_config s"

lemmas inv_defs = server_ok_def conns_ok_def work_ok_def globals_ok_def conn_ok_def request_ok_def
  task_ok_def open_conn_def work_keys_def auth_keys_def all_requests_def all_tasks_def

lemma server_ok_cong: "same_core s s' \<Longrightarrow> server_ok h G s' = server_ok h G s"
  unfolding same_core_def inv_defs by (elim conjE) (simp only:)

lemma same_core_refl [simp]: "same_core s s"
  by (simp add: same_core_def)

lemma same_core_trans: "same_core s s' \<Longrightarrow> same_core s' s'' \<Longrightarrow> same_core s s''"
  by (simp add: same_core_def)

lemma server_ok_core: "server_ok h G s \<Longrightarrow> same_core s s' \<Longrightarrow> server_ok h G s'"
  by (simp add: server_ok_cong)

text \<open>The primitive updates that leave the core alone.\<close>

lemma same_core_simps [simp]:
  "same_core s (count_stat f s')  = same_core s s'"
  "same_core s (server_close fd s') = same_core s s'"
  "same_core s (snd (server_ctl os op fd ev s')) = same_core s s'"
  "same_core s (snd (server_now os s')) = same_core s s'"
  "same_core s (s'\<lparr>sv_io := w\<rparr>) = same_core s s'"
  "same_core s (s'\<lparr>sv_rejected := x1\<rparr>) = same_core s s'"
  "same_core s (s'\<lparr>sv_rate_limit_windows := x2\<rparr>) = same_core s s'"
  "same_core s (s'\<lparr>sv_state := x3\<rparr>) = same_core s s'"
  "same_core s (s'\<lparr>sv_notifier := x4\<rparr>) = same_core s s'"
  "same_core s (s'\<lparr>sv_stats := x5\<rparr>) = same_core s s'"
  by (simp_all add: same_core_def count_stat_def server_close_def server_ctl_def server_now_def
      sys_now_def sys_epoll_ctl_def split: sysres.splits prod.splits)

section \<open>Editing one connection\<close>

lemma find_put_conn [simp]: "find_conn (put_conn fd c s) fd' = (if fd' = fd then Some c else find_conn s fd')"
  by (simp add: put_conn_def update_conv')

lemma put_conn_simps [simp]:
  "sv_request_queue (put_conn fd c s) = sv_request_queue s"
  "sv_auth_queue (put_conn fd c s) = sv_auth_queue s"
  "sv_response_queue (put_conn fd c s) = sv_response_queue s"
  "sv_cancellations (put_conn fd c s) = sv_cancellations s"
  "sv_next_conn_id (put_conn fd c s) = sv_next_conn_id s"
  "sv_accepted (put_conn fd c s) = sv_accepted s"
  "sv_violation (put_conn fd c s) = sv_violation s"
  "sv_runtime_config (put_conn fd c s) = sv_runtime_config s"
  "sv_state (put_conn fd c s) = sv_state s"
  "work_keys h (put_conn fd c s) = work_keys h s"
  "auth_keys h (put_conn fd c s) = auth_keys h s"
  "all_requests h (put_conn fd c s) = all_requests h s"
  "all_tasks h (put_conn fd c s) = all_tasks h s"
  "conn_ok h G (put_conn fd c s) = conn_ok h G s"
  by (simp_all add: put_conn_def work_keys_def auth_keys_def all_requests_def all_tasks_def conn_ok_def fun_eq_iff)

lemma distinct_put_conn [simp]:
  "distinct (map fst (sv_connections s)) \<Longrightarrow> distinct (map fst (sv_connections (put_conn fd c s)))"
  by (simp add: put_conn_def distinct_update)

lemma open_put_conn:
  "open_conn (put_conn fd c s) k =
     (if fst k = fd then if cn_conn_id c = snd k then Some c else None else open_conn s k)"
  by (auto simp: open_conn_def)

lemma count_list_zero_iff: "count_list xs x = 0 \<longleftrightarrow> x \<notin> set xs"
  by (simp add: count_list_0_iff)

text \<open>
  A connection may be replaced by one that is as good, with the same id, at least as authenticated, and
  with the same cancellation flag unless no task refers to it.
\<close>

lemma server_ok_edit:
  assumes ok: "server_ok h G s" and c: "find_conn s fd = Some c"
    and c': "conn_ok h G s fd c'" "cn_conn_id c' = cn_conn_id c" "cn_authenticated c \<longrightarrow> cn_authenticated c'"
    and cancel: "cn_auth_cancellation c' = cn_auth_cancellation c \<or>
      (\<forall>a. cn_auth_cancellation c' = Some a \<longrightarrow> a < length (sv_cancellations s)) \<and>
      (fd, cn_conn_id c) \<notin> task_key ` set (all_tasks h s)"
  shows "server_ok h G (put_conn fd c' s)"
proof -
  let ?s = "put_conn fd c' s"
  have old: "open_conn s (fd, i) = (if cn_conn_id c = i then Some c else None)" for i
    using c by (simp add: open_conn_def)
  have "conns_ok h G ?s"
    using ok c c' unfolding server_ok_def conns_ok_def by (auto split: if_splits)
  moreover have "request_ok ?s r" if "request_ok s r" for r
    using that c' old [of "req_conn_id r"]
    by (cases "req_fd r = fd") (auto simp: request_ok_def open_put_conn req_key_def split: if_splits)
  moreover have "task_ok ?s t" if "task_ok s t" "t \<in> set (all_tasks h s)" for t
    using that c' cancel old [of "req_conn_id (at_request t)"]
    by (cases "req_fd (at_request t) = fd")
      (auto simp: task_ok_def open_put_conn req_key_def image_iff split: if_splits option.splits)
  moreover have "globals_ok ?s"
    using ok c cancel unfolding server_ok_def globals_ok_def by (auto split: if_splits)
  ultimately show ?thesis
    using ok unfolding server_ok_def work_ok_def by auto
qed

text \<open>The common case: buffers and flags that carry no authentication.\<close>

lemma server_ok_edit_plain:
  assumes "server_ok h G s" and "find_conn s fd = Some c"
    and "cn_fd c' = cn_fd c" "cn_conn_id c' = cn_conn_id c" "cn_authenticated c' = cn_authenticated c"
    "cn_client_id c' = cn_client_id c" "cn_auth_pending c' = cn_auth_pending c"
    "cn_in_flight_work c' = cn_in_flight_work c" "cn_auth_cancellation c' = cn_auth_cancellation c"
    "cn_write_offset c' \<le> length (cn_output_buffer c')"
    "length (cn_output_buffer c') - cn_write_offset c' \<le> OUTPUT_MAX"
  shows "server_ok h G (put_conn fd c' s)"
proof (rule server_ok_edit [OF assms(1,2)])
  from assms(1,2) have "conn_ok h G s fd c" by (simp add: server_ok_def conns_ok_def)
  with assms show "conn_ok h G s fd c'" by (simp add: conn_ok_def)
qed (use assms in auto)

lemma server_ok_conn: "server_ok h G s \<Longrightarrow> find_conn s fd = Some c \<Longrightarrow> conn_ok h G s fd c"
  by (simp add: server_ok_def conns_ok_def)

section \<open>Closing a connection\<close>

lemma find_delete [simp]: "map_of (AList.delete fd al) fd' = (if fd' = fd then None else map_of al fd')"
  by (simp add: delete_conv')

lemma nth_set_True: "xs ! i \<Longrightarrow> xs[a := True] ! i"
  by (metis list_update_beyond not_le nth_list_update)

lemma server_ctl_fields [simp]:
  "sv_epfd (snd (server_ctl os op fd ev s)) = sv_epfd s"
  "sv_connections (snd (server_ctl os op fd ev s)) = sv_connections s"
  by (simp_all add: server_ctl_def split: prod.splits)

lemma closeConnection_None: "find_conn s fd = None \<Longrightarrow> closeConnection os fd s = s"
  by (simp add: closeConnection_def)

definition conn_removed :: "int \<Rightarrow> Connection \<Rightarrow> TcpServer \<Rightarrow> TcpServer" where
  "conn_removed fd c s = s\<lparr>sv_connections := AList.delete fd (sv_connections s),
      sv_cancellations := (case cn_auth_cancellation c of None \<Rightarrow> sv_cancellations s
                           | Some a \<Rightarrow> (sv_cancellations s)[a := True])\<rparr>"

lemma closeConnection_core:
  "find_conn s fd = Some c \<Longrightarrow> same_core (conn_removed fd c s) (closeConnection os fd s)"
  by (simp add: closeConnection_def conn_removed_def Let_def split: option.splits) (simp add: same_core_def)

lemma server_frame_simps [simp]:
  "sv_state (count_stat f s) = sv_state s" "sv_state (server_close fd s) = sv_state s"
  "sv_state (snd (server_ctl os op fd ev s)) = sv_state s" "sv_state (snd (server_now os s)) = sv_state s"
  "sv_connections (count_stat f s) = sv_connections s" "sv_connections (server_close fd s) = sv_connections s"
  "sv_connections (snd (server_now os s)) = sv_connections s"
  by (simp_all add: count_stat_def server_close_def server_ctl_def server_now_def split: prod.splits)

lemma closeConnection_find [simp]:
  "find_conn (closeConnection os fd s) fd' = (if fd' = fd then None else find_conn s fd')"
  by (auto simp: closeConnection_def Let_def split: option.splits)

lemma closeConnection_state [simp]: "sv_state (closeConnection os fd s) = sv_state s"
  by (simp add: closeConnection_def Let_def split: option.splits)

text \<open>
  Removing a connection sets its cancellation flag.  Every task of the connection carries that flag, so
  the tasks that are left behind are cancelled.
\<close>

lemma server_ok_remove:
  assumes ok: "server_ok h G s" and c: "find_conn s fd = Some c"
  shows "server_ok h G (conn_removed fd c s)"
proof -
  let ?s = "conn_removed fd c s"
  have views [simp]: "work_keys h ?s = work_keys h s" "auth_keys h ?s = auth_keys h s"
    "all_requests h ?s = all_requests h s" "all_tasks h ?s = all_tasks h s" "conn_ok h G ?s = conn_ok h G s"
    "sv_accepted ?s = sv_accepted s" "sv_response_queue ?s = sv_response_queue s"
    "sv_request_queue ?s = sv_request_queue s" "sv_auth_queue ?s = sv_auth_queue s"
    "length (sv_cancellations ?s) = length (sv_cancellations s)"
    by (simp_all add: conn_removed_def work_keys_def auth_keys_def all_requests_def all_tasks_def conn_ok_def
        fun_eq_iff split: option.splits)
  have find: "find_conn ?s fd' = (if fd' = fd then None else find_conn s fd')" for fd'
    by (simp add: conn_removed_def)
  have flags: "sv_cancellations ?s =
      (case cn_auth_cancellation c of None \<Rightarrow> sv_cancellations s | Some a \<Rightarrow> (sv_cancellations s)[a := True])"
    by (simp add: conn_removed_def)
  have opened: "open_conn ?s k = (if fst k = fd then None else open_conn s k)" for k
    by (simp add: open_conn_def find)
  have "distinct (map fst (sv_connections ?s))"
    using ok by (simp add: server_ok_def conns_ok_def conn_removed_def distinct_delete)
  then have conns: "conns_ok h G ?s"
    using ok unfolding server_ok_def conns_ok_def by (simp add: find)
  have task: "task_ok ?s t" if "task_ok s t" for t
  proof (cases "fst (task_key t) = fd")
    case False
    with that show ?thesis
      by (auto simp: task_ok_def opened flags nth_set_True split: option.splits)
  next
    case True
    with c have "open_conn s (task_key t) = (if cn_conn_id c = snd (task_key t) then Some c else None)"
      by (simp add: open_conn_def)
    with that True show ?thesis
      by (auto simp: task_ok_def opened flags nth_set_True split: option.splits if_splits)
  qed
  have "request_ok s r \<Longrightarrow> request_ok ?s r" for r
    by (simp add: request_ok_def opened)
  with ok task have "work_ok h G ?s" by (simp add: server_ok_def work_ok_def)
  moreover have "globals_ok ?s"
    using ok unfolding server_ok_def globals_ok_def by (auto simp: find conn_removed_def split: option.splits)
  ultimately show ?thesis using conns by (simp add: server_ok_def)
qed

lemma server_ok_close: "server_ok h G s \<Longrightarrow> server_ok h G (closeConnection os fd s)"
  by (cases "find_conn s fd")
    (simp_all add: closeConnection_None server_ok_core [OF server_ok_remove closeConnection_core])

lemma server_ok_ctl: "server_ok h G s \<Longrightarrow> server_ok h G (snd (server_ctl os op fd ev s))"
  by (erule server_ok_core) simp

lemma server_ok_modify: "server_ok h G s \<Longrightarrow> server_ok h G (snd (modifyConnectionEvents os fd ev s))"
  using server_ok_ctl [of h G s os EPOLL_CTL_MOD fd ev]
  by (auto simp: modifyConnectionEvents_def server_ok_close split: prod.splits sysres.splits)

lemma server_ok_maybeClose: "server_ok h G s \<Longrightarrow> server_ok h G (maybeCloseAfterDrain os fd s)"
  by (simp add: maybeCloseAfterDrain_def server_ok_close split: option.splits)

lemma server_ok_markReadEof:
  assumes "server_ok h G s" shows "server_ok h G (markReadEof os fd s)"
proof (cases "find_conn s fd")
  case (Some c)
  have "server_ok h G (put_conn fd (c\<lparr>cn_read_eof := True\<rparr>) s)"
    using server_ok_conn [OF assms Some] by (intro server_ok_edit_plain [OF assms Some]) (auto simp: conn_ok_def)
  with assms Some show ?thesis
    by (simp add: markReadEof_def Let_def server_ok_close server_ok_modify server_ok_maybeClose)
qed (simp add: markReadEof_def assms)

lemma server_ok_fold: "(\<And>x s. server_ok h G s \<Longrightarrow> server_ok h G (f x s)) \<Longrightarrow> server_ok h G s \<Longrightarrow> server_ok h G (fold f xs s)"
  by (induction xs arbitrary: s) auto

lemma server_ok_rejected: "server_ok h G s \<Longrightarrow> server_ok h G (drainRejectedResponses os s)"
  unfolding drainRejectedResponses_def
  by (rule server_ok_fold)
    (auto simp: close_rejected_def server_ok_close server_ok_core split: option.splits)

section \<open>Queues\<close>

lemma items_ok_cong:
  assumes "sv_connections s' = sv_connections s" and "sv_cancellations s' = sv_cancellations s"
  shows "open_conn s' = open_conn s" "request_ok s' = request_ok s" "task_ok s' = task_ok s"
proof -
  show *: "open_conn s' = open_conn s" by (rule ext) (simp add: open_conn_def assms)
  show "request_ok s' = request_ok s" "task_ok s' = task_ok s"
    by (simp_all add: fun_eq_iff request_ok_def task_ok_def assms * cong: option.case_cong)
qed

text \<open>
  Work may move between the queues and the workers, and it may disappear, as long as no connection
  gets more of it.
\<close>

lemma server_ok_shrink:
  assumes ok: "server_ok h G s"
    and same: "sv_connections s' = sv_connections s" "sv_cancellations s' = sv_cancellations s"
      "sv_next_conn_id s' = sv_next_conn_id s" "sv_accepted s' = sv_accepted s"
      "sv_violation s' = sv_violation s" "valid_config (sv_runtime_config s')"
    and inv: "bq_inv (sv_request_queue s')" "bq_inv (sv_auth_queue s')" "bq_inv (sv_response_queue s')"
    and work: "\<And>k. count_list (work_keys h' s') k \<le> count_list (work_keys h s) k"
    and auth: "\<And>k. count_list (auth_keys h' s') k \<le> count_list (auth_keys h s) k"
    and sub: "set (all_requests h' s') \<subseteq> set (all_requests h s)" "set (all_tasks h' s') \<subseteq> set (all_tasks h s)"
    and resp: "G \<subseteq> G'" "\<And>r. r \<in> set (q_data (sv_response_queue s')) \<Longrightarrow> response_ok G' r"
  shows "server_ok h' G' s'"
proof -
  have conn: "conn_ok h' G' s' fd c" if "conn_ok h G s fd c" for fd c
    using that work [of "(fd, cn_conn_id c)"] auth [of "(fd, cn_conn_id c)"] same(4) resp(1)
    by (auto simp: conn_ok_def split: if_splits)
  have "set (work_keys h' s') \<subseteq> set (work_keys h s)"
    using work by (metis count_list_0_iff le_zero_eq subsetI)
  then have "work_ok h' G' s'"
    using ok sub resp(2) unfolding server_ok_def work_ok_def items_ok_cong [OF same(1,2)] same by blast
  moreover have "conns_ok h' G' s'"
    using ok conn unfolding server_ok_def conns_ok_def same by blast
  moreover have "globals_ok s'"
    using ok inv same(6) unfolding server_ok_def globals_ok_def same by blast
  ultimately show ?thesis by (simp add: server_ok_def)
qed

lemma server_ok_inv:
  "server_ok h G s \<Longrightarrow> bq_inv (sv_request_queue s)" "server_ok h G s \<Longrightarrow> bq_inv (sv_auth_queue s)"
  "server_ok h G s \<Longrightarrow> bq_inv (sv_response_queue s)" "server_ok h G s \<Longrightarrow> valid_config (sv_runtime_config s)"
  by (simp_all add: server_ok_def globals_ok_def)

lemma server_ok_response: "server_ok h G s \<Longrightarrow> r \<in> set (q_data (sv_response_queue s)) \<Longrightarrow> response_ok G r"
  by (simp add: server_ok_def work_ok_def)

text \<open>New work of a connection that has room for it in its accounts.\<close>

lemma server_ok_push_request:
  assumes ok: "server_ok h G s" and c: "find_conn s (req_fd r) = Some c" "cn_conn_id c = req_conn_id r"
    and room: "count_list (work_keys h s) (req_key r) < cn_in_flight_work c"
    and good: "cn_authenticated c" "req_type r \<noteq> AUTH"
    and q: "bq_inv q" "q_data q = q_data (sv_request_queue s) @ [r]"
  shows "server_ok h G (s\<lparr>sv_request_queue := q\<rparr>)"
proof -
  let ?s = "s\<lparr>sv_request_queue := q\<rparr>"
  have w: "count_list (work_keys h ?s) k = count_list (work_keys h s) k + (if k = req_key r then 1 else 0)" for k
    by (simp add: work_keys_def all_requests_def all_tasks_def q)
  have a: "auth_keys h ?s = auth_keys h s" by (simp add: auth_keys_def all_tasks_def)
  have c': "conn_ok h G s (req_fd r) c" using server_ok_conn [OF ok c(1)] .
  have uniq: "fd = req_fd r \<and> c1 = c" if "find_conn s fd = Some c1" "(fd, cn_conn_id c1) = req_key r" for fd c1
    using that c by (simp add: req_key_def)
  have "conn_ok h G ?s fd c1" if "find_conn s fd = Some c1" for fd c1
    using server_ok_conn [OF ok that] uniq [OF that] room by (auto simp: conn_ok_def w a)
  then have conns: "conns_ok h G ?s" using ok by (simp add: server_ok_def conns_ok_def)
  have view: "request_ok ?s = request_ok s" "task_ok ?s = task_ok s" "all_tasks h ?s = all_tasks h s"
    "set (all_requests h ?s) = insert r (set (all_requests h s))"
    "set (work_keys h ?s) = insert (req_key r) (set (work_keys h s))"
    using items_ok_cong [of ?s s] by (auto simp: all_tasks_def all_requests_def work_keys_def q)
  have "request_ok s r" using c good by (simp add: request_ok_def open_conn_def req_key_def)
  moreover have "unat (snd (req_key r)) \<le> sv_accepted s" using c' c by (simp add: conn_ok_def req_key_def)
  ultimately show ?thesis
    using ok q conns by (simp add: server_ok_def work_ok_def globals_ok_def view)
qed

lemma server_ok_push_task:
  assumes ok: "server_ok h G s" and c: "find_conn s (req_fd (at_request t)) = Some c"
      "cn_conn_id c = req_conn_id (at_request t)"
    and room: "count_list (work_keys h s) (task_key t) < cn_in_flight_work c" "task_key t \<notin> set (auth_keys h s)"
    and good: "cn_auth_pending c" "cn_auth_cancellation c = Some (at_cancellation t)" "req_type (at_request t) = AUTH"
    and q: "bq_inv q" "q_data q = q_data (sv_auth_queue s) @ [t]"
  shows "server_ok h G (s\<lparr>sv_auth_queue := q\<rparr>)"
proof -
  let ?s = "s\<lparr>sv_auth_queue := q\<rparr>"
  have w: "count_list (work_keys h ?s) k = count_list (work_keys h s) k + (if k = task_key t then 1 else 0)" for k
    by (simp add: work_keys_def all_requests_def all_tasks_def q)
  have a: "count_list (auth_keys h ?s) k = count_list (auth_keys h s) k + (if k = task_key t then 1 else 0)" for k
    by (simp add: auth_keys_def all_tasks_def q)
  have c': "conn_ok h G s (req_fd (at_request t)) c" using server_ok_conn [OF ok c(1)] .
  have uniq: "fd = req_fd (at_request t) \<and> c1 = c"
    if "find_conn s fd = Some c1" "(fd, cn_conn_id c1) = task_key t" for fd c1
    using that c by (simp add: req_key_def)
  have zero: "count_list (auth_keys h s) (task_key t) = 0" using room(2) by (simp add: count_list_0_iff)
  have "conn_ok h G ?s fd c1" if "find_conn s fd = Some c1" for fd c1
    using server_ok_conn [OF ok that] uniq [OF that] room(1) zero good(1) by (auto simp: conn_ok_def w a)
  then have conns: "conns_ok h G ?s" using ok by (simp add: server_ok_def conns_ok_def)
  have view: "request_ok ?s = request_ok s" "task_ok ?s = task_ok s" "all_requests h ?s = all_requests h s"
    "set (all_tasks h ?s) = insert t (set (all_tasks h s))"
    "set (work_keys h ?s) = insert (task_key t) (set (work_keys h s))"
    using items_ok_cong [of ?s s] by (auto simp: all_tasks_def all_requests_def work_keys_def q)
  have "at_cancellation t < length (sv_cancellations s)"
    using ok c(1) good(2) unfolding server_ok_def globals_ok_def by blast
  then have "task_ok s t" using c good by (simp add: task_ok_def open_conn_def req_key_def)
  moreover have "unat (snd (task_key t)) \<le> sv_accepted s" using c' c by (simp add: conn_ok_def req_key_def)
  ultimately show ?thesis
    using ok q conns by (simp add: server_ok_def work_ok_def globals_ok_def view)
qed

section \<open>Applying a response\<close>

lemma core_views:
  "same_core s s' \<Longrightarrow> work_keys h s' = work_keys h s" "same_core s s' \<Longrightarrow> auth_keys h s' = auth_keys h s"
  by (simp_all add: same_core_def work_keys_def auth_keys_def all_requests_def all_tasks_def)

lemma same_core_put: "same_core s s' \<Longrightarrow> same_core (put_conn fd c s) (put_conn fd c s')"
  by (simp add: same_core_def put_conn_def)

lemma closeConnection_views [simp]:
  "work_keys h (closeConnection os fd s) = work_keys h s" "auth_keys h (closeConnection os fd s) = auth_keys h s"
proof -
  have "work_keys h (conn_removed fd c s) = work_keys h s" "auth_keys h (conn_removed fd c s) = auth_keys h s" for c
    by (simp_all add: conn_removed_def work_keys_def auth_keys_def all_requests_def all_tasks_def)
  then show "work_keys h (closeConnection os fd s) = work_keys h s"
    "auth_keys h (closeConnection os fd s) = auth_keys h s"
    by (cases "find_conn s fd";
        simp add: closeConnection_None core_views [OF closeConnection_core])+
qed

text \<open>
  What the first half of \<open>applyResponse\<close> makes of the response and the connection: the accounts are
  settled and the client is authenticated, or refused if it has too many connections.
\<close>

definition settled :: "Response \<Rightarrow> ResponseOrigin \<Rightarrow> Connection \<Rightarrow> Connection" where
  "settled r origin c =
     (let c1 = (if origin = Worker then c\<lparr>cn_in_flight_work := cn_in_flight_work c - 1\<rparr> else c)
      in if resp_type r = AUTH_RESP \<or> resp_close_connection r
         then c1\<lparr>cn_auth_pending := False, cn_auth_cancellation := None\<rparr> else c1)"

definition over_limit :: "TcpServer \<Rightarrow> int \<Rightarrow> string \<Rightarrow> bool" where
  "over_limit s fd client_id \<longleftrightarrow> countAuthenticatedConnectionsForClient s client_id fd
     \<ge> size_t_of_int (rc_max_connections_per_client (sv_runtime_config s))"

definition authenticated_by :: "TcpServer \<Rightarrow> Response \<Rightarrow> Connection \<Rightarrow> Connection" where
  "authenticated_by s r c =
     (case resp_client_id_to_authenticate r of
        None \<Rightarrow> c
      | Some client_id \<Rightarrow> if over_limit s (cn_fd c) client_id then c
                          else c\<lparr>cn_authenticated := True, cn_client_id := client_id\<rparr>)"

definition written_response :: "TcpServer \<Rightarrow> int \<Rightarrow> Response \<Rightarrow> Response" where
  \<open>written_response s fd r =
     (case resp_client_id_to_authenticate r of
        None \<Rightarrow> r
      | Some client_id \<Rightarrow>
          if over_limit s fd client_id
          then r\<lparr>resp_client_id_to_authenticate := None, resp_close_connection := True, resp_type := AUTH_RESP,
                 resp_payload := ''{"allowed":false,"reason":"max connections exceeded"}''\<rparr>
          else r)\<close>

lemma apply_authentication_eq:
  "\<exists>s2. apply_authentication r (sv_runtime_config s) c s = (written_response s (cn_fd c) r, authenticated_by s r c, s2) \<and>
     same_core s s2 \<and> sv_state s2 = sv_state s"
  by (auto simp: apply_authentication_def written_response_def authenticated_by_def over_limit_def split: option.splits)

lemma complete_work_eq:
  "origin = Worker \<longrightarrow> 0 < cn_in_flight_work c \<Longrightarrow>
   complete_work origin c s = (if origin = Worker then c\<lparr>cn_in_flight_work := cn_in_flight_work c - 1\<rparr> else c, s)"
  by (auto simp: complete_work_def)

text \<open>Then the response is appended to the output, or the connection is closed.\<close>

lemma applyResponse_cases:
  assumes c: "find_conn s (resp_fd r) = Some c" "cn_conn_id c = resp_conn_id r" "cn_fd c = resp_fd r"
    and pos: "origin = Worker \<longrightarrow> 0 < cn_in_flight_work c" and skip: "\<not> resp_skip_write r"
    and c3: "c3 = authenticated_by s r (settled r origin c)"
    and r1: "r1 = written_response s (resp_fd r) r"
    and pending: "pending = drop (cn_write_offset c) (cn_output_buffer c)"
  obtains (slow) s2 where "rc_slow_client_output_limit (sv_runtime_config s) < length pending + length (encode r1)"
      "same_core s s2" "sv_state s2 = sv_state s"
      "applyResponse os r origin s = closeConnection os (resp_fd r) (put_conn (resp_fd r) c3 s2)"
  | (queued) s2 c4 where "length pending + length (encode r1) \<le> rc_slow_client_output_limit (sv_runtime_config s)"
      "same_core s s2" "sv_state s2 = sv_state s"
      "c4 = c3\<lparr>cn_output_buffer := pending @ encode r1, cn_write_offset := 0,
               cn_closing := cn_closing c \<or> resp_close_connection r1\<rparr>"
      "applyResponse os r origin s = snd (modifyConnectionEvents os (resp_fd r)
         (connectionEvents (put_conn (resp_fd r) c4 s2) c4) (put_conn (resp_fd r) c4 s2))"
proof -
  have fd: "cn_fd (settled r origin c) = resp_fd r" using c by (simp add: settled_def Let_def)
  from apply_authentication_eq [of r s "settled r origin c"] obtain s2 where
    auth: "apply_authentication r (sv_runtime_config s) (settled r origin c) s = (r1, c3, s2)"
    and s2: "same_core s s2" "sv_state s2 = sv_state s" by (auto simp: fd c3 r1)
  have keep: "cn_output_buffer c3 = cn_output_buffer c" "cn_write_offset c3 = cn_write_offset c"
    "cn_closing c3 = cn_closing c"
    by (auto simp: c3 authenticated_by_def settled_def Let_def split: option.splits)
  have skip1: "\<not> resp_skip_write r1" using skip by (auto simp: r1 written_response_def split: option.splits)
  have apply_eq: "applyResponse os r origin s =
      (if rc_slow_client_output_limit (sv_runtime_config s) < length pending + length (encode r1)
       then closeConnection os (resp_fd r)
              (put_conn (resp_fd r) c3 (count_stat incrementSlowClientClosed (count_stat incrementErrors s2)))
       else let c4 = c3\<lparr>cn_output_buffer := pending @ encode r1, cn_write_offset := 0,
               cn_closing := cn_closing c \<or> resp_close_connection r1\<rparr>; s3 = put_conn (resp_fd r) c4 s2
            in snd (modifyConnectionEvents os (resp_fd r) (connectionEvents s3 c4) s3))"
    using c auth skip1 complete_work_eq [OF pos] unfolding applyResponse_def
    by (simp add: Let_def keep pending settled_def cong: if_cong split del: if_split)
  show thesis
  proof (cases "rc_slow_client_output_limit (sv_runtime_config s) < length pending + length (encode r1)")
    case True
    with apply_eq s2 show thesis
      by (intro slow [of "count_stat incrementSlowClientClosed (count_stat incrementErrors s2)"]) auto
  next
    case False
    with apply_eq s2 show thesis by (intro queued [of s2, OF _ _ _ refl]) (auto simp: Let_def)
  qed
qed

lemma authenticated_by_fields [simp]:
  "cn_fd (authenticated_by s r c) = cn_fd c" "cn_conn_id (authenticated_by s r c) = cn_conn_id c"
  "cn_output_buffer (authenticated_by s r c) = cn_output_buffer c"
  "cn_write_offset (authenticated_by s r c) = cn_write_offset c"
  "cn_auth_pending (authenticated_by s r c) = cn_auth_pending c"
  "cn_in_flight_work (authenticated_by s r c) = cn_in_flight_work c"
  "cn_auth_cancellation (authenticated_by s r c) = cn_auth_cancellation c"
  by (simp_all add: authenticated_by_def split: option.splits)

lemma settled_fields [simp]:
  "cn_fd (settled r origin c) = cn_fd c" "cn_conn_id (settled r origin c) = cn_conn_id c"
  "cn_output_buffer (settled r origin c) = cn_output_buffer c"
  "cn_write_offset (settled r origin c) = cn_write_offset c"
  "cn_authenticated (settled r origin c) = cn_authenticated c" "cn_client_id (settled r origin c) = cn_client_id c"
  "cn_in_flight_work (settled r origin c) = (if origin = Worker then cn_in_flight_work c - 1 else cn_in_flight_work c)"
  by (simp_all add: settled_def Let_def)

text \<open>The response of a worker has been counted: the connection has more work than the rest of it.\<close>

definition response_due :: "held \<Rightarrow> TcpServer \<Rightarrow> Response \<Rightarrow> ResponseOrigin \<Rightarrow> bool" where
  "response_due h s r origin \<longleftrightarrow>
     (\<forall>c. open_conn s (resp_key r) = Some c \<longrightarrow>
        (origin = Worker \<longrightarrow> count_list (work_keys h s) (resp_key r) < cn_in_flight_work c) \<and>
        (resp_type r = AUTH_RESP \<longrightarrow> resp_key r \<notin> set (auth_keys h s)))"

lemma settled_ok:
  assumes ok: "server_ok h G s" and r: "response_ok G r" and due: "response_due h s r origin"
    and c: "find_conn s (resp_fd r) = Some c" "cn_conn_id c = resp_conn_id r"
    and c': "cn_fd c' = cn_fd c3" "cn_conn_id c' = cn_conn_id c3" "cn_authenticated c' = cn_authenticated c3"
      "cn_client_id c' = cn_client_id c3" "cn_auth_pending c' = cn_auth_pending c3"
      "cn_in_flight_work c' = cn_in_flight_work c3" "cn_auth_cancellation c' = cn_auth_cancellation c3"
      "cn_write_offset c' \<le> length (cn_output_buffer c')"
      "length (cn_output_buffer c') - cn_write_offset c' \<le> OUTPUT_MAX"
    and c3: "c3 = authenticated_by s r (settled r origin c)"
  shows "server_ok h G (put_conn (resp_fd r) c' s)"
proof (rule server_ok_edit [OF ok c(1)])
  have cok: "conn_ok h G s (resp_fd r) c" using server_ok_conn [OF ok c(1)] .
  have closing: "resp_close_connection r \<longrightarrow> resp_type r = AUTH_RESP" using r by (simp add: response_ok_def)
  have key: "(resp_fd r, cn_conn_id c) = resp_key r" by (simp add: resp_key_def c)
  have pend: "cn_auth_pending c' = (cn_auth_pending c \<and> resp_type r \<noteq> AUTH_RESP)"
    using closing by (auto simp: c' c3 settled_def Let_def)
  have opened: "open_conn s (resp_key r) = Some c" using c by (simp add: open_conn_def resp_key_def)
  then have work: "count_list (work_keys h s) (resp_key r) \<le> cn_in_flight_work c'"
    using due cok by (auto simp: response_due_def c' c3 conn_ok_def key)
  have "resp_type r = AUTH_RESP \<longrightarrow> count_list (auth_keys h s) (resp_key r) = 0"
    using due opened by (simp add: response_due_def count_list_0_iff)
  then have auth: "count_list (auth_keys h s) (resp_key r) \<le> (if cn_auth_pending c' then 1 else 0)"
    using cok unfolding pend conn_ok_def key by (auto split: if_splits)
  have "cn_authenticated c' \<longrightarrow> (cn_conn_id c, cn_client_id c') \<in> G \<and> \<not> cn_auth_pending c'"
  proof (cases "authenticated_by s r (settled r origin c) = settled r origin c")
    case True
    with cok show ?thesis by (simp add: conn_ok_def pend) (simp add: c' c3)
  next
    case False
    with r show ?thesis
      by (auto simp: pend response_ok_def c(2)) (auto simp: c' c3 authenticated_by_def split: option.splits if_splits)
  qed
  with cok work auth show "conn_ok h G s (resp_fd r) c'"
    unfolding conn_ok_def using c' by (simp add: c3 key)
  show "cn_auth_cancellation c' = cn_auth_cancellation c \<or>
      (\<forall>a. cn_auth_cancellation c' = Some a \<longrightarrow> a < length (sv_cancellations s)) \<and>
      (resp_fd r, cn_conn_id c) \<notin> task_key ` set (all_tasks h s)"
  proof (cases "resp_type r = AUTH_RESP")
    case True
    with due opened have "resp_key r \<notin> task_key ` set (all_tasks h s)" by (simp add: response_due_def auth_keys_def)
    with True show ?thesis by (simp add: c' c3 c(2) resp_key_def settled_def Let_def)
  next
    case False
    with r have "\<not> resp_close_connection r" by (simp add: response_ok_def)
    with False show ?thesis by (simp add: c' c3 settled_def Let_def)
  qed
  show "cn_conn_id c' = cn_conn_id c" by (simp add: c' c3)
  show "cn_authenticated c \<longrightarrow> cn_authenticated c'"
    by (simp add: c'(3)) (simp add: c3 authenticated_by_def split: option.splits)
qed

lemma server_ok_apply:
  assumes ok: "server_ok h G s" and r: "response_ok G r" and due: "response_due h s r origin"
  shows "server_ok h G (applyResponse os r origin s)"
proof (cases "open_conn s (resp_key r)")
  case None
  then have "applyResponse os r origin s = count_stat incrementStaleResponseDropped s"
    by (auto simp: open_conn_def applyResponse_def Let_def resp_key_def split: option.splits if_splits)
  with ok show ?thesis by (simp add: server_ok_core)
next
  case (Some c)
  then have c: "find_conn s (resp_fd r) = Some c" "cn_conn_id c = resp_conn_id r"
    by (auto simp: open_conn_def resp_key_def split: option.splits if_splits)
  note cok = server_ok_conn [OF ok c(1)]
  then have fd: "cn_fd c = resp_fd r" by (simp add: conn_ok_def)
  have pos: "origin = Worker \<longrightarrow> 0 < cn_in_flight_work c" using due Some by (auto simp: response_due_def)
  note settled = settled_ok [OF ok r due c]
  have skip: "\<not> resp_skip_write r" using r by (simp add: response_ok_def)
  from c(1,2) fd pos skip refl refl refl show ?thesis
  proof (cases rule: applyResponse_cases [of s r c origin _ _ _ os])
    case (slow s2)
    have "server_ok h G (put_conn (resp_fd r) (authenticated_by s r (settled r origin c)) s)"
      by (rule settled) (use cok in \<open>auto simp: conn_ok_def\<close>)
    from server_ok_core [OF this same_core_put [OF slow(2)]] show ?thesis
      unfolding slow(4) by (rule server_ok_close)
  next
    case (queued s2 c4)
    have "rc_slow_client_output_limit (sv_runtime_config s) \<le> OUTPUT_MAX"
      using server_ok_inv(4) [OF ok] by (simp add: valid_config_def OUTPUT_MAX_def)
    with queued(1) have "server_ok h G (put_conn (resp_fd r) c4 s)"
      by (intro settled) (auto simp: queued(4))
    from server_ok_core [OF this same_core_put [OF queued(2)]] show ?thesis
      unfolding queued(5) by (rule server_ok_modify)
  qed
qed

end
