(* ===== verification/ServerAdmission.thy ===== *)
theory ServerAdmission
  imports ServerInvariant
begin

text \<open>
  The handlers of the reactor keep the invariant of the server: decoding and admission of requests,
  the events of a connection, the drains and the shutdown.
\<close>

section \<open>What the operations on connections leave alone\<close>

definition reactor_frame :: "TcpServer \<Rightarrow> TcpServer \<Rightarrow> bool" where
  "reactor_frame s s' \<longleftrightarrow>
     sv_request_queue s' = sv_request_queue s \<and> sv_auth_queue s' = sv_auth_queue s \<and>
     sv_response_queue s' = sv_response_queue s \<and> sv_accepted s' = sv_accepted s \<and>
     sv_next_conn_id s' = sv_next_conn_id s \<and> sv_runtime_config s' = sv_runtime_config s \<and>
     sv_state s' = sv_state s \<and> sv_rejected s' = sv_rejected s \<and> sv_notifier s' = sv_notifier s \<and>
     sv_stop_requested s' = sv_stop_requested s \<and>
     sv_signal_stop_requested s' = sv_signal_stop_requested s \<and>
     sv_response_producers_remaining s' = sv_response_producers_remaining s \<and>
     sv_listen_fd s' = sv_listen_fd s \<and> sv_epfd s' = sv_epfd s \<and>
     sv_auth_in_flight s' = sv_auth_in_flight s \<and> sv_started s' = sv_started s \<and>
     sv_shutdown_finished s' = sv_shutdown_finished s \<and> sv_instance s' = sv_instance s \<and>
     sv_shutdown_deadline s' = sv_shutdown_deadline s \<and> sv_shutdown_timeout s' = sv_shutdown_timeout s \<and>
     sv_control_plane s' = sv_control_plane s"

lemma reactor_frame_refl [simp]: "reactor_frame s s"
  by (simp add: reactor_frame_def)

lemma reactor_frame_trans: "reactor_frame s s' \<Longrightarrow> reactor_frame s' s'' \<Longrightarrow> reactor_frame s s''"
  by (simp add: reactor_frame_def)

lemma reactor_frame_simps [simp]:
  "reactor_frame s (count_stat f s') = reactor_frame s s'"
  "reactor_frame s (server_close fd s') = reactor_frame s s'"
  "reactor_frame s (snd (server_ctl os op fd ev s')) = reactor_frame s s'"
  "reactor_frame s (snd (server_now os s')) = reactor_frame s s'"
  "reactor_frame s (put_conn fd c s') = reactor_frame s s'"
  "reactor_frame s (s'\<lparr>sv_io := w\<rparr>) = reactor_frame s s'"
  "reactor_frame s (s'\<lparr>sv_connections := x0\<rparr>) = reactor_frame s s'"
  "reactor_frame s (s'\<lparr>sv_cancellations := x1\<rparr>) = reactor_frame s s'"
  "reactor_frame s (s'\<lparr>sv_rate_limit_windows := x2\<rparr>) = reactor_frame s s'"
  "reactor_frame s (s'\<lparr>sv_violation := x3\<rparr>) = reactor_frame s s'"
  by (simp_all add: reactor_frame_def count_stat_def server_close_def server_ctl_def server_now_def put_conn_def
      split: prod.splits)

lemma frame_ctl: "server_ctl os op fd ev s = (r, s') \<Longrightarrow> reactor_frame t s' = reactor_frame t s"
  using reactor_frame_simps(3) [of t os op fd ev s] by simp

lemma frame_close [simp]: "reactor_frame t (closeConnection os fd s) = reactor_frame t s"
  by (simp add: closeConnection_def Let_def split: option.split)

lemma frame_modify [simp]: "reactor_frame t (snd (modifyConnectionEvents os fd ev s)) = reactor_frame t s"
  by (auto simp: modifyConnectionEvents_def frame_ctl split: prod.split sysres.split)

lemma frame_maybeClose [simp]: "reactor_frame t (maybeCloseAfterDrain os fd s) = reactor_frame t s"
  by (simp add: maybeCloseAfterDrain_def split: option.split)

lemma frame_markReadEof [simp]: "reactor_frame t (markReadEof os fd s) = reactor_frame t s"
  by (simp add: markReadEof_def Let_def split: option.split)

lemma frame_apply [simp]: "reactor_frame t (applyResponse os r origin s) = reactor_frame t s"
proof -
  have "reactor_frame t (snd (snd (apply_authentication r cfg c s1))) = reactor_frame t s1" for cfg c s1
    by (simp add: apply_authentication_def split: option.split)
  moreover have "reactor_frame t (snd (complete_work origin c s)) = reactor_frame t s" for c
    by (simp add: complete_work_def)
  ultimately show ?thesis
    by (simp add: applyResponse_def Let_def case_prod_beta split: option.split)
qed

lemma frame_fold:
  "(\<And>x s. reactor_frame t (f x s) = reactor_frame t s) \<Longrightarrow> reactor_frame t (fold f xs s) = reactor_frame t s"
  by (induction xs arbitrary: s) auto

lemma frame_views:
  assumes "reactor_frame s s'"
  shows "work_keys h s' = work_keys h s" "auth_keys h s' = auth_keys h s" "all_tasks h s' = all_tasks h s"
    "all_requests h s' = all_requests h s" "sv_accepted s' = sv_accepted s"
  using assms by (simp_all add: reactor_frame_def work_keys_def auth_keys_def all_requests_def all_tasks_def)

section \<open>Admission\<close>

text \<open>A local answer that neither authenticates nor closes.\<close>

definition local_ok :: "ConnectionKey \<Rightarrow> Response \<Rightarrow> bool" where
  "local_ok k r \<longleftrightarrow> resp_key r = k \<and> \<not> resp_skip_write r \<and> \<not> resp_close_connection r \<and>
     resp_client_id_to_authenticate r = None \<and> resp_type r \<noteq> AUTH_RESP"

text \<open>
  What the admission loop has collected, against the connection it comes from: an authenticated
  connection has requests and local answers, another one has at most the task of its one
  authentication, which carries the cancellation flag of the connection.
\<close>

definition collected_ok :: "held \<Rightarrow> TcpServer \<Rightarrow> int \<Rightarrow> u64 \<Rightarrow> admitted \<Rightarrow> bool" where
  "collected_ok h s fd i acc \<longleftrightarrow> (\<exists>c. find_conn s fd = Some c \<and> cn_conn_id c = i \<and>
     (if cn_authenticated c
      then ad_auth_tasks acc = [] \<and> (\<forall>r\<in>set (ad_requests acc). req_key r = (fd, i) \<and> req_type r \<noteq> AUTH) \<and>
           (\<forall>r\<in>set (ad_local_responses acc). local_ok (fd, i) r)
      else ad_requests acc = [] \<and> ad_local_responses acc = [] \<and>
           (ad_auth_tasks acc = [] \<or>
            (\<exists>t. ad_auth_tasks acc = [t] \<and> task_key t = (fd, i) \<and> req_type (at_request t) = AUTH \<and>
               cn_auth_pending c \<and> cn_auth_cancellation c = Some (at_cancellation t) \<and>
               (fd, i) \<notin> set (auth_keys h s)))))"

lemma server_ok_new_flag:
  assumes ok: "server_ok h G s"
  shows "server_ok h G (s\<lparr>sv_cancellations := sv_cancellations s @ [False]\<rparr>)"
proof -
  let ?s = "s\<lparr>sv_cancellations := sv_cancellations s @ [False]\<rparr>"
  have view: "work_keys h ?s = work_keys h s" "all_tasks h ?s = all_tasks h s" "all_requests h ?s = all_requests h s"
    "conn_ok h G ?s = conn_ok h G s" "open_conn ?s = open_conn s"
    by (simp_all add: work_keys_def auth_keys_def all_requests_def all_tasks_def conn_ok_def open_conn_def fun_eq_iff)
  have "request_ok ?s = request_ok s" by (simp add: fun_eq_iff request_ok_def view)
  moreover have "task_ok ?s t" if "task_ok s t" for t
    using that by (auto simp: task_ok_def view nth_append split: option.splits)
  ultimately show ?thesis
    using ok unfolding server_ok_def conns_ok_def work_ok_def globals_ok_def by (auto simp: view less_Suc_eq)
qed

lemma allowRequest_core:
  "allowRequestForClient os client_id config s = (ok, s') \<Longrightarrow> same_core s s' \<and> reactor_frame s s'"
  by (auto simp: allowRequestForClient_def Let_def split: prod.splits)
    (use same_core_simps(4) [of s os s] reactor_frame_simps(4) [of s os s] in \<open>auto simp: server_now_def split: prod.splits\<close>)

lemma put_conn_commute:
  "(put_conn fd c s)\<lparr>sv_cancellations := xs\<rparr> = put_conn fd c (s\<lparr>sv_cancellations := xs\<rparr>)"
  by (simp add: put_conn_def)

lemma put_conn_again [simp]: "put_conn fd c' (put_conn fd c s) = put_conn fd c' s"
  by (simp add: put_conn_def)

text \<open>A connection that starts to authenticate, with a fresh cancellation flag.\<close>

lemma server_ok_start_auth:
  assumes ok: "server_ok h G s" and c: "find_conn s fd = Some c" "\<not> cn_authenticated c" "\<not> cn_auth_pending c"
  shows "(fd, cn_conn_id c) \<notin> set (auth_keys h s)" (is ?fresh)
    and "server_ok h G (put_conn fd (c\<lparr>cn_auth_pending := True, cn_auth_cancellation := Some (length (sv_cancellations s))\<rparr>)
           (s\<lparr>sv_cancellations := sv_cancellations s @ [False]\<rparr>))" (is "server_ok h G (put_conn fd ?c ?s)")
    and "server_ok h G (put_conn fd (c\<lparr>cn_auth_pending := True\<rparr>) (s\<lparr>sv_cancellations := sv_cancellations s @ [False]\<rparr>))"
proof -
  have cok: "conn_ok h G s fd c" using server_ok_conn [OF ok c(1)] .
  with c(3) show ?fresh by (simp add: conn_ok_def count_list_0_iff)
  then have fresh: "(fd, cn_conn_id c) \<notin> task_key ` set (all_tasks h s)"
    by (simp add: auth_keys_def)
  have view: "all_tasks h ?s = all_tasks h s" "conn_ok h G ?s = conn_ok h G s"
    by (simp_all add: conn_ok_def work_keys_def auth_keys_def all_tasks_def all_requests_def fun_eq_iff)
  have old: "find_conn ?s fd = Some c" using c by simp
  show "server_ok h G (put_conn fd ?c ?s)"
    by (rule server_ok_edit [OF server_ok_new_flag [OF ok] old])
      (use cok c fresh in \<open>auto simp: view, auto simp: conn_ok_def\<close>)
  show "server_ok h G (put_conn fd (c\<lparr>cn_auth_pending := True\<rparr>) ?s)"
    by (rule server_ok_edit [OF server_ok_new_flag [OF ok] old])
      (use cok c fresh in \<open>auto simp: view, auto simp: conn_ok_def\<close>)
qed

lemma already_authenticated_local:
  "local_ok (cn_fd c, cn_conn_id c) (already_authenticated_response c request)"
  "local_ok (cn_fd c, cn_conn_id c) (rate_limited_response c request)"
  by (simp_all add: local_ok_def already_authenticated_response_def rate_limited_response_def resp_key_def
      message_types AUTH_RESP_def)

lemma frame_admit: "admit_requests os config fd rs acc s = (refused, acc', s') \<Longrightarrow> reactor_frame s s'"
proof (induction rs arbitrary: acc s)
  case (Cons r rs)
  from Cons.prems show ?case
    by (auto simp: Let_def split: option.splits if_splits prod.splits bool.splits
        dest!: Cons.IH allowRequest_core elim!: reactor_frame_trans [rotated])
qed simp

lemma admit_requests_ok:
  assumes "server_ok h G s" and "collected_ok h s fd i acc" and "\<forall>r\<in>set rs. req_key r = (fd, i)"
    and "admit_requests os config fd rs acc s = (refused, acc', s')"
  shows "server_ok h G s' \<and> (\<not> refused \<longrightarrow> collected_ok h s' fd i acc')"
  using assms
proof (induction rs arbitrary: acc s)
  case Nil
  then show ?case by simp
next
  case (Cons r rs)
  from Cons.prems(2) obtain c where c: "find_conn s fd = Some c" "cn_conn_id c = i"
    by (auto simp: collected_ok_def)
  from Cons.prems(2) c have col: "if cn_authenticated c
      then ad_auth_tasks acc = [] \<and> (\<forall>r\<in>set (ad_requests acc). req_key r = (fd, i) \<and> req_type r \<noteq> AUTH) \<and>
           (\<forall>r\<in>set (ad_local_responses acc). local_ok (fd, i) r)
      else ad_requests acc = [] \<and> ad_local_responses acc = [] \<and>
           (ad_auth_tasks acc = [] \<or> (\<exists>t. ad_auth_tasks acc = [t] \<and> cn_auth_pending c))"
    by (auto simp: collected_ok_def split: if_splits)
  have ok: "server_ok h G s" and key: "req_key r = (fd, i)" "\<forall>r\<in>set rs. req_key r = (fd, i)"
    using Cons.prems by auto
  have fd: "cn_fd c = fd" using server_ok_conn [OF ok c(1)] by (simp add: conn_ok_def)
  note run = Cons.prems(4)
  consider (large) "length (req_payload r) + 10 > size_t_of_int (rc_max_payload_size config)"
    | (refuse) "\<not> length (req_payload r) + 10 > size_t_of_int (rc_max_payload_size config)"
        "\<not> cn_authenticated c" "req_type r \<noteq> AUTH \<or> cn_auth_pending c"
    | (auth) "\<not> length (req_payload r) + 10 > size_t_of_int (rc_max_payload_size config)"
        "\<not> cn_authenticated c" "req_type r = AUTH" "\<not> cn_auth_pending c"
    | (again) "\<not> length (req_payload r) + 10 > size_t_of_int (rc_max_payload_size config)"
        "cn_authenticated c" "req_type r = AUTH"
    | (work) "\<not> length (req_payload r) + 10 > size_t_of_int (rc_max_payload_size config)"
        "cn_authenticated c" "req_type r \<noteq> AUTH"
    by blast
  then show ?case
  proof cases
    case large
    with run c ok show ?thesis by (auto simp: server_ok_core)
  next
    case refuse
    with run c ok show ?thesis by (auto simp: server_ok_core)
  next
    case auth
    let ?s = "put_conn fd (c\<lparr>cn_auth_pending := True, cn_auth_cancellation := Some (length (sv_cancellations s))\<rparr>)
           (s\<lparr>sv_cancellations := sv_cancellations s @ [False]\<rparr>)"
    let ?t = "\<lparr>at_request = r, at_cancellation = length (sv_cancellations s)\<rparr>"
    note start = server_ok_start_auth [OF ok c(1) auth(2,4)]
    have run': "admit_requests os config fd rs (acc\<lparr>ad_auth_tasks := ad_auth_tasks acc @ [?t]\<rparr>) ?s = (refused, acc', s')"
      using run c auth by (simp add: Let_def makeAuthTask_def put_conn_commute)
    have "auth_keys h ?s = auth_keys h s" by (rule frame_views) simp
    with start(1) auth col key c have "collected_ok h ?s fd i (acc\<lparr>ad_auth_tasks := ad_auth_tasks acc @ [?t]\<rparr>)"
      by (simp add: collected_ok_def)
    from Cons.IH [OF start(2) this key(2) run'] show ?thesis .
  next
    case again
    let ?acc = "acc\<lparr>ad_local_responses := ad_local_responses acc @ [already_authenticated_response c r]\<rparr>"
    have "admit_requests os config fd rs ?acc s = (refused, acc', s')" using run c again by simp
    moreover have "collected_ok h s fd i ?acc"
      using again col c fd already_authenticated_local(1) [of c r] by (simp add: collected_ok_def)
    ultimately show ?thesis using Cons.IH [OF ok _ key(2)] by blast
  next
    case work
    obtain allowed s1 where allow: "allowRequestForClient os (cn_client_id c) config s = (allowed, s1)"
      by (cases "allowRequestForClient os (cn_client_id c) config s")
    from allowRequest_core [OF allow] have s1: "same_core s s1" "reactor_frame s s1" by auto
    then have find: "find_conn s1 fd = Some c" using c by (simp add: same_core_def)
    let ?more = "acc\<lparr>ad_requests := ad_requests acc @ [r]\<rparr>"
    let ?less = "acc\<lparr>ad_local_responses := ad_local_responses acc @ [rate_limited_response c r]\<rparr>"
    have run': "admit_requests os config fd rs (if allowed then ?more else ?less)
        (if allowed then s1 else count_stat incrementErrors s1) = (refused, acc', s')"
      using run c work allow by (auto split: bool.splits)
    have "collected_ok h (if allowed then s1 else count_stat incrementErrors s1) fd i (if allowed then ?more else ?less)"
      using work col c fd find key already_authenticated_local(2) [of c r] by (simp add: collected_ok_def)
    moreover have "server_ok h G (if allowed then s1 else count_stat incrementErrors s1)"
      using ok s1(1) by (simp add: server_ok_core)
    ultimately show ?thesis using Cons.IH [OF _ _ key(2) run'] by blast
  qed
qed

section \<open>Admission to the queues\<close>

text \<open>The handlers of a connection may only add work to the two admission queues.\<close>

definition handler_frame :: "TcpServer \<Rightarrow> TcpServer \<Rightarrow> bool" where
  "handler_frame s s' \<longleftrightarrow>
     reactor_frame s (s'\<lparr>sv_request_queue := sv_request_queue s, sv_auth_queue := sv_auth_queue s\<rparr>) \<and>
     q_stopped (sv_request_queue s') = q_stopped (sv_request_queue s) \<and>
     q_stopped (sv_auth_queue s') = q_stopped (sv_auth_queue s)"

lemma handler_frame_trans: "handler_frame s s' \<Longrightarrow> handler_frame s' s'' \<Longrightarrow> handler_frame s s''"
  by (simp add: handler_frame_def reactor_frame_def)

lemma handler_frame_reactor: "reactor_frame s s' \<Longrightarrow> handler_frame s s'"
  by (simp add: handler_frame_def reactor_frame_def)

lemma handler_frame_push:
  "bq_push r (sv_request_queue s) = (x, q) \<Longrightarrow> handler_frame s (s\<lparr>sv_request_queue := q\<rparr>)"
  "bq_push t (sv_auth_queue s) = (y, q') \<Longrightarrow> handler_frame s (s\<lparr>sv_auth_queue := q'\<rparr>)"
  using bq.push_frame(2) [of r "sv_request_queue s"] bq.push_frame(2) [of t "sv_auth_queue s"]
  by (auto simp: handler_frame_def reactor_frame_def)

lemma frame_work_admitted [simp]: "reactor_frame t (work_admitted fd i s) = reactor_frame t s"
  by (simp add: work_admitted_def split: option.split)

lemma push_result:
  assumes "bq_push x q = (res, q')" and "bq_inv q"
  shows "bq_inv q'" "res = PushResult_OK \<Longrightarrow> q_data q' = q_data q @ [x]" "res \<noteq> PushResult_OK \<Longrightarrow> q' = q"
  using assms bq.invar_push [OF assms(2), of x] bq.push_contents [of x q] by (auto simp: bq_push_def Let_def split: if_splits)

text \<open>One more item in the accounts of its connection, together with the item.\<close>

lemma server_ok_count:
  assumes "server_ok h G s" and c: "find_conn s fd = Some c"
  shows "server_ok h G (put_conn fd (c\<lparr>cn_in_flight_work := cn_in_flight_work c + 1\<rparr>) s)"
  by (rule server_ok_edit [OF assms]) (use server_ok_conn [OF assms] in \<open>auto simp: conn_ok_def\<close>)

lemma work_admitted_eq:
  "find_conn s fd = Some c \<Longrightarrow>
   work_admitted fd (cn_conn_id c) s = put_conn fd (c\<lparr>cn_in_flight_work := cn_in_flight_work c + 1\<rparr>) s"
  by (simp add: work_admitted_def)

lemma server_ok_admit_task:
  assumes ok: "server_ok h G s" and c: "find_conn s fd = Some c" "task_key t = (fd, cn_conn_id c)"
    and t: "req_type (at_request t) = AUTH" "cn_auth_pending c" "cn_auth_cancellation c = Some (at_cancellation t)"
      "(fd, cn_conn_id c) \<notin> set (auth_keys h s)"
    and push: "bq_push t (sv_auth_queue s) = (PushResult_OK, q)"
  shows "server_ok h G (work_admitted fd (cn_conn_id c) (s\<lparr>sv_auth_queue := q\<rparr>))"
proof -
  let ?c = "c\<lparr>cn_in_flight_work := cn_in_flight_work c + 1\<rparr>"
  have fd: "fd = req_fd (at_request t)" "cn_conn_id c = req_conn_id (at_request t)" using c by (simp_all add: req_key_def)
  have "server_ok h G ((put_conn fd ?c s)\<lparr>sv_auth_queue := q\<rparr>)"
  proof (rule server_ok_push_task [OF server_ok_count [OF ok c(1)]])
    show "find_conn (put_conn fd ?c s) (req_fd (at_request t)) = Some ?c" by (simp add: fd)
    show "count_list (work_keys h (put_conn fd ?c s)) (task_key t) < cn_in_flight_work ?c"
      using server_ok_conn [OF ok c(1)] by (simp add: c conn_ok_def)
    show "q_data q = q_data (sv_auth_queue (put_conn fd ?c s)) @ [t]" "bq_inv q"
      using push_result [OF push server_ok_inv(2) [OF ok]] by simp_all
  qed (use c t fd in simp_all)
  moreover have "(put_conn fd ?c s)\<lparr>sv_auth_queue := q\<rparr> = work_admitted fd (cn_conn_id c) (s\<lparr>sv_auth_queue := q\<rparr>)"
    using c by (simp add: work_admitted_def put_conn_def)
  ultimately show ?thesis by simp
qed

lemma server_ok_admit_request:
  assumes ok: "server_ok h G s" and c: "find_conn s fd = Some c" "req_key r = (fd, cn_conn_id c)"
    and r: "req_type r \<noteq> AUTH" "cn_authenticated c" and push: "bq_push r (sv_request_queue s) = (PushResult_OK, q)"
  shows "server_ok h G (work_admitted fd (cn_conn_id c) (s\<lparr>sv_request_queue := q\<rparr>))"
proof -
  let ?c = "c\<lparr>cn_in_flight_work := cn_in_flight_work c + 1\<rparr>"
  have fd: "fd = req_fd r" "cn_conn_id c = req_conn_id r" using c by (simp_all add: req_key_def)
  have "server_ok h G ((put_conn fd ?c s)\<lparr>sv_request_queue := q\<rparr>)"
  proof (rule server_ok_push_request [OF server_ok_count [OF ok c(1)]])
    show "find_conn (put_conn fd ?c s) (req_fd r) = Some ?c" by (simp add: fd)
    show "count_list (work_keys h (put_conn fd ?c s)) (req_key r) < cn_in_flight_work ?c"
      using server_ok_conn [OF ok c(1)] by (simp add: c conn_ok_def)
    show "q_data q = q_data (sv_request_queue (put_conn fd ?c s)) @ [r]" "bq_inv q"
      using push_result [OF push server_ok_inv(1) [OF ok]] by simp_all
  qed (use c r fd in simp_all)
  moreover have "(put_conn fd ?c s)\<lparr>sv_request_queue := q\<rparr> = work_admitted fd (cn_conn_id c) (s\<lparr>sv_request_queue := q\<rparr>)"
    using c by (simp add: work_admitted_def put_conn_def)
  ultimately show ?thesis by simp
qed

lemma enqueue_requests_ok:
  assumes "server_ok h G s" and "find_conn s fd = Some c" "cn_authenticated c"
    and "\<forall>r\<in>set rs. req_key r = (fd, cn_conn_id c) \<and> req_type r \<noteq> AUTH"
    and "\<forall>r\<in>set resps. local_ok (fd, cn_conn_id c) r"
    and "enqueue_requests rs resps s = (resps', s')"
  shows "server_ok h G s' \<and> (\<forall>r\<in>set resps'. local_ok (fd, cn_conn_id c) r)"
  using assms
proof (induction rs arbitrary: resps s c)
  case Nil
  then show ?case by simp
next
  case (Cons r rs)
  obtain res q where push: "bq_push r (sv_request_queue s) = (res, q)" by (cases "bq_push r (sv_request_queue s)")
  have key: "req_key r = (fd, cn_conn_id c)" "req_type r \<noteq> AUTH" using Cons.prems by auto
  show ?case
  proof (cases "res = PushResult_OK")
    case True
    let ?s = "work_admitted fd (cn_conn_id c) (s\<lparr>sv_request_queue := q\<rparr>)"
    let ?c = "c\<lparr>cn_in_flight_work := cn_in_flight_work c + 1\<rparr>"
    have run: "enqueue_requests rs resps ?s = (resps', s')"
      using Cons.prems(6) push True key by (simp add: req_key_def)
    have "find_conn ?s fd = Some ?c" using Cons.prems(2) by (simp add: work_admitted_def)
    from Cons.IH [OF server_ok_admit_request [OF Cons.prems(1,2) key Cons.prems(3) push [unfolded True]] this _ _ _ run]
      Cons.prems(3-5)
    show ?thesis by simp
  next
    case False
    let ?s = "count_stat incrementRequestQueueRejected (count_stat incrementErrors (s\<lparr>sv_request_queue := q\<rparr>))"
    have q: "q = sv_request_queue s" using push_result(3) [OF push server_ok_inv(1) [OF Cons.prems(1)] False] .
    have run: "enqueue_requests rs (resps @ [makeOverloadResponse r False]) ?s = (resps', s')"
      using Cons.prems(6) push False by (cases res) simp_all
    have "local_ok (fd, cn_conn_id c) (makeOverloadResponse r False)"
      using key by (simp add: local_ok_def makeOverloadResponse_def resp_key_def req_key_def response_to_def
          message_types AUTH_RESP_def)
    then have "\<forall>r\<in>set (resps @ [makeOverloadResponse r False]). local_ok (fd, cn_conn_id c) r"
      using Cons.prems(5) by simp
    moreover have "server_ok h G ?s" using Cons.prems(1) by (simp add: q server_ok_core)
    moreover have "find_conn ?s fd = Some c" using Cons.prems(2) by simp
    ultimately show ?thesis using Cons.IH [OF _ _ Cons.prems(3) _ _ run] Cons.prems(4) by simp
  qed
qed

text \<open>The local answers, the closing one included, can be applied.\<close>

lemma local_response_ok: "local_ok k r \<Longrightarrow> response_ok G r"
  by (simp add: local_ok_def response_ok_def)

lemma auth_overload_ok:
  "response_ok G (auth_overload_response r)" "resp_key (auth_overload_response r) = req_key r"
  by (simp_all add: response_ok_def auth_overload_response_def makeOverloadResponse_def resp_key_def req_key_def
      response_to_def)

lemma server_ok_apply_locals:
  assumes "server_ok h G s"
    and "\<forall>r\<in>set rs. response_ok G r \<and> (resp_type r = AUTH_RESP \<longrightarrow> resp_key r \<notin> set (auth_keys h s))"
  shows "server_ok h G (fold (\<lambda>r. applyResponse os r Local) rs s)"
  using assms
proof (induction rs arbitrary: s)
  case (Cons r rs)
  have "auth_keys h (applyResponse os r Local s) = auth_keys h s" by (rule frame_views) simp
  moreover have "server_ok h G (applyResponse os r Local s)"
    using Cons.prems by (intro server_ok_apply) (auto simp: response_due_def)
  ultimately show ?case using Cons by simp
qed simp

lemma decode_requests:
  assumes "decode buf fd [] i m = (st, rest, rs)"
  shows "\<forall>r\<in>set rs. req_key r = (fd, i)"
  using assms unfolding decode_iff by (auto simp: from_peer_def req_key_def)

lemma enqueue_ok:
  assumes ok: "server_ok h G s" and col: "collected_ok h s fd i acc"
    and auth: "enqueue_auth_tasks (ad_auth_tasks acc) (ad_local_responses acc) s = (resps1, s1)"
    and reqs: "enqueue_requests (ad_requests acc) resps1 s1 = (resps2, s2)"
  shows "server_ok h G (fold (\<lambda>r. applyResponse os r Local) resps2 s2)"
proof -
  from col obtain c where c: "find_conn s fd = Some c" "cn_conn_id c = i" by (auto simp: collected_ok_def)
  show ?thesis
  proof (cases "cn_authenticated c")
    case True
    with col c auth have s1: "resps1 = ad_local_responses acc" "s1 = s"
      by (auto simp: collected_ok_def)
    from enqueue_requests_ok [OF ok c(1) True _ _ reqs [unfolded s1]] col c True
    have "server_ok h G s2" "\<forall>r\<in>set resps2. local_ok (fd, i) r"
      by (auto simp: collected_ok_def)
    then show ?thesis
      by (auto intro!: server_ok_apply_locals simp: local_ok_def response_ok_def)
  next
    case False
    with col c have reqs0: "ad_requests acc = []" "ad_local_responses acc = []" by (auto simp: collected_ok_def)
    with reqs have s2: "resps2 = resps1" "s2 = s1" by auto
    show ?thesis
    proof (cases "ad_auth_tasks acc")
      case Nil
      with auth s2 reqs0 ok show ?thesis by simp
    next
      case (Cons t ts)
      with col c False have t: "ad_auth_tasks acc = [t]" "task_key t = (fd, i)" "req_type (at_request t) = AUTH"
        "cn_auth_pending c" "cn_auth_cancellation c = Some (at_cancellation t)" "(fd, i) \<notin> set (auth_keys h s)"
        by (auto simp: collected_ok_def)
      obtain res q where push: "bq_push t (sv_auth_queue s) = (res, q)" by (cases "bq_push t (sv_auth_queue s)")
      show ?thesis
      proof (cases "res = PushResult_OK")
        case True
        with auth t push reqs0 have "resps1 = []" "s1 = work_admitted fd (cn_conn_id c) (s\<lparr>sv_auth_queue := q\<rparr>)"
          by (auto simp: req_key_def c(2))
        then show ?thesis
          using server_ok_admit_task [OF ok c(1) _ t(3,4,5) _ push [unfolded True]] t c by (simp add: s2)
      next
        case False
        have q: "q = sv_auth_queue s" using push_result(3) [OF push server_ok_inv(2) [OF ok] False] .
        from False auth t push reqs0 have s1: "resps1 = [auth_overload_response (at_request t)]"
          "s1 = count_stat (recordAuthResult Unavailable 0) (count_stat incrementAuthQueueRejected
             (count_stat incrementErrors (s\<lparr>sv_auth_queue := q\<rparr>)))"
          by (cases res; simp)+
        have s1_ok: "server_ok h G s1" "reactor_frame s s1" using ok by (simp_all add: s1(2) q server_ok_core)
        have "server_ok h G (applyResponse os (auth_overload_response (at_request t)) Local s1)"
          using s1_ok t by (intro server_ok_apply) (simp_all add: auth_overload_ok response_due_def frame_views)
        then show ?thesis by (simp add: s2 s1(1))
      qed
    qed
  qed
qed

lemma decodeAndEnqueue_cases:
  assumes "find_conn s fd = Some c"
  obtains st rest rs s1 s2 refused acc s3 resps1 s4 resps2 s5
  where "decode (cn_input_buffer c) (cn_fd c) [] (cn_conn_id c)
        (of_int (rc_max_payload_size (sv_runtime_config s))) = (st, rest, rs)"
    and "s1 = put_conn fd (c\<lparr>cn_input_buffer :=
        (if st \<noteq> INVALID_LENGTH \<and> (eof \<or> cn_read_eof c) \<and> st = NEED_MORE_DATA then [] else rest)\<rparr>) s"
    and "s2 = (if st = INVALID_LENGTH then count_stat incrementErrors s1 else s1)"
    and "admit_requests os (sv_runtime_config s) fd rs admitted_none s2 = (refused, acc, s3)"
    and "enqueue_auth_tasks (ad_auth_tasks acc) (ad_local_responses acc) s3 = (resps1, s4)"
    and "enqueue_requests (ad_requests acc) resps1 s4 = (resps2, s5)"
    and "decodeAndEnqueue os fd eof s =
      (if st = INVALID_LENGTH \<or> refused then (False, closeConnection os fd s3)
       else (True, fold (\<lambda>r. applyResponse os r Local) resps2 s5))"
proof -
  obtain st rest rs where dec: "decode (cn_input_buffer c) (cn_fd c) [] (cn_conn_id c)
      (of_int (rc_max_payload_size (sv_runtime_config s))) = (st, rest, rs)" by (rule prod_cases3)
  define s1 where "s1 = put_conn fd (c\<lparr>cn_input_buffer :=
     (if st \<noteq> INVALID_LENGTH \<and> (eof \<or> cn_read_eof c) \<and> st = NEED_MORE_DATA then [] else rest)\<rparr>) s"
  define s2 where "s2 = (if st = INVALID_LENGTH then count_stat incrementErrors s1 else s1)"
  obtain refused acc s3 where adm: "admit_requests os (sv_runtime_config s) fd rs admitted_none s2 = (refused, acc, s3)"
    by (rule prod_cases3)
  obtain resps1 s4 where auth: "enqueue_auth_tasks (ad_auth_tasks acc) (ad_local_responses acc) s3 = (resps1, s4)"
    by (rule prod.exhaust)
  obtain resps2 s5 where reqs: "enqueue_requests (ad_requests acc) resps1 s4 = (resps2, s5)" by (rule prod.exhaust)
  have "decodeAndEnqueue os fd eof s =
      (if st = INVALID_LENGTH \<or> refused then (False, closeConnection os fd s3)
       else (True, fold (\<lambda>r. applyResponse os r Local) resps2 s5))"
    using assms dec adm auth reqs unfolding s1_def s2_def
    by (simp add: decodeAndEnqueue_def Let_def cong: if_cong split del: if_split)
  from that [OF dec s1_def s2_def adm auth reqs this] show thesis .
qed

lemma server_ok_decodeAndEnqueue:
  assumes ok: "server_ok h G s"
  shows "server_ok h G (snd (decodeAndEnqueue os fd eof s))"
proof (cases "find_conn s fd")
  case None
  with ok show ?thesis by (simp add: decodeAndEnqueue_def Let_def)
next
  case (Some c)
  have cok: "conn_ok h G s fd c" using server_ok_conn [OF ok Some] .
  from Some show ?thesis
  proof (cases rule: decodeAndEnqueue_cases [where os = os and eof = eof])
    case (1 st rest rs s1 s2 refused acc s3 resps1 s4 resps2 s5)
    have "server_ok h G s1" unfolding 1(2)
      by (rule server_ok_edit_plain [OF ok Some]) (use cok in \<open>auto simp: conn_ok_def\<close>)
    then have ok2: "server_ok h G s2" by (simp add: 1(3) server_ok_core)
    have "collected_ok h s2 fd (cn_conn_id c) admitted_none"
      by (simp add: collected_ok_def 1(2,3) admitted_none_def)
    moreover have "\<forall>r\<in>set rs. req_key r = (fd, cn_conn_id c)"
      using decode_requests [OF 1(1)] cok by (simp add: conn_ok_def)
    ultimately have 3: "server_ok h G s3" "\<not> refused \<longrightarrow> collected_ok h s3 fd (cn_conn_id c) acc"
      using admit_requests_ok [OF ok2 _ _ 1(4)] by blast+
    show ?thesis
    proof (cases "st = INVALID_LENGTH \<or> refused")
      case True
      then show ?thesis using 3(1) by (auto simp: 1(7) server_ok_close)
    next
      case False
      with 3(2) have "collected_ok h s3 fd (cn_conn_id c) acc" by simp
      from enqueue_ok [OF 3(1) this 1(5,6), of os] False show ?thesis by (simp add: 1(7))
    qed
  qed
qed

lemma frame_enqueue_auth: "enqueue_auth_tasks ts resps s = (resps', s') \<Longrightarrow> handler_frame s s'"
proof (induction ts arbitrary: resps s)
  case (Cons t ts)
  obtain res q where push: "bq_push t (sv_auth_queue s) = (res, q)" by (rule prod.exhaust)
  let ?s = "s\<lparr>sv_auth_queue := q\<rparr>"
  obtain resps1 s1 where run: "enqueue_auth_tasks ts resps1 s1 = (resps', s')" and s1: "reactor_frame ?s s1"
    using Cons.prems push by (cases res) (auto simp: Let_def)
  from handler_frame_push(2) [OF push] handler_frame_reactor [OF s1] Cons.IH [OF run] show ?case
    by (blast intro: handler_frame_trans)
qed (simp add: handler_frame_reactor)

lemma frame_enqueue_requests: "enqueue_requests rs resps s = (resps', s') \<Longrightarrow> handler_frame s s'"
proof (induction rs arbitrary: resps s)
  case (Cons r rs)
  obtain res q where push: "bq_push r (sv_request_queue s) = (res, q)" by (rule prod.exhaust)
  let ?s = "s\<lparr>sv_request_queue := q\<rparr>"
  obtain resps1 s1 where run: "enqueue_requests rs resps1 s1 = (resps', s')" and s1: "reactor_frame ?s s1"
    using Cons.prems push by (cases res) auto
  from handler_frame_push(1) [OF push] handler_frame_reactor [OF s1] Cons.IH [OF run] show ?case
    by (blast intro: handler_frame_trans)
qed (simp add: handler_frame_reactor)

lemma frame_decodeAndEnqueue: "handler_frame s (snd (decodeAndEnqueue os fd eof s))"
proof (cases "find_conn s fd")
  case (Some c)
  then show ?thesis
  proof (cases rule: decodeAndEnqueue_cases [where os = os and eof = eof])
    case (1 st rest rs s1 s2 refused acc s3 resps1 s4 resps2 s5)
    have "reactor_frame s s2" by (simp add: 1(2,3))
    then have 3: "handler_frame s s3"
      using frame_admit [OF 1(4)] by (blast intro: handler_frame_reactor reactor_frame_trans)
    have "handler_frame s s5"
      using 3 frame_enqueue_auth [OF 1(5)] frame_enqueue_requests [OF 1(6)] by (blast intro: handler_frame_trans)
    moreover have "reactor_frame s5 (fold (\<lambda>r. applyResponse os r Local) resps2 s5)" by (subst frame_fold) simp_all
    moreover have "handler_frame s3 (closeConnection os fd s3)" by (simp add: handler_frame_reactor)
    ultimately show ?thesis
      using handler_frame_trans [OF 3] by (auto simp: 1(7) intro: handler_frame_trans handler_frame_reactor)
  qed
qed (simp add: decodeAndEnqueue_def Let_def handler_frame_reactor)

end
