(* ===== verification/ServerHandlers.thy ===== *)
theory ServerHandlers
  imports ServerAdmission
begin

text \<open>
  The invariant under the events of the reactor: accepting, reading and writing, taking responses,
  draining and shutting down, up to a whole step of the reactor; and under the work of the other
  threads.
\<close>

section \<open>Accepting\<close>

definition event_frame :: "TcpServer \<Rightarrow> TcpServer \<Rightarrow> bool" where
  "event_frame s s' \<longleftrightarrow> sv_accepted s \<le> sv_accepted s' \<and>
     handler_frame s (s'\<lparr>sv_accepted := sv_accepted s, sv_next_conn_id := sv_next_conn_id s\<rparr>)"

lemma event_frame_trans: "event_frame s s' \<Longrightarrow> event_frame s' s'' \<Longrightarrow> event_frame s s''"
  by (simp add: event_frame_def handler_frame_def reactor_frame_def)

lemma event_frame_handler: "handler_frame s s' \<Longrightarrow> event_frame s s'"
  by (simp add: event_frame_def handler_frame_def reactor_frame_def)

lemma event_frame_refl [simp]: "event_frame s s"
  by (simp add: event_frame_handler handler_frame_reactor)

lemma server_ok_new_conn:
  assumes ok: "server_ok h G s" and new: "find_conn s fd = None" and i: "unat i \<le> sv_accepted s"
    and fresh: "\<And>fd' c. find_conn s fd' = Some c \<Longrightarrow> cn_conn_id c \<noteq> i" "\<And>k. k \<in> set (work_keys h s) \<Longrightarrow> snd k \<noteq> i"
  shows "server_ok h G (s\<lparr>sv_connections := sv_connections s @ [(fd, Connection_new fd i)]\<rparr>)"
proof -
  define t where "t = s\<lparr>sv_connections := sv_connections s @ [(fd, Connection_new fd i)]\<rparr>"
  have find: "find_conn t fd' = (if fd' = fd then Some (Connection_new fd i) else find_conn s fd')" for fd'
    using new by (auto simp: t_def map_add_def split: option.splits)
  have view: "work_keys h t = work_keys h s" "auth_keys h t = auth_keys h s" "all_tasks h t = all_tasks h s"
    "all_requests h t = all_requests h s" "conn_ok h G t = conn_ok h G s"
    "sv_accepted t = sv_accepted s" "sv_response_queue t = sv_response_queue s"
    "sv_cancellations t = sv_cancellations s"
    by (simp_all add: t_def work_keys_def auth_keys_def all_requests_def all_tasks_def conn_ok_def fun_eq_iff)
  have "count_list (work_keys h s) (fd, i) = 0" using fresh(2) by (force simp: count_list_0_iff)
  moreover from this have "count_list (auth_keys h s) (fd, i) = 0"
    using count_auth_le_work [of h s "(fd, i)"] by simp
  ultimately have conn: "conn_ok h G s fd (Connection_new fd i)"
    using i by (simp add: conn_ok_def Connection_new_def)
  have "fd \<notin> fst ` set (sv_connections s)" using new by (simp add: map_of_eq_None_iff)
  then have "distinct (map fst (sv_connections t))"
    using ok by (simp add: t_def server_ok_def conns_ok_def)
  moreover have "\<forall>fd' c. find_conn t fd' = Some c \<longrightarrow> conn_ok h G t fd' c"
    using ok conn unfolding view by (simp add: find server_ok_def conns_ok_def)
  moreover have "\<forall>fd1 c1 fd2 c2. find_conn t fd1 = Some c1 \<longrightarrow> find_conn t fd2 = Some c2 \<longrightarrow>
      cn_conn_id c1 = cn_conn_id c2 \<longrightarrow> fd1 = fd2"
    using ok fresh(1) by (auto simp: find Connection_new_def server_ok_def conns_ok_def)
  ultimately have conns: "conns_ok h G t" unfolding conns_ok_def by blast
  have opened: "open_conn t k = open_conn s k" if "snd k \<noteq> i" for k
    using that new by (auto simp: open_conn_def find Connection_new_def)
  have "request_ok t r" if "r \<in> set (all_requests h s)" "request_ok s r" for r
  proof -
    have "snd (req_key r) \<noteq> i" using that(1) fresh(2) by (auto simp: work_keys_def)
    with that(2) show ?thesis by (simp add: request_ok_def opened)
  qed
  moreover have "task_ok t x" if "x \<in> set (all_tasks h s)" "task_ok s x" for x
  proof -
    have "snd (task_key x) \<noteq> i" using that(1) fresh(2) by (auto simp: work_keys_def)
    with that(2) show ?thesis by (simp add: task_ok_def opened view cong: option.case_cong)
  qed
  ultimately have "work_ok h G t"
    using ok by (simp add: server_ok_def work_ok_def view)
  moreover have "globals_ok t"
    using ok unfolding server_ok_def globals_ok_def find view by (auto simp: Connection_new_def t_def)
  ultimately show ?thesis using conns by (simp add: server_ok_def t_def)
qed

lemma server_ok_next_id:
  assumes ok: "server_ok h G s"
  shows "server_ok h G (s\<lparr>sv_next_conn_id := sv_next_conn_id s + 1, sv_accepted := Suc (sv_accepted s)\<rparr>)"
proof -
  define t where "t = s\<lparr>sv_next_conn_id := sv_next_conn_id s + 1, sv_accepted := Suc (sv_accepted s)\<rparr>"
  have view: "work_keys h t = work_keys h s" "auth_keys h t = auth_keys h s" "all_tasks h t = all_tasks h s"
    "all_requests h t = all_requests h s" "sv_connections t = sv_connections s" "sv_accepted t = Suc (sv_accepted s)"
    "sv_cancellations t = sv_cancellations s" "sv_response_queue t = sv_response_queue s"
    by (simp_all add: t_def work_keys_def auth_keys_def all_requests_def all_tasks_def)
  have "conn_ok h G s fd c \<Longrightarrow> conn_ok h G t fd c" for fd c
    by (simp add: conn_ok_def view)
  then have "conns_ok h G t" using ok by (simp add: server_ok_def conns_ok_def view)
  moreover have "work_ok h G t"
    using ok items_ok_cong [of t s] by (simp add: server_ok_def work_ok_def view le_SucI)
  moreover have "globals_ok t"
    using ok by (simp add: server_ok_def globals_ok_def view) (simp add: t_def)
  ultimately show ?thesis by (simp add: server_ok_def t_def)
qed

lemma server_ok_accepted:
  assumes ok: "server_ok h G s" and small: "sv_accepted (connection_accepted os fd s) < 2 ^ 64"
  shows "server_ok h G (connection_accepted os fd s)"
proof -
  let ?s = "s\<lparr>sv_next_conn_id := sv_next_conn_id s + 1, sv_accepted := Suc (sv_accepted s)\<rparr>"
  let ?i = "sv_next_conn_id s"
  have "sv_accepted (connection_accepted os fd s) = Suc (sv_accepted s)"
    by (auto simp: connection_accepted_def Let_def count_stat_def server_close_def server_ctl_def
        split: sysres.splits prod.splits)
  with small have small': "Suc (sv_accepted s) < 2 ^ 64" by simp
  have i: "unat ?i = Suc (sv_accepted s)"
    using ok small' by (simp add: server_ok_def globals_ok_def unat_of_nat take_bit_nat_eq_self_iff
        del: of_nat_Suc)
  obtain r s2 where ctl: "server_ctl os EPOLL_CTL_ADD fd (connectionEvents ?s (Connection_new fd ?i)) ?s = (r, s2)"
    by (rule prod.exhaust)
  have core: "same_core ?s s2"
    using same_core_simps(3) [of ?s os EPOLL_CTL_ADD fd _ ?s] ctl by (metis same_core_refl snd_conv)
  have ok2: "server_ok h G s2" by (rule server_ok_core [OF server_ok_next_id [OF ok] core])
  have "server_ok h G (s2\<lparr>sv_connections := sv_connections s2 @ [(fd, Connection_new fd ?i)]\<rparr>)"
    if "find_conn s2 fd = None"
  proof (rule server_ok_new_conn [OF ok2 that])
    show "unat ?i \<le> sv_accepted s2" using core i by (simp add: same_core_def)
    show "cn_conn_id c \<noteq> ?i" if "find_conn s2 fd' = Some c" for fd' c
      using server_ok_conn [OF ok] that core i by (fastforce simp: same_core_def conn_ok_def)
    show "snd k \<noteq> ?i" if "k \<in> set (work_keys h s2)" for k
    proof -
      have "work_keys h s2 = work_keys h ?s" using core_views(1) [OF core] .
      also have "\<dots> = work_keys h s" by (simp add: work_keys_def all_requests_def all_tasks_def)
      finally have "unat (snd k) \<le> sv_accepted s" using ok that by (simp add: server_ok_def work_ok_def)
      with i show ?thesis by auto
    qed
  qed
  with ok2 ctl show ?thesis
    by (auto simp: connection_accepted_def Let_def server_ok_core split: sysres.splits)
qed

text \<open>What the partial functions promise: the invariant, as long as the connection ids have not wrapped.\<close>

definition keeps_ok :: "TcpServer \<Rightarrow> TcpServer \<Rightarrow> bool" where
  "keeps_ok s s' \<longleftrightarrow> event_frame s s' \<and>
     (\<forall>h G. server_ok h G s \<longrightarrow> sv_accepted s' < 2 ^ 64 \<longrightarrow> server_ok h G s')"

lemma keeps_ok_trans: "keeps_ok s s' \<Longrightarrow> keeps_ok s' s'' \<Longrightarrow> keeps_ok s s''"
  unfolding keeps_ok_def by (meson event_frame_def event_frame_trans le_less_trans)

lemma keeps_okI:
  "handler_frame s s' \<Longrightarrow> (\<And>h G. server_ok h G s \<Longrightarrow> server_ok h G s') \<Longrightarrow> keeps_ok s s'"
  by (simp add: keeps_ok_def event_frame_handler)

lemma keeps_ok_core: "reactor_frame s s' \<Longrightarrow> same_core s s' \<Longrightarrow> keeps_ok s s'"
  by (intro keeps_okI) (auto intro: handler_frame_reactor server_ok_core)

lemma keeps_ok_refl [simp]: "keeps_ok s s"
  by (simp add: keeps_ok_core)

lemma keeps_ok_io [simp]: "keeps_ok s (s\<lparr>sv_io := w\<rparr>)"
  by (simp add: keeps_ok_core)

lemma keeps_ok_accepted: "keeps_ok s (connection_accepted os fd s)"
  unfolding keeps_ok_def
proof (intro conjI allI impI)
  show "event_frame s (connection_accepted os fd s)"
    by (auto simp: connection_accepted_def Let_def event_frame_def handler_frame_def reactor_frame_def count_stat_def
        server_close_def server_ctl_def split: sysres.splits prod.splits)
qed (rule server_ok_accepted)

lemma keeps_ok_handleAccept:
  assumes "handleAccept os s = Some s'"
  shows "keeps_ok s s'"
  using assms
proof (induction rule: handleAccept.raw_induct [rotated, consumes 1, case_names step])
  case (step rec os s s')
  show ?case
  proof (cases "sv_state s = RUNNING")
    case True
    obtain r w where acc: "sys_accept os (sv_listen_fd s) (sv_io s) = (r, w)" by (rule prod.exhaust)
    show ?thesis
    proof (cases r)
      case (SysOk fd)
      from step(2) True acc SysOk have "rec os (connection_accepted os fd (s\<lparr>sv_io := w\<rparr>)) = Some s'" by simp
      from step(1) [OF this] keeps_ok_accepted keeps_ok_io show ?thesis by (meson keeps_ok_trans)
    next
      case (SysErr e)
      with step(2) True acc have "rec os (s\<lparr>sv_io := w\<rparr>) = Some s' \<or> s' = s\<lparr>sv_io := w\<rparr>" by (auto split: if_splits)
      then show ?thesis
      proof
        assume "rec os (s\<lparr>sv_io := w\<rparr>) = Some s'"
        from keeps_ok_io step(1) [OF this] show ?thesis by (rule keeps_ok_trans)
      qed simp
    qed
  qed (use step(2) in simp)
qed

section \<open>Reading and writing\<close>

lemma keeps_ok_close: "keeps_ok s (closeConnection os fd s)"
  by (intro keeps_okI) (simp_all add: handler_frame_reactor server_ok_close)

lemma keeps_ok_modify: "keeps_ok s (snd (modifyConnectionEvents os fd ev s))"
  by (intro keeps_okI) (simp_all add: handler_frame_reactor server_ok_modify)

lemma keeps_ok_markReadEof: "keeps_ok s (markReadEof os fd s)"
  by (intro keeps_okI) (simp_all add: handler_frame_reactor server_ok_markReadEof)

lemma keeps_ok_decode: "keeps_ok s (snd (decodeAndEnqueue os fd eof s))"
  by (intro keeps_okI frame_decodeAndEnqueue server_ok_decodeAndEnqueue)

lemma keeps_ok_received:
  assumes "find_conn s fd = Some c"
  shows "keeps_ok s (bytes_received fd c bs s)"
proof (rule keeps_okI)
  show "handler_frame s (bytes_received fd c bs s)" by (simp add: bytes_received_def handler_frame_reactor)
  fix h G assume ok: "server_ok h G s"
  have "server_ok h G (put_conn fd (c\<lparr>cn_input_buffer := cn_input_buffer c @ bs\<rparr>) s)"
    by (rule server_ok_edit_plain [OF ok assms]) (use server_ok_conn [OF ok assms] in \<open>auto simp: conn_ok_def\<close>)
  then show "server_ok h G (bytes_received fd c bs s)" by (simp add: bytes_received_def server_ok_core)
qed

lemma keeps_ok_handleRead:
  assumes "handleRead os fd s = Some s'"
  shows "keeps_ok s s'"
  using assms
proof (induction rule: handleRead.raw_induct [rotated, consumes 1, case_names step])
  case (step rec os fd s s')
  show ?case
  proof (cases "sv_state s \<noteq> RUNNING \<or> find_conn s fd = None \<or>
      (\<exists>c. find_conn s fd = Some c \<and> (cn_closing c \<or> cn_read_eof c))")
    case True
    with step(2) show ?thesis by (auto split: if_splits)
  next
    case False
    then obtain c where run: "sv_state s = RUNNING" and c: "find_conn s fd = Some c" "\<not> cn_closing c" "\<not> cn_read_eof c"
      by auto
    obtain r w where recv: "sys_recv os fd 4096 (sv_io s) = (r, w)" by (rule prod.exhaust)
    let ?s = "s\<lparr>sv_io := w\<rparr>"
    show ?thesis
    proof (cases r)
      case (SysOk bs)
      let ?d = "decodeAndEnqueue os fd False (bytes_received fd c bs ?s)"
      have "keeps_ok s (bytes_received fd c bs ?s)"
        using keeps_ok_trans [OF keeps_ok_io] keeps_ok_received [of ?s fd c bs] c(1) by simp
      then have read: "keeps_ok s (snd ?d)" using keeps_ok_decode keeps_ok_trans by blast
      have eof: "keeps_ok s (markReadEof os fd (snd (decodeAndEnqueue os fd True ?s)))"
        using keeps_ok_io keeps_ok_decode keeps_ok_markReadEof by (meson keeps_ok_trans)
      from step(2) run c recv SysOk
      have "s' = snd ?d \<or> rec os fd (snd ?d) = Some s' \<or> s' = markReadEof os fd (snd (decodeAndEnqueue os fd True ?s))"
        by (auto split: if_splits prod.splits)
      then show ?thesis using read eof step(1) keeps_ok_trans by blast
    next
      case (SysErr e)
      from step(2) run c recv SysErr have "rec os fd ?s = Some s' \<or> s' = snd (decodeAndEnqueue os fd False ?s) \<or>
          s' = closeConnection os fd ?s"
        by (auto split: if_splits)
      then show ?thesis
        using step(1) keeps_ok_io keeps_ok_decode keeps_ok_close by (meson keeps_ok_trans)
    qed
  qed
qed

lemma keeps_ok_flushed: "keeps_ok s (output_flushed os fd c s)"
  by (simp add: output_flushed_def keeps_ok_close keeps_ok_modify)

lemma keeps_ok_sent:
  assumes c: "find_conn s fd = Some c" and n: "n \<le> length (cn_output_buffer c) - cn_write_offset c"
    and sent: "bytes_sent fd c n s = (c', s')"
  shows "keeps_ok s s'"
proof (rule keeps_okI)
  show "handler_frame s s'" using sent by (auto simp: bytes_sent_def Let_def handler_frame_reactor)
  fix h G assume ok: "server_ok h G s"
  have cok: "conn_ok h G s fd c" using server_ok_conn [OF ok c] .
  have "s' = count_stat (incrementWriteBytes n) (put_conn fd c' s)" using sent by (auto simp: bytes_sent_def Let_def)
  moreover have "server_ok h G (put_conn fd c' s)"
    by (rule server_ok_edit_plain [OF ok c]) (use sent n cok in \<open>auto simp: bytes_sent_def Let_def conn_ok_def split: if_splits\<close>)
  ultimately show "server_ok h G s'" by (simp add: server_ok_core)
qed

lemma sys_send_bound:
  "os_transfer_ok os \<Longrightarrow> sys_send os fd data w = (SysOk n, w') \<Longrightarrow> n \<le> length data"
  by (auto simp: sys_send_def os_transfer_ok_def split: sysres.splits)

lemma keeps_ok_handleWrite:
  assumes "handleWrite os fd s = Some s'" and "os_transfer_ok os"
  shows "keeps_ok s s'"
  using assms
proof (induction rule: handleWrite.raw_induct [rotated, consumes 1, case_names step])
  case (step rec os fd s s')
  show ?case
  proof (cases "find_conn s fd")
    case None
    with step(2) show ?thesis by simp
  next
    case (Some c)
    show ?thesis
    proof (cases "cn_write_offset c \<ge> length (cn_output_buffer c)")
      case True
      with step(2) Some have "s' = output_flushed os fd c s" by simp
      then show ?thesis by (simp add: keeps_ok_flushed)
    next
      case False
      obtain r w where send: "sys_send os fd (drop (cn_write_offset c) (cn_output_buffer c)) (sv_io s) = (r, w)"
        by (rule prod.exhaust)
      let ?s = "s\<lparr>sv_io := w\<rparr>"
      show ?thesis
      proof (cases r)
        case (SysOk n)
        obtain c1 s1 where sent: "bytes_sent fd c n ?s = (c1, s1)" by (rule prod.exhaust)
        have "n \<le> length (cn_output_buffer c) - cn_write_offset c"
          using sys_send_bound [OF step(3)] send SysOk by fastforce
        then have s1: "keeps_ok s s1"
          using keeps_ok_sent [OF _ _ sent] Some keeps_ok_trans [OF keeps_ok_io] by simp
        from step(2) Some False send SysOk sent
        have "s' = output_flushed os fd c1 s1 \<or> rec os fd s1 = Some s' \<or> s' = closeConnection os fd ?s"
          by (auto split: if_splits)
        then show ?thesis
          using s1 step(1) [OF _ step(3)] keeps_ok_flushed keeps_ok_close keeps_ok_io by (meson keeps_ok_trans)
      next
        case (SysErr e)
        from step(2) Some False send SysErr have "rec os fd ?s = Some s' \<or> s' = ?s \<or> s' = closeConnection os fd ?s"
          by (auto split: if_splits)
        then show ?thesis
          using step(1) [OF _ step(3)] keeps_ok_close keeps_ok_io by (meson keeps_ok_trans)
      qed
    qed
  qed
qed

end
