(* ===== verification/ServerReactor.thy ===== *)
theory ServerReactor
  imports ServerHandlers "HOL-Library.Multiset"
begin

text \<open>
  The invariant under whole steps of the reactor, and under what the other threads do with the
  requests and authentication tasks they hold.
\<close>

section \<open>Responses\<close>

lemma tryPop_cases:
  obtains (empty) "q_data q = []" "bq_tryPop q = (None, q)"
  | (item) x xs where "q_data q = x # xs" "bq_tryPop q = (Some x, q\<lparr>q_data := xs\<rparr>)"
  by (cases "q_data q") (auto simp: bq_tryPop_def)

lemma server_ok_drainResponse:
  assumes ok: "server_ok h G s"
  shows "server_ok h G (snd (drainResponse_step os s))"
proof (cases rule: tryPop_cases [of "sv_response_queue s"])
  case empty
  with ok show ?thesis by (simp add: drainResponse_step_def)
next
  case (item r rs)
  let ?s = "s\<lparr>sv_response_queue := (sv_response_queue s)\<lparr>q_data := rs\<rparr>\<rparr>"
  have w: "count_list (work_keys h s) k = count_list (work_keys h ?s) k + (if k = resp_key r then 1 else 0)" for k
    by (simp add: work_keys_def all_requests_def all_tasks_def item)
  have a: "count_list (auth_keys h s) k =
      count_list (auth_keys h ?s) k + (if k = resp_key r \<and> resp_type r = AUTH_RESP then 1 else 0)" for k
    by (simp add: auth_keys_def all_tasks_def item)
  have ok': "server_ok h G ?s"
  proof (rule server_ok_shrink [OF ok])
    show "bq_inv (sv_response_queue ?s)"
      using bq.invar_tryPop [OF server_ok_inv(3) [OF ok]] item by simp
    show "response_ok G x" if "x \<in> set (q_data (sv_response_queue ?s))" for x
      using server_ok_response [OF ok] that item by simp
    show "valid_config (sv_runtime_config ?s)" using server_ok_inv(4) [OF ok] by simp
  qed (use server_ok_inv [OF ok] in \<open>simp_all add: w a all_requests_def all_tasks_def\<close>)
  moreover have "response_ok G r" using server_ok_response [OF ok, of r] item by simp
  moreover have "response_due h ?s r Worker"
    unfolding response_due_def
  proof (intro allI impI)
    fix c assume "open_conn ?s (resp_key r) = Some c"
    then have "find_conn s (resp_fd r) = Some c" "cn_conn_id c = resp_conn_id r"
      by (auto simp: open_conn_def resp_key_def split: option.splits if_splits)
    with server_ok_conn [OF ok, of "resp_fd r" c]
    have "count_list (work_keys h s) (resp_key r) \<le> cn_in_flight_work c"
      "count_list (auth_keys h s) (resp_key r) \<le> 1"
      by (auto simp: conn_ok_def resp_key_def split: if_splits)
    then show "(Worker = Worker \<longrightarrow> count_list (work_keys h ?s) (resp_key r) < cn_in_flight_work c) \<and>
        (resp_type r = AUTH_RESP \<longrightarrow> resp_key r \<notin> set (auth_keys h ?s))"
      unfolding w a by (auto simp: count_list_0_iff [symmetric] simp del: count_list_0_iff)
  qed
  ultimately show ?thesis
    using item by (simp add: drainResponse_step_def server_ok_apply)
qed

section \<open>Draining and shutting down\<close>

text \<open>Changes of the queues that only lose work.\<close>

lemma server_ok_queues:
  assumes ok: "server_ok h G s"
    and inv: "bq_inv q1" "bq_inv q2" "bq_inv q3"
    and data: "q_data q1 = q_data (sv_request_queue s) \<or> q_data q1 = []"
      "q_data q2 = q_data (sv_auth_queue s) \<or> q_data q2 = []"
      "q_data q3 = q_data (sv_response_queue s) \<or> q_data q3 = []"
  shows "server_ok h G (s\<lparr>sv_request_queue := q1, sv_auth_queue := q2, sv_response_queue := q3\<rparr>)"
proof (rule server_ok_shrink [OF ok])
  let ?s = "s\<lparr>sv_request_queue := q1, sv_auth_queue := q2, sv_response_queue := q3\<rparr>"
  show "count_list (work_keys h ?s) k \<le> count_list (work_keys h s) k" for k
    using data by (auto simp: work_keys_def all_requests_def all_tasks_def)
  show "count_list (auth_keys h ?s) k \<le> count_list (auth_keys h s) k" for k
    using data by (auto simp: auth_keys_def all_tasks_def)
  show "response_ok G r" if "r \<in> set (q_data (sv_response_queue ?s))" for r
    using server_ok_response [OF ok] data(3) that by auto
qed (use data inv server_ok_inv [OF ok] in \<open>auto simp: all_requests_def all_tasks_def\<close>)

lemma bq_stop_abort:
  "bq_inv q \<Longrightarrow> bq_inv (bq_stop q)" "bq_inv q \<Longrightarrow> bq_inv (snd (bq_abort q))"
  "q_data (bq_stop q) = q_data q" "q_data (snd (bq_abort q)) = []"
  "q_stopped (bq_stop q)" "q_stopped (snd (bq_abort q))"
  using bq.invar_stop bq.invar_abort bq.stop_spec bq.abort_spec by auto

text \<open>Updates outside the invariant.\<close>

lemma same_core_more [simp]:
  "same_core s (s'\<lparr>sv_shutdown_deadline := x1\<rparr>) = same_core s s'"
  "same_core s (s'\<lparr>sv_listen_fd := x2\<rparr>) = same_core s s'"
  "same_core s (s'\<lparr>sv_ready := x3\<rparr>) = same_core s s'"
  "same_core s (s'\<lparr>sv_epfd := x4\<rparr>) = same_core s s'"
  "same_core s (s'\<lparr>sv_instance := x5\<rparr>) = same_core s s'"
  "same_core s (s'\<lparr>sv_shutdown_finished := x6\<rparr>) = same_core s s'"
  "same_core s (s'\<lparr>sv_stop_requested := x7\<rparr>) = same_core s s'"
  "same_core s (s'\<lparr>sv_signal_stop_requested := x8\<rparr>) = same_core s s'"
  "same_core s (s'\<lparr>sv_auth_in_flight := x9\<rparr>) = same_core s s'"
  "same_core s (s'\<lparr>sv_response_producers_remaining := x10\<rparr>) = same_core s s'"
  "same_core s (s'\<lparr>sv_log_storage := x11\<rparr>) = same_core s s'"
  "same_core s (s'\<lparr>sv_logger := x12\<rparr>) = same_core s s'"
  "same_core s (markNotReady os s') = same_core s s'"
  "same_core s (closeListener os s') = same_core s s'"
proof -
  show "same_core s (markNotReady os s') = same_core s s'"
    by (simp add: markNotReady_def sys_setup_def same_core_def split: sysres.split)
  show "same_core s (s'\<lparr>sv_listen_fd := x2\<rparr>) = same_core s s'" by (simp add: same_core_def)
  then show "same_core s (closeListener os s') = same_core s s'"
    by (simp add: closeListener_def Let_def same_core_def server_close_def server_ctl_def split: prod.split)
qed (simp_all add: same_core_def)

lemma server_ok_beginDraining:
  assumes ok: "server_ok h G s"
  shows "server_ok h G (beginDraining os s)"
proof (cases "sv_state s = RUNNING")
  case True
  obtain now s1 where now: "server_now os (s\<lparr>sv_state := DRAINING\<rparr>) = (now, s1)" by (rule prod.exhaust)
  let ?s3 = "closeListener os (markNotReady os (s1\<lparr>sv_shutdown_deadline := now + sv_shutdown_timeout s1 * 1000000\<rparr>))"
  have "same_core s s1"
    using same_core_simps(4) [of s os "s\<lparr>sv_state := DRAINING\<rparr>"] now by simp
  then have ok3: "server_ok h G ?s3" using ok by (auto intro: server_ok_core)
  have "server_ok h G (?s3\<lparr>sv_request_queue := bq_stop (sv_request_queue ?s3),
      sv_auth_queue := bq_stop (sv_auth_queue ?s3), sv_response_queue := sv_response_queue ?s3\<rparr>)"
    by (rule server_ok_queues [OF ok3]) (use server_ok_inv [OF ok3] in \<open>simp_all add: bq_stop_abort\<close>)
  then have "server_ok h G (?s3\<lparr>sv_request_queue := bq_stop (sv_request_queue ?s3),
      sv_auth_queue := bq_stop (sv_auth_queue ?s3)\<rparr>)" by (rule server_ok_core) (simp add: same_core_def)
  then show ?thesis
    using True now by (auto simp: beginDraining_def Let_def server_ok_modify intro!: server_ok_fold)
next
  case False
  with ok show ?thesis by (simp add: beginDraining_def)
qed

lemma server_ok_closes: "server_ok h G s \<Longrightarrow> server_ok h G (fold (closeConnection os) fds s)"
  by (rule server_ok_fold) (simp_all add: server_ok_close)

lemma server_ok_drain_check:
  assumes ok: "server_ok h G s"
  shows "server_ok h G (drain_check os s)"
proof (cases "sv_state s = DRAINING")
  case True
  obtain b s1 where dc: "drainComplete os s = (b, s1)" by (rule prod.exhaust)
  have ok1: "server_ok h G s1"
    using dc ok by (auto simp: drainComplete_def Let_def server_ok_closes split: if_splits)
  obtain now s2 where now: "server_now os s1 = (now, s2)" by (rule prod.exhaust)
  have ok2: "server_ok h G s2"
    using ok1 same_core_simps(4) [of s1 os s1] now by (auto intro: server_ok_core)
  have "server_ok h G (s2\<lparr>sv_request_queue := snd (bq_abort (sv_request_queue s2)),
     sv_auth_queue := snd (bq_abort (sv_auth_queue s2)), sv_response_queue := snd (bq_abort (sv_response_queue s2))\<rparr>)"
    by (rule server_ok_queues [OF ok2]) (use server_ok_inv [OF ok2] in \<open>simp_all add: bq_stop_abort\<close>)
  from server_ok_core [OF this, of "_\<lparr>sv_state := STOPPED\<rparr>"] ok1 ok2 True dc now show ?thesis
    by (auto simp: drain_check_def server_ok_core split: bool.splits)
next
  case False
  with ok show ?thesis by (simp add: drain_check_def)
qed

lemma server_ok_finishShutdown:
  assumes ok: "server_ok h G s"
  shows "server_ok h G (finishShutdown_begin os s)" "server_ok h G (finishShutdown_end os s)"
proof -
  let ?s = "markNotReady os s"
  have ok1: "server_ok h G ?s" using ok by (auto intro: server_ok_core)
  show "server_ok h G (finishShutdown_begin os s)"
    unfolding finishShutdown_begin_def Let_def
    by (rule server_ok_queues [OF ok1]) (use server_ok_inv [OF ok1] in \<open>simp_all add: bq_stop_abort\<close>)
  have "server_ok h G (fold (closeConnection os) (map fst (sv_connections s)) s)" using ok by (rule server_ok_closes)
  then show "server_ok h G (finishShutdown_end os s)"
    by (rule server_ok_core) (simp add: finishShutdown_end_def Let_def split: prod.split)
qed

section \<open>A step of the reactor\<close>

lemma accepted_simps [simp]:
  "sv_accepted (closeConnection os fd s) = sv_accepted s"
  "sv_accepted (snd (modifyConnectionEvents os fd ev s)) = sv_accepted s"
  "sv_accepted (applyResponse os r origin s) = sv_accepted s"
  using frame_close [of s os fd s] frame_modify [of s os fd ev s] frame_apply [of s os r origin s]
  by (simp_all add: reactor_frame_def)

lemma accepted_fold: "(\<And>x s. sv_accepted (f x s) = sv_accepted s) \<Longrightarrow> sv_accepted (fold f xs s) = sv_accepted s"
  by (induction xs arbitrary: s) auto

lemma accepted_now [simp]: "sv_accepted (snd (server_now os s)) = sv_accepted s"
  using reactor_frame_simps(4) [of s os s] by (simp add: reactor_frame_def)

lemma server_now_eq: "server_now os s = (os_now os (io_tick (sv_io s)), s\<lparr>sv_io := io_step [] (sv_io s)\<rparr>)"
  by (simp add: server_now_def sys_now_def)

lemma accepted_more [simp]:
  "sv_accepted (markNotReady os s) = sv_accepted s" "sv_accepted (closeListener os s) = sv_accepted s"
  using same_core_more(13) [of s os s] same_core_more(14) [of s os s] by (simp_all add: same_core_def)

lemma accepted_drains:
  "sv_accepted (snd (drainResponse_step os s)) = sv_accepted s"
  "sv_accepted (drainRejectedResponses os s) = sv_accepted s"
  "sv_accepted (beginDraining os s) = sv_accepted s"
  "sv_accepted (drain_check os s) = sv_accepted s"
  "sv_accepted (finishShutdown_begin os s) = sv_accepted s"
  "sv_accepted (finishShutdown_end os s) = sv_accepted s"
proof -
  show "sv_accepted (snd (drainResponse_step os s)) = sv_accepted s"
    by (auto simp: drainResponse_step_def split: prod.splits option.splits)
  show "sv_accepted (drainRejectedResponses os s) = sv_accepted s"
    unfolding drainRejectedResponses_def
    by (subst accepted_fold) (auto simp: close_rejected_def split: option.splits)
  show "sv_accepted (beginDraining os s) = sv_accepted s"
    by (auto simp: beginDraining_def server_now_eq Let_def intro!: trans [OF accepted_fold])
  have "sv_accepted (snd (drainComplete os s)) = sv_accepted s"
    by (auto simp: drainComplete_def Let_def intro!: trans [OF accepted_fold])
  then show "sv_accepted (drain_check os s) = sv_accepted s"
    by (auto simp: drain_check_def server_now_eq split: prod.splits bool.splits)
  show "sv_accepted (finishShutdown_begin os s) = sv_accepted s"
    by (simp add: finishShutdown_begin_def Let_def)
  have "sv_accepted (fold (closeConnection os) fds s) = sv_accepted s" for fds by (subst accepted_fold) simp_all
  then show "sv_accepted (finishShutdown_end os s) = sv_accepted s"
    by (simp add: finishShutdown_end_def Let_def server_close_def split: prod.split)
qed

definition step_ok :: "TcpServer \<Rightarrow> TcpServer \<Rightarrow> bool" where
  "step_ok s s' \<longleftrightarrow> sv_accepted s \<le> sv_accepted s' \<and>
     (\<forall>h G. server_ok h G s \<longrightarrow> sv_accepted s' < 2 ^ 64 \<longrightarrow> server_ok h G s')"

lemma keeps_step_ok: "keeps_ok s s' \<Longrightarrow> step_ok s s'"
  by (simp add: keeps_ok_def step_ok_def event_frame_def)

lemma step_okI: "sv_accepted s' = sv_accepted s \<Longrightarrow> (\<And>h G. server_ok h G s \<Longrightarrow> server_ok h G s') \<Longrightarrow> step_ok s s'"
  by (simp add: step_ok_def)

lemma step_ok_trans: "step_ok s s' \<Longrightarrow> step_ok s' s'' \<Longrightarrow> step_ok s s''"
  unfolding step_ok_def by (meson le_less_trans order_trans)

lemma step_ok_core: "same_core s s' \<Longrightarrow> step_ok s s'"
  by (rule step_okI) (auto simp: same_core_def intro: server_ok_core)

text \<open>An event wakes the reactor, or is handled within the frame of the handlers.\<close>

lemma handle_event_cases:
  assumes run: "handle_event os e s = Some s'" and os: "os_transfer_ok os"
  obtains (woken) b n w where "fst e = rn_fd (sv_notifier s)"
      "notifier_consume os (sv_notifier s) (sv_io s) = Some (b, n, w)"
      "s' = s\<lparr>sv_notifier := n, sv_io := w\<rparr>"
  | (handled) "fst e \<noteq> rn_fd (sv_notifier s)" "keeps_ok s s'"
proof -
  obtain fd flags where e: "e = (fd, flags)" by (rule prod.exhaust)
  consider (notifier) "fd = rn_fd (sv_notifier s)" | (listener) "fd \<noteq> rn_fd (sv_notifier s)" "fd = sv_listen_fd s"
    | (client) "fd \<noteq> rn_fd (sv_notifier s)" "fd \<noteq> sv_listen_fd s" by blast
  then show thesis
  proof cases
    case notifier
    with run e show thesis by (auto simp: handle_event_def intro: woken)
  next
    case listener
    with run e have "keeps_ok s s'"
      by (auto simp: handle_event_def keeps_ok_handleAccept split: if_splits)
    with listener e show thesis by (intro handled) simp_all
  next
    case client
    have "keeps_ok s s'"
    proof (cases "flags AND EPOLLERR = 0")
      case False
      with run e client show ?thesis by (auto simp: handle_event_def keeps_ok_close)
    next
      case True
      let ?read = "if flags AND (EPOLLIN OR EPOLLRDHUP OR EPOLLHUP) \<noteq> 0 \<and> sv_state s = RUNNING
        then handleRead os fd s else Some s"
      from run e client True obtain s1 where s1: "?read = Some s1"
        by (auto simp: handle_event_def split: option.splits)
      have k1: "keeps_ok s s1" using s1 by (auto simp: keeps_ok_handleRead split: if_splits)
      let ?eof = "if flags AND (EPOLLRDHUP OR EPOLLHUP) \<noteq> 0 then markReadEof os fd s1 else s1"
      have k2: "keeps_ok s ?eof" using k1 keeps_ok_markReadEof keeps_ok_trans by auto
      have "s' = s1 \<or> s' = ?eof \<or> handleWrite os fd ?eof = Some s'"
        using run e client True s1 by (auto simp: handle_event_def Let_def split: if_splits)
      then show ?thesis
        using k1 k2 keeps_ok_handleWrite [OF _ os] keeps_ok_trans by blast
    qed
    with client e show thesis by (intro handled) simp_all
  qed
qed

lemma step_ok_handle_event:
  assumes "handle_event os e s = Some s'" and "os_transfer_ok os"
  shows "step_ok s s'"
  using assms by (cases rule: handle_event_cases) (auto simp: step_ok_core keeps_step_ok)

lemma step_ok_loop_top: "loop_top os s = (pc, s') \<Longrightarrow> step_ok s s'"
proof (rule step_okI)
  assume run: "loop_top os s = (pc, s')"
  define s1 where "s1 = (if (sv_stop_requested s \<or> sv_signal_stop_requested s) \<and> sv_state s = RUNNING
    then beginDraining os s else s)"
  have s': "s' = finishShutdown_begin os s \<or> same_core s1 s'"
    using run unfolding loop_top_def s1_def [symmetric]
    by (auto simp: Let_def epollTimeoutMs_def server_now_eq split: if_splits prod.splits)
  have a1: "sv_accepted s1 = sv_accepted s" by (simp add: s1_def accepted_drains)
  show "sv_accepted s' = sv_accepted s"
    using s' a1 by (auto simp: accepted_drains same_core_def)
  fix h G assume ok: "server_ok h G s"
  then have "server_ok h G s1" by (simp add: s1_def server_ok_beginDraining)
  then show "server_ok h G s'"
    using s' ok server_ok_core server_ok_finishShutdown(1) by blast
qed

lemma step_ok_loop_wait: "loop_wait os timeout s = (pc, s') \<Longrightarrow> step_ok s s'"
proof (rule step_okI)
  let ?s1 = "s\<lparr>sv_io := io_step [] (sv_io s)\<rparr>"
  assume "loop_wait os timeout s = (pc, s')"
  then have s': "s' = ?s1 \<or> s' = beginDraining os ?s1"
    by (auto simp: loop_wait_def Let_def sys_epoll_wait_def split: if_splits sysres.splits)
  then show "sv_accepted s' = sv_accepted s" by (auto simp: accepted_drains)
  fix h G assume "server_ok h G s"
  then have "server_ok h G ?s1" by (rule server_ok_core) simp
  with s' show "server_ok h G s'" by (auto simp: server_ok_beginDraining)
qed

lemma reactor_step_ok:
  assumes "reactor_step os pc s = Some (pc', s')" and "os_transfer_ok os"
  shows "step_ok s s'"
  using assms
proof (cases pc)
  case LoopTop
  with assms(1) show ?thesis by (auto intro: step_ok_loop_top)
next
  case (Waiting timeout)
  with assms(1) show ?thesis by (auto intro: step_ok_loop_wait)
next
  case (Handling es)
  with assms show ?thesis by (cases es) (auto simp: step_ok_core step_ok_handle_event)
next
  case DrainResponses
  with assms(1) have "s' = snd (drainResponse_step os s)" by (auto split: prod.splits bool.splits)
  then show ?thesis by (auto intro!: step_okI simp: accepted_drains server_ok_drainResponse)
qed (auto simp: accepted_drains server_ok_rejected server_ok_drain_check server_ok_finishShutdown
    intro!: step_okI)

section \<open>Work in the hands of the workers\<close>

lemma count_list_mset: "count_list xs x = count (mset xs) x"
  by (induction xs) auto

lemma mset_insert:
  assumes "mset xs = add_mset x (mset ys)"
  shows "count_list (map f xs) k = (if k = f x then 1 else 0) + count_list (map f ys) k"
    and "set xs = insert x (set ys)"
proof -
  have "mset (map f xs) = add_mset (f x) (mset (map f ys))" by (simp add: assms)
  then show "count_list (map f xs) k = (if k = f x then 1 else 0) + count_list (map f ys) k"
    by (simp add: count_list_mset)
  show "set xs = insert x (set ys)" using assms by (metis set_mset_add_mset_insert set_mset_mset)
qed

text \<open>Items move from the queue to the worker.\<close>

lemma pop_item:
  assumes "bq_pop q = (PopItem x, q')" and "bq_inv q"
  shows "q_data q = x # q_data q'" "bq_inv q'" "q_stopped q' = q_stopped q"
  using assms bq.invar_pop [OF assms(2)] bq.pop_frame(2) [of q] bq.pop_contents [of q] by auto

lemma server_ok_take_request:
  assumes ok: "server_ok h G s" and pop: "bq_pop (sv_request_queue s) = (PopItem r, q)"
    and h': "mset (hd_requests h') = add_mset r (mset (hd_requests h))" "hd_tasks h' = hd_tasks h"
  shows "server_ok h' G (s\<lparr>sv_request_queue := q\<rparr>)"
  by (rule server_ok_shrink [OF ok])
    (use pop_item [OF pop server_ok_inv(1) [OF ok]] server_ok_inv [OF ok] server_ok_response [OF ok] in
      \<open>auto simp: work_keys_def auth_keys_def all_requests_def all_tasks_def h'(2) mset_insert [OF h'(1)]\<close>)

lemma server_ok_take_task:
  assumes ok: "server_ok h G s" and pop: "bq_pop (sv_auth_queue s) = (PopItem t, q)"
    and h': "hd_requests h' = hd_requests h" "mset (hd_tasks h') = add_mset t (mset (hd_tasks h))"
  shows "server_ok h' G (s\<lparr>sv_auth_queue := q\<rparr>)"
  by (rule server_ok_shrink [OF ok])
    (use pop_item [OF pop server_ok_inv(2) [OF ok]] server_ok_inv [OF ok] server_ok_response [OF ok] in
      \<open>auto simp: work_keys_def auth_keys_def all_requests_def all_tasks_def h'(1) mset_insert [OF h'(2)]\<close>)

text \<open>A cancelled task is dropped.\<close>

lemma server_ok_drop_task:
  assumes ok: "server_ok h G s" and h': "hd_requests h' = hd_requests h" "mset (hd_tasks h) = add_mset t (mset (hd_tasks h'))"
  shows "server_ok h' G s"
  by (rule server_ok_shrink [OF ok])
    (use server_ok_inv [OF ok] server_ok_response [OF ok] in
      \<open>auto simp: work_keys_def auth_keys_def all_requests_def all_tasks_def h'(1) mset_insert [OF h'(2)]\<close>)

text \<open>The same items in another order.\<close>

lemma mset_same:
  assumes "mset xs = mset ys"
  shows "count_list (map f xs) k = count_list (map f ys) k" "set xs = set ys"
  using assms by (simp add: count_list_mset) (rule mset_eq_setD [OF assms])

lemma server_ok_held:
  assumes ok: "server_ok h G s" and h': "mset (hd_requests h') = mset (hd_requests h)" "mset (hd_tasks h') = mset (hd_tasks h)"
  shows "server_ok h' G s"
  by (rule server_ok_shrink [OF ok])
    (use server_ok_inv [OF ok] server_ok_response [OF ok] in
      \<open>auto simp: work_keys_def auth_keys_def all_requests_def all_tasks_def mset_same [OF h'(1)] mset_same [OF h'(2)]\<close>)

text \<open>The response of an item takes the place of the item.\<close>

lemma enqueue_push_cases:
  obtains (pushed) q where "bq_push r (sv_response_queue s) = (PushResult_OK, q)"
    "enqueue_push r p s = (True, s\<lparr>sv_response_queue := q\<rparr>)"
  | (rejected) s1 where "same_core s s1" "reactor_frame s (s1\<lparr>sv_rejected := sv_rejected s\<rparr>)"
    "sv_rejected s1 = List.insert (resp_key r) (sv_rejected s)" "enqueue_push r p s = (False, s1)"
proof (cases "bq_push r (sv_response_queue s)")
  case (Pair res q)
  show thesis
  proof (cases "res = PushResult_OK")
    case True
    with Pair pushed show thesis by (simp add: enqueue_push_def)
  next
    case False
    have q: "q = sv_response_queue s" using Pair False by (auto simp: bq_push_def Let_def split: if_splits)
    let ?s1 = "if p = AuthWorker then count_stat incrementResponseQueueRejectedAuth (count_stat incrementErrors s)
               else count_stat incrementResponseQueueRejectedNormal (count_stat incrementErrors s)"
    have "enqueue_push r p s = (False, ?s1\<lparr>sv_rejected := List.insert (resp_key r) (sv_rejected ?s1)\<rparr>)"
      using Pair False by (cases res) (simp_all add: enqueue_push_def Let_def q resp_key_def)
    moreover have "sv_rejected ?s1 = sv_rejected s" by (simp add: count_stat_def)
    moreover have "same_core s ?s1" by simp
    moreover have "reactor_frame s (?s1\<lparr>sv_rejected := sv_rejected s\<rparr>)" by (simp add: reactor_frame_def count_stat_def)
    ultimately show thesis
      by (intro rejected [of "?s1\<lparr>sv_rejected := List.insert (resp_key r) (sv_rejected ?s1)\<rparr>"]) simp_all
  qed
qed

lemma response_ok_mono: "response_ok G r \<Longrightarrow> G \<subseteq> G' \<Longrightarrow> response_ok G' r"
  by (auto simp: response_ok_def split: option.splits)

lemma server_ok_respond:
  assumes ok: "server_ok h G s" and r: "response_ok G' r" "G \<subseteq> G'"
    and work: "\<And>k. count_list (map req_key (hd_requests h')) k + count_list (map task_key (hd_tasks h')) k +
        (if k = resp_key r then 1 else 0) \<le>
      count_list (map req_key (hd_requests h)) k + count_list (map task_key (hd_tasks h)) k"
    and auth: "\<And>k. count_list (map task_key (hd_tasks h')) k + (if k = resp_key r \<and> resp_type r = AUTH_RESP then 1 else 0)
      \<le> count_list (map task_key (hd_tasks h)) k"
    and sub: "set (hd_requests h') \<subseteq> set (hd_requests h)" "set (hd_tasks h') \<subseteq> set (hd_tasks h)"
  shows "server_ok h' G' (snd (enqueue_push r p s))"
proof (cases rule: enqueue_push_cases [of r s p])
  case (pushed q)
  have q: "bq_inv q" "q_data q = q_data (sv_response_queue s) @ [r]"
    using push_result [OF pushed(1) server_ok_inv(3) [OF ok]] by simp_all
  let ?s = "s\<lparr>sv_response_queue := q\<rparr>"
  have "server_ok h' G' ?s"
  proof (rule server_ok_shrink [OF ok])
    show "count_list (work_keys h' ?s) k \<le> count_list (work_keys h s) k" for k
      using work [of k] by (auto simp: work_keys_def all_requests_def all_tasks_def q)
    show "count_list (auth_keys h' ?s) k \<le> count_list (auth_keys h s) k" for k
      using auth [of k] by (auto simp: auth_keys_def all_tasks_def q split: if_splits)
    show "response_ok G' x" if "x \<in> set (q_data (sv_response_queue ?s))" for x
      using that r response_ok_mono [OF server_ok_response [OF ok]] by (auto simp: q)
  qed (use sub q r server_ok_inv [OF ok] in \<open>auto simp: all_requests_def all_tasks_def\<close>)
  with pushed show ?thesis by simp
next
  case (rejected s1)
  have "server_ok h' G' s"
  proof (rule server_ok_shrink [OF ok])
    show "count_list (work_keys h' s) k \<le> count_list (work_keys h s) k" for k
      using work [of k] by (auto simp: work_keys_def all_requests_def all_tasks_def)
    show "count_list (auth_keys h' s) k \<le> count_list (auth_keys h s) k" for k
      using auth [of k] by (auto simp: auth_keys_def all_tasks_def)
    show "response_ok G' x" if "x \<in> set (q_data (sv_response_queue s))" for x
      using response_ok_mono [OF server_ok_response [OF ok that] r(2)] .
  qed (use sub r server_ok_inv [OF ok] in \<open>auto simp: all_requests_def all_tasks_def\<close>)
  with rejected show ?thesis by (simp add: server_ok_core)
qed

text \<open>The two kinds of workers.\<close>

lemma dispatch_response:
  assumes "dispatch parse time_text write_ok g r stats store = (Inr resp, stats', store')"
  shows "answers r resp \<and> resp_client_id_to_authenticate resp = None \<and> \<not> resp_close_connection resp \<and>
    \<not> resp_skip_write resp \<and> resp_type resp \<noteq> AUTH_RESP"
proof -
  from dispatch_cases [where parse = parse and tt = time_text and ok = write_ok and g = g and request = r and stats = stats and store = store, unfolded assms]
  have *: "answers r resp \<and> resp_client_id_to_authenticate resp = None \<and> \<not> resp_close_connection resp \<and>
    \<not> resp_skip_write resp" "resp_type resp \<in> {PONG, ECHO_RESP, STATS_RESP, LOG_ACK, ERROR_RESP}"
    by (simp_all split: if_splits)
  from *(2) have "resp_type resp \<noteq> AUTH_RESP" by (auto simp: message_types)
  with * show ?thesis by simp
qed

lemma server_ok_normal_respond:
  assumes ok: "server_ok h G s" and r: "r \<in> set (hd_requests h)"
    and h': "mset (hd_requests h) = add_mset r (mset (hd_requests h'))" "hd_tasks h' = hd_tasks h"
  shows "server_ok h' G (normal_worker_respond parse time_text write_ok r s)"
proof -
  have "request_ok s r" using ok r by (simp add: server_ok_def work_ok_def all_requests_def)
  then have not_auth: "req_type r \<noteq> AUTH" by (simp add: request_ok_def)
  obtain result stats1 store1 where run:
    "dispatch parse time_text write_ok (server_gauges s) r (sv_stats s) (sv_log_storage s) = (result, stats1, store1)"
    by (rule prod_cases3)
  define resp where "resp = (case result of Inr x \<Rightarrow> x | Inl _ \<Rightarrow> makeInternalErrorResponse r)"
  define s1 where "s1 = (case result of Inr _ \<Rightarrow> s\<lparr>sv_stats := stats1, sv_log_storage := store1\<rparr>
    | Inl _ \<Rightarrow> count_stat incrementErrors (s\<lparr>sv_stats := stats1, sv_log_storage := store1\<rparr>))"
  have eq: "normal_worker_respond parse time_text write_ok r s = snd (enqueue_push resp NormalWorker s1)"
    by (simp add: normal_worker_respond_def run resp_def s1_def Let_def split: sum.split)
  have "server_ok h G s1" using ok by (auto simp: s1_def split: sum.split intro: server_ok_core)
  have resp: "resp_key resp = req_key r \<and> resp_type resp \<noteq> AUTH_RESP \<and> response_ok G resp"
  proof (cases result)
    case (Inl e)
    then show ?thesis
      by (simp add: resp_def makeInternalErrorResponse_def resp_key_def req_key_def response_ok_def response_to_def
          message_types)
  next
    case (Inr x)
    with dispatch_response [OF run [unfolded Inr]] show ?thesis
      by (simp add: resp_def resp_key_def req_key_def answers_def response_ok_def)
  qed
  show ?thesis
    unfolding eq
    by (rule server_ok_respond [OF \<open>server_ok h G s1\<close>]) (auto simp: mset_insert [OF h'(1)] h'(2) resp)
qed

text \<open>
  What an authentication worker grants: the client of the payload, to the connection the request came
  from, and only if the control plane allowed it.
\<close>

definition grant :: "json_parser \<Rightarrow> AuthTask \<Rightarrow> AuthOutcome \<Rightarrow> grants" where
  "grant parse task outcome =
     (if outcome = Allowed
      then (case auth_credentials parse (req_payload (at_request task)) of
              Inr (Some (client_id, _)) \<Rightarrow> {(req_conn_id (at_request task), client_id)}
            | _ \<Rightarrow> {})
      else {})"

lemma auth_worker_respond_eq:
  assumes "auth_worker_respond parse os task started_at not_after s = Some (outcome, resp, s')"
  obtains s1 where "same_core s s1" "reactor_frame s s1" "s' = snd (enqueue_push resp AuthWorker s1)"
    "answers (at_request task) resp" "resp_type resp = AUTH_RESP" "response_ok (grant parse task outcome) resp"
    "sv_auth_in_flight s1 = sv_auth_in_flight s"
proof -
  from assms obtain stats1 w1 where
    auth: "handleAuth parse os (sv_control_plane s) not_after (at_request task) (sv_stats s) (sv_io s) =
      Some (resp, outcome, stats1, w1)"
    by (auto simp: auth_worker_respond_def server_now_eq Let_def split: option.splits)
  let ?s0 = "s\<lparr>sv_stats := stats1, sv_io := w1\<rparr>"
  let ?s1 = "count_stat (recordAuthResult outcome (of_int ((os_now os (io_tick w1) - started_at) div 1000)))
     (?s0\<lparr>sv_io := io_step [] w1\<rparr>)"
  have "s' = snd (enqueue_push resp AuthWorker ?s1)"
    using assms auth by (auto simp: auth_worker_respond_def server_now_eq Let_def)
  moreover from handleAuth_response [OF auth] have "response_ok (grant parse task outcome) resp"
    "answers (at_request task) resp" "resp_type resp = AUTH_RESP"
    by (auto simp: response_ok_def grant_def answers_def split: option.splits)
  ultimately show thesis by (intro that [of ?s1]) (simp_all add: reactor_frame_def count_stat_def)
qed

lemma server_ok_auth_respond:
  assumes ok: "server_ok h G s"
    and run: "auth_worker_respond parse os task started_at not_after s = Some (outcome, resp, s')"
    and h': "hd_requests h' = hd_requests h" "mset (hd_tasks h) = add_mset task (mset (hd_tasks h'))"
  shows "server_ok h' (G \<union> grant parse task outcome) s'"
  using run
proof (cases rule: auth_worker_respond_eq)
  case (1 s1)
  have key: "resp_key resp = task_key task" using 1(4) by (simp add: answers_def resp_key_def req_key_def)
  have "response_ok (G \<union> grant parse task outcome) resp" using response_ok_mono [OF 1(6)] by simp
  then show ?thesis
    unfolding 1(3)
    by (rule server_ok_respond [OF server_ok_core [OF ok 1(1)]]) (auto simp: mset_insert [OF h'(2)] h'(1) key)
qed

section \<open>The other steps\<close>

lemma same_core_notify: "server_notify os s = Some s' \<Longrightarrow> same_core s s'"
  by (auto simp: server_notify_def)

lemma server_ok_config:
  assumes ok: "server_ok h G s" and run: "configPuller_round level_env parse os w s = Some r"
  shows "\<exists>s'. r = Inr s' \<and> server_ok h G s'"
proof -
  have more: "server_ok h G (s\<lparr>sv_runtime_config := cfg\<rparr>)" if "valid_config cfg" for cfg
  proof (rule server_ok_shrink [OF ok])
    show "response_ok G x" if "x \<in> set (q_data (sv_response_queue (s\<lparr>sv_runtime_config := cfg\<rparr>)))" for x
      using server_ok_response [OF ok] that by simp
  qed (use server_ok_inv [OF ok] that in
      \<open>simp_all add: work_keys_def auth_keys_def all_requests_def all_tasks_def\<close>)
  obtain res w' where fetch: "fetchConfig parse os (sv_control_plane s) w = Some (Inr res, w')"
    using run fetchConfig_no_throw by (fastforce simp: configPuller_round_def split: option.splits sum.splits)
  show ?thesis
  proof (cases res)
    case None
    with run fetch ok show ?thesis by (auto simp: configPuller_round_def)
  next
    case (Some cfg)
    then have "valid_config cfg"
      using fetch accepted_config_valid
      by (auto simp: fetchConfig_def split: option.splits sum.splits if_splits)
    moreover have "valid_config (sv_runtime_config s)" using server_ok_inv(4) [OF ok] .
    moreover have "server_ok h G (t\<lparr>sv_logger := l\<rparr>)" if "server_ok h G t" for t l
      using that by (rule server_ok_core) simp
    ultimately show ?thesis
      using run fetch Some more ok
      by (auto simp: configPuller_round_def applyRuntimeConfigIfNewer_def split: if_splits)
  qed
qed

end
