(* ===== verification/ServerSample.thy ===== *)
theory ServerSample
  imports TcpServer
begin

text \<open>
  A concrete system and a server built on it, for the examples: the descriptors of the listener, of
  the epoll instance and of the event counter are 3, 4 and 5, nothing is interrupted, and no event
  ever arrives.
\<close>

definition quiet_os :: os where
  "quiet_os = sample_os\<lparr>os_setup := (\<lambda>_ call fd. SysOk (if call = ''epoll_create1'' then 4
     else if call = ''eventfd'' then 5 else if fd = -1 then 3 else fd))\<rparr>"

definition sample_storage :: LogStorage where
  "sample_storage = \<lparr>ls_use_stdout = True, ls_is_open = False, ls_failed = False, ls_lines = []\<rparr>"

definition sample_server :: TcpServer where
  "sample_server =
     projr (TcpServer_new 8080 ''localhost'' 9000 64 64 1000 2 ''secret'' 500 1 16 sample_storage)"

lemma quiet_os_ok: "os_transfer_ok quiet_os" "clock_advances quiet_os" "eventfd_sound quiet_os"
  "eventfd_settles quiet_os 0"
  using sample_os_ok(1,3)
  by (simp_all add: quiet_os_def os_transfer_ok_def clock_advances_def clock_reaches_def)
    (simp_all add: sample_os_def eventfd_sound_def eventfd_settles_def)

lemma sample_server_new:
  "TcpServer_new 8080 ''localhost'' 9000 64 64 1000 2 ''secret'' 500 1 16 sample_storage = Inr sample_server"
proof -
  have "\<exists>c. ControlPlaneClient_new ''localhost'' 9000 500 ''secret'' = Inr c"
    by (simp add: ControlPlaneClient_new_def validateHeaderValue_def try_bind_def)
  then show ?thesis by (auto simp: sample_server_def TcpServer_new_def try_bind_def)
qed

lemma quiet_start: "\<exists>y. start_server quiet_os 4 sample_server = Inr y"
proof -
  have "\<exists>c. ControlPlaneClient_new ''localhost'' 9000 500 ''secret'' = Inr c"
    by (simp add: ControlPlaneClient_new_def validateHeaderValue_def try_bind_def)
  then show ?thesis
    by (auto simp: sample_server_def TcpServer_new_def try_bind_def start_server_def initServer_def setup_step_def
        setup_register_def sys_create_def sys_setup_def server_ctl_def sys_epoll_ctl_def notifier_open_def
        notifier_new_def quiet_os_def sample_os_def Let_def)
qed

end
