(* ===== verification/Gateway_System.thy ===== *)
theory Gateway_System
  imports ServerReactor ServerSample
begin

text \<open>
  The running gateway: the reactor, the normal and authentication workers and the configuration
  puller as threads over the state of the server, with their interleaving as a step relation.

  A step is what a thread does between two points where the others may run: a call of a queue, a turn
  of the reactor between two events, a push of a response, a wake-up.  \<^verbatim>\<open>start\<close> makes the threads,
  \<^verbatim>\<open>finishShutdown\<close> waits for them, and \<^verbatim>\<open>stop\<close> and the signal handler come from outside.
\<close>

section \<open>Threads\<close>

datatype puller = PullerIdle | PullerFetching | PullerGone

text \<open>
  A normal worker waits for a request, holds one, or has pushed its response and is about to wake the
  reactor.  An authentication worker moreover has taken a task whose cancellation flag it has not
  read, or works on it, with the time it started and the deadline it works under.  \<open>gw_grants\<close> is not
  in the code: it remembers which clients the control plane allowed, on which connections.
\<close>

record gateway =
  gw_server :: TcpServer
  gw_pc :: reactor_pc
  gw_idle :: nat
  gw_busy :: "Request list"
  gw_waking :: nat
  gw_auth_idle :: nat
  gw_auth_taken :: "AuthTask list"
  gw_auth_running :: "(AuthTask \<times> time_point \<times> time_point option) list"
  gw_auth_waking :: nat
  gw_puller :: puller
  gw_grants :: grants

definition threads_started :: "nat \<Rightarrow> TcpServer \<Rightarrow> gateway" where
  "threads_started workers s =
     \<lparr>gw_server = s, gw_pc = LoopTop, gw_idle = workers, gw_busy = [], gw_waking = 0,
      gw_auth_idle = sv_configured_auth_worker_count s, gw_auth_taken = [], gw_auth_running = [],
      gw_auth_waking = 0, gw_puller = PullerIdle, gw_grants = {}\<rparr>"

definition gateway_start :: "os \<Rightarrow> nat \<Rightarrow> TcpServer \<Rightarrow> (cpp_exn \<times> TcpServer) + gateway" where
  "gateway_start os hardware_concurrency s =
     (case start_server os hardware_concurrency s of
        Inl e \<Rightarrow> Inl e
      | Inr (workers, s1) \<Rightarrow> Inr (threads_started workers s1))"

text \<open>The workers that have not exited, and that all threads but the reactor's have.\<close>

definition producers :: "gateway \<Rightarrow> nat" where
  "producers g = gw_idle g + length (gw_busy g) + gw_waking g + gw_auth_idle g + length (gw_auth_taken g) +
     length (gw_auth_running g) + gw_auth_waking g"

definition threads_gone :: "gateway \<Rightarrow> bool" where
  "threads_gone g \<longleftrightarrow> producers g = 0 \<and> gw_puller g = PullerGone"

section \<open>Steps\<close>

datatype actor = Reactor | NormalThread | AuthThread | PullerThread | Outside

inductive gateway_step ::
  "json_parser \<Rightarrow> string option \<Rightarrow> os \<Rightarrow> actor \<Rightarrow> gateway \<Rightarrow> gateway \<Rightarrow> bool"
  for parse :: json_parser and level_env :: "string option" and os :: os where
  reactor:
    "reactor_step os (gw_pc g) (gw_server g) = Some (pc', s') \<Longrightarrow> gw_pc g = Joining \<longrightarrow> threads_gone g \<Longrightarrow>
     gateway_step parse level_env os Reactor g (g\<lparr>gw_pc := pc', gw_server := s'\<rparr>)"
| take:
    "gw_idle g = Suc n \<Longrightarrow> bq_pop (sv_request_queue (gw_server g)) = (PopItem r, q) \<Longrightarrow>
     gateway_step parse level_env os NormalThread g
       (g\<lparr>gw_idle := n, gw_busy := gw_busy g @ [r], gw_server := (gw_server g)\<lparr>sv_request_queue := q\<rparr>\<rparr>)"
| respond:
    "gw_busy g = rs @ r # rs' \<Longrightarrow>
     gateway_step parse level_env os NormalThread g
       (g\<lparr>gw_busy := rs @ rs', gw_waking := Suc (gw_waking g),
          gw_server := normal_worker_respond parse time_text write_ok r (gw_server g)\<rparr>)"
| wake:
    "gw_waking g = Suc n \<Longrightarrow> server_notify os (gw_server g) = Some s' \<Longrightarrow>
     gateway_step parse level_env os NormalThread g
       (g\<lparr>gw_waking := n, gw_idle := Suc (gw_idle g), gw_server := s'\<rparr>)"
| leave:
    "gw_idle g = Suc n \<Longrightarrow> bq_pop (sv_request_queue (gw_server g)) = (PopFalse, q) \<Longrightarrow>
     onResponseProducerExited os ((gw_server g)\<lparr>sv_request_queue := q\<rparr>) = Some s' \<Longrightarrow>
     gateway_step parse level_env os NormalThread g (g\<lparr>gw_idle := n, gw_server := s'\<rparr>)"
| auth_take:
    "gw_auth_idle g = Suc n \<Longrightarrow> bq_pop (sv_auth_queue (gw_server g)) = (PopItem t, q) \<Longrightarrow>
     gateway_step parse level_env os AuthThread g
       (g\<lparr>gw_auth_idle := n, gw_auth_taken := gw_auth_taken g @ [t],
          gw_server := (gw_server g)\<lparr>sv_auth_queue := q\<rparr>\<rparr>)"
| auth_skip:
    "gw_auth_taken g = ts @ t # ts' \<Longrightarrow> auth_task_cancelled t (gw_server g) \<Longrightarrow>
     gateway_step parse level_env os AuthThread g
       (g\<lparr>gw_auth_taken := ts @ ts', gw_auth_idle := Suc (gw_auth_idle g),
          gw_server := count_stat incrementAuthTaskCancelledBeforeStart (gw_server g)\<rparr>)"
| auth_begin:
    "gw_auth_taken g = ts @ t # ts' \<Longrightarrow> \<not> auth_task_cancelled t (gw_server g) \<Longrightarrow>
     auth_worker_start os (gw_server g) = (started_at, not_after, s') \<Longrightarrow>
     gateway_step parse level_env os AuthThread g
       (g\<lparr>gw_auth_taken := ts @ ts', gw_auth_running := gw_auth_running g @ [(t, started_at, not_after)],
          gw_server := s'\<rparr>)"
| auth_respond:
    "gw_auth_running g = ts @ (t, started_at, not_after) # ts' \<Longrightarrow>
     auth_worker_respond parse os t started_at not_after (gw_server g) = Some (outcome, response, s') \<Longrightarrow>
     gateway_step parse level_env os AuthThread g
       (g\<lparr>gw_auth_running := ts @ ts', gw_auth_waking := Suc (gw_auth_waking g), gw_server := s',
          gw_grants := gw_grants g \<union> grant parse t outcome\<rparr>)"
| auth_wake:
    "gw_auth_waking g = Suc n \<Longrightarrow> auth_worker_done os (gw_server g) = Some s' \<Longrightarrow>
     gateway_step parse level_env os AuthThread g
       (g\<lparr>gw_auth_waking := n, gw_auth_idle := Suc (gw_auth_idle g), gw_server := s'\<rparr>)"
| auth_leave:
    "gw_auth_idle g = Suc n \<Longrightarrow> bq_pop (sv_auth_queue (gw_server g)) = (PopFalse, q) \<Longrightarrow>
     onResponseProducerExited os ((gw_server g)\<lparr>sv_auth_queue := q\<rparr>) = Some s' \<Longrightarrow>
     gateway_step parse level_env os AuthThread g (g\<lparr>gw_auth_idle := n, gw_server := s'\<rparr>)"
| fetch:
    "gw_puller g = PullerIdle \<Longrightarrow> sv_state (gw_server g) = RUNNING \<Longrightarrow>
     gateway_step parse level_env os PullerThread g (g\<lparr>gw_puller := PullerFetching\<rparr>)"
| fetched:
    "gw_puller g = PullerFetching \<Longrightarrow> configPuller_round level_env parse os w (gw_server g) = Some (Inr s') \<Longrightarrow>
     gateway_step parse level_env os PullerThread g (g\<lparr>gw_puller := PullerIdle, gw_server := s'\<rparr>)"
| puller_leave:
    "gw_puller g = PullerIdle \<Longrightarrow> sv_state (gw_server g) \<noteq> RUNNING \<Longrightarrow>
     gateway_step parse level_env os PullerThread g (g\<lparr>gw_puller := PullerGone\<rparr>)"
| stop:
    "stop_server os (gw_server g) = Some s' \<Longrightarrow>
     gateway_step parse level_env os Outside g (g\<lparr>gw_server := s'\<rparr>)"
| signal:
    "staticSignalHandler os (gw_server g) = Some s' \<Longrightarrow>
     gateway_step parse level_env os Outside g (g\<lparr>gw_server := s'\<rparr>)"

text \<open>The states a started gateway can get into.\<close>

definition gateway_started :: "os \<Rightarrow> gateway \<Rightarrow> bool" where
  "gateway_started os g \<longleftrightarrow>
     (\<exists>port control_plane_host control_plane_port request_cap response_cap shutdown_ms workers token
        control_plane_timeout_ms auth_workers auth_cap log_storage s hardware_concurrency.
        TcpServer_new port control_plane_host control_plane_port request_cap response_cap shutdown_ms workers token
          control_plane_timeout_ms auth_workers auth_cap log_storage = Inr s \<and>
        gateway_start os hardware_concurrency s = Inr g)"

inductive reachable :: "json_parser \<Rightarrow> string option \<Rightarrow> os \<Rightarrow> gateway \<Rightarrow> bool"
  for parse :: json_parser and level_env :: "string option" and os :: os where
  started: "gateway_started os g \<Longrightarrow> reachable parse level_env os g"
| step:
    "reachable parse level_env os g \<Longrightarrow> gateway_step parse level_env os a g g' \<Longrightarrow> reachable parse level_env os g'"

lemma gateway_startedE:
  assumes "gateway_started os g"
  obtains port host cport rcap pcap sms workers token tms aworkers acap store s hc where
    "TcpServer_new port host cport rcap pcap sms workers token tms aworkers acap store = Inr s"
    "gateway_start os hc s = Inr g"
  using assms unfolding gateway_started_def by blast

text \<open>The gateway as a transition system, its steps those of any thread.\<close>

abbreviation gateway_moves :: "json_parser \<Rightarrow> string option \<Rightarrow> os \<Rightarrow> gateway \<Rightarrow> gateway \<Rightarrow> bool" where
  "gateway_moves parse level_env os g g' \<equiv> \<exists>a. gateway_step parse level_env os a g g'"

interpretation gw: transition_system "reachable parse level_env os" "gateway_started os" "gateway_moves parse level_env os"
  for parse level_env os
proof (unfold_locales, goal_cases)
  case (3 g P)
  show ?case by (rule reachable.induct [OF 3(1)]) (use 3(2,3) in blast)+
qed (auto intro: reachable.intros)

inductive_cases reactor_actorE: "gateway_step parse level_env os Reactor g g'"

section \<open>The invariant of the server in every reachable state\<close>

definition held_of :: "gateway \<Rightarrow> held" where
  "held_of g = \<lparr>hd_requests = gw_busy g, hd_tasks = gw_auth_taken g @ map fst (gw_auth_running g)\<rparr>"

abbreviation gateway_ok :: "gateway \<Rightarrow> bool" where
  "gateway_ok g \<equiv> server_ok (held_of g) (gw_grants g) (gw_server g)"

lemma held_of_sels [simp]:
  "hd_requests (held_of g) = gw_busy g"
  "hd_tasks (held_of g) = gw_auth_taken g @ map fst (gw_auth_running g)"
  by (simp_all add: held_of_def)

lemma pop_false: "bq_pop q = (PopFalse, q') \<longleftrightarrow> q' = q \<and> q_data q = [] \<and> q_stopped q"
  by (auto simp: bq_pop_def split: list.splits)

lemma exited_cases:
  assumes "onResponseProducerExited os s = Some s'"
  obtains (more) "sv_response_producers_remaining s \<noteq> 1"
      "s' = s\<lparr>sv_response_producers_remaining := sv_response_producers_remaining s - 1\<rparr>"
  | (last) "sv_response_producers_remaining s = 1"
      "server_notify os (s\<lparr>sv_response_producers_remaining := 0,
         sv_response_queue := bq_stop (sv_response_queue s)\<rparr>) = Some s'"
  using assms by (auto simp: onResponseProducerExited_def Let_def split: if_splits)

lemma server_ok_exited:
  assumes ok: "server_ok h G s" and run: "onResponseProducerExited os s = Some s'"
  shows "server_ok h G s'"
  using run
proof (cases rule: exited_cases)
  case more
  with ok show ?thesis by (simp add: server_ok_core)
next
  case last
  have "server_ok h G (s\<lparr>sv_request_queue := sv_request_queue s, sv_auth_queue := sv_auth_queue s,
      sv_response_queue := bq_stop (sv_response_queue s)\<rparr>)"
    by (rule server_ok_queues [OF ok]) (use server_ok_inv [OF ok] in \<open>simp_all add: bq_stop_abort\<close>)
  then have "server_ok h G (s\<lparr>sv_response_producers_remaining := 0,
      sv_response_queue := bq_stop (sv_response_queue s)\<rparr>)"
    by (rule server_ok_core) (simp add: same_core_def)
  then show ?thesis using same_core_notify [OF last(2)] by (rule server_ok_core)
qed

lemma accepted_notify: "server_notify os s = Some s' \<Longrightarrow> sv_accepted s' = sv_accepted s"
  by (auto simp: server_notify_def)

lemma accepted_enqueue_push [simp]: "sv_accepted (snd (enqueue_push r p s)) = sv_accepted s"
  by (cases rule: enqueue_push_cases [of r s p]) (auto simp: same_core_def)

lemma accepted_count [simp]: "sv_accepted (count_stat f s) = sv_accepted s"
  by (simp add: count_stat_def)

lemma accepted_workers:
  "sv_accepted (normal_worker_respond parse time_text write_ok r s) = sv_accepted s"
  "auth_worker_respond parse os t started_at not_after s = Some (outcome, resp, s') \<Longrightarrow>
     sv_accepted s' = sv_accepted s"
  "onResponseProducerExited os s = Some s' \<Longrightarrow> sv_accepted s' = sv_accepted s"
  "configPuller_round level_env parse os w s = Some (Inr s') \<Longrightarrow> sv_accepted s' = sv_accepted s"
  "auth_worker_start os s = (started_at, not_after, s') \<Longrightarrow> same_core s s'"
  "auth_worker_done os s = Some s' \<Longrightarrow> same_core s s'"
  "stop_server os s = Some s' \<Longrightarrow> same_core s s'"
  "staticSignalHandler os s = Some s' \<Longrightarrow> same_core s s'"
proof -
  show "sv_accepted (normal_worker_respond parse time_text write_ok r s) = sv_accepted s"
    by (simp add: normal_worker_respond_def Let_def count_stat_def split: prod.split sum.split)
  show "sv_accepted s' = sv_accepted s"
    if "auth_worker_respond parse os t started_at not_after s = Some (outcome, resp, s')"
    using that by (cases rule: auth_worker_respond_eq) (simp add: same_core_def)
  show "sv_accepted s' = sv_accepted s" if "onResponseProducerExited os s = Some s'"
    using that by (cases rule: exited_cases) (auto dest: accepted_notify)
  show "sv_accepted s' = sv_accepted s" if "configPuller_round level_env parse os w s = Some (Inr s')"
    using that by (auto simp: configPuller_round_def split: option.splits sum.splits prod.splits bool.splits)
  show "same_core s s'" if "auth_worker_start os s = (started_at, not_after, s')"
    using that by (auto simp: auth_worker_start_def server_now_eq Let_def)
  show "same_core s s'" if "auth_worker_done os s = Some s'"
    using that by (auto simp: auth_worker_done_def dest: same_core_notify)
  show "same_core s s'" if "stop_server os s = Some s'"
    using that by (auto simp: stop_server_def server_notify_def split: if_splits)
  show "same_core s s'" if "staticSignalHandler os s = Some s'"
    using that by (auto simp: staticSignalHandler_def Let_def server_notify_def split: if_splits)
qed

text \<open>Every step keeps the invariant, as long as the connection ids have not wrapped around.\<close>

lemma gateway_step_ok:
  assumes "gateway_step parse level_env os a g g'" and "os_transfer_ok os"
  shows "sv_accepted (gw_server g) \<le> sv_accepted (gw_server g') \<and>
    (gateway_ok g \<longrightarrow> sv_accepted (gw_server g') < 2 ^ 64 \<longrightarrow> gateway_ok g')"
  using assms
proof (induction rule: gateway_step.induct)
  case (reactor g pc' s')
  from reactor_step_ok [OF reactor(1,3)] show ?case by (auto simp: step_ok_def held_of_def)
next
  case (take g n r q)
  then show ?case by (auto intro: server_ok_take_request)
next
  case (respond g rs r rs' time_text write_ok)
  then show ?case by (auto simp: accepted_workers intro!: server_ok_normal_respond)
next
  case (wake g n s')
  then show ?case using server_ok_core [OF _ same_core_notify] by (auto simp: accepted_notify held_of_def)
next
  case (leave g n q s')
  then have "onResponseProducerExited os (gw_server g) = Some s'" by (simp add: pop_false)
  then show ?case using server_ok_exited accepted_workers(3) by (auto simp: held_of_def)
next
  case (auth_take g n t q)
  then show ?case by (auto intro: server_ok_take_task)
next
  case (auth_skip g ts t ts')
  have "gateway_ok g \<Longrightarrow> server_ok \<lparr>hd_requests = gw_busy g, hd_tasks = ts @ ts' @ map fst (gw_auth_running g)\<rparr>
     (gw_grants g) (gw_server g)"
    by (rule server_ok_drop_task [where h = "held_of g" and t = t]) (use auth_skip in simp_all)
  then show ?case by (auto simp: held_of_def elim!: server_ok_core)
next
  case (auth_begin g ts t ts' started_at not_after s')
  note core = accepted_workers(5) [OF auth_begin(3)]
  have "gateway_ok g \<Longrightarrow> server_ok (held_of g) (gw_grants g) s'" by (rule server_ok_core [OF _ core])
  then have "gateway_ok g \<Longrightarrow> server_ok \<lparr>hd_requests = gw_busy g,
     hd_tasks = ts @ ts' @ map fst (gw_auth_running g) @ [t]\<rparr> (gw_grants g) s'"
    by (rule server_ok_held) (use auth_begin in simp_all)
  then show ?case using core by (simp add: held_of_def same_core_def)
next
  case (auth_respond g ts t started_at not_after ts' outcome response s')
  have "gateway_ok g \<Longrightarrow> server_ok \<lparr>hd_requests = gw_busy g,
     hd_tasks = gw_auth_taken g @ map fst (ts @ ts')\<rparr> (gw_grants g \<union> grant parse t outcome) s'"
    by (rule server_ok_auth_respond [where h = "held_of g", OF _ auth_respond(2)]) (use auth_respond in simp_all)
  then show ?case using accepted_workers(2) [OF auth_respond(2)] by (simp add: held_of_def)
next
  case (auth_wake g n s')
  note core = accepted_workers(6) [OF auth_wake(2)]
  then show ?case using server_ok_core [OF _ core] by (simp add: held_of_def) (simp add: same_core_def)
next
  case (auth_leave g n q s')
  then have "onResponseProducerExited os (gw_server g) = Some s'" by (simp add: pop_false)
  then show ?case using server_ok_exited accepted_workers(3) by (auto simp: held_of_def)
next
  case (fetch g)
  then show ?case by (simp add: held_of_def)
next
  case (fetched g w s')
  then show ?case using server_ok_config [OF _ fetched(2)] accepted_workers(4) [OF fetched(2)]
    by (auto simp: held_of_def)
next
  case (puller_leave g)
  then show ?case by (simp add: held_of_def)
next
  case (stop g s')
  note core = accepted_workers(7) [OF stop(1)]
  then show ?case using server_ok_core [OF _ core] by (simp add: held_of_def) (simp add: same_core_def)
next
  case (signal g s')
  note core = accepted_workers(8) [OF signal(1)]
  then show ?case using server_ok_core [OF _ core] by (simp add: held_of_def) (simp add: same_core_def)
qed

text \<open>The state \<^verbatim>\<open>start\<close> leaves.\<close>

lemma setup_step_Inr: "setup_step os call message s k = Inr s' \<Longrightarrow> \<exists>w. k (s\<lparr>sv_io := w\<rparr>) = Inr s'"
  by (auto simp: setup_step_def sys_setup_def split: sysres.splits)

lemma setup_register_Inr: "setup_register os fd events message s k = Inr s' \<Longrightarrow> \<exists>w. k (s\<lparr>sv_io := w\<rparr>) = Inr s'"
  by (auto simp: setup_register_def server_ctl_def sys_epoll_ctl_def split: sysres.splits prod.splits)

lemma initServer_result:
  assumes run: "initServer os s = Inr s'" and fresh: "rn_fd (sv_notifier s) = -1"
  obtains listen epfd n w where "s' = s\<lparr>sv_listen_fd := listen, sv_epfd := epfd, sv_notifier := n, sv_io := w\<rparr>"
    "rn_fd n \<noteq> -1" "rn_counter n = 0"
proof -
  define rest where "rest s3 = (case sys_create os ''epoll_create1'' (sv_io s3) of
             (SysErr e, w) \<Rightarrow>
               Inl (RuntimeError (''epoll_create1 failed: '' @ os_strerror os e), s3\<lparr>sv_io := w\<rparr>)
           | (SysOk epfd, w) \<Rightarrow>
               (case notifier_open os (sv_notifier s3) w of
                  (opened, n, w1) \<Rightarrow>
                    let s4 = s3\<lparr>sv_epfd := epfd, sv_notifier := n, sv_io := w1\<rparr> in
                    if \<not> opened
                    then Inl (RuntimeError (''eventfd failed: '' @
                                (case os_setup os (io_tick w) ''eventfd'' (-1) of
                                   SysErr e \<Rightarrow> os_strerror os e | SysOk _ \<Rightarrow> [])), s4)
                    else
                      setup_register os (sv_listen_fd s4) (EPOLLIN OR EPOLLET)
                        ''epoll add listener failed: '' s4 (\<lambda>s5.
                      setup_register os (rn_fd (sv_notifier s5)) EPOLLIN
                        ''epoll add eventfd failed: '' s5 Inr)))" for s3
  from run obtain listen w0 where "rest (s\<lparr>sv_listen_fd := listen, sv_io := w0\<rparr>) = Inr s'"
    unfolding initServer_def rest_def [symmetric]
    by (fastforce simp: sys_create_def split: sysres.splits dest!: setup_step_Inr)
  then obtain epfd w n w1 where n: "notifier_open os (sv_notifier s) w = (True, n, w1)"
    and k: "setup_register os listen (EPOLLIN OR EPOLLET) ''epoll add listener failed: ''
         (s\<lparr>sv_listen_fd := listen, sv_epfd := epfd, sv_notifier := n, sv_io := w1\<rparr>) (\<lambda>s5.
       setup_register os (rn_fd (sv_notifier s5)) EPOLLIN ''epoll add eventfd failed: '' s5 Inr) = Inr s'"
    by (auto simp: rest_def Let_def split: sysres.splits prod.splits if_splits)
  from k obtain w2 where "s' = s\<lparr>sv_listen_fd := listen, sv_epfd := epfd, sv_notifier := n, sv_io := w2\<rparr>"
    by (auto dest!: setup_register_Inr)
  moreover from n fresh have "rn_fd n \<noteq> -1" "rn_counter n = 0"
    by (auto simp: notifier_open_def split: prod.splits sysres.splits if_splits)
  ultimately show thesis by (rule that)
qed

lemma start_server_result:
  assumes "start_server os hc s = Inr (workers, s')" and fresh: "rn_fd (sv_notifier s) = -1"
  obtains listen epfd n w r where
    "s' = s\<lparr>sv_started := True, sv_shutdown_finished := False, sv_listen_fd := listen, sv_epfd := epfd,
       sv_notifier := n, sv_instance := True, sv_signal_stop_requested := False, sv_state := RUNNING,
       sv_io := w, sv_ready := r, sv_response_producers_remaining := workers + sv_configured_auth_worker_count s\<rparr>"
    "rn_fd n \<noteq> -1" "rn_counter n = 0" "workers = worker_count_of (sv_configured_worker_count s) hc"
proof -
  from assms(1) obtain s1 where init: "initServer os (s\<lparr>sv_started := True, sv_shutdown_finished := False\<rparr>) = Inr s1"
    and eq: "workers = worker_count_of (sv_configured_worker_count s1) hc"
      "s' = (markReady os (s1\<lparr>sv_instance := True, sv_signal_stop_requested := False, sv_state := RUNNING\<rparr>))
         \<lparr>sv_response_producers_remaining := workers + sv_configured_auth_worker_count s1\<rparr>"
    by (auto simp: start_server_def markReady_def sys_setup_def Let_def split: if_splits sum.splits sysres.splits)
  have ready: "markReady os t = t\<lparr>sv_ready := sv_ready (markReady os t), sv_io := sv_io (markReady os t)\<rparr>" for t
    by (simp add: markReady_def sys_setup_def split: sysres.split)
  have "rn_fd (sv_notifier (s\<lparr>sv_started := True, sv_shutdown_finished := False\<rparr>)) = -1" by (simp add: fresh)
  with init obtain listen epfd n w where s1:
    "s1 = s\<lparr>sv_started := True, sv_shutdown_finished := False, sv_listen_fd := listen, sv_epfd := epfd,
       sv_notifier := n, sv_io := w\<rparr>" "rn_fd n \<noteq> -1" "rn_counter n = 0"
    by (rule initServer_result)
  let ?t = "s1\<lparr>sv_instance := True, sv_signal_stop_requested := False, sv_state := RUNNING\<rparr>"
  have "s' = s\<lparr>sv_started := True, sv_shutdown_finished := False, sv_listen_fd := listen, sv_epfd := epfd,
       sv_notifier := n, sv_instance := True, sv_signal_stop_requested := False, sv_state := RUNNING,
       sv_io := sv_io (markReady os ?t), sv_ready := sv_ready (markReady os ?t),
       sv_response_producers_remaining := workers + sv_configured_auth_worker_count s\<rparr>"
    unfolding eq(2) by (subst ready) (simp add: s1(1))
  with s1(2,3) eq(1) show thesis by (intro that) (simp_all add: s1(1))
qed

text \<open>The invariant holds in every reachable state.\<close>

lemma TcpServer_new_result:
  assumes "TcpServer_new port control_plane_host control_plane_port request_cap response_cap shutdown_ms workers token
      control_plane_timeout_ms auth_workers auth_cap log_storage = Inr s"
  shows "server_ok \<lparr>hd_requests = [], hd_tasks = []\<rparr> {} s"
    and "sv_accepted s = 0" "rn_fd (sv_notifier s) = -1" "sv_rejected s = []" "sv_connections s = []"
    "\<not> q_stopped (sv_request_queue s)" "\<not> q_stopped (sv_auth_queue s)" "\<not> q_stopped (sv_response_queue s)"
    "q_data (sv_response_queue s) = []" "sv_auth_in_flight s = 0" "\<not> sv_stop_requested s"
    "sv_configured_auth_worker_count s = auth_workers" "auth_workers \<in> {1..16}" "sv_shutdown_timeout s \<ge> 1"
proof -
  from assms show "server_ok \<lparr>hd_requests = [], hd_tasks = []\<rparr> {} s"
    by (auto simp: TcpServer_new_def try_bind_def inv_defs bq_new_def bq_inv_def valid_config_default
        split: sum.splits if_splits)
qed (use assms in \<open>auto simp: TcpServer_new_def try_bind_def bq_new_def notifier_new_def split: sum.splits if_splits\<close>)

lemma gateway_started_ok:
  assumes "gateway_started os g"
  shows "gateway_ok g"
proof -
  from assms obtain port host cport rcap pcap sms workers token tms aworkers acap store s hc where
    made: "TcpServer_new port host cport rcap pcap sms workers token tms aworkers acap store = Inr s"
    and start: "gateway_start os hc s = Inr g" by (rule gateway_startedE)
  note new = TcpServer_new_result [OF made]
  from start obtain n s1 where run: "start_server os hc s = Inr (n, s1)"
    and g: "gw_server g = s1" "gw_busy g = []" "gw_auth_taken g = []" "gw_auth_running g = []" "gw_grants g = {}"
    by (auto simp: gateway_start_def threads_started_def split: sum.splits)
  from run new(3) have "same_core s s1" by (rule start_server_result) (simp add: same_core_def)
  with new(1) g show ?thesis by (simp add: held_of_def server_ok_core)
qed

interpretation gw_ok: step_invariant "reachable parse level_env os" "gateway_started os" "gateway_moves parse level_env os"
  "\<lambda>g. os_transfer_ok os \<longrightarrow> sv_accepted (gw_server g) < 2 ^ 64 \<longrightarrow> gateway_ok g"
  for parse level_env os
  by unfold_locales (auto simp: gateway_started_ok dest: gateway_step_ok)

lemma reachable_ok:
  assumes "reachable parse level_env os g" and "os_transfer_ok os"
  shows "sv_accepted (gw_server g) < 2 ^ 64 \<longrightarrow> gateway_ok g"
  using gw_ok.inv_reach [OF assms(1)] assms(2) by blast

text \<open>The example server, started.\<close>

definition sample_gateway :: gateway where
  "sample_gateway = projr (gateway_start quiet_os 4 sample_server)"

lemma sample_gateway_start: "gateway_start quiet_os 4 sample_server = Inr sample_gateway"
  using quiet_start by (auto simp: sample_gateway_def gateway_start_def)

lemma sample_reachable: "reachable parse level_env quiet_os sample_gateway"
  using sample_server_new sample_gateway_start unfolding gateway_started_def by (intro reachable.started [unfolded gateway_started_def] exI conjI)

lemma sample_gateway_state:
  "sv_accepted (gw_server sample_gateway) = 0" "sv_state (gw_server sample_gateway) = RUNNING"
  "gw_pc sample_gateway = LoopTop" "sv_started (gw_server sample_gateway)"
  "\<not> sv_shutdown_finished (gw_server sample_gateway)"
proof -
  note new = TcpServer_new_result [OF sample_server_new]
  from sample_gateway_start obtain n s1 where run: "start_server quiet_os 4 sample_server = Inr (n, s1)"
    and g: "sample_gateway = threads_started n s1"
    by (auto simp: gateway_start_def split: sum.splits)
  have "sv_accepted s1 = 0 \<and> sv_state s1 = RUNNING \<and> sv_started s1 \<and> \<not> sv_shutdown_finished s1"
    using run new(3) by (rule start_server_result) (simp add: new)
  then show "sv_accepted (gw_server sample_gateway) = 0" "sv_state (gw_server sample_gateway) = RUNNING"
    "gw_pc sample_gateway = LoopTop" "sv_started (gw_server sample_gateway)"
    "\<not> sv_shutdown_finished (gw_server sample_gateway)"
    by (simp_all add: g threads_started_def)
qed

end
