(* ===== verification/Gateway_Lifecycle.thy ===== *)
theory Gateway_Lifecycle
  imports Gateway_System
begin

text \<open>
  The life of the gateway: what a thread changes of the state of the server, the queues, the counters
  of the threads and the wake-up, over an arbitrary interleaving.

  The first part says of every operation of the reactor which part of the state it changes; the
  second part relates the phase of the server to the queues and the threads.
\<close>

section \<open>What the operations of the reactor change\<close>

lemma frame_markNotReady [simp]: "reactor_frame t (markNotReady os s) = reactor_frame t s"
  by (simp add: markNotReady_def sys_setup_def reactor_frame_def split: sysres.split)

lemma frame_closeListener: "reactor_frame (s\<lparr>sv_listen_fd := -1\<rparr>) (closeListener os s)"
  by (simp add: closeListener_def Let_def reactor_frame_def server_close_def server_ctl_def split: prod.split)

lemma drainResponse_cases:
  obtains (empty) "q_data (sv_response_queue s) = []" "drainResponse_step os s = (False, s)"
  | (applied) r rs s' where "q_data (sv_response_queue s) = r # rs" "drainResponse_step os s = (True, s')"
      "reactor_frame (s\<lparr>sv_response_queue := (sv_response_queue s)\<lparr>q_data := rs\<rparr>\<rparr>) s'"
  by (cases "q_data (sv_response_queue s)") (auto simp: drainResponse_step_def bq_tryPop_def)

lemma frame_drainRejected: "reactor_frame (s\<lparr>sv_rejected := []\<rparr>) (drainRejectedResponses os s)"
proof -
  have "reactor_frame t (close_rejected os k s) = reactor_frame t s" for t k s
    by (simp add: close_rejected_def split: option.split)
  then show ?thesis by (simp add: drainRejectedResponses_def frame_fold)
qed

lemma frame_closes [simp]: "reactor_frame t (fold (closeConnection os) fds s) = reactor_frame t s"
  by (simp add: frame_fold)

lemma beginDraining_frame:
  assumes "sv_state s = RUNNING"
  shows "reactor_frame
    (s\<lparr>sv_state := DRAINING, sv_shutdown_deadline := os_now os (io_tick (sv_io s)) + sv_shutdown_timeout s * 1000000,
       sv_listen_fd := -1, sv_request_queue := bq_stop (sv_request_queue s),
       sv_auth_queue := bq_stop (sv_auth_queue s)\<rparr>) (beginDraining os s)"
proof -
  define s1 where "s1 = markNotReady os
    (s\<lparr>sv_state := DRAINING, sv_io := io_step [] (sv_io s),
       sv_shutdown_deadline := os_now os (io_tick (sv_io s)) + sv_shutdown_timeout s * 1000000\<rparr>)"
  define s2 where "s2 = closeListener os s1"
  have f1: "reactor_frame (s\<lparr>sv_state := DRAINING,
      sv_shutdown_deadline := os_now os (io_tick (sv_io s)) + sv_shutdown_timeout s * 1000000\<rparr>) s1"
    by (simp add: s1_def) (simp add: reactor_frame_def)
  have f2: "reactor_frame (s1\<lparr>sv_listen_fd := -1\<rparr>) s2" unfolding s2_def by (rule frame_closeListener)
  have "reactor_frame t (fold (\<lambda>(fd, events) s. snd (modifyConnectionEvents os fd events s)) evs s) =
      reactor_frame t s" for t evs s by (rule frame_fold) (simp split: prod.split)
  then have "reactor_frame (s2\<lparr>sv_request_queue := bq_stop (sv_request_queue s2),
      sv_auth_queue := bq_stop (sv_auth_queue s2)\<rparr>) (beginDraining os s)"
    using assms by (simp add: beginDraining_def server_now_eq Let_def s2_def s1_def)
  with f1 f2 show ?thesis by (simp add: reactor_frame_def)
qed

lemma beginDraining_idle: "sv_state s \<noteq> RUNNING \<Longrightarrow> beginDraining os s = s"
  by (simp add: beginDraining_def)

lemma drain_check_cases:
  obtains (other) "sv_state s \<noteq> DRAINING" "drain_check os s = s"
  | (complete) s1 where "sv_state s = DRAINING" "reactor_frame s s1" "drain_check os s = s1\<lparr>sv_state := STOPPED\<rparr>"
      "sv_connections s1 = []" "sv_response_producers_remaining s = 0" "q_data (sv_request_queue s) = []"
      "q_data (sv_auth_queue s) = []" "q_data (sv_response_queue s) = []" "sv_rejected s = []"
  | (deadline) s1 t where "sv_state s = DRAINING" "reactor_frame s s1" "sv_shutdown_deadline s \<le> os_now os t" "io_tick (sv_io s1) = Suc t"
      "drain_check os s = s1\<lparr>sv_request_queue := snd (bq_abort (sv_request_queue s1)),
         sv_auth_queue := snd (bq_abort (sv_auth_queue s1)),
         sv_response_queue := snd (bq_abort (sv_response_queue s1)), sv_state := STOPPED\<rparr>"
  | (more) w where "sv_state s = DRAINING" "reactor_frame s (drain_check os s)"
      "sv_io (drain_check os s) = io_step [] w" "os_now os (io_tick w) < sv_shutdown_deadline s"
proof (cases "sv_state s = DRAINING")
  case False
  then show thesis by (intro other) (simp_all add: drain_check_def)
next
  case True
  obtain b s1 where dc: "drainComplete os s = (b, s1)" by (rule prod.exhaust)
  then have s1: "reactor_frame s s1"
    by (auto simp: drainComplete_def Let_def split: if_splits)
  show thesis
  proof (cases b)
    case True
    with dc have "sv_connections s1 = []" "sv_response_producers_remaining s = 0" "q_data (sv_request_queue s) = []"
      "q_data (sv_auth_queue s) = []" "q_data (sv_response_queue s) = []" "sv_rejected s = []"
      by (auto simp: drainComplete_def Let_def bq_size_def split: if_splits)
    with True s1 dc \<open>sv_state s = DRAINING\<close> show thesis by (intro complete) (simp_all add: drain_check_def)
  next
    case False
    let ?s2 = "s1\<lparr>sv_io := io_step [] (sv_io s1)\<rparr>"
    have dl: "sv_shutdown_deadline s1 = sv_shutdown_deadline s" "reactor_frame s ?s2"
      using s1 by (simp_all add: reactor_frame_def)
    show thesis
    proof (cases "os_now os (io_tick (sv_io s1)) \<ge> sv_shutdown_deadline s")
      case reached: True
      with False dc dl \<open>sv_state s = DRAINING\<close> show thesis
        by (intro deadline [of ?s2 "io_tick (sv_io s1)"]) (simp_all add: drain_check_def server_now_eq shutdownDeadline_def)
    next
      case before: False
      with False dc dl \<open>sv_state s = DRAINING\<close> have "drain_check os s = ?s2"
        by (simp add: drain_check_def server_now_eq shutdownDeadline_def)
      with before dl \<open>sv_state s = DRAINING\<close> show thesis by (intro more [of "sv_io s1"]) simp_all
    qed
  qed
qed

lemma finishShutdown_begin_frame:
  "reactor_frame (s\<lparr>sv_request_queue := bq_stop (sv_request_queue s), sv_auth_queue := bq_stop (sv_auth_queue s),
     sv_response_queue := bq_stop (sv_response_queue s)\<rparr>) (finishShutdown_begin os s)"
proof -
  have "reactor_frame s (markNotReady os s)" by simp
  then show ?thesis by (simp add: finishShutdown_begin_def Let_def reactor_frame_def)
qed

lemma closeConnection_connections: "sv_connections (closeConnection os fd s) = AList.delete fd (sv_connections s)"
proof (cases "find_conn s fd")
  case None
  then have "fd \<notin> fst ` set (sv_connections s)" by (simp add: map_of_eq_None_iff)
  with None show ?thesis by (simp add: closeConnection_def delete_idem)
next
  case (Some c)
  with closeConnection_core [OF Some, of os] show ?thesis by (simp add: same_core_def conn_removed_def)
qed

lemma closes_connections:
  "sv_connections (fold (closeConnection os) fds s) = filter (\<lambda>(fd, _). fd \<notin> set fds) (sv_connections s)"
  by (induction fds arbitrary: s) (auto simp: closeConnection_connections AList.delete_eq intro: filter_cong)

lemma finishShutdown_end_result:
  fixes s os
  defines "s' \<equiv> finishShutdown_end os s"
  shows "sv_connections s' = []" "sv_listen_fd s' = -1" "rn_fd (sv_notifier s') = -1" "sv_epfd s' = -1"
    "\<not> sv_instance s'" "sv_state s' = STOPPED" "sv_shutdown_finished s'"
    "sv_request_queue s' = sv_request_queue s" "sv_auth_queue s' = sv_auth_queue s"
    "sv_response_queue s' = sv_response_queue s" "sv_started s' = sv_started s"
    "sv_response_producers_remaining s' = sv_response_producers_remaining s"
    "sv_auth_in_flight s' = sv_auth_in_flight s" "sv_rejected s' = sv_rejected s"
    "sv_control_plane s' = sv_control_plane s"
proof -
  define s1 where "s1 = fold (closeConnection os) (map fst (sv_connections s)) s"
  define s2 where "s2 = closeListener os s1"
  have "sv_connections s1 = []"
    by (force simp: s1_def closes_connections filter_empty_conv)
  moreover have "same_core s1 s2" by (simp add: s2_def)
  ultimately have c: "sv_connections s2 = []" by (simp add: same_core_def)
  have "reactor_frame s s1" by (simp add: s1_def)
  moreover have "reactor_frame (s1\<lparr>sv_listen_fd := -1\<rparr>) s2" unfolding s2_def by (rule frame_closeListener)
  ultimately have f: "reactor_frame (s\<lparr>sv_listen_fd := -1\<rparr>) s2" by (simp add: reactor_frame_def)
  have s': "s' = (let s3 = (case notifier_close (sv_notifier s2) (sv_io s2) of
                     (n, w) \<Rightarrow> s2\<lparr>sv_notifier := n, sv_io := w\<rparr>);
          s4 = (if sv_epfd s3 \<noteq> -1 then (server_close (sv_epfd s3) s3)\<lparr>sv_epfd := -1\<rparr> else s3)
      in s4\<lparr>sv_instance := False, sv_state := STOPPED, sv_shutdown_finished := True\<rparr>)"
    by (simp add: s'_def finishShutdown_end_def s1_def s2_def Let_def)
  show "sv_connections s' = []" "sv_listen_fd s' = -1" "rn_fd (sv_notifier s') = -1" "sv_epfd s' = -1"
    "\<not> sv_instance s'" "sv_state s' = STOPPED" "sv_shutdown_finished s'"
    "sv_request_queue s' = sv_request_queue s" "sv_auth_queue s' = sv_auth_queue s"
    "sv_response_queue s' = sv_response_queue s" "sv_started s' = sv_started s"
    "sv_response_producers_remaining s' = sv_response_producers_remaining s"
    "sv_auth_in_flight s' = sv_auth_in_flight s" "sv_rejected s' = sv_rejected s"
    "sv_control_plane s' = sv_control_plane s"
    using c f by (simp_all add: s' Let_def notifier_close_def server_close_def reactor_frame_def)
qed

section \<open>Control\<close>

text \<open>The part of the state of the server that the life of the threads depends on.\<close>

record control =
  ct_state :: ServerState
  ct_requests_stopped :: bool
  ct_auth_stopped :: bool
  ct_responses_stopped :: bool
  ct_remaining :: nat
  ct_auth_in_flight :: nat
  ct_started :: bool
  ct_finished :: bool
  ct_notifier :: int
  ct_instance :: bool
  ct_control_plane :: ControlPlaneClient

definition control_of :: "TcpServer \<Rightarrow> control" where
  "control_of s =
     \<lparr>ct_state = sv_state s, ct_requests_stopped = q_stopped (sv_request_queue s),
      ct_auth_stopped = q_stopped (sv_auth_queue s), ct_responses_stopped = q_stopped (sv_response_queue s),
      ct_remaining = sv_response_producers_remaining s, ct_auth_in_flight = sv_auth_in_flight s,
      ct_started = sv_started s, ct_finished = sv_shutdown_finished s,
      ct_notifier = rn_fd (sv_notifier s), ct_instance = sv_instance s, ct_control_plane = sv_control_plane s\<rparr>"

lemma control_frame: "reactor_frame s s' \<Longrightarrow> control_of s' = control_of s"
  by (simp add: reactor_frame_def control_of_def)

lemma control_keeps: "keeps_ok s s' \<Longrightarrow> control_of s' = control_of s"
  by (simp add: keeps_ok_def event_frame_def handler_frame_def reactor_frame_def control_of_def)

lemma control_notify: "server_notify os s = Some s' \<Longrightarrow> control_of s' = control_of s"
proof -
  assume "server_notify os s = Some s'"
  then obtain b n w where n: "notify os (sv_notifier s) (sv_io s) = Some (b, n, w)"
    and s': "s' = s\<lparr>sv_notifier := n, sv_io := w\<rparr>" by (auto simp: server_notify_def)
  from notify_effect [OF n] have "rn_fd n = rn_fd (sv_notifier s)" by auto
  with s' show ?thesis by (simp add: control_of_def)
qed

lemma control_simps [simp]:
  "control_of (s\<lparr>sv_stats := x1\<rparr>) = control_of s"
  "control_of (s\<lparr>sv_log_storage := x2\<rparr>) = control_of s"
  "control_of (s\<lparr>sv_io := x3\<rparr>) = control_of s"
  "control_of (s\<lparr>sv_rejected := x4\<rparr>) = control_of s"
  "control_of (s\<lparr>sv_logger := x5\<rparr>) = control_of s"
  "control_of (s\<lparr>sv_runtime_config := x6\<rparr>) = control_of s"
  "control_of (s\<lparr>sv_stop_requested := x7\<rparr>) = control_of s"
  "control_of (s\<lparr>sv_signal_stop_requested := x8\<rparr>) = control_of s"
  "control_of (count_stat f s) = control_of s"
  by (simp_all add: control_of_def count_stat_def)

lemma control_push: "control_of (snd (enqueue_push r p s)) = control_of s"
proof -
  obtain x q where push: "bq_push r (sv_response_queue s) = (x, q)" by (rule prod.exhaust)
  then have "q_stopped q = q_stopped (sv_response_queue s)"
    using bq.push_frame(2) [of r "sv_response_queue s"] by simp
  then have "control_of (s\<lparr>sv_response_queue := q\<rparr>) = control_of s" by (simp add: control_of_def)
  then show ?thesis using push by (simp add: enqueue_push_def Let_def split: PushResult.split)
qed

lemma control_workers:
  "control_of (normal_worker_respond parse time_text write_ok r s) = control_of s"
  "auth_worker_start os s = (started_at, not_after, s') \<Longrightarrow>
     control_of s' = (control_of s)\<lparr>ct_auth_in_flight := Suc (sv_auth_in_flight s)\<rparr>"
  "auth_worker_respond parse os t started_at not_after s = Some (outcome, resp, s') \<Longrightarrow> control_of s' = control_of s"
  "auth_worker_done os s = Some s' \<Longrightarrow>
     control_of s' = (control_of s)\<lparr>ct_auth_in_flight := sv_auth_in_flight s - 1\<rparr>"
  "onResponseProducerExited os s = Some s' \<Longrightarrow>
     control_of s' = (control_of s)\<lparr>ct_remaining := sv_response_producers_remaining s - 1,
       ct_responses_stopped := (sv_response_producers_remaining s = 1 \<or> q_stopped (sv_response_queue s))\<rparr>"
  "configPuller_round level_env parse os w s = Some (Inr s') \<Longrightarrow> control_of s' = control_of s"
  "staticSignalHandler os s = Some s' \<Longrightarrow> control_of s' = control_of s"
  "sv_started s \<Longrightarrow> stop_server os s = Some s' \<Longrightarrow> control_of s' = control_of s"
proof -
  show "control_of (normal_worker_respond parse time_text write_ok r s) = control_of s"
    by (simp add: normal_worker_respond_def Let_def control_push split: prod.split sum.split)
  show "control_of s' = (control_of s)\<lparr>ct_auth_in_flight := Suc (sv_auth_in_flight s)\<rparr>"
    if "auth_worker_start os s = (started_at, not_after, s')"
    using that by (auto simp: auth_worker_start_def server_now_eq Let_def count_stat_def control_of_def)
  show "control_of s' = control_of s"
    if "auth_worker_respond parse os t started_at not_after s = Some (outcome, resp, s')"
    using that by (cases rule: auth_worker_respond_eq) (simp add: control_push control_frame)
  show "control_of s' = (control_of s)\<lparr>ct_auth_in_flight := sv_auth_in_flight s - 1\<rparr>"
    if "auth_worker_done os s = Some s'"
    using that control_notify [of os s] by (auto simp: auth_worker_done_def) (auto simp: control_of_def)
  show "control_of s' = (control_of s)\<lparr>ct_remaining := sv_response_producers_remaining s - 1,
       ct_responses_stopped := (sv_response_producers_remaining s = 1 \<or> q_stopped (sv_response_queue s))\<rparr>"
    if "onResponseProducerExited os s = Some s'"
    using that by (cases rule: exited_cases) (auto dest!: control_notify simp: control_of_def bq_stop_abort)
  show "control_of s' = control_of s" if "configPuller_round level_env parse os w s = Some (Inr s')"
    using that by (auto simp: configPuller_round_def split: option.splits sum.splits prod.splits bool.splits)
  show "control_of s' = control_of s" if "staticSignalHandler os s = Some s'"
    using that by (auto simp: staticSignalHandler_def Let_def dest!: control_notify split: if_splits)
  show "control_of s' = control_of s" if "sv_started s" "stop_server os s = Some s'"
    using that by (auto simp: stop_server_def dest!: control_notify split: if_splits)
qed

section \<open>Phases\<close>

text \<open>
  The phase of the server against its queues and threads.  The queues of requests and authentication
  tasks are stopped when the server does not serve any more; the queue of responses when the last
  worker has gone or the server has stopped.  A worker counts as a producer until it has gone.
\<close>

definition life_core :: "control \<Rightarrow> reactor_pc \<Rightarrow> nat \<Rightarrow> nat \<Rightarrow> bool \<Rightarrow> bool" where
  "life_core c pc workers authenticating puller_gone \<longleftrightarrow>
     ct_started c \<and> ct_remaining c = workers \<and> ct_auth_in_flight c = authenticating \<and>
     (ct_notifier c = -1 \<longleftrightarrow> pc = Exited) \<and> (ct_finished c \<longleftrightarrow> pc = Exited) \<and>
     (ct_instance c \<longleftrightarrow> pc \<noteq> Exited) \<and>
     (ct_requests_stopped c \<longleftrightarrow> ct_state c \<noteq> RUNNING) \<and> (ct_auth_stopped c \<longleftrightarrow> ct_state c \<noteq> RUNNING) \<and>
     (workers = 0 \<longrightarrow> ct_responses_stopped c) \<and>
     (ct_responses_stopped c \<longrightarrow> workers = 0 \<or> ct_state c = STOPPED) \<and>
     (pc = Joining \<or> pc = Exited \<longrightarrow> ct_state c = STOPPED \<and> ct_responses_stopped c) \<and>
     (ct_state c = RUNNING \<longrightarrow> \<not> puller_gone) \<and>
     (pc = Exited \<longrightarrow> workers = 0 \<and> puller_gone)"

definition authenticating :: "gateway \<Rightarrow> nat" where
  "authenticating g = length (gw_auth_running g) + gw_auth_waking g"

definition released :: "TcpServer \<Rightarrow> bool" where
  "released s \<longleftrightarrow> sv_connections s = [] \<and> sv_listen_fd s = -1 \<and> sv_epfd s = -1 \<and>
     rn_fd (sv_notifier s) = -1 \<and> \<not> sv_instance s"

definition life_ok :: "gateway \<Rightarrow> bool" where
  "life_ok g \<longleftrightarrow>
     life_core (control_of (gw_server g)) (gw_pc g) (producers g) (authenticating g) (gw_puller g = PullerGone) \<and>
     (gw_pc g = Exited \<longrightarrow> released (gw_server g))"

text \<open>How the reactor leaves the loop.\<close>

lemma reactor_stays:
  assumes "reactor_step os pc s = Some (pc', s')" and "pc \<noteq> Joining" and "pc = LoopTop \<longrightarrow> sv_state s \<noteq> STOPPED"
  shows "pc' \<noteq> Joining \<and> pc' \<noteq> Exited"
proof (cases pc)
  case LoopTop
  with assms(3) obtain t x where "loop_top os s = (Waiting t, x)"
    by (simp add: loop_top_def Let_def case_prod_beta)
  with assms LoopTop show ?thesis by auto
next
  case (Waiting t)
  have "fst (loop_wait os t s) = LoopTop \<or> (\<exists>es. fst (loop_wait os t s) = Handling es)"
    by (simp add: loop_wait_def Let_def split: prod.split sysres.split)
  with assms(1) Waiting show ?thesis by auto
next
  case (Handling es)
  with assms(1) show ?thesis by (cases es) auto
next
  case DrainResponses
  with assms(1) show ?thesis by (cases "fst (drainResponse_step os s)") (auto split: prod.splits)
qed (use assms(1,2) in simp_all)

lemma reactor_leaves:
  assumes "reactor_step os pc s = Some (pc', s')"
  shows "pc' = Joining \<Longrightarrow> pc = LoopTop \<and> sv_state s = STOPPED \<and> s' = finishShutdown_begin os s"
    and "pc' = Exited \<Longrightarrow> pc = Joining \<and> s' = finishShutdown_end os s"
    and "pc = Joining \<Longrightarrow> pc' = Exited"
proof -
  show "pc = LoopTop \<and> sv_state s = STOPPED \<and> s' = finishShutdown_begin os s" if "pc' = Joining"
  proof -
    from that reactor_stays [OF assms] assms have "pc = LoopTop \<and> sv_state s = STOPPED" by (cases "pc = Joining") auto
    with assms show ?thesis by (simp add: loop_top_def)
  qed
  show "pc = Joining \<and> s' = finishShutdown_end os s" if "pc' = Exited"
  proof -
    have "pc = Joining"
    proof (rule ccontr)
      assume "pc \<noteq> Joining"
      with that reactor_stays [OF assms] have "pc = LoopTop" "sv_state s = STOPPED" by auto
      with assms that show False by (simp add: loop_top_def)
    qed
    with assms show ?thesis by simp
  qed
  show "pc' = Exited" if "pc = Joining" using assms that by simp
qed

text \<open>What a step inside the loop does to the control state.\<close>

definition control_step :: "control \<Rightarrow> control \<Rightarrow> bool" where
  "control_step c c' \<longleftrightarrow>
     c' = c \<or>
     ct_state c = RUNNING \<and> c' = c\<lparr>ct_state := DRAINING, ct_requests_stopped := True, ct_auth_stopped := True\<rparr> \<or>
     ct_state c = DRAINING \<and> ct_remaining c = 0 \<and> c' = c\<lparr>ct_state := STOPPED\<rparr> \<or>
     ct_state c = DRAINING \<and> c' = c\<lparr>ct_state := STOPPED, ct_requests_stopped := True, ct_auth_stopped := True,
       ct_responses_stopped := True\<rparr>"

lemma control_step_state:
  assumes "control_step c c'"
  shows "ct_state c' = ct_state c \<or> ct_state c = RUNNING \<and> ct_state c' = DRAINING \<or>
    ct_state c = DRAINING \<and> ct_state c' = STOPPED"
    and "ct_control_plane c' = ct_control_plane c"
  using assms unfolding control_step_def by (elim disjE conjE; simp)+

lemma control_refl [simp]: "control_step c c"
  by (simp add: control_step_def)

lemma control_beginDraining: "control_step (control_of s) (control_of (beginDraining os s))"
proof (cases "sv_state s = RUNNING")
  case True
  from control_frame [OF beginDraining_frame [OF True, of os]] True show ?thesis
    by (simp add: control_step_def control_of_def bq_stop_abort)
qed (simp add: beginDraining_idle)

lemma control_drain_check: "control_step (control_of s) (control_of (drain_check os s))"
proof (cases rule: drain_check_cases [of s os])
  case (complete s1)
  from control_frame [OF complete(2)] complete(1,3,5) show ?thesis by (simp add: control_step_def control_of_def)
next
  case (deadline s1 t)
  from control_frame [OF deadline(2)] deadline(1,5) show ?thesis
    by (simp add: control_step_def control_of_def bq_stop_abort)
qed (simp_all add: control_frame)

lemma control_drainResponse: "drainResponse_step os s = (b, s') \<Longrightarrow> control_of s' = control_of s"
proof (cases rule: drainResponse_cases [of s os])
  case (applied r rs s1)
  assume "drainResponse_step os s = (b, s')"
  with control_frame [OF applied(3)] applied(2) show ?thesis by (simp add: control_of_def)
qed simp

lemma control_handle_event:
  assumes "handle_event os e s = Some s'" and "os_transfer_ok os"
  shows "control_of s' = control_of s"
  using assms
proof (cases rule: handle_event_cases)
  case (woken b n w)
  from consume_effect [OF woken(2)] have "rn_fd n = rn_fd (sv_notifier s)" by auto
  with woken(3) show ?thesis by (simp add: control_of_def)
qed (simp add: control_keeps)

lemma control_reactor:
  assumes run: "reactor_step os pc s = Some (pc', s')" and os: "os_transfer_ok os" and loop: "pc' \<noteq> Joining" "pc' \<noteq> Exited"
  shows "control_step (control_of s) (control_of s')"
proof (cases pc)
  case LoopTop
  with run loop control_beginDraining [of s os] show ?thesis
    by (auto simp: loop_top_def epollTimeoutMs_def server_now_eq Let_def split: if_splits)
next
  case (Waiting t)
  with run control_beginDraining [of "s\<lparr>sv_io := io_step [] (sv_io s)\<rparr>" os] show ?thesis
    by (auto simp: loop_wait_def sys_epoll_wait_def Let_def split: if_splits sysres.splits)
next
  case (Handling es)
  with run control_handle_event [OF _ os] show ?thesis by (cases es) auto
next
  case DrainResponses
  with run control_drainResponse [of os s] show ?thesis by (auto split: prod.splits bool.splits)
next
  case DrainRejected
  with run control_frame [OF frame_drainRejected [of s os]] show ?thesis by simp
next
  case DrainCheck
  with run control_drain_check [of s os] show ?thesis by simp
next
  case Joining
  with run loop show ?thesis by auto
qed (use run in auto)

text \<open>The invariant of the life of the gateway, step by step.\<close>

lemma control_sels:
  "ct_state (control_of s) = sv_state s" "ct_remaining (control_of s) = sv_response_producers_remaining s"
  "ct_auth_in_flight (control_of s) = sv_auth_in_flight s" "ct_started (control_of s) = sv_started s"
  "ct_requests_stopped (control_of s) = q_stopped (sv_request_queue s)"
  "ct_auth_stopped (control_of s) = q_stopped (sv_auth_queue s)"
  "ct_responses_stopped (control_of s) = q_stopped (sv_response_queue s)"
  "ct_finished (control_of s) = sv_shutdown_finished s" "ct_notifier (control_of s) = rn_fd (sv_notifier s)"
  "ct_instance (control_of s) = sv_instance s" "ct_control_plane (control_of s) = sv_control_plane s"
  by (simp_all add: control_of_def)

lemma life_core_step:
  assumes "life_core c pc n a b" and "control_step c c'" and "pc \<noteq> Exited" "pc' \<noteq> Joining" "pc' \<noteq> Exited"
  shows "life_core c' pc' n a b"
  using assms unfolding life_core_def control_step_def by (elim disjE conjE) simp_all

lemma life_core_leave:
  assumes "life_core c pc (Suc n) a b" and "ct_requests_stopped c \<or> ct_auth_stopped c"
    and "c' = c\<lparr>ct_remaining := ct_remaining c - 1,
       ct_responses_stopped := (ct_remaining c = 1 \<or> ct_responses_stopped c)\<rparr>"
  shows "life_core c' pc n a b"
  using assms by (auto simp: life_core_def)

lemma life_core_auth:
  "life_core c pc n a b \<Longrightarrow> life_core (c\<lparr>ct_auth_in_flight := a'\<rparr>) pc n a' b"
  by (simp add: life_core_def)

lemma life_ok_reactor:
  assumes run: "reactor_step os (gw_pc g) (gw_server g) = Some (pc', s')"
    and join: "gw_pc g = Joining \<longrightarrow> threads_gone g" and os: "os_transfer_ok os" and ok: "life_ok g"
  shows "life_ok (g\<lparr>gw_pc := pc', gw_server := s'\<rparr>)"
proof -
  let ?g = "g\<lparr>gw_pc := pc', gw_server := s'\<rparr>"
  let ?c = "control_of (gw_server g)"
  have same: "producers (g\<lparr>gw_pc := pc, gw_server := s\<rparr>) = producers g"
      "authenticating (g\<lparr>gw_pc := pc, gw_server := s\<rparr>) = authenticating g" for pc s
    by (simp_all add: producers_def authenticating_def)
  from ok have core: "life_core ?c (gw_pc g) (producers g) (authenticating g) (gw_puller g = PullerGone)"
    by (simp add: life_ok_def)
  have "gw_pc g \<noteq> Exited" using run by auto
  consider (loop) "pc' \<noteq> Joining" "pc' \<noteq> Exited" | (join) "pc' = Joining" | (exit) "pc' = Exited" by blast
  then show ?thesis
  proof cases
    case loop
    from life_core_step [OF core control_reactor [OF run os loop] \<open>gw_pc g \<noteq> Exited\<close> loop] loop show ?thesis
      by (simp add: life_ok_def same)
  next
    case join
    with reactor_leaves(1) [OF run] have pc: "gw_pc g = LoopTop" "sv_state (gw_server g) = STOPPED"
      "s' = finishShutdown_begin os (gw_server g)" by simp_all
    have "control_of s' = ?c\<lparr>ct_requests_stopped := True, ct_auth_stopped := True, ct_responses_stopped := True\<rparr>"
      using control_frame [OF finishShutdown_begin_frame [of "gw_server g" os]] pc(3)
      by (simp add: control_of_def bq_stop_abort)
    with core pc(1,2) join show ?thesis by (simp add: life_ok_def life_core_def same control_sels)
  next
    case exit
    with reactor_leaves(2) [OF run] have pc: "gw_pc g = Joining" "s' = finishShutdown_end os (gw_server g)" by simp_all
    then have "control_of s' = ?c\<lparr>ct_notifier := -1, ct_finished := True, ct_state := STOPPED,
        ct_instance := False\<rparr>" "released s'"
      by (simp_all add: control_of_def released_def finishShutdown_end_result)
    with core join exit pc(1) show ?thesis by (simp add: life_ok_def life_core_def same threads_gone_def)
  qed
qed

text \<open>A step of another thread, as long as there is one.\<close>

lemma life_ok_thread:
  assumes ok: "life_ok g"
    and core: "life_core (control_of (gw_server g)) (gw_pc g) (producers g) (authenticating g) (gw_puller g = PullerGone) \<Longrightarrow>
      life_core (control_of (gw_server g')) (gw_pc g) (producers g') (authenticating g') (gw_puller g' = PullerGone)"
    and pc: "gw_pc g' = gw_pc g" and alive: "0 < producers g \<or> gw_puller g \<noteq> PullerGone"
  shows "life_ok g'"
proof -
  from ok alive have "gw_pc g \<noteq> Exited" by (auto simp: life_ok_def life_core_def)
  with ok core pc show ?thesis by (simp add: life_ok_def)
qed

lemma life_ok_same:
  assumes "life_ok g" and "control_of (gw_server g') = control_of (gw_server g)" and "producers g' = producers g"
    and "authenticating g' = authenticating g" and "gw_puller g' = PullerGone \<longleftrightarrow> gw_puller g = PullerGone"
    and "gw_pc g' = gw_pc g" and "0 < producers g \<or> gw_puller g \<noteq> PullerGone"
  shows "life_ok g'"
  using assms by (intro life_ok_thread [OF assms(1)]) simp_all

lemmas thread_counts = producers_def authenticating_def

lemma gateway_step_life:
  assumes "gateway_step parse level_env os a g g'" and os: "os_transfer_ok os" and ok: "life_ok g"
  shows "life_ok g'"
  using assms(1) ok
proof (induction rule: gateway_step.induct)
  case (reactor g pc' s')
  then show ?case using life_ok_reactor os by blast
next
  case (take g n r q)
  then have "q_stopped q = q_stopped (sv_request_queue (gw_server g))"
    using bq.pop_frame(2) [of "sv_request_queue (gw_server g)"] by simp
  with take(1,2) show ?case by (intro life_ok_same [OF take(3)]) (simp_all add: control_of_def thread_counts)
next
  case (respond g rs r rs' time_text write_ok)
  then show ?case by (intro life_ok_same [OF respond(2)]) (simp_all add: control_workers thread_counts)
next
  case (wake g n s')
  then show ?case by (intro life_ok_same [OF wake(3)]) (simp_all add: control_notify thread_counts)
next
  case (leave g n q s')
  then have s': "onResponseProducerExited os (gw_server g) = Some s'" "q_stopped (sv_request_queue (gw_server g))"
    by (simp_all add: pop_false)
  show ?case
  proof (rule life_ok_thread [OF leave(4)])
    have p: "producers g = Suc (producers (g\<lparr>gw_idle := n, gw_server := s'\<rparr>))"
      "authenticating (g\<lparr>gw_idle := n, gw_server := s'\<rparr>) = authenticating g"
      using leave(1) by (simp_all add: thread_counts)
    then show "0 < producers g \<or> gw_puller g \<noteq> PullerGone" by simp
    assume "life_core (control_of (gw_server g)) (gw_pc g) (producers g) (authenticating g) (gw_puller g = PullerGone)"
    from life_core_leave [OF this [unfolded p], of "control_of s'"] s'(2) control_workers(5) [OF s'(1)] p(2)
    show "life_core (control_of (gw_server (g\<lparr>gw_idle := n, gw_server := s'\<rparr>))) (gw_pc g)
       (producers (g\<lparr>gw_idle := n, gw_server := s'\<rparr>)) (authenticating (g\<lparr>gw_idle := n, gw_server := s'\<rparr>))
       (gw_puller (g\<lparr>gw_idle := n, gw_server := s'\<rparr>) = PullerGone)"
      by (simp add: control_sels)
  qed simp
next
  case (auth_take g n t q)
  then have "q_stopped q = q_stopped (sv_auth_queue (gw_server g))"
    using bq.pop_frame(2) [of "sv_auth_queue (gw_server g)"] by simp
  with auth_take(1,2) show ?case by (intro life_ok_same [OF auth_take(3)]) (simp_all add: control_of_def thread_counts)
next
  case (auth_skip g ts t ts')
  then show ?case by (intro life_ok_same [OF auth_skip(3)]) (simp_all add: thread_counts)
next
  case (auth_begin g ts t ts' started_at not_after s')
  have "sv_auth_in_flight (gw_server g) = authenticating g"
    using auth_begin(4) by (simp add: life_ok_def life_core_def control_sels)
  with auth_begin control_workers(2) [OF auth_begin(3)] show ?case
    by (intro life_ok_thread [OF auth_begin(4)]) (simp_all add: thread_counts life_core_auth)
next
  case (auth_respond g ts t started_at not_after ts' outcome response s')
  then show ?case
    by (intro life_ok_same [OF auth_respond(3)]) (simp_all add: control_workers(3) [OF auth_respond(2)] thread_counts)
next
  case (auth_wake g n s')
  have "sv_auth_in_flight (gw_server g) = authenticating g"
    using auth_wake(3) by (simp add: life_ok_def life_core_def control_sels)
  with auth_wake control_workers(4) [OF auth_wake(2)] show ?case
    by (intro life_ok_thread [OF auth_wake(3)]) (simp_all add: thread_counts life_core_auth)
next
  case (auth_leave g n q s')
  then have s': "onResponseProducerExited os (gw_server g) = Some s'" "q_stopped (sv_auth_queue (gw_server g))"
    by (simp_all add: pop_false)
  show ?case
  proof (rule life_ok_thread [OF auth_leave(4)])
    have p: "producers g = Suc (producers (g\<lparr>gw_auth_idle := n, gw_server := s'\<rparr>))"
      "authenticating (g\<lparr>gw_auth_idle := n, gw_server := s'\<rparr>) = authenticating g"
      using auth_leave(1) by (simp_all add: thread_counts)
    then show "0 < producers g \<or> gw_puller g \<noteq> PullerGone" by simp
    assume "life_core (control_of (gw_server g)) (gw_pc g) (producers g) (authenticating g) (gw_puller g = PullerGone)"
    from life_core_leave [OF this [unfolded p], of "control_of s'"] s'(2) control_workers(5) [OF s'(1)] p(2)
    show "life_core (control_of (gw_server (g\<lparr>gw_auth_idle := n, gw_server := s'\<rparr>))) (gw_pc g)
       (producers (g\<lparr>gw_auth_idle := n, gw_server := s'\<rparr>)) (authenticating (g\<lparr>gw_auth_idle := n, gw_server := s'\<rparr>))
       (gw_puller (g\<lparr>gw_auth_idle := n, gw_server := s'\<rparr>) = PullerGone)"
      by (simp add: control_sels)
  qed simp
next
  case (fetch g)
  then show ?case by (intro life_ok_same [OF fetch(3)]) (simp_all add: thread_counts)
next
  case (fetched g w s')
  then show ?case
    by (intro life_ok_same [OF fetched(3)]) (simp_all add: control_workers(6) [OF fetched(2)] thread_counts)
next
  case (puller_leave g)
  then show ?case
    by (intro life_ok_thread [OF puller_leave(3)]) (simp_all add: thread_counts life_core_def control_sels)
next
  case (stop g s')
  then have "sv_started (gw_server g)" by (simp add: life_ok_def life_core_def control_sels)
  from control_workers(8) [OF this stop(1)] this stop show ?case
    by (auto simp: life_ok_def thread_counts released_def stop_server_def life_core_def control_sels split: if_splits)
next
  case (signal g s')
  then have "released (gw_server g) \<longrightarrow> released s'"
    by (auto simp: staticSignalHandler_def Let_def released_def)
  with control_workers(7) [OF signal(1)] signal(2) show ?case
    by (simp add: life_ok_def thread_counts)
qed

lemma gateway_start_life:
  assumes "gateway_started os g"
  shows "life_ok g"
proof -
  from assms obtain port host cport rcap pcap sms workers token tms aworkers acap store s hc where
    new: "TcpServer_new port host cport rcap pcap sms workers token tms aworkers acap store = Inr s"
    and start: "gateway_start os hc s = Inr g" by (rule gateway_startedE)
  note new = TcpServer_new_result [OF new]
  from start obtain n s1 where run: "start_server os hc s = Inr (n, s1)"
    and g: "g = threads_started n s1"
    by (auto simp: gateway_start_def split: sum.splits)
  have "control_of s1 = \<lparr>ct_state = RUNNING, ct_requests_stopped = False, ct_auth_stopped = False,
      ct_responses_stopped = False, ct_remaining = n + aworkers, ct_auth_in_flight = 0, ct_started = True,
      ct_finished = False, ct_notifier = rn_fd (sv_notifier s1), ct_instance = True,
      ct_control_plane = sv_control_plane s\<rparr> \<and> rn_fd (sv_notifier s1) \<noteq> -1 \<and>
    sv_configured_auth_worker_count s1 = aworkers"
    using run new(3)
  proof (rule start_server_result)
    fix listen epfd nt w r
    assume s1: "s1 = s\<lparr>sv_started := True, sv_shutdown_finished := False, sv_listen_fd := listen, sv_epfd := epfd,
       sv_notifier := nt, sv_instance := True, sv_signal_stop_requested := False, sv_state := RUNNING,
       sv_io := w, sv_ready := r, sv_response_producers_remaining := n + sv_configured_auth_worker_count s\<rparr>"
      and nt: "rn_fd nt \<noteq> -1"
    show ?thesis unfolding s1 by (simp add: control_of_def new nt)
  qed
  with new(13) show ?thesis by (simp add: g threads_started_def life_ok_def life_core_def thread_counts)
qed

interpretation gw_life: step_invariant "reachable parse level_env os" "gateway_started os" "gateway_moves parse level_env os"
  "\<lambda>g. os_transfer_ok os \<longrightarrow> life_ok g"
  for parse level_env os
  by unfold_locales (auto intro: gateway_start_life gateway_step_life)

lemma reachable_life:
  assumes "reachable parse level_env os g" and "os_transfer_ok os"
  shows "life_ok g"
  using gw_life.inv_reach [OF assms(1)] assms(2) by blast

section \<open>The abstract life of the gateway\<close>

text \<open>
  The specification the threads refine: a phase that only moves forward, the number of workers and
  whether the puller is alive.  A thread leaves only when the gateway does not serve any more, and the
  gateway is finished only when all of them have left.
\<close>

datatype phase = Serving | Draining | Stopping | JoiningThreads | Finished

text \<open>The order in which the phases follow each other.\<close>

primrec phase_rank :: "phase \<Rightarrow> nat" where
  "phase_rank Serving = 0"
| "phase_rank Draining = 1"
| "phase_rank Stopping = 2"
| "phase_rank JoiningThreads = 3"
| "phase_rank Finished = 4"

lemma phase_rank_eq: "phase_rank p = phase_rank q \<Longrightarrow> p = q"
  by (cases p; cases q) simp_all

instantiation phase :: linorder
begin
definition less_eq_phase :: "phase \<Rightarrow> phase \<Rightarrow> bool" where
  "less_eq_phase p q \<longleftrightarrow> phase_rank p \<le> phase_rank q"
definition less_phase :: "phase \<Rightarrow> phase \<Rightarrow> bool" where
  "less_phase p q \<longleftrightarrow> phase_rank p < phase_rank q"
instance
  by standard (auto simp: less_eq_phase_def less_phase_def intro: phase_rank_eq)
end

record lifecycle =
  lc_phase :: phase
  lc_workers :: nat
  lc_puller :: bool

inductive lifecycle_step :: "actor \<Rightarrow> lifecycle \<Rightarrow> lifecycle \<Rightarrow> bool" where
  stay: "lifecycle_step a l l"
| drain: "lc_phase l = Serving \<Longrightarrow> lifecycle_step Reactor l (l\<lparr>lc_phase := Draining\<rparr>)"
| drained: "lc_phase l = Draining \<Longrightarrow> lifecycle_step Reactor l (l\<lparr>lc_phase := Stopping\<rparr>)"
| join_threads: "lc_phase l = Stopping \<Longrightarrow> lifecycle_step Reactor l (l\<lparr>lc_phase := JoiningThreads\<rparr>)"
| finish: "lc_phase l = JoiningThreads \<Longrightarrow> lc_workers l = 0 \<Longrightarrow> \<not> lc_puller l \<Longrightarrow>
    lifecycle_step Reactor l (l\<lparr>lc_phase := Finished\<rparr>)"
| worker_leaves: "lc_phase l \<noteq> Serving \<Longrightarrow> lc_workers l = Suc n \<Longrightarrow> a = NormalThread \<or> a = AuthThread \<Longrightarrow>
    lifecycle_step a l (l\<lparr>lc_workers := n\<rparr>)"
| puller_leaves: "lc_phase l \<noteq> Serving \<Longrightarrow> lc_puller l \<Longrightarrow> lifecycle_step PullerThread l (l\<lparr>lc_puller := False\<rparr>)"

definition phase_of :: "reactor_pc \<Rightarrow> ServerState \<Rightarrow> phase" where
  "phase_of pc state =
     (if pc = Exited then Finished else if pc = Joining then JoiningThreads
      else case state of RUNNING \<Rightarrow> Serving | DRAINING \<Rightarrow> Draining | STOPPED \<Rightarrow> Stopping)"

definition lifecycle_of :: "gateway \<Rightarrow> lifecycle" where
  "lifecycle_of g =
     \<lparr>lc_phase = phase_of (gw_pc g) (sv_state (gw_server g)), lc_workers = producers g,
      lc_puller = (gw_puller g \<noteq> PullerGone)\<rparr>"

lemma lifecycle_reactor:
  assumes run: "reactor_step os (gw_pc g) (gw_server g) = Some (pc', s')"
    and join: "gw_pc g = Joining \<longrightarrow> threads_gone g" and os: "os_transfer_ok os"
  shows "lifecycle_step Reactor (lifecycle_of g) (lifecycle_of (g\<lparr>gw_pc := pc', gw_server := s'\<rparr>))"
proof -
  let ?l = "lifecycle_of g"
  have l': "lifecycle_of (g\<lparr>gw_pc := pc', gw_server := s'\<rparr>) = ?l\<lparr>lc_phase := phase_of pc' (sv_state s')\<rparr>"
    by (simp add: lifecycle_of_def producers_def)
  have ph: "lc_phase ?l = phase_of (gw_pc g) (sv_state (gw_server g))" by (simp add: lifecycle_of_def)
  have "gw_pc g \<noteq> Exited" using run by auto
  consider (loop) "pc' \<noteq> Joining" "pc' \<noteq> Exited" | (join) "pc' = Joining" | (exit) "pc' = Exited" by blast
  then show ?thesis
  proof cases
    case loop
    with reactor_leaves(3) [OF run] have "gw_pc g \<noteq> Joining" by blast
    from control_step_state(1) [OF control_reactor [OF run os loop]] have "sv_state s' = sv_state (gw_server g) \<or> sv_state (gw_server g) = RUNNING \<and> sv_state s' = DRAINING \<or>
        sv_state (gw_server g) = DRAINING \<and> sv_state s' = STOPPED"
      by (simp add: control_sels)
    then show ?thesis
    proof (elim disjE conjE)
      assume "sv_state s' = sv_state (gw_server g)"
      with loop \<open>gw_pc g \<noteq> Exited\<close> \<open>gw_pc g \<noteq> Joining\<close> have "phase_of pc' (sv_state s') = lc_phase ?l"
        by (simp add: ph phase_of_def)
      with l' show ?thesis by (simp add: lifecycle_step.stay)
    next
      assume "sv_state (gw_server g) = RUNNING" "sv_state s' = DRAINING"
      with loop \<open>gw_pc g \<noteq> Exited\<close> \<open>gw_pc g \<noteq> Joining\<close> show ?thesis
        unfolding l' by (simp add: phase_of_def lifecycle_step.drain ph)
    next
      assume "sv_state (gw_server g) = DRAINING" "sv_state s' = STOPPED"
      with loop \<open>gw_pc g \<noteq> Exited\<close> \<open>gw_pc g \<noteq> Joining\<close> show ?thesis
        unfolding l' by (simp add: phase_of_def lifecycle_step.drained ph)
    qed
  next
    case join
    with reactor_leaves(1) [OF run] show ?thesis
      unfolding l' by (simp add: phase_of_def lifecycle_step.join_threads ph)
  next
    case exit
    with reactor_leaves(2) [OF run] join have "lc_workers ?l = 0" "\<not> lc_puller ?l" "lc_phase ?l = JoiningThreads"
      by (simp_all add: threads_gone_def lifecycle_of_def phase_of_def)
    with exit show ?thesis unfolding l' by (simp add: phase_of_def lifecycle_step.finish)
  qed
qed

lemma lifecycle_unchanged:
  assumes "control_of (gw_server g') = control_of (gw_server g)" and "gw_pc g' = gw_pc g"
    and "producers g' = producers g" and "gw_puller g' = PullerGone \<longleftrightarrow> gw_puller g = PullerGone"
  shows "lifecycle_step a (lifecycle_of g) (lifecycle_of g')"
proof -
  have "sv_state (gw_server g') = sv_state (gw_server g)" using assms(1) by (metis control_sels(1))
  with assms have "lifecycle_of g' = lifecycle_of g" by (simp add: lifecycle_of_def)
  then show ?thesis by (simp add: lifecycle_step.stay)
qed

lemma phase_Serving: "phase_of pc state = Serving \<Longrightarrow> state = RUNNING"
  by (auto simp: phase_of_def split: if_splits ServerState.splits)

lemma lifecycle_leave:
  assumes "q_stopped (sv_request_queue (gw_server g)) \<or> q_stopped (sv_auth_queue (gw_server g))" and "life_ok g"
    and "control_of (gw_server g') = (control_of (gw_server g))\<lparr>ct_remaining := x, ct_responses_stopped := y\<rparr>"
    and "gw_pc g' = gw_pc g" and "producers g = Suc (producers g')" and "gw_puller g' = gw_puller g"
    and "a = NormalThread \<or> a = AuthThread"
  shows "lifecycle_step a (lifecycle_of g) (lifecycle_of g')"
proof -
  have "ct_state (control_of (gw_server g')) = ct_state (control_of (gw_server g))" using assms(3) by simp
  then have "sv_state (gw_server g') = sv_state (gw_server g)" by (simp add: control_sels)
  then have "lifecycle_of g' = (lifecycle_of g)\<lparr>lc_workers := producers g'\<rparr>" using assms(4,6)
    by (simp add: lifecycle_of_def)
  moreover have "sv_state (gw_server g) \<noteq> RUNNING"
    using assms(1,2) by (auto simp: life_ok_def life_core_def control_sels)
  then have "lc_phase (lifecycle_of g) \<noteq> Serving" by (auto simp: lifecycle_of_def dest: phase_Serving)
  moreover have "lc_workers (lifecycle_of g) = Suc (producers g')" using assms(5) by (simp add: lifecycle_of_def)
  ultimately show ?thesis using assms(7) by (simp add: lifecycle_step.worker_leaves)
qed

lemma lifecycle_refines:
  assumes "gateway_step parse level_env os a g g'" and os: "os_transfer_ok os" and ok: "life_ok g"
  shows "lifecycle_step a (lifecycle_of g) (lifecycle_of g')"
  using assms(1) ok
proof (induction rule: gateway_step.induct)
  case (reactor g pc' s')
  then show ?case using lifecycle_reactor os by blast
next
  case (take g n r q)
  then have "q_stopped q = q_stopped (sv_request_queue (gw_server g))"
    using bq.pop_frame(2) [of "sv_request_queue (gw_server g)"] by simp
  with take(1,2) show ?case by (intro lifecycle_unchanged) (simp_all add: control_of_def thread_counts)
next
  case (respond g rs r rs' time_text write_ok)
  then show ?case by (intro lifecycle_unchanged) (simp_all add: control_workers thread_counts)
next
  case (wake g n s')
  then show ?case by (intro lifecycle_unchanged) (simp_all add: control_notify thread_counts)
next
  case (leave g n q s')
  then have "onResponseProducerExited os (gw_server g) = Some s'" "q_stopped (sv_request_queue (gw_server g))"
    by (simp_all add: pop_false)
  from control_workers(5) [OF this(1)] this(2) leave(1) show ?case
    by (intro lifecycle_leave [OF _ leave(4)]) (simp_all add: thread_counts)
next
  case (auth_take g n t q)
  then have "q_stopped q = q_stopped (sv_auth_queue (gw_server g))"
    using bq.pop_frame(2) [of "sv_auth_queue (gw_server g)"] by simp
  with auth_take(1,2) show ?case by (intro lifecycle_unchanged) (simp_all add: control_of_def thread_counts)
next
  case (auth_skip g ts t ts')
  then show ?case by (intro lifecycle_unchanged) (simp_all add: thread_counts)
next
  case (auth_begin g ts t ts' started_at not_after s')
  have "sv_state s' = sv_state (gw_server g)"
    using auth_begin(3) by (auto simp: auth_worker_start_def server_now_eq Let_def count_stat_def)
  with auth_begin show ?case by (simp add: lifecycle_of_def producers_def lifecycle_step.stay)
next
  case (auth_respond g ts t started_at not_after ts' outcome response s')
  then show ?case
    by (intro lifecycle_unchanged) (simp_all add: control_workers(3) [OF auth_respond(2)] thread_counts)
next
  case (auth_wake g n s')
  have "sv_state s' = sv_state (gw_server g)"
    using auth_wake(2) by (auto simp: auth_worker_done_def server_notify_def)
  with auth_wake show ?case by (simp add: lifecycle_of_def producers_def lifecycle_step.stay)
next
  case (auth_leave g n q s')
  then have "onResponseProducerExited os (gw_server g) = Some s'" "q_stopped (sv_auth_queue (gw_server g))"
    by (simp_all add: pop_false)
  from control_workers(5) [OF this(1)] this(2) auth_leave(1) show ?case
    by (intro lifecycle_leave [OF _ auth_leave(4)]) (simp_all add: thread_counts)
next
  case (fetch g)
  then show ?case by (intro lifecycle_unchanged) (simp_all add: thread_counts)
next
  case (fetched g w s')
  then show ?case
    by (intro lifecycle_unchanged) (simp_all add: control_workers(6) [OF fetched(2)] thread_counts)
next
  case (puller_leave g)
  then have "lc_phase (lifecycle_of g) \<noteq> Serving" by (auto simp: lifecycle_of_def dest: phase_Serving)
  moreover have "lifecycle_of (g\<lparr>gw_puller := PullerGone\<rparr>) = (lifecycle_of g)\<lparr>lc_puller := False\<rparr>"
    by (simp add: lifecycle_of_def producers_def)
  moreover have "lc_puller (lifecycle_of g)" using puller_leave(1) by (simp add: lifecycle_of_def)
  ultimately show ?case by (simp add: lifecycle_step.puller_leaves)
next
  case (stop g s')
  then have "sv_started (gw_server g)" by (simp add: life_ok_def life_core_def control_sels)
  from control_workers(8) [OF this stop(1)] show ?case by (intro lifecycle_unchanged) (simp_all add: thread_counts)
next
  case (signal g s')
  from control_workers(7) [OF signal(1)] show ?case by (intro lifecycle_unchanged) (simp_all add: thread_counts)
qed

lemma lifecycle_step_forward: "lifecycle_step a l l' \<Longrightarrow> lc_phase l \<le> lc_phase l'"
  by (induction rule: lifecycle_step.induct) (simp_all add: less_eq_phase_def)

interpretation gw_cycle: step_refinement "reachable parse level_env os" "gateway_started os" "gateway_moves parse level_env os"
  lifecycle_of "\<lambda>l l'. os_transfer_ok os \<longrightarrow> (\<exists>a. lifecycle_step a l l')"
  for parse level_env os
  using lifecycle_refines reachable_life by unfold_locales blast

lemma phase_forward:
  assumes "(gateway_moves parse level_env os)\<^sup>*\<^sup>* g g'" and "reachable parse level_env os g" and "os_transfer_ok os"
  shows "lc_phase (lifecycle_of g) \<le> lc_phase (lifecycle_of g')"
  using gw_cycle.run_monotone [OF assms(1,2), of lc_phase] assms(3) lifecycle_step_forward by blast

section \<open>How the drain ends\<close>

lemma drain_ends_in_check:
  assumes run: "reactor_step os pc s = Some (pc', s')" and os: "os_transfer_ok os"
    and "sv_state s = DRAINING" "sv_state s' = STOPPED" and "pc \<noteq> Joining"
  shows "s' = drain_check os s"
proof (cases pc)
  case LoopTop
  with run assms(3,4) show ?thesis by (auto simp: loop_top_def epollTimeoutMs_def server_now_eq Let_def)
next
  case (Waiting t)
  have "sv_state (snd (loop_wait os t s)) = DRAINING"
    using assms(3) by (simp add: loop_wait_def sys_epoll_wait_def beginDraining_def Let_def split: sysres.split)
  with run Waiting assms(4) show ?thesis by auto
next
  case (Handling es)
  have "sv_state s' = sv_state s"
    using run Handling control_handle_event [OF _ os] by (cases es) (auto, metis control_sels(1))
  with assms(3,4) show ?thesis by simp
next
  case DrainResponses
  obtain b s1 where d: "drainResponse_step os s = (b, s1)" by (rule prod.exhaust)
  with run DrainResponses have "s' = s1" by (cases b) auto
  with control_drainResponse [OF d] have "sv_state s' = sv_state s" by (metis control_sels(1))
  with assms(3,4) show ?thesis by simp
next
  case DrainRejected
  with run frame_drainRejected [of s os] assms(3,4) show ?thesis by (auto simp: reactor_frame_def)
qed (use run assms(5) in simp_all)

lemma no_work_without_workers:
  assumes "life_ok g" and "sv_response_producers_remaining (gw_server g) = 0"
    and "q_data (sv_request_queue (gw_server g)) = []" "q_data (sv_auth_queue (gw_server g)) = []"
    "q_data (sv_response_queue (gw_server g)) = []"
  shows "work_keys (held_of g) (gw_server g) = []"
  using assms by (simp add: life_ok_def life_core_def control_sels producers_def work_keys_def all_requests_def all_tasks_def)

section \<open>Who is let in\<close>

text \<open>
  The control plane allowed a client: it answered, over a complete exchange with a request for that
  client, with a document that says so.
\<close>

definition control_plane_allowed :: "json_parser \<Rightarrow> ControlPlaneClient \<Rightarrow> string \<Rightarrow> bool" where
  "control_plane_allowed parse control_plane client_id \<longleftrightarrow>
     (\<exists>token payload es response kvs.
        dump (json_object [(''client_id'', JString client_id), (''token'', JString token)]) = Inr payload \<and>
        answered (serialize_request control_plane ''POST'' ''/auth/check'' payload) es response \<and>
        http_ok response \<and> parse (hr_body response) = Inr (JObject kvs) \<and>
        map_of kvs ''allowed'' = Some (JBool True))"

lemma grant_allowed:
  assumes "auth_worker_respond parse os t started_at not_after s = Some (outcome, resp, s')" and "os_descriptors_ok os"
    and "(i, client_id) \<in> grant parse t outcome"
  shows "control_plane_allowed parse (sv_control_plane s) client_id"
proof -
  from assms(1) obtain stats1 w1 where
    auth: "handleAuth parse os (sv_control_plane s) not_after (at_request t) (sv_stats s) (sv_io s) =
      Some (resp, outcome, stats1, w1)"
    by (auto simp: auth_worker_respond_def server_now_eq Let_def split: option.splits)
  from assms(3) obtain token where out: "outcome = Allowed"
    and cred: "auth_credentials parse (req_payload (at_request t)) = Inr (Some (client_id, token))"
    by (auto simp: grant_def split: if_splits sum.splits option.splits)
  from handleAuth_decides [OF assms(2) auth] out obtain c where c: "resp_client_id_to_authenticate resp = Some c"
    by (cases "resp_client_id_to_authenticate resp") auto
  from handleAuth_response [OF auth] c cred have "c = client_id" by auto
  with handleAuth_decides [OF assms(2) auth] c show ?thesis
    unfolding control_plane_allowed_def by (simp only: option.case) blast
qed

lemma control_plane_constant:
  assumes "gateway_step parse level_env os a g g'" and "os_transfer_ok os" and "life_ok g"
  shows "sv_control_plane (gw_server g') = sv_control_plane (gw_server g)"
  using assms
proof (induction rule: gateway_step.induct)
  case (reactor g pc' s')
  consider (loop) "pc' \<noteq> Joining" "pc' \<noteq> Exited" | (join) "pc' = Joining" | (exit) "pc' = Exited" by blast
  then show ?case
  proof cases
    case loop
    from control_step_state(2) [OF control_reactor [OF reactor(1,3) loop]] show ?thesis by (simp add: control_sels)
  next
    case join
    with reactor_leaves(1) [OF reactor(1)] finishShutdown_begin_frame [of "gw_server g" os] show ?thesis
      by (simp add: reactor_frame_def)
  next
    case exit
    with reactor_leaves(2) [OF reactor(1)] show ?thesis by (simp add: finishShutdown_end_result)
  qed
next
  case (respond g rs r rs' time_text write_ok)
  from control_workers(1) [of parse time_text write_ok r "gw_server g"] show ?case
    by simp (metis control_sels(11))
next
  case (wake g n s')
  from control_notify [OF wake(2)] show ?case by simp (metis control_sels(11))
next
  case (leave g n q s')
  then show ?case by (auto simp: onResponseProducerExited_def Let_def server_notify_def split: if_splits)
next
  case (auth_begin g ts t ts' started_at not_after s')
  then show ?case by (auto simp: auth_worker_start_def server_now_eq Let_def count_stat_def)
next
  case (auth_respond g ts t started_at not_after ts' outcome response s')
  from control_workers(3) [OF auth_respond(2)] show ?case by simp (metis control_sels(11))
next
  case (auth_wake g n s')
  then show ?case by (auto simp: auth_worker_done_def server_notify_def)
next
  case (auth_leave g n q s')
  then show ?case by (auto simp: onResponseProducerExited_def Let_def server_notify_def split: if_splits)
next
  case (fetched g w s')
  from control_workers(6) [OF fetched(2)] show ?case by simp (metis control_sels(11))
next
  case (stop g s')
  then show ?case by (auto simp: stop_server_def server_notify_def split: if_splits)
next
  case (signal g s')
  then show ?case by (auto simp: staticSignalHandler_def Let_def server_notify_def split: if_splits)
qed (simp_all add: count_stat_def)

lemma grants_step:
  assumes "gateway_step parse level_env os a g g'"
  shows "gw_grants g' = gw_grants g \<or>
    (\<exists>t started_at not_after outcome response s'.
       auth_worker_respond parse os t started_at not_after (gw_server g) = Some (outcome, response, s') \<and>
       gw_grants g' = gw_grants g \<union> grant parse t outcome)"
  using assms
proof (cases rule: gateway_step.cases)
  case (auth_respond ts t started_at not_after ts' outcome response s')
  then show ?thesis by (intro disjI2 exI conjI) simp_all
qed simp_all

lemma grants_allowed_step:
  assumes "gateway_step parse level_env os a g g'" and os: "os_transfer_ok os" "os_descriptors_ok os" and "life_ok g"
    and granted: "\<forall>(i, client_id)\<in>gw_grants g. control_plane_allowed parse (sv_control_plane (gw_server g)) client_id"
  shows "\<forall>(i, client_id)\<in>gw_grants g'. control_plane_allowed parse (sv_control_plane (gw_server g')) client_id"
proof -
  note same = control_plane_constant [OF assms(1) os(1) assms(4)]
  from grants_step [OF assms(1)] show ?thesis
  proof (elim disjE exE conjE)
    assume "gw_grants g' = gw_grants g"
    with granted same show ?thesis by simp
  next
    fix t started_at not_after outcome response s'
    assume "auth_worker_respond parse os t started_at not_after (gw_server g) = Some (outcome, response, s')"
      and "gw_grants g' = gw_grants g \<union> grant parse t outcome"
    with granted same grant_allowed [OF _ os(2)] show ?thesis by (simp add: ball_Un) blast
  qed
qed

lemma started_no_grants: "gateway_started os g \<Longrightarrow> gw_grants g = {}"
  by (elim gateway_startedE) (auto simp: gateway_start_def threads_started_def split: sum.splits)

interpretation gw_grants: step_invariant "reachable parse level_env os" "gateway_started os" "gateway_moves parse level_env os"
  "\<lambda>g. os_transfer_ok os \<longrightarrow> os_descriptors_ok os \<longrightarrow>
     (\<forall>(i, client_id)\<in>gw_grants g. control_plane_allowed parse (sv_control_plane (gw_server g)) client_id)"
  for parse level_env os
proof (unfold_locales, goal_cases)
  case (2 g g')
  then show ?case using grants_allowed_step reachable_life by blast
qed (simp add: started_no_grants)

lemma reachable_grants:
  assumes "reachable parse level_env os g" and "os_transfer_ok os" "os_descriptors_ok os"
  shows "\<forall>(i, client_id)\<in>gw_grants g. control_plane_allowed parse (sv_control_plane (gw_server g)) client_id"
  using gw_grants.inv_reach [OF assms(1)] assms(2,3) by blast

end
