(* ===== verification/Gateway_Wakeup.thy ===== *)
theory Gateway_Wakeup
  imports Gateway_Lifecycle
begin

text \<open>
  That the reactor never sleeps on work: whenever it waits for events and a worker has left it a
  response or a rejected connection, or a stop was requested, the event descriptor is readable or the
  worker is about to make it so.
\<close>

definition signalled :: "gateway \<Rightarrow> bool" where
  "signalled g \<longleftrightarrow> 0 < rn_counter (sv_notifier (gw_server g)) \<or> 0 < gw_waking g \<or> 0 < gw_auth_waking g"

definition stop_wanted :: "TcpServer \<Rightarrow> bool" where
  "stop_wanted s \<longleftrightarrow> (sv_stop_requested s \<or> sv_signal_stop_requested s) \<and> sv_state s = RUNNING"

text \<open>The points of the loop after the responses and after the rejected connections were taken.\<close>

definition responses_taken :: "reactor_pc \<Rightarrow> bool" where
  "responses_taken pc \<longleftrightarrow> (case pc of DrainRejected \<Rightarrow> True | DrainCheck \<Rightarrow> True | LoopTop \<Rightarrow> True | Waiting _ \<Rightarrow> True | _ \<Rightarrow> False)"

definition rejected_taken :: "reactor_pc \<Rightarrow> bool" where
  "rejected_taken pc \<longleftrightarrow> (case pc of DrainCheck \<Rightarrow> True | LoopTop \<Rightarrow> True | Waiting _ \<Rightarrow> True | _ \<Rightarrow> False)"

definition wake_ok :: "gateway \<Rightarrow> bool" where
  "wake_ok g \<longleftrightarrow>
     (let s = gw_server g; pc = gw_pc g in
      (responses_taken pc \<longrightarrow> q_data (sv_response_queue s) \<noteq> [] \<longrightarrow> signalled g) \<and>
      (rejected_taken pc \<longrightarrow> sv_rejected s \<noteq> [] \<longrightarrow> signalled g) \<and>
      (\<forall>t. pc = Waiting t \<longrightarrow> stop_wanted s \<longrightarrow> 0 < rn_counter (sv_notifier s)))"

text \<open>What the reactor does to the responses, the rejected connections and the counter.\<close>

lemma reactor_wake:
  assumes run: "reactor_step os pc s = Some (pc', s')" and os: "os_transfer_ok os"
    and loop: "pc' \<noteq> Joining" "pc' \<noteq> Exited"
  shows "responses_taken pc' \<Longrightarrow> q_data (sv_response_queue s') \<noteq> [] \<Longrightarrow>
      responses_taken pc \<and> q_data (sv_response_queue s) \<noteq> [] \<and> sv_notifier s' = sv_notifier s"
    and "rejected_taken pc' \<Longrightarrow> sv_rejected s' \<noteq> [] \<Longrightarrow>
      rejected_taken pc \<and> sv_rejected s \<noteq> [] \<and> sv_notifier s' = sv_notifier s"
    and "pc' = Waiting t \<Longrightarrow> \<not> stop_wanted s'"
proof -
  have draining: "q_data (sv_response_queue (beginDraining os s)) = q_data (sv_response_queue s) \<and>
      sv_rejected (beginDraining os s) = sv_rejected s \<and> sv_notifier (beginDraining os s) = sv_notifier s \<and>
      (sv_state s = RUNNING \<longrightarrow> sv_state (beginDraining os s) = DRAINING)" for s
    using beginDraining_frame [of s os] beginDraining_idle [of s os]
    by (cases "sv_state s = RUNNING") (simp_all add: reactor_frame_def)
  have "(responses_taken pc' \<longrightarrow> q_data (sv_response_queue s') \<noteq> [] \<longrightarrow>
      responses_taken pc \<and> q_data (sv_response_queue s) \<noteq> [] \<and> sv_notifier s' = sv_notifier s) \<and>
    (rejected_taken pc' \<longrightarrow> sv_rejected s' \<noteq> [] \<longrightarrow>
      rejected_taken pc \<and> sv_rejected s \<noteq> [] \<and> sv_notifier s' = sv_notifier s) \<and>
    (pc' = Waiting t \<longrightarrow> \<not> stop_wanted s')"
  proof (cases pc)
    case LoopTop
    with run loop have "sv_state s \<noteq> STOPPED" by (auto simp: loop_top_def)
    define s1 where "s1 = (if (sv_stop_requested s \<or> sv_signal_stop_requested s) \<and> sv_state s = RUNNING
      then beginDraining os s else s)"
    have "s' = snd (epollTimeoutMs os s1)" "\<exists>t. pc' = Waiting t"
      using run LoopTop \<open>sv_state s \<noteq> STOPPED\<close> by (auto simp: loop_top_def s1_def Let_def case_prod_beta)
    moreover have "snd (epollTimeoutMs os s1) = s1 \<or> snd (epollTimeoutMs os s1) = s1\<lparr>sv_io := io_step [] (sv_io s1)\<rparr>"
      by (simp add: epollTimeoutMs_def server_now_eq Let_def)
    moreover have "\<not> stop_wanted s1" using draining [of s] by (auto simp: s1_def stop_wanted_def)
    ultimately show ?thesis
      using draining [of s] LoopTop
      by (auto simp: s1_def stop_wanted_def responses_taken_def rejected_taken_def)
  next
    case (Waiting t')
    let ?s = "s\<lparr>sv_io := io_step [] (sv_io s)\<rparr>"
    have "fst (loop_wait os t' s) \<noteq> Waiting t" "snd (loop_wait os t' s) = ?s \<or> snd (loop_wait os t' s) = beginDraining os ?s"
      by (auto simp: loop_wait_def sys_epoll_wait_def Let_def split: sysres.split)
    with run Waiting draining [of ?s] show ?thesis
      by (auto simp: responses_taken_def rejected_taken_def)
  next
    case (Handling es)
    with run show ?thesis by (cases es) (auto simp: responses_taken_def rejected_taken_def)
  next
    case DrainResponses
    with run show ?thesis
      by (cases rule: drainResponse_cases [of s os]) (auto simp: responses_taken_def rejected_taken_def)
  next
    case DrainRejected
    with run frame_drainRejected [of s os] show ?thesis
      by (auto simp: responses_taken_def rejected_taken_def reactor_frame_def)
  next
    case DrainCheck
    have "(q_data (sv_response_queue (drain_check os s)) \<noteq> [] \<longrightarrow> q_data (sv_response_queue s) \<noteq> []) \<and>
      sv_rejected (drain_check os s) = sv_rejected s \<and> sv_notifier (drain_check os s) = sv_notifier s"
      by (cases rule: drain_check_cases [of s os]) (auto simp: reactor_frame_def bq_stop_abort)
    with run DrainCheck show ?thesis by (auto simp: responses_taken_def rejected_taken_def)
  next
    case Joining
    with run loop show ?thesis by simp
  qed (use run in simp_all)
  then show "responses_taken pc' \<Longrightarrow> q_data (sv_response_queue s') \<noteq> [] \<Longrightarrow>
      responses_taken pc \<and> q_data (sv_response_queue s) \<noteq> [] \<and> sv_notifier s' = sv_notifier s"
    "rejected_taken pc' \<Longrightarrow> sv_rejected s' \<noteq> [] \<Longrightarrow>
      rejected_taken pc \<and> sv_rejected s \<noteq> [] \<and> sv_notifier s' = sv_notifier s"
    "pc' = Waiting t \<Longrightarrow> \<not> stop_wanted s'"
    by blast+
qed

text \<open>What the other threads leave alone of it.\<close>

definition wake_view :: "TcpServer \<Rightarrow> ReactorNotifier \<times> bool" where
  "wake_view s = (sv_notifier s, stop_wanted s)"

lemma wake_view_frame: "reactor_frame s s' \<Longrightarrow> wake_view s' = wake_view s"
  by (simp add: wake_view_def stop_wanted_def reactor_frame_def)

lemma wake_view_push: "wake_view (snd (enqueue_push r p s)) = wake_view s"
proof (cases rule: enqueue_push_cases [of r s p])
  case (pushed q)
  then show ?thesis by (simp add: wake_view_def stop_wanted_def)
next
  case (rejected s1)
  then show ?thesis by (simp add: wake_view_def stop_wanted_def reactor_frame_def)
qed

lemma wake_view_normal: "wake_view (normal_worker_respond parse time_text write_ok r s) = wake_view s"
proof -
  have "wake_view (s\<lparr>sv_stats := x, sv_log_storage := y\<rparr>) = wake_view s"
    "wake_view (count_stat f s) = wake_view s" for f s x y
    by (simp_all add: wake_view_def stop_wanted_def count_stat_def)
  then show ?thesis
    by (simp add: normal_worker_respond_def Let_def wake_view_push split: prod.split sum.split)
qed

lemma wake_view_auth:
  assumes "auth_worker_respond parse os t started_at not_after s = Some (outcome, resp, s')"
  shows "wake_view s' = wake_view s"
  using assms by (cases rule: auth_worker_respond_eq) (simp add: wake_view_push wake_view_frame)

lemma wake_ok_quiet:
  assumes "wake_ok g" and "gw_pc g' = gw_pc g"
    and "q_data (sv_response_queue (gw_server g')) = q_data (sv_response_queue (gw_server g))"
    and "sv_rejected (gw_server g') = sv_rejected (gw_server g)"
    and "wake_view (gw_server g') = wake_view (gw_server g)"
    and "gw_waking g' = gw_waking g" "gw_auth_waking g' = gw_auth_waking g"
  shows "wake_ok g'"
  using assms unfolding wake_ok_def wake_view_def signalled_def Let_def by simp

lemma wake_ok_waking:
  assumes "wake_ok g" and "gw_pc g' = gw_pc g" and "wake_view (gw_server g') = wake_view (gw_server g)"
    and "0 < gw_waking g' \<or> 0 < gw_auth_waking g'"
  shows "wake_ok g'"
  using assms unfolding wake_ok_def wake_view_def signalled_def Let_def by auto

lemma wake_ok_counter: "0 < rn_counter (sv_notifier (gw_server g)) \<Longrightarrow> wake_ok g"
  by (simp add: wake_ok_def signalled_def Let_def)

lemma notify_counter:
  assumes "server_notify os s = Some s'" and "eventfd_sound os" and "rn_fd (sv_notifier s) \<noteq> -1"
  shows "0 < rn_counter (sv_notifier s')"
  using assms notify_wakes by (fastforce simp: server_notify_def)

lemma wake_ok_reactor:
  assumes run: "reactor_step os (gw_pc g) (gw_server g) = Some (pc', s')" and os: "os_transfer_ok os" and ok: "wake_ok g"
  shows "wake_ok (g\<lparr>gw_pc := pc', gw_server := s'\<rparr>)"
proof (cases "pc' = Joining \<or> pc' = Exited")
  case True
  then show ?thesis by (auto simp: wake_ok_def Let_def responses_taken_def rejected_taken_def)
next
  case False
  let ?g = "g\<lparr>gw_pc := pc', gw_server := s'\<rparr>"
  note step = reactor_wake [OF run os]
  have "signalled ?g" if "responses_taken pc'" "q_data (sv_response_queue s') \<noteq> []"
    using step(1) [OF _ _ that] False ok by (simp add: wake_ok_def Let_def signalled_def)
  moreover have "signalled ?g" if "rejected_taken pc'" "sv_rejected s' \<noteq> []"
    using step(2) [OF _ _ that] False ok by (simp add: wake_ok_def Let_def signalled_def)
  moreover have "\<not> stop_wanted s'" if "pc' = Waiting t" for t using step(3) [OF _ _ that] False by simp
  ultimately show ?thesis by (auto simp: wake_ok_def Let_def)
qed

lemma gateway_step_wake:
  assumes "gateway_step parse level_env os a g g'" and os: "os_transfer_ok os" and ev: "eventfd_sound os"
    and "life_ok g" and "wake_ok g"
  shows "wake_ok g'"
  using assms(1,4,5)
proof (induction rule: gateway_step.induct)
  case (reactor g pc' s')
  then show ?case using wake_ok_reactor os by blast
next
  case (take g n r q)
  then show ?case by (intro wake_ok_quiet [OF take(4)]) (simp_all add: wake_view_def stop_wanted_def)
next
  case (respond g rs r rs' time_text write_ok)
  then show ?case by (intro wake_ok_waking [OF respond(3)]) (simp_all add: wake_view_normal)
next
  case (wake g n s')
  then have "rn_fd (sv_notifier (gw_server g)) \<noteq> -1"
    by (auto simp: life_ok_def life_core_def control_sels producers_def)
  with notify_counter [OF wake(2) ev] show ?case by (intro wake_ok_counter) simp
next
  case (leave g n q s')
  then have s': "onResponseProducerExited os (gw_server g) = Some s'" by (simp add: pop_false)
  have fd: "rn_fd (sv_notifier (gw_server g)) \<noteq> -1"
    using leave by (auto simp: life_ok_def life_core_def control_sels producers_def)
  from s' show ?case
  proof (cases rule: exited_cases)
    case more
    then show ?thesis by (intro wake_ok_quiet [OF leave(5)]) (simp_all add: wake_view_def stop_wanted_def)
  next
    case last
    from notify_counter [OF last(2) ev] fd show ?thesis by (intro wake_ok_counter) simp
  qed
next
  case (auth_take g n t q)
  then show ?case by (intro wake_ok_quiet [OF auth_take(4)]) (simp_all add: wake_view_def stop_wanted_def)
next
  case (auth_skip g ts t ts')
  then show ?case
    by (intro wake_ok_quiet [OF auth_skip(4)]) (simp_all add: wake_view_def stop_wanted_def count_stat_def)
next
  case (auth_begin g ts t ts' started_at not_after s')
  then have s': "s' = count_stat incrementRequests ((gw_server g)\<lparr>sv_io := io_step [] (sv_io (gw_server g)),
      sv_auth_in_flight := Suc (sv_auth_in_flight (gw_server g))\<rparr>)"
    by (simp add: auth_worker_start_def server_now_eq Let_def)
  show ?case
    by (intro wake_ok_quiet [OF auth_begin(5)]) (simp_all add: s' wake_view_def stop_wanted_def count_stat_def)
next
  case (auth_respond g ts t started_at not_after ts' outcome response s')
  then show ?case by (intro wake_ok_waking [OF auth_respond(4)]) (simp_all add: wake_view_auth [OF auth_respond(2)])
next
  case (auth_wake g n s')
  then obtain s1 where s1: "server_notify os (gw_server g) = Some s1" "sv_notifier s' = sv_notifier s1"
    by (auto simp: auth_worker_done_def)
  have "rn_fd (sv_notifier (gw_server g)) \<noteq> -1"
    using auth_wake by (auto simp: life_ok_def life_core_def control_sels producers_def)
  with notify_counter [OF s1(1) ev] s1(2) show ?case by (intro wake_ok_counter) simp
next
  case (auth_leave g n q s')
  then have s': "onResponseProducerExited os (gw_server g) = Some s'" by (simp add: pop_false)
  have fd: "rn_fd (sv_notifier (gw_server g)) \<noteq> -1"
    using auth_leave by (auto simp: life_ok_def life_core_def control_sels producers_def)
  from s' show ?case
  proof (cases rule: exited_cases)
    case more
    then show ?thesis by (intro wake_ok_quiet [OF auth_leave(5)]) (simp_all add: wake_view_def stop_wanted_def)
  next
    case last
    from notify_counter [OF last(2) ev] fd show ?thesis by (intro wake_ok_counter) simp
  qed
next
  case (fetch g)
  then show ?case by (intro wake_ok_quiet [OF fetch(4)]) simp_all
next
  case (fetched g w s')
  then have "q_data (sv_response_queue s') = q_data (sv_response_queue (gw_server g)) \<and>
      sv_rejected s' = sv_rejected (gw_server g) \<and> wake_view s' = wake_view (gw_server g)"
    by (auto simp: configPuller_round_def wake_view_def stop_wanted_def
        split: option.splits sum.splits prod.splits bool.splits)
  then show ?case by (intro wake_ok_quiet [OF fetched(4)]) simp_all
next
  case (puller_leave g)
  then show ?case by (intro wake_ok_quiet [OF puller_leave(4)]) simp_all
next
  case (stop g s')
  show ?case
  proof (cases "gw_pc g = Exited")
    case True
    then show ?thesis by (simp add: wake_ok_def Let_def responses_taken_def rejected_taken_def)
  next
    case False
    with stop(2) have "sv_started (gw_server g)" "\<not> sv_shutdown_finished (gw_server g)"
      "rn_fd (sv_notifier (gw_server g)) \<noteq> -1" by (auto simp: life_ok_def life_core_def control_sels)
    with stop(1) notify_counter [OF _ ev] show ?thesis by (intro wake_ok_counter) (simp add: stop_server_def)
  qed
next
  case (signal g s')
  show ?case
  proof (cases "gw_pc g = Exited")
    case True
    then show ?thesis by (simp add: wake_ok_def Let_def responses_taken_def rejected_taken_def)
  next
    case False
    with signal(2) have "sv_instance (gw_server g)"
      "rn_fd (sv_notifier (gw_server g)) \<noteq> -1" by (auto simp: life_ok_def life_core_def control_sels)
    with signal(1) notify_counter [OF _ ev] show ?thesis
      by (intro wake_ok_counter) (simp add: staticSignalHandler_def Let_def)
  qed
qed

lemma gateway_start_wake:
  assumes "gateway_started os g"
  shows "wake_ok g"
proof -
  from assms obtain port host cport rcap pcap sms workers token tms aworkers acap store s hc where
    new: "TcpServer_new port host cport rcap pcap sms workers token tms aworkers acap store = Inr s"
    and start: "gateway_start os hc s = Inr g" by (rule gateway_startedE)
  note new = TcpServer_new_result [OF new]
  from start obtain n s1 where run: "start_server os hc s = Inr (n, s1)" and g: "g = threads_started n s1"
    by (auto simp: gateway_start_def split: sum.splits)
  have "q_data (sv_response_queue s1) = [] \<and> sv_rejected s1 = []"
    using run new(3) by (rule start_server_result) (simp add: new)
  then show ?thesis by (simp add: g threads_started_def wake_ok_def)
qed

interpretation gw_wake: step_invariant "reachable parse level_env os" "gateway_started os" "gateway_moves parse level_env os"
  "\<lambda>g. os_transfer_ok os \<longrightarrow> eventfd_sound os \<longrightarrow> wake_ok g"
  for parse level_env os
  by unfold_locales (auto intro: gateway_start_wake gateway_step_wake reachable_life)

lemma reachable_wake:
  assumes "reachable parse level_env os g" and "os_transfer_ok os" "eventfd_sound os"
  shows "wake_ok g"
  using gw_wake.inv_reach [OF assms(1)] assms(2,3) by blast

end
