(* ===== verification/Gateway_Shutdown.thy ===== *)
theory Gateway_Shutdown
  imports Gateway_Lifecycle
begin

text \<open>
  That a shutdown ends.  Once the reactor joins the other threads, every step of a thread brings the
  end nearer, and as long as they are not all gone one of them can make a step.  Before that, a
  reactor that drains leaves its loop when the deadline has passed.
\<close>

section \<open>Joining the threads\<close>

text \<open>What is left to do for the threads: every stage of a worker weighs more than the next one.\<close>

definition join_measure :: "gateway \<Rightarrow> nat" where
  "join_measure g =
     3 * length (q_data (sv_request_queue (gw_server g))) + 4 * length (q_data (sv_auth_queue (gw_server g))) +
     gw_idle g + 3 * length (gw_busy g) + 2 * gw_waking g + gw_auth_idle g + 4 * length (gw_auth_taken g) +
     3 * length (gw_auth_running g) + 2 * gw_auth_waking g +
     (case gw_puller g of PullerFetching \<Rightarrow> 2 | PullerIdle \<Rightarrow> 1 | PullerGone \<Rightarrow> 0) +
     (if gw_pc g = Exited then 0 else 1)"

lemma queues_workers:
  "sv_request_queue (normal_worker_respond parse time_text write_ok r s) = sv_request_queue s"
  "sv_auth_queue (normal_worker_respond parse time_text write_ok r s) = sv_auth_queue s"
  "server_notify os s = Some s' \<Longrightarrow> sv_request_queue s' = sv_request_queue s \<and> sv_auth_queue s' = sv_auth_queue s"
  "auth_worker_respond parse os t started_at not_after s = Some (outcome, resp, s') \<Longrightarrow>
     sv_request_queue s' = sv_request_queue s \<and> sv_auth_queue s' = sv_auth_queue s"
  "onResponseProducerExited os s = Some s' \<Longrightarrow>
     sv_request_queue s' = sv_request_queue s \<and> sv_auth_queue s' = sv_auth_queue s"
proof -
  have push: "sv_request_queue (snd (enqueue_push r p s)) = sv_request_queue s \<and>
      sv_auth_queue (snd (enqueue_push r p s)) = sv_auth_queue s" for r p s
    by (cases rule: enqueue_push_cases [of r s p]) (simp_all add: same_core_def)
  then show "sv_request_queue (normal_worker_respond parse time_text write_ok r s) = sv_request_queue s"
    "sv_auth_queue (normal_worker_respond parse time_text write_ok r s) = sv_auth_queue s"
    by (simp_all add: normal_worker_respond_def Let_def count_stat_def split: prod.split sum.split)
  show n: "sv_request_queue s' = sv_request_queue s \<and> sv_auth_queue s' = sv_auth_queue s" if "server_notify os s = Some s'" for s s'
    using same_core_notify [OF that] by (simp add: same_core_def)
  show "sv_request_queue s' = sv_request_queue s \<and> sv_auth_queue s' = sv_auth_queue s"
    if "auth_worker_respond parse os t started_at not_after s = Some (outcome, resp, s')"
    using that by (cases rule: auth_worker_respond_eq) (simp add: push same_core_def)
  show "sv_request_queue s' = sv_request_queue s \<and> sv_auth_queue s' = sv_auth_queue s"
    if "onResponseProducerExited os s = Some s'"
    using that by (cases rule: exited_cases) (auto dest: n)
qed

lemma pop_length: "bq_pop q = (PopItem x, q') \<Longrightarrow> length (q_data q) = Suc (length (q_data q'))"
  by (auto simp: bq_pop_def split: if_splits list.splits)

lemma join_measure_decreases:
  assumes "gateway_step parse level_env os a g g'" and "a \<noteq> Outside" and "gw_pc g = Joining"
    and "sv_state (gw_server g) = STOPPED"
  shows "join_measure g' < join_measure g"
  using assms
proof (induction rule: gateway_step.induct)
  case (reactor g pc' s')
  then have "pc' = Exited" "s' = finishShutdown_end os (gw_server g)" by simp_all
  with reactor show ?case by (simp add: join_measure_def finishShutdown_end_result)
next
  case (take g n r q)
  then show ?case by (simp add: join_measure_def pop_length [OF take(2)])
next
  case (respond g rs r rs' time_text write_ok)
  then show ?case by (simp add: join_measure_def queues_workers)
next
  case (wake g n s')
  then show ?case using queues_workers(3) [OF wake(2)] by (simp add: join_measure_def)
next
  case (leave g n q s')
  then have "onResponseProducerExited os (gw_server g) = Some s'" by (simp add: pop_false)
  from queues_workers(5) [OF this] leave show ?case by (simp add: join_measure_def)
next
  case (auth_take g n t q)
  then show ?case by (simp add: join_measure_def pop_length [OF auth_take(2)])
next
  case (auth_skip g ts t ts')
  then show ?case by (simp add: join_measure_def count_stat_def)
next
  case (auth_begin g ts t ts' started_at not_after s')
  from accepted_workers(5) [OF auth_begin(3)] auth_begin show ?case
    by (simp add: join_measure_def same_core_def)
next
  case (auth_respond g ts t started_at not_after ts' outcome response s')
  then show ?case using queues_workers(4) [OF auth_respond(2)] by (simp add: join_measure_def)
next
  case (auth_wake g n s')
  from accepted_workers(6) [OF auth_wake(2)] auth_wake show ?case by (simp add: join_measure_def same_core_def)
next
  case (auth_leave g n q s')
  then have "onResponseProducerExited os (gw_server g) = Some s'" by (simp add: pop_false)
  from queues_workers(5) [OF this] auth_leave show ?case by (simp add: join_measure_def)
next
  case (fetched g w s')
  then have "sv_request_queue s' = sv_request_queue (gw_server g) \<and> sv_auth_queue s' = sv_auth_queue (gw_server g)"
    by (auto simp: configPuller_round_def split: option.splits sum.splits prod.splits bool.splits)
  with fetched show ?case by (simp add: join_measure_def)
next
  case (puller_leave g)
  then show ?case by (simp add: join_measure_def)
qed (simp_all add: join_measure_def)

text \<open>As long as a thread is left, one of them can make a step.\<close>

lemma notify_can:
  assumes "eventfd_settles os T"
  obtains s' where "server_notify os s = Some s'"
proof -
  obtain y where "notify os (sv_notifier s) (sv_io s) = Some y" using notify_returns [OF assms] by blast
  then show thesis by (intro that) (simp add: server_notify_def)
qed

lemma exited_can:
  assumes "eventfd_settles os T"
  obtains s' where "onResponseProducerExited os s = Some s'"
proof (cases "sv_response_producers_remaining s = 1")
  case True
  show thesis
    by (rule notify_can [OF assms]) (rule that, simp add: onResponseProducerExited_def Let_def True)
next
  case False
  then show thesis by (intro that) (simp add: onResponseProducerExited_def Let_def)
qed

lemma puller_can:
  assumes "clock_advances os"
  obtains s' where "configPuller_round level_env parse os w s = Some (Inr s')"
proof -
  obtain r w' where fetch: "fetchConfig parse os (sv_control_plane s) w = Some (r, w')"
    using calls_return(2) [OF assms] by fastforce
  then obtain c where "r = Inr c" using fetchConfig_no_throw [OF fetch] by (cases r) auto
  with fetch have "\<exists>s'. configPuller_round level_env parse os w s = Some (Inr s')"
    by (simp add: configPuller_round_def split: option.split prod.split bool.split)
  then show thesis using that by blast
qed

lemma joining_progress:
  assumes "life_ok g" and pc: "gw_pc g = Joining"
    and clock: "clock_advances os" and ev: "eventfd_settles os T"
  shows "\<exists>a g'. a \<noteq> Outside \<and> gateway_step parse level_env os a g g'"
proof -
  have stopped: "q_stopped (sv_request_queue (gw_server g))" "q_stopped (sv_auth_queue (gw_server g))"
      "sv_state (gw_server g) = STOPPED"
    using assms(1) pc by (auto simp: life_ok_def life_core_def control_sels)
  have "threads_gone g \<or> 0 < gw_idle g \<or> gw_busy g \<noteq> [] \<or> 0 < gw_waking g \<or> 0 < gw_auth_idle g \<or>
      gw_auth_taken g \<noteq> [] \<or> gw_auth_running g \<noteq> [] \<or> 0 < gw_auth_waking g \<or>
      gw_puller g = PullerFetching \<or> gw_puller g = PullerIdle"
    by (cases "gw_puller g") (auto simp: threads_gone_def producers_def)
  then consider (gone) "threads_gone g"
    | (idle) n where "gw_idle g = Suc n" | (busy) r rs where "gw_busy g = r # rs" | (waking) n where "gw_waking g = Suc n"
    | (auth_idle) n where "gw_auth_idle g = Suc n" | (taken) t ts where "gw_auth_taken g = t # ts"
    | (running) x xs where "gw_auth_running g = x # xs" | (auth_waking) n where "gw_auth_waking g = Suc n"
    | (fetching) "gw_puller g = PullerFetching" | (puller) "gw_puller g = PullerIdle"
    by (metis gr0_conv_Suc neq_Nil_conv)
  then show ?thesis
  proof cases
    case gone
    then have "gateway_step parse level_env os Reactor g
        (g\<lparr>gw_pc := Exited, gw_server := finishShutdown_end os (gw_server g)\<rparr>)"
      by (intro gateway_step.reactor) (simp_all add: pc)
    then show ?thesis by blast
  next
    case idle
    obtain res q where pop: "bq_pop (sv_request_queue (gw_server g)) = (res, q)" by (rule prod.exhaust)
    show ?thesis
    proof (cases res)
      case (PopItem r)
      with gateway_step.take [OF idle] pop show ?thesis by blast
    next
      case PopFalse
      obtain s' where "onResponseProducerExited os ((gw_server g)\<lparr>sv_request_queue := q\<rparr>) = Some s'"
        by (rule exited_can [OF ev])
      with gateway_step.leave [OF idle] pop PopFalse show ?thesis by blast
    next
      case PopWaits
      with pop stopped show ?thesis by (simp add: bq_pop_def split: list.splits)
    qed
  next
    case busy
    then have "gw_busy g = [] @ r # rs" by simp
    from gateway_step.respond [OF this] show ?thesis by blast
  next
    case waking
    obtain s' where "server_notify os (gw_server g) = Some s'" by (rule notify_can [OF ev])
    from gateway_step.wake [OF waking this] show ?thesis by blast
  next
    case auth_idle
    obtain res q where pop: "bq_pop (sv_auth_queue (gw_server g)) = (res, q)" by (rule prod.exhaust)
    show ?thesis
    proof (cases res)
      case (PopItem r)
      with gateway_step.auth_take [OF auth_idle] pop show ?thesis by blast
    next
      case PopFalse
      obtain s' where "onResponseProducerExited os ((gw_server g)\<lparr>sv_auth_queue := q\<rparr>) = Some s'"
        by (rule exited_can [OF ev])
      with gateway_step.auth_leave [OF auth_idle] pop PopFalse show ?thesis by blast
    next
      case PopWaits
      with pop stopped show ?thesis by (simp add: bq_pop_def split: list.splits)
    qed
  next
    case taken
    obtain started_at not_after s' where "auth_worker_start os (gw_server g) = (started_at, not_after, s')"
      by (rule prod_cases3)
    moreover have "gw_auth_taken g = [] @ t # ts" using taken by simp
    ultimately show ?thesis
      using gateway_step.auth_skip [of g "[]" t ts] gateway_step.auth_begin [of g "[]" t ts] by blast
  next
    case (running x xs)
    obtain t started_at not_after where x: "x = (t, started_at, not_after)" by (rule prod_cases3)
    obtain resp outcome stats w where
      "handleAuth parse os (sv_control_plane (gw_server g)) not_after (at_request t) (sv_stats (gw_server g))
         (sv_io (gw_server g)) = Some (resp, outcome, stats, w)"
      using handleAuth_returns [OF clock] by fastforce
    then obtain s' where "auth_worker_respond parse os t started_at not_after (gw_server g) = Some (outcome, resp, s')"
      by (simp add: auth_worker_respond_def server_now_eq Let_def)
    moreover have "gw_auth_running g = [] @ (t, started_at, not_after) # xs" using running x by simp
    ultimately show ?thesis using gateway_step.auth_respond by blast
  next
    case auth_waking
    obtain s' where "server_notify os (gw_server g) = Some s'" by (rule notify_can [OF ev])
    then obtain s'' where "auth_worker_done os (gw_server g) = Some s''" by (simp add: auth_worker_done_def)
    with gateway_step.auth_wake [OF auth_waking] show ?thesis by blast
  next
    case fetching
    obtain s' where "configPuller_round level_env parse os io_new (gw_server g) = Some (Inr s')"
      by (rule puller_can [OF clock])
    with gateway_step.fetched [OF fetching] show ?thesis by blast
  next
    case puller
    have "gateway_step parse level_env os PullerThread g (g\<lparr>gw_puller := PullerGone\<rparr>)"
      by (rule gateway_step.puller_leave [OF puller]) (simp add: stopped)
    then show ?thesis by blast
  qed
qed

text \<open>So the threads left to themselves end in the final state, within a bound known beforehand.\<close>

inductive internal_run :: "json_parser \<Rightarrow> string option \<Rightarrow> os \<Rightarrow> nat \<Rightarrow> gateway \<Rightarrow> gateway \<Rightarrow> bool"
  for parse :: json_parser and level_env :: "string option" and os :: os where
  nothing: "internal_run parse level_env os 0 g g"
| another: "internal_run parse level_env os n g g' \<Longrightarrow> a \<noteq> Outside \<Longrightarrow> gateway_step parse level_env os a g' g'' \<Longrightarrow>
    internal_run parse level_env os (Suc n) g g''"

lemma joining_stays:
  assumes "gateway_step parse level_env os a g g'" and "gw_pc g = Joining"
  shows "gw_pc g' = Joining \<or> gw_pc g' = Exited"
  using assms by (induction rule: gateway_step.induct) (auto dest: reactor_leaves(3))

lemma exited_stuck:
  assumes "gateway_step parse level_env os a g g'" and "life_ok g" and "gw_pc g = Exited"
  shows "a = Outside"
proof -
  from assms(2,3) have "producers g = 0" "gw_puller g = PullerGone"
    by (simp_all add: life_ok_def life_core_def)
  with assms(1,3) show ?thesis by (cases rule: gateway_step.cases) (auto simp: producers_def)
qed

lemma internal_run_joining:
  assumes "internal_run parse level_env os n g g'" and "gw_pc g = Joining" and "life_ok g" and "os_transfer_ok os"
  shows "life_ok g' \<and> (gw_pc g' = Joining \<or> gw_pc g' = Exited) \<and> join_measure g' + n \<le> join_measure g"
  using assms
proof (induction rule: internal_run.induct)
  case (another n g g' a g'')
  then have IH: "life_ok g'" "gw_pc g' = Joining \<or> gw_pc g' = Exited" "join_measure g' + n \<le> join_measure g" by simp_all
  with exited_stuck [OF another(3) IH(1)] another(2) have pc: "gw_pc g' = Joining" by blast
  have "sv_state (gw_server g') = STOPPED" using IH(1) pc by (simp add: life_ok_def life_core_def control_sels)
  from join_measure_decreases [OF another(3,2) pc this] gateway_step_life [OF another(3) assms(4) IH(1)]
    joining_stays [OF another(3) pc] IH(3) show ?case by linarith
qed simp

section \<open>Draining until the deadline\<close>

text \<open>
  What the reactor relies on to get through its loop: from some call on, sending is not interrupted
  and waiting for events succeeds.
\<close>

definition send_settles :: "os \<Rightarrow> nat \<Rightarrow> bool" where
  "send_settles os T \<longleftrightarrow> (\<forall>t\<ge>T. \<forall>fd data. os_send os t fd data \<noteq> SysErr EINTR)"

definition epoll_settles :: "os \<Rightarrow> nat \<Rightarrow> bool" where
  "epoll_settles os T \<longleftrightarrow> (\<forall>t\<ge>T. \<forall>timeout. \<exists>events. os_epoll_wait os t timeout = SysOk events)"

text \<open>Time does not go back.\<close>

definition later :: "nat \<Rightarrow> TcpServer \<Rightarrow> bool" where
  "later n s \<longleftrightarrow> n \<le> io_tick (sv_io s)"

lemma later_simps [simp]:
  "later n (count_stat f s) = later n s" "later n (put_conn fd c s) = later n s"
  "later n (s\<lparr>sv_connections := x1\<rparr>) = later n s" "later n (s\<lparr>sv_cancellations := x2\<rparr>) = later n s"
  "later n (s\<lparr>sv_rate_limit_windows := x3\<rparr>) = later n s" "later n (s\<lparr>sv_violation := x4\<rparr>) = later n s"
  "later n (s\<lparr>sv_rejected := x5\<rparr>) = later n s" "later n (s\<lparr>sv_response_queue := x6\<rparr>) = later n s"
  "later n (s\<lparr>sv_io := w\<rparr>) = (n \<le> io_tick w)"
  by (simp_all add: later_def count_stat_def put_conn_def)

lemma later_calls:
  "later n s \<Longrightarrow> later n (server_close fd s)"
  "later n s \<Longrightarrow> later n (snd (server_ctl os op fd events s))"
  by (simp_all add: later_def server_close_def sys_close_def server_ctl_def sys_epoll_ctl_def split: sysres.split)

lemma later_closeConnection: "later n s \<Longrightarrow> later n (closeConnection os fd s)"
  by (simp add: closeConnection_def Let_def later_calls split: option.split)

lemma later_modify: "later n s \<Longrightarrow> later n (snd (modifyConnectionEvents os fd events s))"
  using later_calls(2) [of n s os EPOLL_CTL_MOD fd events]
  by (auto simp: modifyConnectionEvents_def later_closeConnection split: prod.split sysres.split)

lemma later_drains:
  "later n s \<Longrightarrow> later n (markReadEof os fd s)" "later n s \<Longrightarrow> later n (output_flushed os fd c s)"
  by (simp_all add: markReadEof_def maybeCloseAfterDrain_def output_flushed_def Let_def later_closeConnection later_modify
      split: option.split)

lemma later_apply: "later n s \<Longrightarrow> later n (applyResponse os r origin s)"
proof -
  assume l: "later n s"
  have "later n (snd (snd (apply_authentication r cfg c t)))" if "later n t" for cfg c t
    using that by (simp add: apply_authentication_def split: option.split)
  moreover have "later n (snd (complete_work origin c s))" for c using l by (simp add: complete_work_def)
  ultimately show ?thesis
    using l by (simp add: applyResponse_def Let_def case_prod_beta later_closeConnection later_modify split: option.split)
qed

lemma later_fold: "(\<And>x s. later n s \<Longrightarrow> later n (f x s)) \<Longrightarrow> later n s \<Longrightarrow> later n (fold f xs s)"
  by (induction xs arbitrary: s) auto

lemma later_rejected: "later n s \<Longrightarrow> later n (drainRejectedResponses os s)"
  unfolding drainRejectedResponses_def
  by (rule later_fold) (simp_all add: close_rejected_def later_closeConnection split: option.split)

lemma later_handleWrite: "handleWrite os fd s = Some s' \<Longrightarrow> later n s \<Longrightarrow> later n s'"
proof (induction rule: handleWrite.raw_induct [rotated, consumes 1, case_names step])
  case (step rec os fd s s')
  show ?case
  proof (cases "find_conn s fd")
    case None
    with step show ?thesis by simp
  next
    case (Some c)
    obtain r w where send: "sys_send os fd (drop (cn_write_offset c) (cn_output_buffer c)) (sv_io s) = (r, w)"
      by (rule prod.exhaust)
    have w: "n \<le> io_tick w"
      using send step(3) by (auto simp: sys_send_def later_def split: sysres.splits)
    obtain k c1 s1 where sent: "bytes_sent fd c k (s\<lparr>sv_io := w\<rparr>) = (c1, s1)" and k: "r = SysOk k \<or> (\<forall>m. r \<noteq> SysOk m)"
      by (metis prod.exhaust)
    have s1: "later n s1" using sent w by (auto simp: bytes_sent_def Let_def)
    have close: "later n (closeConnection os fd (s\<lparr>sv_io := w\<rparr>))"
      "later n (output_flushed os fd c s)" "later n (output_flushed os fd c1 s1)"
      using w step(3) s1 by (simp_all add: later_closeConnection later_drains)
    show ?thesis
      using step(1) [OF _ s1] step(1) [of os fd "s\<lparr>sv_io := w\<rparr>" s'] step(2) Some send sent k close w
      by (auto split: if_splits sysres.splits)
  qed
qed

text \<open>Writing ends: what is left to send gets less, or an interruption has passed.\<close>

definition unsent :: "TcpServer \<Rightarrow> int \<Rightarrow> nat" where
  "unsent s fd = (case find_conn s fd of None \<Rightarrow> 0 | Some c \<Rightarrow> length (cn_output_buffer c) - cn_write_offset c)"

lemma handleWrite_returns:
  assumes "send_settles os T"
  shows "handleWrite os fd s \<noteq> None"
proof (induction "(unsent s fd, T - io_tick (sv_io s))" arbitrary: s rule: wf_induct_rule [OF wf_lex_prod [OF wf_less_than wf_less_than]])
  case (1 s)
  then have IH: "handleWrite os fd s' \<noteq> None"
    if "unsent s' fd < unsent s fd \<or> unsent s' fd = unsent s fd \<and> T - io_tick (sv_io s') < T - io_tick (sv_io s)" for s'
    using that by auto
  show ?case
  proof (cases "find_conn s fd")
    case None
    then show ?thesis by (subst handleWrite.simps) simp
  next
    case (Some c)
    show ?thesis
    proof (cases "cn_write_offset c \<ge> length (cn_output_buffer c)")
      case True
      with Some show ?thesis by (subst handleWrite.simps) simp
    next
      case False
      let ?data = "drop (cn_write_offset c) (cn_output_buffer c)"
      show ?thesis
      proof (cases "os_send os (io_tick (sv_io s)) fd ?data")
        case (SysOk k)
        let ?w = "io_step [Sent fd (take k ?data)] (sv_io s)"
        obtain c1 s1 where sent: "bytes_sent fd c k (s\<lparr>sv_io := ?w\<rparr>) = (c1, s1)" by (rule prod.exhaust)
        have "handleWrite os fd s1 \<noteq> None" if "0 < k" "cn_output_buffer c1 \<noteq> []"
        proof (rule IH)
          have "unsent s1 fd < unsent s fd"
            using sent that False Some
            by (auto simp: unsent_def bytes_sent_def Let_def count_stat_def split: if_splits)
          then show "unsent s1 fd < unsent s fd \<or> unsent s1 fd = unsent s fd \<and>
            T - io_tick (sv_io s1) < T - io_tick (sv_io s)" ..
        qed
        with SysOk Some False sent show ?thesis
          by (subst handleWrite.simps) (simp add: sys_send_def del: not_None_eq)
      next
        case (SysErr e)
        let ?s = "s\<lparr>sv_io := io_step [] (sv_io s)\<rparr>"
        have "handleWrite os fd ?s \<noteq> None" if "e = EINTR"
        proof (rule IH)
          have "io_tick (sv_io s) < T"
            using assms SysErr that by (meson linorder_not_le send_settles_def)
          then show "unsent ?s fd < unsent s fd \<or> unsent ?s fd = unsent s fd \<and>
            T - io_tick (sv_io ?s) < T - io_tick (sv_io s)" by (simp add: unsent_def)
        qed
        with SysErr Some False show ?thesis
          by (subst handleWrite.simps) (simp add: sys_send_def del: not_None_eq)
      qed
    qed
  qed
qed

text \<open>The reactor running by itself.\<close>

definition reactor_runs :: "os \<Rightarrow> reactor_pc \<times> TcpServer \<Rightarrow> reactor_pc \<times> TcpServer \<Rightarrow> bool" where
  "reactor_runs os = (\<lambda>x y. reactor_step os (fst x) (snd x) = Some y)\<^sup>*\<^sup>*"

lemma runs_refl [simp]: "reactor_runs os x x"
  by (simp add: reactor_runs_def)

lemma runs_trans: "reactor_runs os x y \<Longrightarrow> reactor_runs os y z \<Longrightarrow> reactor_runs os x z"
  unfolding reactor_runs_def by (rule rtranclp_trans)

lemma runs_step: "reactor_step os pc s = Some y \<Longrightarrow> reactor_runs os y z \<Longrightarrow> reactor_runs os (pc, s) z"
  unfolding reactor_runs_def by (rule converse_rtranclp_into_rtranclp) simp_all

lemma runs_one: "reactor_step os pc s = Some y \<Longrightarrow> reactor_runs os (pc, s) y"
  by (erule runs_step) (rule runs_refl)

text \<open>The parts of an iteration keep the phase and the deadline.\<close>

definition drain_kept :: "TcpServer \<Rightarrow> TcpServer \<Rightarrow> bool" where
  "drain_kept s s' \<longleftrightarrow> sv_state s' = sv_state s \<and> sv_shutdown_deadline s' = sv_shutdown_deadline s \<and>
     later (io_tick (sv_io s)) s'"

lemma kept_trans: "drain_kept s s' \<Longrightarrow> drain_kept s' s'' \<Longrightarrow> drain_kept s s''"
  by (auto simp: drain_kept_def later_def)

lemma kept_refl [simp]: "drain_kept s s"
  by (simp add: drain_kept_def later_def)

lemma later_consume: "notifier_consume os n w = Some (b, n', w') \<Longrightarrow> io_tick w \<le> io_tick w'"
proof (induction "(b, n', w')" rule: notifier_consume.raw_induct [rotated, consumes 1, case_names step])
  case (step rec os n w)
  from step(2) show ?case
    by (auto simp: sys_eventfd_eq split: if_splits option.splits dest!: step(1))
qed

lemma event_while_draining:
  assumes "sv_state s = DRAINING" and "send_settles os T" and "eventfd_settles os T" and os: "os_transfer_ok os"
  shows "\<exists>s'. handle_event os e s = Some s' \<and> drain_kept s s'"
proof -
  obtain fd flags where e: "e = (fd, flags)" by (rule prod.exhaust)
  let ?eof = "if flags AND (EPOLLRDHUP OR EPOLLHUP) \<noteq> 0 then markReadEof os fd s else s"
  obtain s' where s': "handleWrite os fd ?eof = Some s'" using handleWrite_returns [OF assms(2)] by blast
  have l0: "later (io_tick (sv_io s)) s" by (simp add: later_def)
  then have l1: "later (io_tick (sv_io s)) ?eof" by (simp add: later_drains)
  obtain b n w where cons: "notifier_consume os (sv_notifier s) (sv_io s) = Some (b, n, w)"
    using consume_returns [OF assms(3)] by (metis not_None_eq prod_cases3)
  have w: "io_tick (sv_io s) \<le> io_tick w" by (rule later_consume [OF cons])
  obtain t where run: "handle_event os e s = Some t" and l: "later (io_tick (sv_io s)) t"
    using assms(1) cons s' w l0 l1 later_handleWrite [OF s' l1]
    by (cases "fd = rn_fd (sv_notifier s)"; cases "fd = sv_listen_fd s"; cases "flags AND EPOLLERR = 0";
        cases "find_conn s fd"; cases "flags AND EPOLLOUT = 0")
      (auto simp: handle_event_def e Let_def later_closeConnection)
  from run os have "sv_state t = sv_state s \<and> sv_shutdown_deadline t = sv_shutdown_deadline s"
    by (cases rule: handle_event_cases) (auto simp: keeps_ok_def event_frame_def handler_frame_def reactor_frame_def)
  with run l show ?thesis by (auto simp: drain_kept_def)
qed

lemma run_events:
  assumes "sv_state s = DRAINING" and "send_settles os T" and "eventfd_settles os T" and "os_transfer_ok os"
  shows "\<exists>s'. reactor_runs os (Handling es, s) (DrainResponses, s') \<and> drain_kept s s'"
  using assms(1)
proof (induction es arbitrary: s)
  case Nil
  have "reactor_runs os (Handling [], s) (DrainResponses, s)" by (rule runs_one) simp
  then show ?case by (intro exI [of _ s]) simp
next
  case (Cons e es)
  from event_while_draining [OF Cons.prems assms(2-4)] obtain s1 where
    s1: "handle_event os e s = Some s1" "drain_kept s s1" by blast
  then have "sv_state s1 = DRAINING" using Cons.prems by (simp add: drain_kept_def)
  from Cons.IH [OF this] obtain s2 where s2: "reactor_runs os (Handling es, s1) (DrainResponses, s2)" "drain_kept s1 s2" by blast
  have "reactor_runs os (Handling (e # es), s) (DrainResponses, s2)" by (rule runs_step [OF _ s2(1)]) (simp add: s1(1))
  with kept_trans [OF s1(2) s2(2)] show ?case by blast
qed

lemma run_responses: "\<exists>s'. reactor_runs os (DrainResponses, s) (DrainRejected, s') \<and> drain_kept s s'"
proof (induction "length (q_data (sv_response_queue s))" arbitrary: s)
  case 0
  have "reactor_runs os (DrainResponses, s) (DrainRejected, s)"
    by (rule runs_one) (use 0 in \<open>auto simp: drainResponse_step_def bq_tryPop_def\<close>)
  then show ?case by (intro exI [of _ s]) simp
next
  case (Suc n)
  then obtain r rs where q: "q_data (sv_response_queue s) = r # rs" "length rs = n" by (auto simp: Suc_length_conv)
  define t where "t = s\<lparr>sv_response_queue := (sv_response_queue s)\<lparr>q_data := rs\<rparr>\<rparr>"
  define s1 where "s1 = applyResponse os r Worker t"
  have step: "drainResponse_step os s = (True, s1)"
    by (simp add: drainResponse_step_def bq_tryPop_def q(1) s1_def t_def)
  have f: "reactor_frame t s1" by (simp add: s1_def)
  have "later (io_tick (sv_io s)) s1" unfolding s1_def by (rule later_apply) (simp add: t_def later_def)
  with f have kept: "drain_kept s s1" by (simp add: drain_kept_def reactor_frame_def t_def)
  have "n = length (q_data (sv_response_queue s1))" using f q(2) by (simp add: reactor_frame_def t_def)
  from Suc.hyps(1) [OF this] obtain s2 where
    s2: "reactor_runs os (DrainResponses, s1) (DrainRejected, s2)" "drain_kept s1 s2" by blast
  have "reactor_runs os (DrainResponses, s) (DrainRejected, s2)" by (rule runs_step [OF _ s2(1)]) (simp add: step)
  with kept_trans [OF kept s2(2)] show ?case by blast
qed

lemma run_rejected:
  "reactor_runs os (DrainRejected, s) (DrainCheck, drainRejectedResponses os s) \<and>
   drain_kept s (drainRejectedResponses os s)"
proof
  show "reactor_runs os (DrainRejected, s) (DrainCheck, drainRejectedResponses os s)" by (rule runs_one) simp
  have "later (io_tick (sv_io s)) (drainRejectedResponses os s)" by (rule later_rejected) (simp add: later_def)
  with frame_drainRejected [of s os] show "drain_kept s (drainRejectedResponses os s)"
    by (simp add: drain_kept_def reactor_frame_def)
qed

text \<open>One iteration after the events: it stops the server if the deadline has passed.\<close>

lemma run_check:
  assumes "sv_state s = DRAINING"
  shows "\<exists>s'. reactor_runs os (DrainCheck, s) (LoopTop, s') \<and>
    (sv_state s' = STOPPED \<or>
     sv_state s' = DRAINING \<and> sv_shutdown_deadline s' = sv_shutdown_deadline s \<and> later (io_tick (sv_io s)) s' \<and>
     \<not> clock_reaches os (sv_shutdown_deadline s) (io_tick (sv_io s)))"
proof -
  have "reactor_runs os (DrainCheck, s) (LoopTop, drain_check os s)" by (rule runs_one) simp
  moreover have "later (io_tick (sv_io s)) (fold (closeConnection os) fds s)" for fds
    by (rule later_fold) (simp_all add: later_closeConnection, simp add: later_def)
  then have l: "later (io_tick (sv_io s)) (snd (drainComplete os s))"
    by (simp add: drainComplete_def Let_def later_def)
  have "sv_state (drain_check os s) = STOPPED \<or>
     sv_state (drain_check os s) = DRAINING \<and> sv_shutdown_deadline (drain_check os s) = sv_shutdown_deadline s \<and>
     later (io_tick (sv_io s)) (drain_check os s) \<and>
     \<not> clock_reaches os (sv_shutdown_deadline s) (io_tick (sv_io s))"
  proof -
    obtain b s1 where dc: "drainComplete os s = (b, s1)" by (rule prod.exhaust)
    then have f: "reactor_frame s s1" by (auto simp: drainComplete_def Let_def split: if_splits)
    from l dc have l1: "io_tick (sv_io s) \<le> io_tick (sv_io s1)" by (simp add: later_def)
    show ?thesis
      using assms dc f l1
      by (cases b) (auto simp: drain_check_def server_now_eq shutdownDeadline_def reactor_frame_def clock_reaches_def)
  qed
  ultimately show ?thesis by blast
qed

lemma run_waiting:
  assumes "sv_state s = DRAINING" and os: "send_settles os T" "eventfd_settles os T" "os_transfer_ok os"
  shows "\<exists>s'. reactor_runs os (Waiting t, s) (LoopTop, s') \<and>
    (sv_state s' = STOPPED \<or>
     sv_state s' = DRAINING \<and> sv_shutdown_deadline s' = sv_shutdown_deadline s \<and> later (Suc (io_tick (sv_io s))) s' \<and>
     (epoll_settles os (io_tick (sv_io s)) \<longrightarrow> \<not> clock_reaches os (sv_shutdown_deadline s) (Suc (io_tick (sv_io s)))))"
proof -
  let ?n = "io_tick (sv_io s)"
  let ?s2 = "s\<lparr>sv_io := io_step [] (sv_io s)\<rparr>"
  show ?thesis
  proof (cases "os_epoll_wait os ?n t")
    case (SysErr e)
    then have "loop_wait os t s = (LoopTop, ?s2)"
      using assms(1) by (simp add: loop_wait_def sys_epoll_wait_def beginDraining_def Let_def)
    then have "reactor_runs os (Waiting t, s) (LoopTop, ?s2)" by (intro runs_one) simp
    moreover have "\<not> epoll_settles os ?n"
    proof
      assume "epoll_settles os ?n"
      then obtain events where "os_epoll_wait os ?n t = SysOk events"
        unfolding epoll_settles_def by blast
      with SysErr show False by simp
    qed
    ultimately show ?thesis using assms(1) by (intro exI [of _ ?s2]) (simp add: later_def)
  next
    case (SysOk es)
    then have "loop_wait os t s = (Handling es, ?s2)" by (simp add: loop_wait_def sys_epoll_wait_def)
    then have r2: "reactor_runs os (Waiting t, s) (Handling es, ?s2)" by (intro runs_one) simp
    have "sv_state ?s2 = DRAINING" using assms(1) by simp
    from run_events [OF this os] obtain s3 where
      r3: "reactor_runs os (Handling es, ?s2) (DrainResponses, s3)" "drain_kept ?s2 s3" by blast
    obtain s4 where r4: "reactor_runs os (DrainResponses, s3) (DrainRejected, s4)" "drain_kept s3 s4"
      using run_responses by blast
    let ?s5 = "drainRejectedResponses os s4"
    have r5: "reactor_runs os (DrainRejected, s4) (DrainCheck, ?s5)" "drain_kept s4 ?s5" using run_rejected by blast+
    have k5: "drain_kept ?s2 ?s5" using r3(2) r4(2) r5(2) kept_trans by blast
    then have "sv_state ?s5 = DRAINING" using assms(1) by (simp add: drain_kept_def)
    from run_check [OF this, of os] obtain s6 where r6: "reactor_runs os (DrainCheck, ?s5) (LoopTop, s6)"
      "sv_state s6 = STOPPED \<or>
       sv_state s6 = DRAINING \<and> sv_shutdown_deadline s6 = sv_shutdown_deadline ?s5 \<and> later (io_tick (sv_io ?s5)) s6 \<and>
       \<not> clock_reaches os (sv_shutdown_deadline ?s5) (io_tick (sv_io ?s5))" by blast
    have "reactor_runs os (Waiting t, s) (LoopTop, s6)"
      using r2 r3(1) r4(1) r5(1) r6(1) runs_trans by blast
    moreover from k5 have d: "sv_shutdown_deadline ?s5 = sv_shutdown_deadline s" "Suc ?n \<le> io_tick (sv_io ?s5)"
      by (simp_all add: drain_kept_def later_def)
    then have "\<not> clock_reaches os (sv_shutdown_deadline s) (io_tick (sv_io ?s5)) \<Longrightarrow>
        \<not> clock_reaches os (sv_shutdown_deadline s) (Suc ?n)"
      unfolding clock_reaches_def by (meson order_trans)
    ultimately show ?thesis using r6(2) d by (intro exI [of _ s6]) (auto simp: later_def)
  qed
qed

lemma run_wait:
  assumes "sv_state s = DRAINING" and os: "send_settles os T" "eventfd_settles os T" "os_transfer_ok os"
  shows "\<exists>s'. reactor_runs os (LoopTop, s) (LoopTop, s') \<and>
    (sv_state s' = STOPPED \<or>
     sv_state s' = DRAINING \<and> sv_shutdown_deadline s' = sv_shutdown_deadline s \<and> later (Suc (io_tick (sv_io s))) s' \<and>
     (epoll_settles os (io_tick (sv_io s)) \<longrightarrow> \<not> clock_reaches os (sv_shutdown_deadline s) (io_tick (sv_io s))))"
proof -
  let ?n = "io_tick (sv_io s)" let ?s1 = "s\<lparr>sv_io := io_step [] (sv_io s)\<rparr>"
  obtain t where "loop_top os s = (Waiting t, ?s1)"
    using assms(1) by (auto simp: loop_top_def epollTimeoutMs_def server_now_eq Let_def)
  then have top: "reactor_runs os (LoopTop, s) (Waiting t, ?s1)" by (intro runs_one) simp
  have "sv_state ?s1 = DRAINING" using assms(1) by simp
  from run_waiting [OF this os, of t] obtain s' where r: "reactor_runs os (Waiting t, ?s1) (LoopTop, s')"
    and s': "sv_state s' = STOPPED \<or>
     sv_state s' = DRAINING \<and> sv_shutdown_deadline s' = sv_shutdown_deadline s \<and> later (Suc (Suc ?n)) s' \<and>
     (epoll_settles os (Suc ?n) \<longrightarrow> \<not> clock_reaches os (sv_shutdown_deadline s) (Suc (Suc ?n)))" by auto
  have "epoll_settles os ?n \<Longrightarrow> epoll_settles os (Suc ?n)"
    "clock_reaches os (sv_shutdown_deadline s) ?n \<Longrightarrow> clock_reaches os (sv_shutdown_deadline s) (Suc (Suc ?n))"
    by (simp_all add: epoll_settles_def clock_reaches_def)
  with s' runs_trans [OF top r] show ?thesis by (intro exI [of _ s']) (auto simp: later_def)
qed

text \<open>The drain ends in the join of the threads.\<close>

lemma drain_ends:
  assumes draining: "sv_state s = DRAINING" and os: "send_settles os T" "eventfd_settles os T" "os_transfer_ok os"
    and ep: "epoll_settles os E" and clock: "clock_reaches os (sv_shutdown_deadline s) D"
  shows "\<exists>s'. reactor_runs os (LoopTop, s) (Joining, s') \<and> sv_state s' = STOPPED"
  using draining clock
proof (induction "max E D - io_tick (sv_io s)" arbitrary: s rule: less_induct)
  case less
  from run_wait [OF less.prems(1) os] obtain s1 where r1: "reactor_runs os (LoopTop, s) (LoopTop, s1)"
    and s1: "sv_state s1 = STOPPED \<or>
     sv_state s1 = DRAINING \<and> sv_shutdown_deadline s1 = sv_shutdown_deadline s \<and> later (Suc (io_tick (sv_io s))) s1 \<and>
     (epoll_settles os (io_tick (sv_io s)) \<longrightarrow> \<not> clock_reaches os (sv_shutdown_deadline s) (io_tick (sv_io s)))" by blast
  from s1 show ?case
  proof
    assume "sv_state s1 = STOPPED"
    then have "reactor_runs os (LoopTop, s1) (Joining, finishShutdown_begin os s1)"
      by (intro runs_one) (simp add: loop_top_def)
    moreover have "sv_state (finishShutdown_begin os s1) = STOPPED"
      using finishShutdown_begin_frame [of s1 os] \<open>sv_state s1 = STOPPED\<close> by (simp add: reactor_frame_def)
    ultimately show ?thesis using r1 runs_trans by blast
  next
    assume s1: "sv_state s1 = DRAINING \<and> sv_shutdown_deadline s1 = sv_shutdown_deadline s \<and>
      later (Suc (io_tick (sv_io s))) s1 \<and>
      (epoll_settles os (io_tick (sv_io s)) \<longrightarrow> \<not> clock_reaches os (sv_shutdown_deadline s) (io_tick (sv_io s)))"
    have "io_tick (sv_io s) < max E D"
    proof (rule ccontr)
      assume "\<not> io_tick (sv_io s) < max E D"
      then have "epoll_settles os (io_tick (sv_io s))" "clock_reaches os (sv_shutdown_deadline s) (io_tick (sv_io s))"
        using ep less.prems(2) by (auto simp: epoll_settles_def clock_reaches_def)
      with s1 show False by simp
    qed
    with s1 have "max E D - io_tick (sv_io s1) < max E D - io_tick (sv_io s)" by (simp add: later_def) linarith
    from less.hyps [OF this] s1 less.prems(2) r1 show ?thesis using runs_trans by (metis (no_types, lifting))
  qed
qed

text \<open>A stop that was requested ends there as well.\<close>

lemma stop_ends:
  assumes stop: "sv_stop_requested s \<or> sv_signal_stop_requested s" "sv_state s = RUNNING"
    and os: "send_settles os T" "eventfd_settles os T" "os_transfer_ok os" "epoll_settles os E" "clock_advances os"
  shows "\<exists>s'. reactor_runs os (LoopTop, s) (Joining, s') \<and> sv_state s' = STOPPED"
proof -
  define s1 where "s1 = beginDraining os s"
  have draining: "sv_state s1 = DRAINING"
    using beginDraining_frame [OF stop(2), of os] by (simp add: s1_def reactor_frame_def)
  let ?s2 = "s1\<lparr>sv_io := io_step [] (sv_io s1)\<rparr>"
  obtain t where "loop_top os s = (Waiting t, ?s2)"
    using stop draining by (auto simp: loop_top_def epollTimeoutMs_def server_now_eq Let_def s1_def)
  then have top: "reactor_runs os (LoopTop, s) (Waiting t, ?s2)" by (intro runs_one) simp
  have "sv_state ?s2 = DRAINING" using draining by simp
  from run_waiting [OF this os(1-3), of t] obtain s3 where r: "reactor_runs os (Waiting t, ?s2) (LoopTop, s3)"
    and s3: "sv_state s3 = STOPPED \<or> sv_state s3 = DRAINING" by blast
  from s3 have "\<exists>s'. reactor_runs os (LoopTop, s3) (Joining, s') \<and> sv_state s' = STOPPED"
  proof
    assume "sv_state s3 = STOPPED"
    moreover have "reactor_runs os (LoopTop, s3) (Joining, finishShutdown_begin os s3)"
      by (intro runs_one) (simp add: loop_top_def calculation)
    ultimately show ?thesis using finishShutdown_begin_frame [of s3 os] by (auto simp: reactor_frame_def)
  next
    assume d: "sv_state s3 = DRAINING"
    obtain D where "clock_reaches os (sv_shutdown_deadline s3) D" using os(5) by (auto simp: clock_advances_def)
    from drain_ends [OF d os(1-4) this] show ?thesis .
  qed
  with runs_trans [OF top r] show ?thesis using runs_trans by blast
qed

text \<open>What the reactor reaches by itself, the gateway reaches.\<close>

lemma runs_reachable:
  assumes "reactor_runs os x y" and "reachable parse level_env os (g\<lparr>gw_pc := fst x, gw_server := snd x\<rparr>)"
    and "fst y \<noteq> Exited"
  shows "reachable parse level_env os (g\<lparr>gw_pc := fst y, gw_server := snd y\<rparr>)"
  using assms unfolding reactor_runs_def
proof (induction rule: rtranclp_induct)
  case (step y z)
  have "fst y \<noteq> Exited" using step(2) by auto
  with step(3,4) have IH: "reachable parse level_env os (g\<lparr>gw_pc := fst y, gw_server := snd y\<rparr>)" by simp
  have "fst y \<noteq> Joining" using step(2,5) by auto
  then have "gateway_step parse level_env os Reactor (g\<lparr>gw_pc := fst y, gw_server := snd y\<rparr>)
     (g\<lparr>gw_pc := fst y, gw_server := snd y\<rparr>\<lparr>gw_pc := fst z, gw_server := snd z\<rparr>)"
    by (intro gateway_step.reactor) (simp_all add: step(2))
  from reachable.step [OF IH this] show ?case by simp
qed simp

section \<open>An example\<close>

lemma quiet_os_settles: "send_settles quiet_os 0" "epoll_settles quiet_os 0"
  by (simp_all add: send_settles_def epoll_settles_def quiet_os_def sample_os_def)

text \<open>The example server after a stop was requested while it waits for events.\<close>

definition sample_waiting :: gateway where
  "sample_waiting = sample_gateway\<lparr>gw_pc := Waiting (-1)\<rparr>"

lemma sample_waiting_reachable: "reachable parse level_env quiet_os sample_waiting"
proof -
  let ?s = "gw_server sample_gateway"
  have flags: "\<not> sv_stop_requested ?s \<and> \<not> sv_signal_stop_requested ?s"
  proof -
    note new = TcpServer_new_result [OF sample_server_new]
    from sample_gateway_start obtain n s1 where run: "start_server quiet_os 4 sample_server = Inr (n, s1)"
      and g: "sample_gateway = threads_started n s1"
      by (auto simp: gateway_start_def split: sum.splits)
    have "\<not> sv_stop_requested s1 \<and> \<not> sv_signal_stop_requested s1"
      using run new(3) by (rule start_server_result) (simp add: new)
    then show ?thesis by (simp add: g threads_started_def)
  qed
  then have "reactor_step quiet_os (gw_pc sample_gateway) ?s = Some (Waiting (-1), ?s)"
    by (simp add: sample_gateway_state loop_top_def epollTimeoutMs_def)
  from gateway_step.reactor [OF this] have
    "gateway_step parse level_env quiet_os Reactor sample_gateway (sample_gateway\<lparr>gw_pc := Waiting (-1), gw_server := ?s\<rparr>)"
    by (simp add: sample_gateway_state)
  from reachable.step [OF sample_reachable this] show ?thesis by (simp add: sample_waiting_def)
qed

lemma stop_step:
  assumes "sv_started (gw_server g)" and "\<not> sv_shutdown_finished (gw_server g)" and "eventfd_settles os T"
  obtains s' where "gateway_step parse level_env os Outside g (g\<lparr>gw_server := s'\<rparr>)" "sv_stop_requested s'"
    "sv_state s' = sv_state (gw_server g)"
proof -
  obtain s' where s': "server_notify os ((gw_server g)\<lparr>sv_stop_requested := True\<rparr>) = Some s'"
    by (rule notify_can [OF assms(3)])
  then have "stop_server os (gw_server g) = Some s'" using assms(1,2) by (simp add: stop_server_def)
  moreover from s' have "sv_stop_requested s'" "sv_state s' = sv_state (gw_server g)"
    by (auto simp: server_notify_def)
  ultimately show thesis by (blast intro: that gateway_step.stop)
qed

lemma sample_stopped:
  obtains g where "reachable parse level_env quiet_os g" "gw_pc g = Waiting (-1)" "sv_stop_requested (gw_server g)"
    "sv_state (gw_server g) = RUNNING"
proof -
  have "sv_started (gw_server sample_waiting)" "\<not> sv_shutdown_finished (gw_server sample_waiting)"
    by (simp_all add: sample_waiting_def sample_gateway_state)
  from stop_step [OF this quiet_os_ok(4)] obtain s' where
    s': "gateway_step parse level_env quiet_os Outside sample_waiting (sample_waiting\<lparr>gw_server := s'\<rparr>)"
      "sv_stop_requested s'" "sv_state s' = sv_state (gw_server sample_waiting)" by blast
  show thesis
    by (rule that [OF reachable.step [OF sample_waiting_reachable s'(1)]])
      (use s' in \<open>simp_all add: sample_waiting_def sample_gateway_state\<close>)
qed

text \<open>It drains, stops and joins its threads.\<close>

lemma sample_at_top:
  obtains g where "reachable parse level_env quiet_os g" "gw_pc g = LoopTop" "sv_stop_requested (gw_server g)"
    "sv_state (gw_server g) = RUNNING"
proof -
  from stop_step [OF sample_gateway_state(4,5) quiet_os_ok(4)] obtain s' where
    s': "gateway_step parse level_env quiet_os Outside sample_gateway (sample_gateway\<lparr>gw_server := s'\<rparr>)"
      "sv_stop_requested s'" "sv_state s' = sv_state (gw_server sample_gateway)" by blast
  show thesis
    by (rule that [OF reachable.step [OF sample_reachable s'(1)]]) (use s' in \<open>simp_all add: sample_gateway_state\<close>)
qed

lemma sample_run:
  obtains g s' where "reachable parse level_env quiet_os g" "sv_state (gw_server g) = RUNNING"
    "reactor_runs quiet_os (gw_pc g, gw_server g) (Joining, s')" "sv_state s' = STOPPED"
proof -
  obtain g where g: "reachable parse level_env quiet_os g" "gw_pc g = LoopTop" "sv_stop_requested (gw_server g)"
    "sv_state (gw_server g) = RUNNING" by (rule sample_at_top)
  from stop_ends [OF _ g(4) quiet_os_settles(1) quiet_os_ok(4,1) quiet_os_settles(2) quiet_os_ok(2)] g(3)
  obtain s' where "reactor_runs quiet_os (LoopTop, gw_server g) (Joining, s')" "sv_state s' = STOPPED" by blast
  with that [of g s'] g show thesis by simp
qed

lemma sample_joining:
  obtains g where "reachable parse level_env quiet_os g" "gw_pc g = Joining"
proof -
  obtain g s' where g: "reachable parse level_env quiet_os g"
    and run: "reactor_runs quiet_os (gw_pc g, gw_server g) (Joining, s')" by (rule sample_run)
  from runs_reachable [OF run, of parse level_env g] g show thesis
    by (intro that [of "g\<lparr>gw_pc := Joining, gw_server := s'\<rparr>"]) simp_all
qed

text \<open>A run that stops has a step that does it.\<close>

lemma runs_crossing:
  assumes "reactor_runs os x z" and "sv_state (snd x) \<noteq> STOPPED" and "sv_state (snd z) = STOPPED"
  shows "\<exists>y y'. reactor_runs os x y \<and> reactor_step os (fst y) (snd y) = Some y' \<and>
    sv_state (snd y) \<noteq> STOPPED \<and> sv_state (snd y') = STOPPED"
  using assms unfolding reactor_runs_def
proof (induction rule: rtranclp_induct)
  case (step y z)
  then show ?case by (cases "sv_state (snd y) = STOPPED") blast+
qed simp

lemma sample_drained:
  obtains g g' where "reachable parse level_env quiet_os g" "gateway_step parse level_env quiet_os Reactor g g'"
    "sv_state (gw_server g) = DRAINING" "sv_state (gw_server g') = STOPPED"
proof -
  obtain g s' where g: "reachable parse level_env quiet_os g" "sv_state (gw_server g) = RUNNING"
    and run: "reactor_runs quiet_os (gw_pc g, gw_server g) (Joining, s')" "sv_state s' = STOPPED" by (rule sample_run)
  from runs_crossing [OF run(1)] g(2) run(2) obtain y y' where y: "reactor_runs quiet_os (gw_pc g, gw_server g) y"
    "reactor_step quiet_os (fst y) (snd y) = Some y'" "sv_state (snd y) \<noteq> STOPPED" "sv_state (snd y') = STOPPED"
    by auto
  let ?g = "g\<lparr>gw_pc := fst y, gw_server := snd y\<rparr>" let ?g' = "?g\<lparr>gw_pc := fst y', gw_server := snd y'\<rparr>"
  have "fst y \<noteq> Exited" using y(2) by auto
  from runs_reachable [OF y(1) _ this, of parse level_env g] g(1) have r: "reachable parse level_env quiet_os ?g" by simp
  from reachable_life [OF r quiet_os_ok(1)] y(3) have nj: "fst y \<noteq> Joining"
    by (auto simp: life_ok_def life_core_def control_sels)
  have step: "gateway_step parse level_env quiet_os Reactor ?g ?g'"
    by (rule gateway_step.reactor) (use y(2) nj in simp_all)
  have "reactor_step quiet_os (fst y) (snd y) = Some (fst y', snd y')" using y(2) by simp
  from reactor_leaves(1,2) [OF this] y(3) nj have "fst y' \<noteq> Joining" "fst y' \<noteq> Exited" by auto
  with control_step_state(1) [OF control_reactor [of quiet_os "fst y" "snd y" "fst y'" "snd y'"]] quiet_os_ok(1) y
  have "sv_state (snd y) = DRAINING" by (simp add: control_sels)
  with r step y(4) show thesis by (intro that [of ?g ?g']) simp_all
qed

end
