(* ===== verification/ServerEffects.thy ===== *)
theory ServerEffects
  imports ServerHandlers ServerSample
begin

text \<open>
  What single operations of the server do, exactly: the response that reaches its connection and no
  other, the bytes that leave a connection in order, and the rate a client is held to.
\<close>

section \<open>Responses\<close>

definition epoll_refuses :: "os \<Rightarrow> int \<Rightarrow> bool" where
  "epoll_refuses os fd \<longleftrightarrow> (\<exists>t e. os_epoll_ctl os t EPOLL_CTL_MOD fd = SysErr e)"

lemma find_modify:
  "find_conn (snd (modifyConnectionEvents os fd ev s)) fd' = find_conn s fd' \<or>
   fd' = fd \<and> find_conn (snd (modifyConnectionEvents os fd ev s)) fd' = None \<and> epoll_refuses os fd"
proof -
  obtain r t where ctl: "server_ctl os EPOLL_CTL_MOD fd ev s = (r, t)" by (rule prod.exhaust)
  then have "find_conn t = find_conn s" "\<And>e. r = SysErr e \<Longrightarrow> epoll_refuses os fd"
    by (auto simp: server_ctl_def sys_epoll_ctl_def epoll_refuses_def split: sysres.splits)
  with ctl show ?thesis by (cases r) (auto simp: modifyConnectionEvents_def)
qed

text \<open>A response whose connection is gone, or was replaced by another one, changes no connection.\<close>

lemma applyResponse_stale:
  assumes "open_conn s (resp_key r) = None"
  shows "sv_connections (applyResponse os r origin s) = sv_connections s"
  using assms
  by (auto simp: applyResponse_def open_conn_def resp_key_def Let_def count_stat_def split: option.splits if_splits)

lemma applyResponse_open:
  fixes os :: os
  assumes c: "open_conn s (resp_key r) = Some c" "cn_fd c = resp_fd r"
    and pos: "origin = Worker \<longrightarrow> 0 < cn_in_flight_work c" and skip: "\<not> resp_skip_write r"
  defines "s' \<equiv> applyResponse os r origin s"
    and "pending \<equiv> drop (cn_write_offset c) (cn_output_buffer c)"
    and "bytes \<equiv> encode (written_response s (resp_fd r) r)"
  shows "(\<forall>fd. fd \<noteq> resp_fd r \<longrightarrow> find_conn s' fd = find_conn s fd) \<and>
    (case find_conn s' (resp_fd r) of
       None \<Rightarrow> rc_slow_client_output_limit (sv_runtime_config s) < length pending + length bytes \<or>
         epoll_refuses os (resp_fd r)
     | Some c' \<Rightarrow>
         drop (cn_write_offset c') (cn_output_buffer c') = pending @ bytes \<and>
         length pending + length bytes \<le> rc_slow_client_output_limit (sv_runtime_config s) \<and>
         cn_in_flight_work c' = cn_in_flight_work c - (if origin = Worker then 1 else 0) \<and>
         cn_input_buffer c' = cn_input_buffer c \<and>
         (cn_authenticated c' \<longrightarrow> cn_authenticated c \<or> resp_client_id_to_authenticate r = Some (cn_client_id c')))"
proof -
  from c(1) have find: "find_conn s (resp_fd r) = Some c" "cn_conn_id c = resp_conn_id r"
    by (auto simp: open_conn_def resp_key_def split: option.splits if_splits)
  from find c(2) pos skip refl refl refl show ?thesis
  proof (cases rule: applyResponse_cases [of s r c origin _ _ _ os])
    case (slow s2)
    have s2: "find_conn s2 = find_conn s" using slow(2) by (simp add: same_core_def)
    have "s' = closeConnection os (resp_fd r) (put_conn (resp_fd r) (authenticated_by s r (settled r origin c)) s2)"
      by (simp add: s'_def slow(4))
    then show ?thesis using slow(1) by (simp add: s2 pending_def bytes_def)
  next
    case (queued s2 c4)
    define t where "t = put_conn (resp_fd r) c4 s2"
    have t: "find_conn t fd = (if fd = resp_fd r then Some c4 else find_conn s fd)" for fd
      using queued(2) by (simp add: t_def same_core_def)
    have s': "s' = snd (modifyConnectionEvents os (resp_fd r) (connectionEvents t c4) t)"
      by (simp add: s'_def queued(5) t_def)
    have c4: "drop (cn_write_offset c4) (cn_output_buffer c4) = pending @ bytes"
      "cn_in_flight_work c4 = cn_in_flight_work c - (if origin = Worker then 1 else 0)"
      "cn_input_buffer c4 = cn_input_buffer c"
      "cn_authenticated c4 \<longrightarrow> cn_authenticated c \<or> resp_client_id_to_authenticate r = Some (cn_client_id c4)"
      by (auto simp: queued(4) pending_def bytes_def authenticated_by_def settled_def Let_def split: option.splits)
    have other: "find_conn s' fd = find_conn s fd" if "fd \<noteq> resp_fd r" for fd
      using that find_modify [of os "resp_fd r" "connectionEvents t c4" t fd] by (auto simp: s' t)
    from find_modify [of os "resp_fd r" "connectionEvents t c4" t "resp_fd r"] have
      "find_conn s' (resp_fd r) = Some c4 \<or> find_conn s' (resp_fd r) = None \<and>
         epoll_refuses os (resp_fd r)"
      by (auto simp: s' t)
    with other c4 queued(1) show ?thesis by (auto simp: pending_def bytes_def)
  qed
qed

section \<open>Bytes\<close>

text \<open>What was handed to the kernel for a descriptor, and what is still to be sent.\<close>

definition sent_bytes :: "int \<Rightarrow> TcpServer \<Rightarrow> string" where
  "sent_bytes fd s = sent_on fd (io_log (sv_io s))"

definition pending_bytes :: "int \<Rightarrow> TcpServer \<Rightarrow> string" where
  "pending_bytes fd s =
     (case find_conn s fd of None \<Rightarrow> [] | Some c \<Rightarrow> drop (cn_write_offset c) (cn_output_buffer c))"

lemma sent_bytes_simps [simp]:
  "sent_bytes fd (count_stat f s) = sent_bytes fd s" "sent_bytes fd (put_conn fd' c s) = sent_bytes fd s"
  "sent_bytes fd (s\<lparr>sv_connections := x1\<rparr>) = sent_bytes fd s" "sent_bytes fd (s\<lparr>sv_cancellations := x2\<rparr>) = sent_bytes fd s"
  "sent_bytes fd (s\<lparr>sv_rate_limit_windows := x3\<rparr>) = sent_bytes fd s"
  "sent_bytes fd (server_close fd' s) = sent_bytes fd s"
  "sent_bytes fd (snd (server_ctl os op fd' ev s)) = sent_bytes fd s"
  by (simp_all add: sent_bytes_def count_stat_def put_conn_def server_close_def sys_close_def server_ctl_def
      sys_epoll_ctl_def split: sysres.split epoll_op.split) (simp_all add: sent_on_def)

lemma sent_bytes_close [simp]: "sent_bytes fd (closeConnection os fd' s) = sent_bytes fd s"
  by (simp add: closeConnection_def Let_def split: option.split)

lemma sent_bytes_modify [simp]: "sent_bytes fd (snd (modifyConnectionEvents os fd' ev s)) = sent_bytes fd s"
proof -
  obtain r t where ctl: "server_ctl os EPOLL_CTL_MOD fd' ev s = (r, t)" by (rule prod.exhaust)
  with sent_bytes_simps(7) [of fd os EPOLL_CTL_MOD fd' ev s] have "sent_bytes fd t = sent_bytes fd s" by simp
  with ctl show ?thesis by (cases r) (simp_all add: modifyConnectionEvents_def)
qed

lemma flushed_bytes:
  assumes "find_conn s fd = Some c" and "length (cn_output_buffer c) \<le> cn_write_offset c"
  shows "sent_bytes fd (output_flushed os fd c s) = sent_bytes fd s \<and>
    (find_conn (output_flushed os fd c s) fd = None \<or> find_conn (output_flushed os fd c s) fd = Some c)"
  using assms find_modify [of os fd "connectionEvents s c" s fd]
  by (auto simp: output_flushed_def)

text \<open>
  Writing moves bytes from the front of the output to the kernel, in order, and loses none unless the
  connection is closed.
\<close>

lemma handleWrite_bytes:
  assumes "handleWrite os fd s = Some s'"
  shows "\<exists>bytes rest. pending_bytes fd s = bytes @ rest \<and> sent_bytes fd s' = sent_bytes fd s @ bytes \<and>
    (find_conn s' fd = None \<or> pending_bytes fd s' = rest)"
  using assms
proof (induction rule: handleWrite.raw_induct [rotated, consumes 1, case_names step])
  case (step rec os fd s s')
  show ?case
  proof (cases "find_conn s fd")
    case None
    with step(2) show ?thesis by (intro exI [of _ "[]"]) (simp add: pending_bytes_def)
  next
    case (Some c)
    let ?data = "drop (cn_write_offset c) (cn_output_buffer c)"
    have pend: "pending_bytes fd s = ?data" by (simp add: pending_bytes_def Some)
    show ?thesis
    proof (cases "length (cn_output_buffer c) \<le> cn_write_offset c")
      case True
      with step(2) Some have "s' = output_flushed os fd c s" by simp
      with flushed_bytes [OF Some True, of os] pend True show ?thesis
        by (intro exI [of _ "[]"] exI [of _ ?data]) (auto simp: pending_bytes_def)
    next
      case False
      show ?thesis
      proof (cases "os_send os (io_tick (sv_io s)) fd ?data")
        case (SysErr e)
        let ?s = "s\<lparr>sv_io := io_step [] (sv_io s)\<rparr>"
        have same: "sent_bytes fd ?s = sent_bytes fd s" "pending_bytes fd ?s = ?data"
          by (simp_all add: sent_bytes_def pending_bytes_def Some)
        from step(2) Some False SysErr have "(if e = EINTR then rec os fd ?s else if e = EAGAIN then Some ?s
            else Some (closeConnection os fd ?s)) = Some s'" by (simp add: sys_send_def cong: if_cong)
        then consider (again) "rec os fd ?s = Some s'" | (stop) "s' = ?s" | (close) "s' = closeConnection os fd ?s"
          by (cases "e = EINTR"; cases "e = EAGAIN") simp_all
        then show ?thesis
        proof cases
          case again
          from step(1) [OF again] same pend show ?thesis by simp
        next
          case stop
          with same pend show ?thesis by (intro exI [of _ "[]"] exI [of _ ?data]) simp
        next
          case close
          with same pend show ?thesis by (intro exI [of _ "[]"] exI [of _ ?data]) simp
        qed
      next
        case (SysOk k)
        let ?w = "io_step [Sent fd (take k ?data)] (sv_io s)"
        obtain c1 s1 where sent: "bytes_sent fd c k (s\<lparr>sv_io := ?w\<rparr>) = (c1, s1)" by (rule prod.exhaust)
        have find1: "find_conn s1 fd = Some c1" using sent by (auto simp: bytes_sent_def Let_def count_stat_def)
        have out1: "drop (cn_write_offset c1) (cn_output_buffer c1) = drop k ?data"
          using sent by (auto simp: bytes_sent_def Let_def add.commute)
        have empty1: "cn_output_buffer c1 = [] \<Longrightarrow> length (cn_output_buffer c1) \<le> cn_write_offset c1" by simp
        have sent1: "sent_bytes fd s1 = sent_bytes fd s @ take k ?data"
          using sent by (auto simp: bytes_sent_def Let_def) (simp_all add: sent_bytes_def)
        from step(2) Some False SysOk sent have "(if 0 < k then if cn_output_buffer c1 = [] then Some (output_flushed os fd c1 s1)
            else rec os fd s1 else Some (closeConnection os fd (s\<lparr>sv_io := ?w\<rparr>))) = Some s'"
          by (simp add: sys_send_def cong: if_cong)
        then consider (again) "rec os fd s1 = Some s'" "cn_output_buffer c1 \<noteq> []"
          | (flushed) "s' = output_flushed os fd c1 s1" "cn_output_buffer c1 = []"
          | (close) "s' = closeConnection os fd (s\<lparr>sv_io := ?w\<rparr>)" "k = 0"
          by (cases "0 < k"; cases "cn_output_buffer c1 = []") simp_all
        then show ?thesis
        proof cases
          case again
          from step(1) [OF again(1)] obtain bytes rest where *: "drop k ?data = bytes @ rest"
            "sent_bytes fd s' = sent_bytes fd s1 @ bytes" "find_conn s' fd = None \<or> pending_bytes fd s' = rest"
            by (auto simp: pending_bytes_def find1 out1)
          have "?data = (take k ?data @ bytes) @ rest" using *(1) by (metis append.assoc append_take_drop_id)
          with * sent1 pend show ?thesis by (intro exI [of _ "take k ?data @ bytes"] exI [of _ rest]) simp
        next
          case flushed
          from flushed_bytes [OF find1 empty1, of os] flushed sent1 pend out1 show ?thesis
            by (intro exI [of _ "take k ?data"] exI [of _ "drop k ?data"]) (auto simp: pending_bytes_def)
        next
          case close
          have "sent_bytes fd (s\<lparr>sv_io := ?w\<rparr>) = sent_bytes fd s" using close(2) by (simp add: sent_bytes_def)
          with close(1) pend show ?thesis by (intro exI [of _ "[]"] exI [of _ ?data]) simp
        qed
      qed
    qed
  qed
qed

section \<open>The rate of a client\<close>

text \<open>The times of the requests of a client that are let through, one window after the other.\<close>

fun rate_admitted :: "int \<Rightarrow> time_point list \<Rightarrow> RateLimitWindow \<Rightarrow> time_point list" where
  "rate_admitted limit [] win = []"
| "rate_admitted limit (now # later_times) win =
     (case rate_window now limit win of
        (True, win1) \<Rightarrow> now # rate_admitted limit later_times win1
      | (False, win1) \<Rightarrow> rate_admitted limit later_times win1)"

definition within :: "time_point \<Rightarrow> time_point list \<Rightarrow> int" where
  "within a ts = int (length (filter (\<lambda>t. a \<le> t \<and> t < a + 1000000000) ts))"

lemma within_simps [simp]:
  "within a [] = 0"
  "within a (t # ts) = (if a \<le> t \<and> t < a + 1000000000 then 1 else 0) + within a ts"
  by (simp_all add: within_def)

definition window_ok :: "int \<Rightarrow> RateLimitWindow \<Rightarrow> bool" where
  "window_ok limit win \<longleftrightarrow> 0 \<le> rw_count win \<and> rw_count win \<le> limit"

lemma rate_window_ok: "0 \<le> limit \<Longrightarrow> window_ok limit win \<Longrightarrow> window_ok limit (snd (rate_window now limit win))"
  by (auto simp: rate_window_def window_ok_def Let_def)

lemma late_admitted:
  "sorted (t # ts) \<Longrightarrow> a + 1000000000 \<le> t \<Longrightarrow> within a (rate_admitted limit ts win) = 0"
proof (induction ts arbitrary: t win)
  case (Cons u ts)
  then have "a + 1000000000 \<le> u" "sorted (u # ts)" by simp_all
  with Cons.IH [of u] show ?case by (simp split: prod.split bool.split)
qed simp

text \<open>A window that started inside the second lets through what is left of it.\<close>

lemma admitted_in_window:
  assumes "sorted ts" and "\<forall>t\<in>set ts. 0 < t" and "a \<le> rw_started_at win" and "0 < rw_started_at win" and "window_ok limit win"
  shows "within a (rate_admitted limit ts win) \<le> limit - rw_count win"
  using assms
proof (induction ts arbitrary: win)
  case Nil
  then show ?case by (simp add: window_ok_def)
next
  case (Cons t ts)
  show ?case
  proof (cases "a + 1000000000 \<le> t")
    case True
    with late_admitted [of t ts a limit] Cons.prems show ?thesis
      by (simp add: window_ok_def split: prod.split bool.split)
  next
    case False
    with Cons.prems have *: "rate_window t limit win =
        (if rw_count win \<ge> limit then (False, win) else (True, win\<lparr>rw_count := rw_count win + 1\<rparr>))"
      by (simp add: rate_window_def)
    from Cons.IH [of win] Cons.IH [of "win\<lparr>rw_count := rw_count win + 1\<rparr>"] Cons.prems show ?thesis
      by (auto simp: * window_ok_def)
  qed
qed

text \<open>Any other window is followed by at most one of those.\<close>

lemma admitted_from:
  assumes "sorted ts" and "\<forall>t\<in>set ts. 0 < t \<and> a \<le> t" and "window_ok limit win" and "0 \<le> limit"
  shows "within a (rate_admitted limit ts win) \<le> (limit - rw_count win) + limit"
  using assms
proof (induction ts arbitrary: win)
  case Nil
  then show ?case by (simp add: window_ok_def)
next
  case (Cons t ts)
  show ?case
  proof (cases "rw_started_at win = 0 \<or> t - rw_started_at win \<ge> 1000000000")
    case True
    let ?new = "\<lparr>rw_started_at = t, rw_count = 0\<rparr>"
    have "within a (rate_admitted limit (t # ts) ?new) \<le> limit"
      using admitted_in_window [of "t # ts" a ?new limit] Cons.prems by (simp add: window_ok_def)
    moreover have "rate_window t limit win = rate_window t limit ?new"
      using True Cons.prems by (simp add: rate_window_def)
    ultimately show ?thesis using Cons.prems(3) by (simp add: window_ok_def)
  next
    case False
    then have *: "rate_window t limit win =
        (if rw_count win \<ge> limit then (False, win) else (True, win\<lparr>rw_count := rw_count win + 1\<rparr>))"
      by (simp add: rate_window_def)
    from Cons.IH [of win] Cons.IH [of "win\<lparr>rw_count := rw_count win + 1\<rparr>"] Cons.prems show ?thesis
      by (auto simp: * window_ok_def)
  qed
qed

lemma admitted_per_second:
  assumes "sorted ts" and "\<forall>t\<in>set ts. 0 < t" and "window_ok limit win" and "0 \<le> limit"
  shows "within a (rate_admitted limit ts win) \<le> 2 * limit"
  using assms
proof (induction ts arbitrary: win)
  case (Cons t ts)
  show ?case
  proof (cases "a \<le> t")
    case True
    with Cons.prems have "\<forall>t\<in>set (t # ts). 0 < t \<and> a \<le> t" by auto
    from admitted_from [OF Cons.prems(1) this Cons.prems(3,4)] Cons.prems(3) show ?thesis by (simp add: window_ok_def)
  next
    case False
    with Cons.IH [OF _ _ rate_window_ok [OF Cons.prems(4,3)], of t] Cons.prems show ?thesis
      by (auto split: prod.splits bool.splits)
  qed
qed simp

section \<open>Theorems\<close>


definition sample_connected :: TcpServer where
  "sample_connected = sample_server\<lparr>sv_state := RUNNING, sv_connections :=
     [(7, (Connection_new 7 1)\<lparr>cn_in_flight_work := 1, cn_output_buffer := ''abcdef'', cn_write_offset := 2\<rparr>),
      (8, Connection_new 8 2)]\<rparr>"

definition sample_answer :: Response where
  "sample_answer = sample_response\<lparr>resp_fd := 7, resp_conn_id := 1, resp_skip_write := False\<rparr>"


text \<open>
  C16: Writing keeps the output of a connection in order.  Whenever \<^verbatim>\<open>handleWrite\<close> returns, the bytes it
  handed to the kernel are the front of what was unsent, and unless it closed the connection exactly
  the rest is unsent now.
\<close>

theorem handleWrite_conserves:
  assumes "handleWrite os fd s = Some s'"
  shows "\<exists>bytes rest. pending_bytes fd s = bytes @ rest \<and> sent_bytes fd s' = sent_bytes fd s @ bytes \<and>
    (find_conn s' fd = None \<or> pending_bytes fd s' = rest)"
  using assms by (rule handleWrite_bytes)

theorem handleWrite_conserves_witness:
  "\<exists>s' bytes rest. handleWrite quiet_os 7 sample_connected = Some s' \<and> pending_bytes 7 sample_connected = bytes @ rest \<and>
     sent_bytes 7 s' = sent_bytes 7 sample_connected @ bytes"
proof -
  have "\<exists>s'. handleWrite quiet_os 7 sample_connected = Some s'"
    by (subst handleWrite.simps)
      (simp add: sample_connected_def Connection_new_def sys_send_def quiet_os_def sample_os_def bytes_sent_def Let_def)
  then obtain s' where run: "handleWrite quiet_os 7 sample_connected = Some s'" by blast
  from handleWrite_conserves [OF run] run show ?thesis by blast
qed



end
