(* ===== verification/GoStd.thy ===== *)
theory GoStd
  imports JsonNumber
begin

text \<open>
  What the control plane, \<^verbatim>\<open>go-control-plane\<close>, uses of the standard library of Go: runes, case and
  white space of strings, \<^verbatim>\<open>strconv\<close>, and the package \<^verbatim>\<open>encoding/json\<close>: its scanner, the decoding of a
  value into a struct, and \<^verbatim>\<open>Marshal\<close>.  A string of Go is a \<^typ>\<open>string\<close> of bytes; \<^verbatim>\<open>int\<close> and
  \<^verbatim>\<open>int64\<close> are \<^typ>\<open>int\<close> with their range written out.
\<close>

section \<open>Runes\<close>

text \<open>The bytes that may follow the first byte of a rune of more than one byte (\<^verbatim>\<open>utf8.acceptRanges\<close>).\<close>

definition rune_ranges :: "nat \<Rightarrow> (nat \<times> nat) list option" where
  "rune_ranges b =
     (if 0xC2 \<le> b \<and> b \<le> 0xDF then Some [(0x80, 0xBF)]
      else if b = 0xE0 then Some [(0xA0, 0xBF), (0x80, 0xBF)]
      else if b = 0xED then Some [(0x80, 0x9F), (0x80, 0xBF)]
      else if 0xE1 \<le> b \<and> b \<le> 0xEF then Some [(0x80, 0xBF), (0x80, 0xBF)]
      else if b = 0xF0 then Some [(0x90, 0xBF), (0x80, 0xBF), (0x80, 0xBF)]
      else if 0xF1 \<le> b \<and> b \<le> 0xF3 then Some [(0x80, 0xBF), (0x80, 0xBF), (0x80, 0xBF)]
      else if b = 0xF4 then Some [(0x80, 0x8F), (0x80, 0xBF), (0x80, 0xBF)]
      else None)"

fun follows :: "string \<Rightarrow> (nat \<times> nat) list \<Rightarrow> bool" where
  "follows bs [] \<longleftrightarrow> True"
| "follows [] (r # rs) \<longleftrightarrow> False"
| "follows (b # bs) ((l, u) # rs) \<longleftrightarrow> l \<le> of_char b \<and> of_char b \<le> u \<and> follows bs rs"

text \<open>The size of the rune at the beginning of a string, 0 when the bytes are not UTF-8.\<close>

definition rune_size :: "string \<Rightarrow> nat" where
  "rune_size s =
     (case s of
        [] \<Rightarrow> 0
      | c # cs \<Rightarrow>
          if of_char c < (128 :: nat) then 1
          else case rune_ranges (of_char c) of
            None \<Rightarrow> 0
          | Some rs \<Rightarrow> if follows cs rs then Suc (length rs) else 0)"

definition rune_error :: string where
  "rune_error = [CHR 0xEF, CHR 0xBF, CHR 0xBD]"

definition encode_rune :: "nat \<Rightarrow> string" where
  "encode_rune r =
     (if r < 0x80 then [char_of r]
      else if r < 0x800 then [char_of (0xC0 + r div 64), char_of (0x80 + r mod 64)]
      else if r < 0x10000 then
        [char_of (0xE0 + r div 4096), char_of (0x80 + r div 64 mod 64), char_of (0x80 + r mod 64)]
      else
        [char_of (0xF0 + r div 262144), char_of (0x80 + r div 4096 mod 64), char_of (0x80 + r div 64 mod 64),
         char_of (0x80 + r mod 64)])"

section \<open>Strings\<close>

definition upper_byte :: "char \<Rightarrow> char" where
  "upper_byte c = (if 97 \<le> (of_char c :: nat) \<and> (of_char c :: nat) \<le> 122 then char_of ((of_char c :: nat) - 32) else c)"

text \<open>
  \<^verbatim>\<open>strings.ToUpper\<close> and \<^verbatim>\<open>strings.ToLower\<close>, as far as a comparison with an ASCII string can see them:
  the only runes beyond ASCII that are mapped into it are the dotless i, the long s, the dotted capital
  I and the Kelvin sign.
\<close>

fun ToUpper :: "string \<Rightarrow> string" where
  "ToUpper [] = []"
| "ToUpper (c # cs) =
     (case cs of
        d # ds \<Rightarrow>
          if c = CHR 0xC4 \<and> d = CHR 0xB1 then CHR ''I'' # ToUpper ds
          else if c = CHR 0xC5 \<and> d = CHR 0xBF then CHR ''S'' # ToUpper ds
          else upper_byte c # ToUpper cs
      | [] \<Rightarrow> [upper_byte c])"

fun ToLower :: "string \<Rightarrow> string" where
  "ToLower [] = []"
| "ToLower (c # cs) =
     (case cs of
        d # ds \<Rightarrow>
          if c = CHR 0xC4 \<and> d = CHR 0xB0 then CHR ''i'' # ToLower ds
          else if c = CHR 0xE2 \<and> d = CHR 0x84 \<and> take 1 ds = [CHR 0xAA] then CHR ''k'' # ToLower (drop 1 ds)
          else tolower c # ToLower cs
      | [] \<Rightarrow> [tolower c])"

text \<open>The white space of Unicode, as it is encoded.\<close>

definition space_runes :: "string list" where
  "space_runes =
     [[CHR 0x09], [CHR 0x0A], [CHR 0x0B], [CHR 0x0C], [CHR 0x0D], [CHR 0x20], [CHR 0xC2, CHR 0x85], [CHR 0xC2, CHR 0xA0],
      [CHR 0xE1, CHR 0x9A, CHR 0x80], [CHR 0xE2, CHR 0x80, CHR 0xA8], [CHR 0xE2, CHR 0x80, CHR 0xA9],
      [CHR 0xE2, CHR 0x80, CHR 0xAF], [CHR 0xE2, CHR 0x81, CHR 0x9F], [CHR 0xE3, CHR 0x80, CHR 0x80]] @
     map (\<lambda>b. [CHR 0xE2, CHR 0x80, char_of b]) [0x80 :: nat, 0x81, 0x82, 0x83, 0x84, 0x85, 0x86, 0x87, 0x88, 0x89, 0x8A]"

text \<open>Remove every one of the prefixes from the beginning, as often as there is one.\<close>

function trim_front :: "string list \<Rightarrow> string \<Rightarrow> string" where
  "trim_front ps s =
     (case find (\<lambda>p. p \<noteq> [] \<and> take (length p) s = p) ps of
        None \<Rightarrow> s
      | Some p \<Rightarrow> trim_front ps (drop (length p) s))"
  by pat_completeness auto
termination
proof (relation "measure (\<lambda>(ps, s). length s)")
  fix ps s p
  assume "find (\<lambda>p. p \<noteq> [] \<and> take (length p) s = p) ps = Some p"
  then have "p \<noteq> []" "take (length p) s = p" by (auto simp: find_Some_iff)
  then have "0 < length p" "s \<noteq> []" by auto
  then show "((ps, drop (length p) s), ps, s) \<in> measure (\<lambda>(ps, s). length s)" by simp
qed simp

declare trim_front.simps [simp del]

definition TrimSpace :: "string \<Rightarrow> string" where
  "TrimSpace s = rev (trim_front (map rev space_runes) (rev (trim_front space_runes s)))"

text \<open>\<^verbatim>\<open>strings.Trim\<close> with one character.\<close>

definition Trim :: "char \<Rightarrow> string \<Rightarrow> string" where
  "Trim c s = rev (dropWhile (\<lambda>d. d = c) (rev (dropWhile (\<lambda>d. d = c) s)))"

definition HasPrefix :: "string \<Rightarrow> string \<Rightarrow> bool" where
  "HasPrefix s p \<longleftrightarrow> take (length p) s = p"

section \<open>Numbers\<close>

definition int64_range :: "int \<Rightarrow> bool" where
  "int64_range i \<longleftrightarrow> - (2 ^ 63) \<le> i \<and> i < 2 ^ 63"

text \<open>Arithmetic of \<^verbatim>\<open>int64\<close> wraps around.\<close>

definition wrap64 :: "int \<Rightarrow> int" where
  "wrap64 i = (i + 2 ^ 63) mod 2 ^ 64 - 2 ^ 63"

text \<open>\<^verbatim>\<open>strconv.ParseInt(s, 10, 64)\<close>, and \<^verbatim>\<open>strconv.Atoi\<close> where \<^verbatim>\<open>int\<close> has 64 bits.\<close>

definition ParseInt :: "string \<Rightarrow> int option" where
  "ParseInt s =
     (let signed = (case s of [] \<Rightarrow> False | c # _ \<Rightarrow> c = CHR ''-'' \<or> c = CHR ''+'');
          negative = (case s of [] \<Rightarrow> False | c # _ \<Rightarrow> c = CHR ''-'');
          digits = (if signed then tl s else s);
          magnitude = int (digits_value digits);
          i = (if negative then - magnitude else magnitude)
      in if digits \<noteq> [] \<and> list_all is_digit digits \<and> int64_range i then Some i else None)"

section \<open>Text to JSON values\<close>

text \<open>A value: a number is the text of its literal, a string has its escapes replaced.\<close>

datatype go_json =
    GoNull
  | GoBool bool
  | GoNumber string
  | GoString string
  | GoArray "go_json list"
  | GoObject "(string \<times> go_json) list"

subsection \<open>Strings\<close>

definition hex_value :: "char \<Rightarrow> nat option" where
  "hex_value c =
     (let n = of_char c in
      if 48 \<le> n \<and> n \<le> 57 then Some (n - 48)
      else if 97 \<le> n \<and> n \<le> 102 then Some (n - 87)
      else if 65 \<le> n \<and> n \<le> 70 then Some (n - 55) else None)"

text \<open>\<^verbatim>\<open>getu4\<close>: the four hexadecimal digits of an escape at the beginning of a string.\<close>

definition getu4 :: "string \<Rightarrow> nat option" where
  "getu4 s =
     (case s of
        b # u # a0 # a1 # a2 # a3 # _ \<Rightarrow>
          if b = CHR 0x5C \<and> u = CHR ''u'' then
            (case (hex_value a0, hex_value a1, hex_value a2, hex_value a3) of
               (Some d0, Some d1, Some d2, Some d3) \<Rightarrow> Some (((d0 * 16 + d1) * 16 + d2) * 16 + d3)
             | _ \<Rightarrow> None)
          else None
      | _ \<Rightarrow> None)"

definition simple_escape :: "char \<Rightarrow> char" where
  "simple_escape c =
     (if c = CHR ''b'' then CHR 0x08 else if c = CHR ''f'' then CHR 0x0C else if c = CHR ''n'' then CHR 0x0A
      else if c = CHR ''r'' then CHR 0x0D else if c = CHR ''t'' then CHR 0x09 else c)"

text \<open>\<^verbatim>\<open>unquote\<close> of the text between the quotes, which the scanner has accepted.\<close>

function unquote :: "string \<Rightarrow> string" where
  "unquote s =
     (case s of
        [] \<Rightarrow> []
      | c # cs \<Rightarrow>
          if c = CHR 0x5C then
            (case getu4 s of
               Some r \<Rightarrow>
                 if 0xD800 \<le> r \<and> r < 0xE000 then
                   (case getu4 (drop 6 s) of
                      Some r1 \<Rightarrow>
                        if r < 0xDC00 \<and> 0xDC00 \<le> r1 \<and> r1 < 0xE000
                        then encode_rune (0x10000 + (r - 0xD800) * 0x400 + (r1 - 0xDC00)) @ unquote (drop 12 s)
                        else rune_error @ unquote (drop 6 s)
                    | None \<Rightarrow> rune_error @ unquote (drop 6 s))
                 else encode_rune r @ unquote (drop 6 s)
             | None \<Rightarrow> map simple_escape (take 1 cs) @ unquote (drop 2 s))
          else if of_char c < (128 :: nat) then c # unquote cs
          else if rune_size s = 0 then rune_error @ unquote cs
          else take (rune_size s) s @ unquote (drop (rune_size s) s))"
  by pat_completeness auto
termination by (relation "measure length") auto

declare unquote.simps [simp del]

subsection \<open>The scanner\<close>

text \<open>
  The states of \<^verbatim>\<open>scanner.go\<close>; the states inside a literal are one state that knows what is still to
  come.  The frames are the stack \<^verbatim>\<open>parseState\<close> with what has been read of every open value.
\<close>

datatype scan_state =
    stateBeginValue | stateBeginValueOrEmpty | stateBeginStringOrEmpty | stateBeginString
  | stateEndValue | stateEndTop go_json
  | stateInString | stateInStringEsc | stateInStringEscU nat
  | stateNeg | state1 | state0 | stateDot | stateDot0 | stateE | stateESign | stateE0
  | stateLiteral string go_json

datatype frame =
    parseArrayValue "go_json list"
  | parseObjectKey "(string \<times> go_json) list" string
  | parseObjectValue "(string \<times> go_json) list" string

record json_scan =
  js_step :: scan_state
  js_frames :: "frame list"
  js_literal :: string

text \<open>
  The effect of one character: the scan goes on, the value ends with the character, it has ended before
  the character, or the text is wrong.
\<close>

datatype scan_result = ScanContinue json_scan | ScanEnds go_json | ScanEnded go_json | ScanError

abbreviation scan_at :: "scan_state \<Rightarrow> frame list \<Rightarrow> string \<Rightarrow> scan_result" where
  "scan_at st fs text \<equiv> ScanContinue \<lparr>js_step = st, js_frames = fs, js_literal = text\<rparr>"

definition json_blank :: "char \<Rightarrow> bool" where
  "json_blank c \<longleftrightarrow> c = CHR '' '' \<or> c = CHR 0x09 \<or> c = CHR 0x0A \<or> c = CHR 0x0D"

definition maxNestingDepth :: nat where
  "maxNestingDepth = 10000"

definition push_frame :: "frame \<Rightarrow> scan_state \<Rightarrow> frame list \<Rightarrow> scan_result" where
  "push_frame fr st fs = (if length fs < maxNestingDepth then scan_at st (fr # fs) [] else ScanError)"

fun place :: "go_json \<Rightarrow> frame list \<Rightarrow> frame list" where
  "place v (parseArrayValue xs # fs) = parseArrayValue (xs @ [v]) # fs"
| "place v (parseObjectValue ms k # fs) = parseObjectValue (ms @ [(k, v)]) k # fs"
| "place (GoString k) (parseObjectKey ms k' # fs) = parseObjectKey ms k # fs"
| "place v fs = fs"

text \<open>After a string or a literal word, and after the bracket that closes an array or an object.\<close>

definition scalar_ends :: "go_json \<Rightarrow> frame list \<Rightarrow> scan_result" where
  "scalar_ends v fs = (if fs = [] then scan_at (stateEndTop v) [] [] else scan_at stateEndValue (place v fs) [])"

definition container_ends :: "go_json \<Rightarrow> frame list \<Rightarrow> scan_result" where
  "container_ends v fs = (if fs = [] then ScanEnds v else scan_at stateEndValue (place v fs) [])"

fun end_value :: "frame list \<Rightarrow> char \<Rightarrow> scan_result" where
  "end_value [] c = ScanError"
| "end_value (fr # fs) c =
     (if json_blank c then scan_at stateEndValue (fr # fs) []
      else case fr of
        parseObjectKey ms k \<Rightarrow>
          if c = CHR '':'' then scan_at stateBeginValue (parseObjectValue ms k # fs) [] else ScanError
      | parseObjectValue ms k \<Rightarrow>
          if c = CHR '','' then scan_at stateBeginString (parseObjectKey ms k # fs) []
          else if c = CHR ''}'' then container_ends (GoObject ms) fs else ScanError
      | parseArrayValue xs \<Rightarrow>
          if c = CHR '','' then scan_at stateBeginValue (parseArrayValue xs # fs) []
          else if c = CHR '']'' then container_ends (GoArray xs) fs else ScanError)"

definition number_ends :: "string \<Rightarrow> frame list \<Rightarrow> char \<Rightarrow> scan_result" where
  "number_ends text fs c =
     (if fs = [] then ScanEnded (GoNumber text) else end_value (place (GoNumber text) fs) c)"

definition begin_value :: "frame list \<Rightarrow> char \<Rightarrow> scan_result" where
  "begin_value fs c =
     (if json_blank c then scan_at stateBeginValue fs []
      else if c = CHR ''{'' then push_frame (parseObjectKey [] []) stateBeginStringOrEmpty fs
      else if c = CHR ''['' then push_frame (parseArrayValue []) stateBeginValueOrEmpty fs
      else if c = CHR 0x22 then scan_at stateInString fs []
      else if c = CHR ''-'' then scan_at stateNeg fs [c]
      else if c = CHR ''0'' then scan_at state0 fs [c]
      else if c = CHR ''t'' then scan_at (stateLiteral ''rue'' (GoBool True)) fs []
      else if c = CHR ''f'' then scan_at (stateLiteral ''alse'' (GoBool False)) fs []
      else if c = CHR ''n'' then scan_at (stateLiteral ''ull'' GoNull) fs []
      else if is_digit c then scan_at state1 fs [c]
      else ScanError)"

definition begin_string :: "frame list \<Rightarrow> char \<Rightarrow> scan_result" where
  "begin_string fs c =
     (if json_blank c then scan_at stateBeginString fs []
      else if c = CHR 0x22 then scan_at stateInString fs [] else ScanError)"

definition fraction_or_exponent :: "string \<Rightarrow> frame list \<Rightarrow> char \<Rightarrow> bool \<Rightarrow> scan_result" where
  "fraction_or_exponent text fs c dot =
     (if c = CHR ''.'' \<and> dot then scan_at stateDot fs (text @ [c])
      else if c = CHR ''e'' \<or> c = CHR ''E'' then scan_at stateE fs (text @ [c])
      else number_ends text fs c)"

definition scan_step :: "json_scan \<Rightarrow> char \<Rightarrow> scan_result" where
  "scan_step s c =
     (let fs = js_frames s; text = js_literal s in
      case js_step s of
        stateBeginValue \<Rightarrow> begin_value fs c
      | stateBeginValueOrEmpty \<Rightarrow>
          if json_blank c then ScanContinue s
          else if c = CHR '']'' then end_value fs c else begin_value fs c
      | stateBeginStringOrEmpty \<Rightarrow>
          if json_blank c then ScanContinue s
          else if c = CHR ''}'' then container_ends (GoObject []) (tl fs) else begin_string fs c
      | stateBeginString \<Rightarrow> begin_string fs c
      | stateEndValue \<Rightarrow> end_value fs c
      | stateEndTop v \<Rightarrow> ScanEnded v
      | stateInString \<Rightarrow>
          if c = CHR 0x22 then scalar_ends (GoString (unquote text)) fs
          else if c = CHR 0x5C then scan_at stateInStringEsc fs (text @ [c])
          else if of_char c < (0x20 :: nat) then ScanError else scan_at stateInString fs (text @ [c])
      | stateInStringEsc \<Rightarrow>
          if c \<in> set [CHR ''b'', CHR ''f'', CHR ''n'', CHR ''r'', CHR ''t'', CHR 0x5C, CHR ''/'', CHR 0x22]
          then scan_at stateInString fs (text @ [c])
          else if c = CHR ''u'' then scan_at (stateInStringEscU 4) fs (text @ [c]) else ScanError
      | stateInStringEscU n \<Rightarrow>
          if hex_value c = None then ScanError
          else scan_at (if n \<le> 1 then stateInString else stateInStringEscU (n - 1)) fs (text @ [c])
      | stateNeg \<Rightarrow>
          if c = CHR ''0'' then scan_at state0 fs (text @ [c])
          else if is_digit c then scan_at state1 fs (text @ [c]) else ScanError
      | state1 \<Rightarrow>
          if is_digit c then scan_at state1 fs (text @ [c]) else fraction_or_exponent text fs c True
      | state0 \<Rightarrow> fraction_or_exponent text fs c True
      | stateDot \<Rightarrow> if is_digit c then scan_at stateDot0 fs (text @ [c]) else ScanError
      | stateDot0 \<Rightarrow>
          if is_digit c then scan_at stateDot0 fs (text @ [c]) else fraction_or_exponent text fs c False
      | stateE \<Rightarrow>
          if c = CHR ''+'' \<or> c = CHR ''-'' then scan_at stateESign fs (text @ [c])
          else if is_digit c then scan_at stateE0 fs (text @ [c]) else ScanError
      | stateESign \<Rightarrow> if is_digit c then scan_at stateE0 fs (text @ [c]) else ScanError
      | stateE0 \<Rightarrow> if is_digit c then scan_at stateE0 fs (text @ [c]) else number_ends text fs c
      | stateLiteral rest v \<Rightarrow>
          (case rest of
             [] \<Rightarrow> ScanError
           | r # rs \<Rightarrow>
               if c \<noteq> r then ScanError
               else if rs = [] then scalar_ends v fs else scan_at (stateLiteral rs v) fs []))"

definition scan_new :: json_scan where
  "scan_new = \<lparr>js_step = stateBeginValue, js_frames = [], js_literal = []\<rparr>"

text \<open>
  \<^verbatim>\<open>Decoder.readValue\<close> on the bytes that are there: the value with what follows it, a syntax error, or
  the state in which more bytes are needed.
\<close>

datatype read_result = ReadValue go_json string | ReadSyntaxError | ReadMore json_scan

fun readValue :: "json_scan \<Rightarrow> string \<Rightarrow> read_result" where
  "readValue s [] = ReadMore s"
| "readValue s (c # cs) =
     (case scan_step s c of
        ScanContinue s' \<Rightarrow> readValue s' cs
      | ScanEnds v \<Rightarrow> ReadValue v cs
      | ScanEnded v \<Rightarrow> ReadValue v (c # cs)
      | ScanError \<Rightarrow> ReadSyntaxError)"

subsection \<open>Structs\<close>

text \<open>Names of fields are compared without regard to case (\<^verbatim>\<open>foldName\<close>), as far as an ASCII name can see.\<close>

fun foldName :: "string \<Rightarrow> string" where
  "foldName [] = []"
| "foldName (c # cs) =
     (case cs of
        d # ds \<Rightarrow>
          if c = CHR 0xC5 \<and> d = CHR 0xBF then CHR ''S'' # foldName ds
          else if c = CHR 0xE2 \<and> d = CHR 0x84 \<and> take 1 ds = [CHR 0xAA] then CHR ''K'' # foldName (drop 1 ds)
          else upper_byte c # foldName cs
      | [] \<Rightarrow> [upper_byte c])"

type_synonym 'r setter = "go_json \<Rightarrow> 'r \<Rightarrow> 'r option"

text \<open>A null leaves the field as it is; a value of another type is an error.\<close>

definition set_string :: "(string \<Rightarrow> 'r \<Rightarrow> 'r) \<Rightarrow> 'r setter" where
  "set_string upd v r = (case v of GoString s \<Rightarrow> Some (upd s r) | GoNull \<Rightarrow> Some r | _ \<Rightarrow> None)"

definition set_int :: "(int \<Rightarrow> 'r \<Rightarrow> 'r) \<Rightarrow> 'r setter" where
  "set_int upd v r =
     (case v of GoNumber t \<Rightarrow> map_option (\<lambda>i. upd i r) (ParseInt t) | GoNull \<Rightarrow> Some r | _ \<Rightarrow> None)"

text \<open>With \<^verbatim>\<open>DisallowUnknownFields\<close>; a later member of the same name replaces an earlier one.\<close>

definition field_setter :: "(string \<times> 'r setter) list \<Rightarrow> string \<Rightarrow> 'r setter option" where
  "field_setter struct key =
     (case map_of struct key of
        Some f \<Rightarrow> Some f
      | None \<Rightarrow> map_option snd (find (\<lambda>(name, _). foldName name = foldName key) struct))"

fun set_members :: "(string \<times> 'r setter) list \<Rightarrow> (string \<times> go_json) list \<Rightarrow> 'r \<Rightarrow> 'r option" where
  "set_members struct [] r = Some r"
| "set_members struct ((k, v) # ms) r =
     (case field_setter struct k of
        None \<Rightarrow> None
      | Some f \<Rightarrow> (case f v r of None \<Rightarrow> None | Some r' \<Rightarrow> set_members struct ms r'))"

definition unmarshal :: "(string \<times> 'r setter) list \<Rightarrow> go_json \<Rightarrow> 'r \<Rightarrow> 'r option" where
  "unmarshal struct v r =
     (case v of GoObject ms \<Rightarrow> set_members struct ms r | GoNull \<Rightarrow> Some r | _ \<Rightarrow> None)"

section \<open>JSON values to text\<close>

text \<open>\<^verbatim>\<open>appendString\<close> with the escapes for HTML, as \<^verbatim>\<open>Marshal\<close> calls it.\<close>

definition low_hex :: "nat \<Rightarrow> char" where
  "low_hex d = (if d < 10 then char_of (48 + d) else char_of (87 + d))"

definition escape_byte :: "char \<Rightarrow> string" where
  "escape_byte c =
     (if c = CHR 0x5C \<or> c = CHR 0x22 then [CHR 0x5C, c]
      else if c = CHR 0x08 then [CHR 0x5C, CHR ''b''] else if c = CHR 0x0C then [CHR 0x5C, CHR ''f'']
      else if c = CHR 0x0A then [CHR 0x5C, CHR ''n''] else if c = CHR 0x0D then [CHR 0x5C, CHR ''r'']
      else if c = CHR 0x09 then [CHR 0x5C, CHR ''t'']
      else if of_char c < (0x20 :: nat) \<or> c = CHR ''<'' \<or> c = CHR ''>'' \<or> c = CHR ''&''
        then CHR 0x5C # ''u00'' @ [low_hex (of_char c div 16), low_hex (of_char c mod 16)]
      else [c])"

function marshal_chars :: "string \<Rightarrow> string" where
  "marshal_chars s =
     (case s of
        [] \<Rightarrow> []
      | c # cs \<Rightarrow>
          if of_char c < (128 :: nat) then escape_byte c @ marshal_chars cs
          else
            let n = rune_size s in
            if n = 0 then CHR 0x5C # ''ufffd'' @ marshal_chars cs
            else if take n s = [CHR 0xE2, CHR 0x80, CHR 0xA8] then CHR 0x5C # ''u2028'' @ marshal_chars (drop n s)
            else if take n s = [CHR 0xE2, CHR 0x80, CHR 0xA9] then CHR 0x5C # ''u2029'' @ marshal_chars (drop n s)
            else take n s @ marshal_chars (drop n s))"
  by pat_completeness auto
termination by (relation "measure length") auto

declare marshal_chars.simps [simp del]

definition marshal_string :: "string \<Rightarrow> string" where
  "marshal_string s = CHR 0x22 # marshal_chars s @ [CHR 0x22]"

fun separate :: "string list \<Rightarrow> string" where
  "separate [] = []"
| "separate [x] = x"
| "separate (x # y # xs) = x @ CHR '','' # separate (y # xs)"

fun marshal :: "go_json \<Rightarrow> string" where
  "marshal GoNull = ''null''"
| "marshal (GoBool b) = (if b then ''true'' else ''false'')"
| "marshal (GoNumber t) = t"
| "marshal (GoString s) = marshal_string s"
| "marshal (GoArray xs) = CHR ''['' # separate (map marshal xs) @ '']''"
| "marshal (GoObject ms) =
     CHR ''{'' # separate (map (\<lambda>(k, v). marshal_string k @ CHR '':'' # marshal v) ms) @ ''}''"

definition GoInt :: "int \<Rightarrow> go_json" where
  "GoInt i = GoNumber (show_int i)"

end
