(* ===== verification/GoCrypto.thy ===== *)
theory GoCrypto
  imports GoStd
begin

unbundle bit_operations_syntax

text \<open>
  The cryptographic packages of Go that the control plane uses: SHA-256, HMAC, and the hexadecimal and
  base64 encodings.  Random bytes are arguments of the definitions that use them.
\<close>

section \<open>SHA-256\<close>

definition rotr :: "nat \<Rightarrow> u32 \<Rightarrow> u32" where
  "rotr n x = drop_bit n x OR push_bit (32 - n) x"

definition sha_k :: "u32 list" where
  "sha_k =
     [0x428A2F98, 0x71374491, 0xB5C0FBCF, 0xE9B5DBA5, 0x3956C25B, 0x59F111F1,
      0x923F82A4, 0xAB1C5ED5, 0xD807AA98, 0x12835B01, 0x243185BE, 0x550C7DC3,
      0x72BE5D74, 0x80DEB1FE, 0x9BDC06A7, 0xC19BF174, 0xE49B69C1, 0xEFBE4786,
      0x0FC19DC6, 0x240CA1CC, 0x2DE92C6F, 0x4A7484AA, 0x5CB0A9DC, 0x76F988DA,
      0x983E5152, 0xA831C66D, 0xB00327C8, 0xBF597FC7, 0xC6E00BF3, 0xD5A79147,
      0x06CA6351, 0x14292967, 0x27B70A85, 0x2E1B2138, 0x4D2C6DFC, 0x53380D13,
      0x650A7354, 0x766A0ABB, 0x81C2C92E, 0x92722C85, 0xA2BFE8A1, 0xA81A664B,
      0xC24B8B70, 0xC76C51A3, 0xD192E819, 0xD6990624, 0xF40E3585, 0x106AA070,
      0x19A4C116, 0x1E376C08, 0x2748774C, 0x34B0BCB5, 0x391C0CB3, 0x4ED8AA4A,
      0x5B9CCA4F, 0x682E6FF3, 0x748F82EE, 0x78A5636F, 0x84C87814, 0x8CC70208,
      0x90BEFFFA, 0xA4506CEB, 0xBEF9A3F7, 0xC67178F2]"

definition sha_init :: "u32 list" where
  "sha_init =
     [0x6A09E667, 0xBB67AE85, 0x3C6EF372, 0xA54FF53A, 0x510E527F, 0x9B05688C, 0x1F83D9AB, 0x5BE0CD19]"

definition word_of_bytes :: "string \<Rightarrow> u32" where
  "word_of_bytes s = of_nat (be_decode s)"

fun chunks :: "nat \<Rightarrow> 'a list \<Rightarrow> 'a list list" where
  "chunks n xs = (if n = 0 \<or> xs = [] then [] else take n xs # chunks n (drop n xs))"

declare chunks.simps [simp del]

text \<open>The message with the bit 1, zeros up to 56 bytes modulo 64, and its length in bits.\<close>

definition sha_pad :: "string \<Rightarrow> string" where
  "sha_pad m =
     m @ [CHR 0x80] @ replicate ((119 - length m mod 64) mod 64) (CHR 0x00) @ be_encode 8 (8 * length m)"

text \<open>The schedule, the latest word first.\<close>

primrec sha_extend :: "nat \<Rightarrow> u32 list \<Rightarrow> u32 list" where
  "sha_extend 0 ws = ws"
| "sha_extend (Suc n) ws =
     (let w2 = ws ! 1; w15 = ws ! 14;
          t1 = rotr 17 w2 XOR rotr 19 w2 XOR drop_bit 10 w2;
          t2 = rotr 7 w15 XOR rotr 18 w15 XOR drop_bit 3 w15
      in sha_extend n ((t1 + ws ! 6 + t2 + ws ! 15) # ws))"

definition sha_round :: "u32 list \<Rightarrow> u32 \<times> u32 \<Rightarrow> u32 list" where
  "sha_round st kw =
     (case st of
        [a, b, c, d, e, f, g, h] \<Rightarrow>
          let t1 = h + (rotr 6 e XOR rotr 11 e XOR rotr 25 e) + ((e AND f) XOR (NOT e AND g)) + fst kw + snd kw;
              t2 = (rotr 2 a XOR rotr 13 a XOR rotr 22 a) + ((a AND b) XOR (a AND c) XOR (b AND c))
          in [t1 + t2, a, b, c, d + t1, e, f, g]
      | _ \<Rightarrow> st)"

definition sha_block :: "u32 list \<Rightarrow> string \<Rightarrow> u32 list" where
  "sha_block st block =
     (let ws = rev (sha_extend 48 (rev (map word_of_bytes (chunks 4 block))))
      in map2 (+) st (foldl sha_round st (zip sha_k ws)))"

definition sha256 :: "string \<Rightarrow> string" where
  "sha256 m = concat (map (\<lambda>w. be_encode 4 (unat w)) (foldl sha_block sha_init (chunks 64 (sha_pad m))))"

section \<open>HMAC\<close>

definition xor_bytes :: "nat \<Rightarrow> string \<Rightarrow> string" where
  "xor_bytes n s = map (\<lambda>c. char_of (of_char c XOR n)) s"

definition hmac_sha256 :: "string \<Rightarrow> string \<Rightarrow> string" where
  "hmac_sha256 key message =
     (let k = (if length key > 64 then sha256 key else key);
          k0 = k @ replicate (64 - length k) (CHR 0x00)
      in sha256 (xor_bytes 0x5C k0 @ sha256 (xor_bytes 0x36 k0 @ message)))"

section \<open>Encodings\<close>

definition hex_encode :: "string \<Rightarrow> string" where
  "hex_encode s = concat (map (\<lambda>c. [low_hex (of_char c div 16), low_hex (of_char c mod 16)]) s)"

text \<open>\<^verbatim>\<open>base64.RawURLEncoding\<close>: the alphabet for URLs, without padding.\<close>

definition base64_char :: "nat \<Rightarrow> char" where
  "base64_char d =
     (if d < 26 then char_of (65 + d) else if d < 52 then char_of (71 + d) else if d < 62 then char_of (d - 4)
      else if d = 62 then CHR ''-'' else CHR ''_'')"

fun base64_encode :: "string \<Rightarrow> string" where
  "base64_encode [] = []"
| "base64_encode [a] = (let v = of_char a * 16 in [base64_char (v div 64), base64_char (v mod 64)])"
| "base64_encode [a, b] =
     (let v = (of_char a * 256 + of_char b) * 4
      in [base64_char (v div 4096), base64_char (v div 64 mod 64), base64_char (v mod 64)])"
| "base64_encode (a # b # c # rest) =
     (let v = (of_char a * 256 + of_char b) * 256 + of_char c
      in base64_char (v div 262144) # base64_char (v div 4096 mod 64) # base64_char (v div 64 mod 64) #
         base64_char (v mod 64) # base64_encode rest)"

end
