(* ===== verification/ControlStore.thy ===== *)
theory ControlStore
  imports GoCrypto Gateway_Interfaces "HOL-Library.List_Lexorder" "HOL-Library.Char_ord"
    "HOL-Library.Multiset"
begin

text \<open>
  The store of the control plane (\<^verbatim>\<open>go-control-plane/internal/app\<close>): the types of \<^verbatim>\<open>types.go\<close>, the
  run-time configuration of \<^verbatim>\<open>config.go\<close>, the tokens of \<^verbatim>\<open>token_security.go\<close>, the interface \<^verbatim>\<open>Store\<close> of
  \<^verbatim>\<open>store.go\<close> and its implementation in memory, \<^verbatim>\<open>memory_store.go\<close>.

  Every method of the store in memory holds its mutex for its whole body, so each is one atomic
  operation.  The interface is the record \<open>Store\<close> of the operations; what its clients rely on is the
  locale \<open>control_store\<close>, a refinement of a map of tokens and a configuration that are changed by
  compare and swap.
\<close>

section \<open>Types\<close>

record tokenEntry =
  te_ClientID :: string
  te_Generation :: int
  te_CreatedAt :: string
  te_UpdatedAt :: string
  te_Disabled :: bool

record tokenRecord = tokenEntry +
  tr_Digest :: string

record runtimeConfig =
  cfg_Version :: int
  cfg_MaxPayloadSize :: int
  cfg_MaxConnectionsPerClient :: int
  cfg_MaxRequestsPerClientPerSecond :: int
  cfg_SlowClientOutputLimit :: int
  cfg_LogLevel :: string
  cfg_RequestQueueCapacityDisplay :: int

record configUpdateRequest =
  cu_MaxPayloadSize :: int
  cu_MaxConnectionsPerClient :: int
  cu_MaxRequestsPerClientPerSecond :: int
  cu_SlowClientOutputLimit :: int
  cu_LogLevel :: string

datatype tokenAuthDecision = tokenAuthInvalid | tokenAuthAllowed | tokenAuthDisabled

record authFailurePolicy =
  fp_limit :: int
  fp_window :: int

section \<open>Environment and configuration\<close>

text \<open>The environment is a function; a variable that is not set reads as the empty string.\<close>

type_synonym environment = "string \<Rightarrow> string"

definition readPositiveEnv :: "environment \<Rightarrow> string \<Rightarrow> int \<Rightarrow> int" where
  "readPositiveEnv env name fallback =
     (if env name = [] then fallback
      else case ParseInt (env name) of
        None \<Rightarrow> fallback
      | Some value \<Rightarrow> if value \<le> 0 then fallback else value)"

definition authFailurePolicyFromEnv :: "environment \<Rightarrow> authFailurePolicy" where
  "authFailurePolicyFromEnv env =
     \<lparr>fp_limit = readPositiveEnv env ''AUTH_FAILURE_LIMIT'' 5,
      fp_window = wrap64 (readPositiveEnv env ''AUTH_FAILURE_WINDOW_SECONDS'' 60 * 1000000000)\<rparr>"

definition defaultRuntimeConfig :: runtimeConfig where
  "defaultRuntimeConfig =
     \<lparr>cfg_Version = 1, cfg_MaxPayloadSize = 1048576, cfg_MaxConnectionsPerClient = 2,
      cfg_MaxRequestsPerClientPerSecond = 100, cfg_SlowClientOutputLimit = 8388608, cfg_LogLevel = ''INFO'',
      cfg_RequestQueueCapacityDisplay = 4096\<rparr>"

text \<open>The message of the error, or \<^term>\<open>None\<close> when the update is valid.\<close>

definition validateConfigUpdate :: "configUpdateRequest \<Rightarrow> string option" where
  "validateConfigUpdate req =
     (let maxGatewayInt = 2 ^ 31 - 1; level = ToUpper (cu_LogLevel req) in
      if cu_MaxPayloadSize req < 10 \<or> cu_MaxPayloadSize req > 4194314
      then Some ''max_payload_size is outside the supported range''
      else if cu_MaxConnectionsPerClient req \<le> 0 \<or> cu_MaxConnectionsPerClient req > maxGatewayInt
      then Some ''max_connections_per_client must be in [1, 2147483647]''
      else if cu_MaxRequestsPerClientPerSecond req \<le> 0 \<or> cu_MaxRequestsPerClientPerSecond req > maxGatewayInt
      then Some ''max_requests_per_client_per_second must be in [1, 2147483647]''
      else if cu_SlowClientOutputLimit req < cu_MaxPayloadSize req + 4 \<or> cu_SlowClientOutputLimit req > 67108864
      then Some ''slow_client_output_limit must cover one frame including its length prefix and stay below the hard limit''
      else if level \<noteq> ''DEBUG'' \<and> level \<noteq> ''INFO'' \<and> level \<noteq> ''WARN'' \<and> level \<noteq> ''ERROR''
      then Some ''log_level must be DEBUG, INFO, WARN, or ERROR''
      else None)"

section \<open>Tokens\<close>

text \<open>A token is made of 32 random bytes; \<^term>\<open>None\<close> is a failure of the random source.\<close>

definition generate :: "string option \<Rightarrow> string option" where
  "generate random = map_option base64_encode random"

definition token_digest :: "string \<Rightarrow> string \<Rightarrow> string" where
  "token_digest pepper token = hex_encode (hmac_sha256 pepper token)"

definition digestEqual :: "string \<Rightarrow> string \<Rightarrow> bool" where
  "digestEqual left right \<longleftrightarrow> left = right"

definition validTokenClientID :: "string \<Rightarrow> bool" where
  "validTokenClientID clientID \<longleftrightarrow> clientID \<noteq> [] \<and> length clientID \<le> 128 \<and> clientID \<noteq> ''index''"

definition parseGeneration :: "string \<Rightarrow> int option" where
  "parseGeneration value =
     (case ParseInt (Trim (CHR 0x22) value) of
        None \<Rightarrow> None
      | Some generation \<Rightarrow> if generation \<le> 0 then None else Some generation)"

definition secureBearerEqual :: "string \<Rightarrow> string \<Rightarrow> bool" where
  "secureBearerEqual header expected \<longleftrightarrow>
     expected = [] \<or> (HasPrefix header ''Bearer '' \<and> drop (length ''Bearer '') header = expected)"

section \<open>The interface\<close>

text \<open>The errors of the application, of a deadline, of the network and all others.\<close>

datatype store_error =
    errTokenExists | errTokenNotFound | errTokenConflict | errConfigConflict
  | StoreDeadline | StoreNetwork | StoreFailure

text \<open>A call happens at a point of time and changes the state of the store.\<close>

type_synonym ('s, 'a) store_call = "time_point \<Rightarrow> 's \<Rightarrow> (store_error + 'a) \<times> 's"

record 's Store =
  verifyDigest :: "string \<Rightarrow> string \<Rightarrow> ('s, tokenAuthDecision) store_call"
  authFailureLimited :: "string \<Rightarrow> int \<Rightarrow> ('s, bool) store_call"
  recordAuthFailure :: "string \<Rightarrow> int \<Rightarrow> ('s, int) store_call"
  clearAuthFailures :: "string \<Rightarrow> ('s, unit) store_call"
  createToken :: "tokenRecord \<Rightarrow> ('s, unit) store_call"
  rotateToken :: "string \<Rightarrow> int \<Rightarrow> string \<Rightarrow> string \<Rightarrow> ('s, tokenRecord) store_call"
  disableToken :: "string \<Rightarrow> string \<Rightarrow> ('s, unit) store_call"
  listTokens :: "('s, tokenEntry list) store_call"
  getConfig :: "('s, runtimeConfig) store_call"
  updateConfig :: "int \<Rightarrow> configUpdateRequest \<Rightarrow> ('s, runtimeConfig) store_call"
  Ping :: "('s, unit) store_call option"

section \<open>The store in memory\<close>

record memoryAuthFailure =
  af_count :: int
  af_expiresAt :: time_point

record memoryStore =
  mem_tokens :: "(string \<times> tokenRecord) list"
  mem_authFailures :: "(string \<times> memoryAuthFailure) list"
  mem_config :: runtimeConfig

definition newMemoryStore :: memoryStore where
  "newMemoryStore = \<lparr>mem_tokens = [], mem_authFailures = [], mem_config = defaultRuntimeConfig\<rparr>"

definition memory_verifyDigest :: "string \<Rightarrow> string \<Rightarrow> (memoryStore, tokenAuthDecision) store_call" where
  "memory_verifyDigest clientID digest now s =
     (case map_of (mem_tokens s) clientID of
        None \<Rightarrow> (Inr tokenAuthInvalid, s)
      | Some record \<Rightarrow>
          if te_Disabled record then (Inr tokenAuthDisabled, s)
          else if \<not> digestEqual (tr_Digest record) digest then (Inr tokenAuthInvalid, s)
          else (Inr tokenAuthAllowed, s))"

definition memory_authFailureLimited :: "string \<Rightarrow> int \<Rightarrow> (memoryStore, bool) store_call" where
  "memory_authFailureLimited clientID limit now s =
     (case map_of (mem_authFailures s) clientID of
        None \<Rightarrow> (Inr False, s)
      | Some counter \<Rightarrow>
          if \<not> now < af_expiresAt counter
          then (Inr False, s\<lparr>mem_authFailures := AList.delete clientID (mem_authFailures s)\<rparr>)
          else (Inr (af_count counter \<ge> limit), s))"

definition memory_recordAuthFailure :: "string \<Rightarrow> int \<Rightarrow> (memoryStore, int) store_call" where
  "memory_recordAuthFailure clientID window now s =
     (let fresh = \<lparr>af_count = 0, af_expiresAt = now + window\<rparr>;
          counter = (case map_of (mem_authFailures s) clientID of
                       None \<Rightarrow> fresh
                     | Some c \<Rightarrow> if \<not> now < af_expiresAt c then fresh else c);
          counter1 = counter\<lparr>af_count := wrap64 (af_count counter + 1)\<rparr>
      in (Inr (af_count counter1), s\<lparr>mem_authFailures := AList.update clientID counter1 (mem_authFailures s)\<rparr>))"

definition memory_clearAuthFailures :: "string \<Rightarrow> (memoryStore, unit) store_call" where
  "memory_clearAuthFailures clientID now s =
     (Inr (), s\<lparr>mem_authFailures := AList.delete clientID (mem_authFailures s)\<rparr>)"

definition memory_createToken :: "tokenRecord \<Rightarrow> (memoryStore, unit) store_call" where
  "memory_createToken record now s =
     (case map_of (mem_tokens s) (te_ClientID record) of
        Some _ \<Rightarrow> (Inl errTokenExists, s)
      | None \<Rightarrow> (Inr (), s\<lparr>mem_tokens := AList.update (te_ClientID record) record (mem_tokens s)\<rparr>))"

definition memory_rotateToken :: "string \<Rightarrow> int \<Rightarrow> string \<Rightarrow> string \<Rightarrow> (memoryStore, tokenRecord) store_call" where
  "memory_rotateToken clientID expected digest updatedAt now s =
     (case map_of (mem_tokens s) clientID of
        None \<Rightarrow> (Inl errTokenNotFound, s)
      | Some record \<Rightarrow>
          if te_Generation record \<noteq> expected then (Inl errTokenConflict, s)
          else
            let record1 = record\<lparr>te_Generation := wrap64 (te_Generation record + 1), te_UpdatedAt := updatedAt,
                                 te_Disabled := False, tr_Digest := digest\<rparr>
            in (Inr record1, s\<lparr>mem_tokens := AList.update clientID record1 (mem_tokens s)\<rparr>))"

definition memory_disableToken :: "string \<Rightarrow> string \<Rightarrow> (memoryStore, unit) store_call" where
  "memory_disableToken clientID updatedAt now s =
     (case map_of (mem_tokens s) clientID of
        None \<Rightarrow> (Inl errTokenNotFound, s)
      | Some record \<Rightarrow>
          (Inr (), s\<lparr>mem_tokens := AList.update clientID (record\<lparr>te_Disabled := True, te_UpdatedAt := updatedAt\<rparr>)
                                    (mem_tokens s)\<rparr>))"

text \<open>The order in which a map is visited does not matter, because the entries are sorted.\<close>

definition memory_listTokens :: "(memoryStore, tokenEntry list) store_call" where
  "memory_listTokens now s = (Inr (sort_key te_ClientID (map (tokenEntry.truncate \<circ> snd) (mem_tokens s))), s)"

definition memory_getConfig :: "(memoryStore, runtimeConfig) store_call" where
  "memory_getConfig now s = (Inr (mem_config s), s)"

text \<open>What an update makes of the configuration it replaces.\<close>

definition updated_config :: "configUpdateRequest \<Rightarrow> runtimeConfig \<Rightarrow> runtimeConfig" where
  "updated_config req c =
     \<lparr>cfg_Version = wrap64 (cfg_Version c + 1), cfg_MaxPayloadSize = cu_MaxPayloadSize req,
      cfg_MaxConnectionsPerClient = cu_MaxConnectionsPerClient req,
      cfg_MaxRequestsPerClientPerSecond = cu_MaxRequestsPerClientPerSecond req,
      cfg_SlowClientOutputLimit = cu_SlowClientOutputLimit req, cfg_LogLevel = ToUpper (cu_LogLevel req),
      cfg_RequestQueueCapacityDisplay = cfg_RequestQueueCapacityDisplay c\<rparr>"

definition memory_updateConfig :: "int \<Rightarrow> configUpdateRequest \<Rightarrow> (memoryStore, runtimeConfig) store_call" where
  "memory_updateConfig expectedVersion req now s =
     (if cfg_Version (mem_config s) \<noteq> expectedVersion then (Inl errConfigConflict, s)
      else let config = updated_config req (mem_config s) in (Inr config, s\<lparr>mem_config := config\<rparr>))"

definition memory_store :: "memoryStore Store" where
  "memory_store =
     \<lparr>verifyDigest = memory_verifyDigest, authFailureLimited = memory_authFailureLimited,
      recordAuthFailure = memory_recordAuthFailure, clearAuthFailures = memory_clearAuthFailures,
      createToken = memory_createToken, rotateToken = memory_rotateToken, disableToken = memory_disableToken,
      listTokens = memory_listTokens, getConfig = memory_getConfig, updateConfig = memory_updateConfig,
      Ping = None\<rparr>"

section \<open>What a store promises\<close>

text \<open>
  The abstract store: the tokens by client and the configuration.  Counters of failures are not part of
  it, they come and go with time.
\<close>

record store_view =
  vw_tokens :: "string \<rightharpoonup> tokenRecord"
  vw_config :: runtimeConfig

definition decision_of :: "string \<Rightarrow> string \<Rightarrow> store_view \<Rightarrow> tokenAuthDecision" where
  "decision_of clientID digest v =
     (case vw_tokens v clientID of
        None \<Rightarrow> tokenAuthInvalid
      | Some r \<Rightarrow>
          if te_Disabled r then tokenAuthDisabled else if tr_Digest r = digest then tokenAuthAllowed else tokenAuthInvalid)"

definition spec_create :: "tokenRecord \<Rightarrow> store_view \<Rightarrow> (store_error + unit) \<times> store_view" where
  "spec_create r v =
     (if te_ClientID r \<in> dom (vw_tokens v) then (Inl errTokenExists, v)
      else (Inr (), v\<lparr>vw_tokens := (vw_tokens v)(te_ClientID r \<mapsto> r)\<rparr>))"

text \<open>Of the record that a rotation returns, its callers use the client and the generation.\<close>

definition spec_rotate ::
  "string \<Rightarrow> int \<Rightarrow> string \<Rightarrow> string \<Rightarrow> store_view \<Rightarrow> (store_error + string \<times> int) \<times> store_view" where
  "spec_rotate clientID expected digest updatedAt v =
     (case vw_tokens v clientID of
        None \<Rightarrow> (Inl errTokenNotFound, v)
      | Some r \<Rightarrow>
          if te_Generation r \<noteq> expected then (Inl errTokenConflict, v)
          else
            (Inr (te_ClientID r, wrap64 (expected + 1)),
             v\<lparr>vw_tokens := (vw_tokens v)(clientID \<mapsto>
                 r\<lparr>te_Generation := wrap64 (expected + 1), te_UpdatedAt := updatedAt, te_Disabled := False,
                    tr_Digest := digest\<rparr>)\<rparr>))"

definition spec_disable :: "string \<Rightarrow> string \<Rightarrow> store_view \<Rightarrow> (store_error + unit) \<times> store_view" where
  "spec_disable clientID updatedAt v =
     (case vw_tokens v clientID of
        None \<Rightarrow> (Inl errTokenNotFound, v)
      | Some r \<Rightarrow>
          (Inr (), v\<lparr>vw_tokens := (vw_tokens v)(clientID \<mapsto> r\<lparr>te_Disabled := True, te_UpdatedAt := updatedAt\<rparr>)\<rparr>))"

definition spec_update :: "int \<Rightarrow> configUpdateRequest \<Rightarrow> store_view \<Rightarrow> (store_error + runtimeConfig) \<times> store_view" where
  "spec_update expected req v =
     (if cfg_Version (vw_config v) \<noteq> expected then (Inl errConfigConflict, v)
      else (Inr (updated_config req (vw_config v)), v\<lparr>vw_config := updated_config req (vw_config v)\<rparr>))"

text \<open>The listing: the entries in the order of their clients.\<close>

definition is_listing :: "store_view \<Rightarrow> tokenEntry list \<Rightarrow> bool" where
  "is_listing v es \<longleftrightarrow>
     map te_ClientID es = sorted_list_of_set (dom (vw_tokens v)) \<and> finite (dom (vw_tokens v)) \<and>
     list_all (\<lambda>e. map_option tokenEntry.truncate (vw_tokens v (te_ClientID e)) = Some e) es"

text \<open>
  A call performs a specified operation, or reports that the store is not available; in that case the
  operation may have been done or not.
\<close>

definition unavailable :: "store_error \<Rightarrow> bool" where
  "unavailable e \<longleftrightarrow> e = StoreDeadline \<or> e = StoreNetwork \<or> e = StoreFailure"

definition performs :: "(store_error + 'a) \<times> store_view \<Rightarrow> store_view \<Rightarrow> store_error + 'a \<Rightarrow> store_view \<Rightarrow> bool" where
  "performs spec v r v' \<longleftrightarrow>
     r = fst spec \<and> v' = snd spec \<or> (\<exists>e. r = Inl e \<and> unavailable e \<and> (v' = v \<or> v' = snd spec))"

lemma performs_exactly [simp]: "performs spec v (fst spec) (snd spec)"
  by (simp add: performs_def)

lemma performs_same: "performs (r0, v) v r v' \<Longrightarrow> v' = v"
  by (auto simp: performs_def)

text \<open>The calls that the handlers make, with the arguments that they have checked.\<close>

inductive store_step :: "'s Store \<Rightarrow> 's \<Rightarrow> 's \<Rightarrow> bool" for store :: "'s Store" where
  verify: "verifyDigest store clientID digest now s = (r, s') \<Longrightarrow> store_step store s s'"
| limited: "authFailureLimited store clientID limit now s = (b, s') \<Longrightarrow> store_step store s s'"
| failure: "recordAuthFailure store clientID window now s = (n, s') \<Longrightarrow> store_step store s s'"
| clear: "clearAuthFailures store clientID now s = (u, s') \<Longrightarrow> store_step store s s'"
| create: "createToken store record now s = (u, s') \<Longrightarrow> te_Generation record = 1 \<Longrightarrow> \<not> te_Disabled record \<Longrightarrow>
    validTokenClientID (te_ClientID record) \<Longrightarrow> store_step store s s'"
| rotate: "rotateToken store clientID expected digest updatedAt now s = (q, s') \<Longrightarrow> 0 < expected \<Longrightarrow>
    store_step store s s'"
| disable: "disableToken store clientID updatedAt now s = (u, s') \<Longrightarrow> store_step store s s'"
| list_all_tokens: "listTokens store now s = (es, s') \<Longrightarrow> store_step store s s'"
| get: "getConfig store now s = (c, s') \<Longrightarrow> store_step store s s'"
| update: "updateConfig store expected req now s = (c, s') \<Longrightarrow> 0 < expected \<Longrightarrow> validateConfigUpdate req = None \<Longrightarrow>
    store_step store s s'"
| ping: "Ping store = Some p \<Longrightarrow> p now s = (u, s') \<Longrightarrow> store_step store s s'"

text \<open>
  A compare-and-swap counter that has left a positive value behind: it is greater, or it has wrapped
  around and no positive value matches it any more.
\<close>

definition passed :: "int \<Rightarrow> int \<Rightarrow> bool" where
  "passed expected current \<longleftrightarrow> expected < current \<or> current \<le> 0"

lemma wrap64_id: "int64_range i \<Longrightarrow> wrap64 i = i"
  by (simp add: wrap64_def int64_range_def)

lemma wrap64_range: "int64_range (wrap64 i)"
  by (simp add: wrap64_def int64_range_def)

lemma wrap64_next: "int64_range i \<Longrightarrow> wrap64 (i + 1) = (if i = 2 ^ 63 - 1 then - (2 ^ 63) else i + 1)"
  by (simp add: wrap64_def int64_range_def)

lemma int64_range_1 [simp]: "int64_range 1"
  by (simp add: int64_range_def)

lemma passed_next: "int64_range e \<Longrightarrow> passed e (wrap64 (e + 1))"
  by (simp add: passed_def wrap64_next)

lemma passed_swap: "int64_range c \<Longrightarrow> 0 < c \<Longrightarrow> passed e c \<Longrightarrow> passed e (wrap64 (c + 1))"
  by (auto simp: passed_def wrap64_next)

definition view_ok :: "store_view \<Rightarrow> bool" where
  "view_ok v \<longleftrightarrow> finite (dom (vw_tokens v)) \<and>
     (\<forall>cid r. vw_tokens v cid = Some r \<longrightarrow>
        te_ClientID r = cid \<and> validTokenClientID cid \<and> int64_range (te_Generation r)) \<and>
     int64_range (cfg_Version (vw_config v))"

definition token_passed :: "string \<Rightarrow> int \<Rightarrow> store_view \<Rightarrow> bool" where
  "token_passed cid e v \<longleftrightarrow> (\<exists>r. vw_tokens v cid = Some r \<and> passed e (te_Generation r))"

locale control_store =
  fixes store :: "'s Store" and view :: "'s \<Rightarrow> store_view" and invar :: "'s \<Rightarrow> bool"
  assumes invar_step: "store_step store s s' \<Longrightarrow> invar s \<Longrightarrow> invar s'"
    and verifyDigest_spec: "verifyDigest store clientID digest now s = (r, s') \<Longrightarrow>
      performs (Inr (decision_of clientID digest (view s)), view s) (view s) r (view s')"
    and authFailureLimited_frame: "authFailureLimited store clientID limit now s = (b, s') \<Longrightarrow> view s' = view s"
    and recordAuthFailure_frame: "recordAuthFailure store clientID window now s = (n, s') \<Longrightarrow> view s' = view s"
    and clearAuthFailures_frame: "clearAuthFailures store clientID now s = (u, s') \<Longrightarrow> view s' = view s"
    and createToken_spec: "createToken store record now s = (u, s') \<Longrightarrow>
      performs (spec_create record (view s)) (view s) u (view s')"
    and rotateToken_spec: "rotateToken store clientID expected digest updatedAt now s = (q, s') \<Longrightarrow>
      performs (spec_rotate clientID expected digest updatedAt (view s)) (view s)
        (map_sum id (\<lambda>r. (te_ClientID r, te_Generation r)) q) (view s')"
    and disableToken_spec: "disableToken store clientID updatedAt now s = (u, s') \<Longrightarrow>
      performs (spec_disable clientID updatedAt (view s)) (view s) u (view s')"
    and listTokens_frame: "listTokens store now s = (es, s') \<Longrightarrow> view s' = view s"
    and listTokens_spec: "listTokens store now s = (Inr xs, s') \<Longrightarrow> invar s \<Longrightarrow> view_ok (view s) \<Longrightarrow>
      is_listing (view s) xs"
    and getConfig_spec: "getConfig store now s = (c, s') \<Longrightarrow>
      performs (Inr (vw_config (view s)), view s) (view s) c (view s')"
    and updateConfig_spec: "updateConfig store expected req now s = (c, s') \<Longrightarrow>
      performs (spec_update expected req (view s)) (view s) c (view s')"
    and Ping_frame: "Ping store = Some p \<Longrightarrow> p now s = (u, s') \<Longrightarrow> view s' = view s"
begin

text \<open>Every step leaves the view alone or is one of the four changes.\<close>

lemma step_cases:
  assumes "store_step store s s'"
  obtains (same) "view s' = view s"
  | (create) tr where "te_ClientID tr \<notin> dom (vw_tokens (view s))" "te_Generation tr = 1"
      "\<not> te_Disabled tr" "validTokenClientID (te_ClientID tr)" "view s' = snd (spec_create tr (view s))"
  | (rotate) clientID digest updatedAt r where "vw_tokens (view s) clientID = Some r" "0 < te_Generation r"
      "view s' = snd (spec_rotate clientID (te_Generation r) digest updatedAt (view s))"
  | (disable) clientID updatedAt r where "vw_tokens (view s) clientID = Some r"
      "view s' = snd (spec_disable clientID updatedAt (view s))"
  | (update) req where "0 < cfg_Version (vw_config (view s))" "validateConfigUpdate req = None"
      "view s' = snd (spec_update (cfg_Version (vw_config (view s))) req (view s))"
  using assms
proof (cases rule: store_step.cases)
  case (create tr now u)
  from createToken_spec [OF create(1)] create(2-4) show thesis
    using that(1,2) by (cases "te_ClientID tr \<in> dom (vw_tokens (view s))") (auto simp: performs_def spec_create_def)
next
  case (rotate clientID expected digest updatedAt now q)
  from rotateToken_spec [OF rotate(1)] rotate(2) show thesis
    using that(1,3) by (cases "vw_tokens (view s) clientID")
      (auto simp: performs_def spec_rotate_def split: if_splits)
next
  case (disable clientID updatedAt now u)
  from disableToken_spec [OF disable] show thesis
    using that(1,4) by (cases "vw_tokens (view s) clientID") (auto simp: performs_def spec_disable_def)
next
  case (update expected req now c)
  from updateConfig_spec [OF update(1)] update(2,3) show thesis
    using that(1,5) by (auto simp: performs_def spec_update_def split: if_splits)
next
  case (verify clientID digest now r)
  from performs_same [OF verifyDigest_spec [OF verify]] show thesis by (rule that(1))
next
  case (get now c)
  from performs_same [OF getConfig_spec [OF get]] show thesis by (rule that(1))
qed (auto dest: authFailureLimited_frame recordAuthFailure_frame clearAuthFailures_frame listTokens_frame Ping_frame
    intro: that(1))

lemma step_view_ok: "store_step store s s' \<Longrightarrow> view_ok (view s) \<Longrightarrow> view_ok (view s')"
  by (erule step_cases)
    (auto simp: view_ok_def spec_create_def spec_rotate_def spec_disable_def spec_update_def updated_config_def
      wrap64_range)

lemma run_view_ok: "(store_step store)\<^sup>*\<^sup>* s s' \<Longrightarrow> view_ok (view s) \<Longrightarrow> view_ok (view s')"
  by (induction rule: rtranclp_induct) (auto intro: step_view_ok)

lemma run_invar: "(store_step store)\<^sup>*\<^sup>* s s' \<Longrightarrow> invar s \<Longrightarrow> invar s'"
  by (induction rule: rtranclp_induct) (auto intro: invar_step)

text \<open>Compare and swap: a version or a generation that was passed once is passed for ever.\<close>

lemma step_version_passed:
  assumes "store_step store s s'" and "view_ok (view s)" and "passed e (cfg_Version (vw_config (view s)))"
  shows "passed e (cfg_Version (vw_config (view s')))"
  using assms
  by (cases rule: step_cases)
    (auto simp: spec_create_def spec_rotate_def spec_disable_def spec_update_def updated_config_def view_ok_def
      intro: passed_swap)

lemma run_version_passed:
  assumes "(store_step store)\<^sup>*\<^sup>* s s'" and "view_ok (view s)" and "passed e (cfg_Version (vw_config (view s)))"
  shows "passed e (cfg_Version (vw_config (view s')))"
  using assms
proof (induction rule: rtranclp_induct)
  case (step t t')
  then show ?case using step_version_passed run_view_ok by blast
qed

lemma step_token_passed:
  assumes "store_step store s s'" and "view_ok (view s)" and "token_passed cid e (view s)"
  shows "token_passed cid e (view s')"
  using assms
  by (cases rule: step_cases)
    (auto simp: token_passed_def spec_create_def spec_rotate_def spec_disable_def spec_update_def view_ok_def
      intro: passed_swap)

lemma run_token_passed:
  assumes "(store_step store)\<^sup>*\<^sup>* s s'" and "view_ok (view s)" and "token_passed cid e (view s)"
  shows "token_passed cid e (view s')"
  using assms
proof (induction rule: rtranclp_induct)
  case (step t t')
  then show ?case using step_token_passed run_view_ok by blast
qed

text \<open>
  The fate of a token: with its generation it keeps its digest, and once it is disabled it stays so; a
  rotation ends the generation for ever.
\<close>

lemma run_token_fate:
  assumes "(store_step store)\<^sup>*\<^sup>* s s'" and "view_ok (view s)" and "vw_tokens (view s) cid = Some r"
  shows "\<exists>r'. vw_tokens (view s') cid = Some r' \<and>
    (te_Generation r' = te_Generation r \<and> tr_Digest r' = tr_Digest r \<and> (te_Disabled r \<longrightarrow> te_Disabled r') \<or>
     0 < te_Generation r \<and> passed (te_Generation r) (te_Generation r'))"
  using assms
proof (induction rule: rtranclp_induct)
  case (step t t')
  then obtain r' where r': "vw_tokens (view t) cid = Some r'"
    "te_Generation r' = te_Generation r \<and> tr_Digest r' = tr_Digest r \<and> (te_Disabled r \<longrightarrow> te_Disabled r') \<or>
     0 < te_Generation r \<and> passed (te_Generation r) (te_Generation r')" by blast
  have ok: "int64_range (te_Generation r')" using run_view_ok [OF step(1,4)] r'(1) by (auto simp: view_ok_def)
  have swap: "0 < te_Generation r' \<Longrightarrow> passed (te_Generation r) (wrap64 (te_Generation r' + 1))" "0 < te_Generation r' \<Longrightarrow> 0 < te_Generation r"
    using r'(2) passed_next [OF ok] passed_swap [OF ok] by auto
  show ?case using step(2)
  proof (cases rule: step_cases)
    case (rotate clientID digest updatedAt r2)
    with r' swap show ?thesis by (cases "clientID = cid") (auto simp: spec_rotate_def)
  next
    case (disable clientID updatedAt r2)
    with r' show ?thesis by (cases "clientID = cid") (auto simp: spec_disable_def)
  qed (use r' in \<open>auto simp: spec_create_def spec_update_def\<close>)
qed simp

lemma update_once:
  assumes first: "updateConfig store e req now s = (Inr c, s1)" and "0 < e" and "view_ok (view s)"
    and run: "(store_step store)\<^sup>*\<^sup>* s1 s2"
    and second: "updateConfig store e req' now' s2 = (r, s3)"
  shows "isl r"
proof -
  from updateConfig_spec [OF first] have v: "cfg_Version (vw_config (view s)) = e"
    "view s1 = (view s)\<lparr>vw_config := updated_config req (vw_config (view s))\<rparr>"
    by (auto simp: performs_def spec_update_def split: if_splits)
  with assms(3) have "view_ok (view s1)" "passed e (cfg_Version (vw_config (view s1)))"
    by (auto simp: view_ok_def updated_config_def wrap64_range passed_next)
  with run_version_passed [OF run] have "passed e (cfg_Version (vw_config (view s2)))" by blast
  with \<open>0 < e\<close> have "cfg_Version (vw_config (view s2)) \<noteq> e" by (auto simp: passed_def)
  with updateConfig_spec [OF second] show ?thesis by (auto simp: performs_def spec_update_def)
qed

lemma rotate_once:
  assumes first: "rotateToken store cid e digest at now s = (Inr c, s1)" and "0 < e" and "view_ok (view s)"
    and run: "(store_step store)\<^sup>*\<^sup>* s1 s2"
    and second: "rotateToken store cid e digest' at' now' s2 = (r, s3)"
  shows "isl r"
proof -
  from rotateToken_spec [OF first] obtain t where t: "vw_tokens (view s) cid = Some t" "te_Generation t = e"
    "view s1 = snd (spec_rotate cid e digest at (view s))"
    by (auto simp: performs_def spec_rotate_def split: option.splits if_splits)
  with assms(3) have "view_ok (view s1)" "token_passed cid e (view s1)"
    by (auto simp: view_ok_def spec_rotate_def wrap64_range token_passed_def intro: passed_next)
  with run_token_passed [OF run] obtain t2 where "vw_tokens (view s2) cid = Some t2" "passed e (te_Generation t2)"
    by (auto simp: token_passed_def)
  with rotateToken_spec [OF second] \<open>0 < e\<close> show ?thesis
    by (cases r) (auto simp: performs_def spec_rotate_def passed_def split: if_splits)
qed

end

section \<open>The store in memory keeps its promises\<close>

definition memory_view :: "memoryStore \<Rightarrow> store_view" where
  "memory_view s = \<lparr>vw_tokens = map_of (mem_tokens s), vw_config = mem_config s\<rparr>"

lemma update_map_of: "map_of (AList.update k v xs) = (map_of xs)(k \<mapsto> v)"
  by (simp add: update_conv')

text \<open>In the listing the distinct clients come in their order.\<close>

lemma memory_listing:
  assumes "distinct (map fst kvs)" and "\<forall>(k, r)\<in>set kvs. te_ClientID r = k"
  shows "map te_ClientID (sort_key te_ClientID (map (tokenEntry.truncate \<circ> snd) kvs)) = sorted_list_of_set (fst ` set kvs)"
    and "list_all (\<lambda>e. map_option tokenEntry.truncate (map_of kvs (te_ClientID e)) = Some e)
      (sort_key te_ClientID (map (tokenEntry.truncate \<circ> snd) kvs))"
proof -
  let ?es = "map (tokenEntry.truncate \<circ> snd) kvs"
  have ids: "map te_ClientID ?es = map fst kvs"
    using assms(2) by (auto simp: tokenEntry.defs)
  have "sorted (map te_ClientID (sort_key te_ClientID ?es))" by simp
  moreover have "mset (map te_ClientID (sort_key te_ClientID ?es)) = mset (map te_ClientID ?es)"
    by (simp add: multiset.map_comp)
  ultimately have "map te_ClientID (sort_key te_ClientID ?es) = sort (map te_ClientID ?es)"
    by (metis properties_for_sort)
  also have "\<dots> = sorted_list_of_set (fst ` set kvs)"
    using assms(1) ids by (metis list.set_map sorted_list_of_set_sort_remdups distinct_remdups_id)
  finally show "map te_ClientID (sort_key te_ClientID ?es) = sorted_list_of_set (fst ` set kvs)" .
  show "list_all (\<lambda>e. map_option tokenEntry.truncate (map_of kvs (te_ClientID e)) = Some e) (sort_key te_ClientID ?es)"
    using assms by (fastforce simp: list_all_iff tokenEntry.defs)
qed

definition memory_invar :: "memoryStore \<Rightarrow> bool" where
  "memory_invar s \<longleftrightarrow> distinct (map fst (mem_tokens s)) \<and> distinct (map fst (mem_authFailures s))"

lemmas memory_calls = memory_verifyDigest_def memory_authFailureLimited_def memory_recordAuthFailure_def
  memory_clearAuthFailures_def memory_createToken_def memory_rotateToken_def memory_disableToken_def
  memory_listTokens_def memory_getConfig_def memory_updateConfig_def

lemma memory_store_sels [simp]:
  "verifyDigest memory_store = memory_verifyDigest" "authFailureLimited memory_store = memory_authFailureLimited"
  "recordAuthFailure memory_store = memory_recordAuthFailure" "clearAuthFailures memory_store = memory_clearAuthFailures"
  "createToken memory_store = memory_createToken" "rotateToken memory_store = memory_rotateToken"
  "disableToken memory_store = memory_disableToken" "listTokens memory_store = memory_listTokens"
  "getConfig memory_store = memory_getConfig" "updateConfig memory_store = memory_updateConfig" "Ping memory_store = None"
  by (simp_all add: memory_store_def)

lemma memory_step_invar: "store_step memory_store s s' \<Longrightarrow> memory_invar s \<Longrightarrow> memory_invar s'"
  by (induction rule: store_step.induct)
    (auto simp: memory_calls memory_invar_def Let_def distinct_update distinct_delete split: option.splits if_splits)

interpretation mem: control_store memory_store memory_view memory_invar
proof (unfold_locales, goal_cases)
  case 1
  then show ?case by (rule memory_step_invar)
next
  case (10 now s xs s')
  then have xs: "xs = sort_key te_ClientID (map (tokenEntry.truncate \<circ> snd) (mem_tokens s))" and
    d: "distinct (map fst (mem_tokens s))" and "\<forall>(k, r)\<in>set (mem_tokens s). te_ClientID r = k"
    by (auto simp: memory_listTokens_def memory_invar_def view_ok_def memory_view_def)
  from memory_listing [OF this(2,3)] show ?case
    by (simp add: xs is_listing_def memory_view_def dom_map_of_conv_image_fst)
qed (auto simp: memory_calls memory_view_def performs_def decision_of_def spec_create_def spec_rotate_def spec_disable_def
    spec_update_def digestEqual_def update_map_of Let_def split: option.splits if_splits)

end
