(* ===== verification/ControlPlane.thy ===== *)
theory ControlPlane
  imports ControlStore
begin

text \<open>
  The HTTP service of the control plane: the start-up configuration (\<^verbatim>\<open>startup_config.go\<close>), requests and
  replies with the middleware (\<^verbatim>\<open>http_foundation.go\<close>), the routes and every handler (\<^verbatim>\<open>handlers.go\<close>),
  and the end of the service (\<^verbatim>\<open>app.go\<close>).

  The handlers work on any \<open>Store\<close>.  A handler is not atomic: between its calls of the store other
  requests may run, and what they do to the store is an argument, like the points of time of the calls,
  the random bytes and the rendered time.
\<close>

section \<open>Start-up\<close>

record applicationConfig =
  ac_environment :: string
  ac_adminToken :: string
  ac_gatewayToken :: string
  ac_tokenPepper :: string

definition developmentTokenPepper :: string where
  "developmentTokenPepper = ''development-only-token-pepper''"

fun join_names :: "string list \<Rightarrow> string" where
  "join_names [] = []"
| "join_names [x] = x"
| "join_names (x # y # xs) = x @ '', '' @ join_names (y # xs)"

definition loadApplicationConfigFromEnv :: "environment \<Rightarrow> string + applicationConfig" where
  "loadApplicationConfigFromEnv env =
     (let given = ToLower (TrimSpace (env ''APP_ENV''));
          mode = (if given = [] then ''production'' else given)
      in if mode \<notin> set [''development'', ''test'', ''staging'', ''production'']
         then Inl ''APP_ENV must be development, test, staging, or production''
         else
           let config = \<lparr>ac_environment = mode, ac_adminToken = env ''CONTROL_PLANE_ADMIN_TOKEN'',
                         ac_gatewayToken = env ''GATEWAY_SHARED_TOKEN'', ac_tokenPepper = env ''TOKEN_PEPPER''\<rparr>
           in if mode = ''development''
              then Inr (if ac_tokenPepper config = [] then config\<lparr>ac_tokenPepper := developmentTokenPepper\<rparr> else config)
              else
                let missing =
                  (if TrimSpace (ac_adminToken config) = [] then [''CONTROL_PLANE_ADMIN_TOKEN''] else []) @
                  (if TrimSpace (ac_gatewayToken config) = [] then [''GATEWAY_SHARED_TOKEN''] else []) @
                  (if TrimSpace (ac_tokenPepper config) = [] then [''TOKEN_PEPPER''] else [])
                in if missing \<noteq> [] then Inl (join_names missing @ '' must be set when APP_ENV='' @ mode)
                   else Inr config)"

definition developmentApplicationConfigFromEnv :: "environment \<Rightarrow> applicationConfig" where
  "developmentApplicationConfigFromEnv env =
     \<lparr>ac_environment = ''development'', ac_adminToken = env ''CONTROL_PLANE_ADMIN_TOKEN'',
      ac_gatewayToken = env ''GATEWAY_SHARED_TOKEN'',
      ac_tokenPepper = (if env ''TOKEN_PEPPER'' = [] then developmentTokenPepper else env ''TOKEN_PEPPER'')\<rparr>"

datatype store_backend = RedisBackend string | MemoryBackend

definition newStoreFromEnv :: "environment \<Rightarrow> store_backend" where
  "newStoreFromEnv env =
     (let backend = (if env ''STORE_BACKEND'' = [] then ''memory'' else env ''STORE_BACKEND'') in
      if backend = ''redis''
      then RedisBackend (if env ''REDIS_ADDR'' = [] then ''localhost:6379'' else env ''REDIS_ADDR'')
      else MemoryBackend)"

section \<open>Requests and replies\<close>

text \<open>
  A request as \<^verbatim>\<open>net/http\<close> hands it over: the path is its decoded segments (a final slash shows as an
  empty last segment; paths that are not clean are redirected before they get to a handler), a header
  that is missing reads as the empty string, the media type is what \<^verbatim>\<open>mime.ParseMediaType\<close> makes of
  \<^verbatim>\<open>Content-Type\<close>, \<^term>\<open>None\<close> if it fails.
\<close>

record http_request =
  hq_method :: string
  hq_path :: "string list"
  hq_header :: "string \<Rightarrow> string"
  hq_media_type :: "string option"
  hq_content_length :: int
  hq_body :: string

record http_reply =
  hw_status :: nat
  hw_headers :: "(string \<times> string) list"
  hw_body :: string

text \<open>None of the payloads below makes \<^verbatim>\<open>json.Marshal\<close> fail.\<close>

definition writeJSON :: "(string \<times> string) list \<Rightarrow> nat \<Rightarrow> go_json \<Rightarrow> http_reply" where
  "writeJSON headers statusCode payload =
     (let body = marshal payload in
      \<lparr>hw_status = statusCode,
       hw_headers = headers @ [(''Content-Type'', ''application/json''), (''Content-Length'', show_nat (length body))],
       hw_body = body\<rparr>)"

definition apiErrorResponse :: "string \<Rightarrow> string \<Rightarrow> string \<Rightarrow> go_json" where
  "apiErrorResponse requestID code message =
     GoObject [(''request_id'', GoString requestID), (''code'', GoString code), (''message'', GoString message)]"

definition writeAPIError :: "string \<Rightarrow> nat \<Rightarrow> string \<Rightarrow> string \<Rightarrow> http_reply" where
  "writeAPIError requestID status code message = writeJSON [] status (apiErrorResponse requestID code message)"

definition writeStoreError :: "string \<Rightarrow> store_error \<Rightarrow> http_reply" where
  "writeStoreError requestID err =
     (if err = StoreDeadline \<or> err = StoreNetwork then writeAPIError requestID 503 ''UNAVAILABLE'' ''store unavailable''
      else writeAPIError requestID 500 ''INTERNAL'' ''store error'')"

definition writeAuthUnavailable :: "string \<Rightarrow> http_reply" where
  "writeAuthUnavailable requestID =
     writeAPIError requestID 503 ''AUTH_UNAVAILABLE'' ''authentication service unavailable''"

subsection \<open>Bodies\<close>

definition maxRequestBodyBytes :: nat where
  "maxRequestBodyBytes = 1048576"

text \<open>The bytes that the limited reader gives out, and whether it then reports that there are more.\<close>

definition first_value :: "string \<Rightarrow> string \<Rightarrow> http_reply + go_json \<times> string" where
  "first_value requestID body =
     (case readValue scan_new (take maxRequestBodyBytes body) of
        ReadValue v rest \<Rightarrow> Inr (v, rest)
      | ReadSyntaxError \<Rightarrow> Inl (writeAPIError requestID 400 ''INVALID_ARGUMENT'' ''invalid request body'')
      | ReadMore s \<Rightarrow>
          if length body > maxRequestBodyBytes
          then Inl (writeAPIError requestID 413 ''BODY_TOO_LARGE'' ''request body too large'')
          else case scan_step s (CHR '' '') of
            ScanEnded v \<Rightarrow> Inr (v, [])
          | _ \<Rightarrow> Inl (writeAPIError requestID 400 ''INVALID_ARGUMENT'' ''invalid request body''))"

definition decodeJSON :: "string \<Rightarrow> (string \<times> 'r setter) list \<Rightarrow> 'r \<Rightarrow> string \<Rightarrow> http_reply + 'r" where
  "decodeJSON requestID struct zero body =
     (case first_value requestID body of
        Inl reply \<Rightarrow> Inl reply
      | Inr (v, rest) \<Rightarrow>
          (case unmarshal struct v zero of
             None \<Rightarrow> Inl (writeAPIError requestID 400 ''INVALID_ARGUMENT'' ''invalid request body'')
           | Some r \<Rightarrow>
               if list_all json_blank rest \<and> length body \<le> maxRequestBodyBytes then Inr r
               else Inl (writeAPIError requestID 400 ''INVALID_ARGUMENT''
                           ''request body must contain exactly one JSON value'')))"

section \<open>The application\<close>

record 's application =
  app_store :: "'s Store"
  app_pepper :: string
  app_adminToken :: string
  app_gatewayToken :: string
  app_authFailures :: authFailurePolicy

definition new_application :: "'s Store \<Rightarrow> applicationConfig \<Rightarrow> environment \<Rightarrow> 's application" where
  "new_application store config env =
     \<lparr>app_store = store, app_pepper = ac_tokenPepper config, app_adminToken = ac_adminToken config,
      app_gatewayToken = ac_gatewayToken config, app_authFailures = authFailurePolicyFromEnv env\<rparr>"

text \<open>What surrounds a request: the time of its \<open>n\<close>-th call of the store, and what others do after it.\<close>

record 's surroundings =
  sr_clock :: "nat \<Rightarrow> time_point"
  sr_others :: "nat \<Rightarrow> 's \<Rightarrow> 's"
  sr_token_bytes :: "string option"
  sr_request_bytes :: "string option"
  sr_now_text :: string

definition call :: "'s surroundings \<Rightarrow> nat \<Rightarrow> ('s, 'a) store_call \<Rightarrow> 's \<Rightarrow> (store_error + 'a) \<times> 's" where
  "call w n f s = (case f (sr_clock w n) s of (r, s1) \<Rightarrow> (r, sr_others w n s1))"

section \<open>Health\<close>

definition healthResponse :: "string \<Rightarrow> go_json" where
  "healthResponse status = GoObject [(''status'', GoString status)]"

definition handleHealth :: http_reply where
  "handleHealth = writeJSON [] 200 (healthResponse ''ok'')"

definition handleReady :: "'s application \<Rightarrow> 's surroundings \<Rightarrow> string \<Rightarrow> 's \<Rightarrow> http_reply \<times> 's" where
  "handleReady a w requestID s =
     (case Ping (app_store a) of
        None \<Rightarrow> (writeJSON [] 200 (healthResponse ''ready''), s)
      | Some ping \<Rightarrow>
          (case call w 0 ping s of
             (Inl _, s1) \<Rightarrow> (writeAPIError requestID 503 ''NOT_READY'' ''store unavailable'', s1)
           | (Inr _, s1) \<Rightarrow> (writeJSON [] 200 (healthResponse ''ready''), s1)))"

section \<open>The check of credentials\<close>

record authCheckRequest =
  ar_ClientID :: string
  ar_Token :: string

definition authCheckRequest_fields :: "(string \<times> authCheckRequest setter) list" where
  "authCheckRequest_fields =
     [(''client_id'', set_string (\<lambda>v r. r\<lparr>ar_ClientID := v\<rparr>)), (''token'', set_string (\<lambda>v r. r\<lparr>ar_Token := v\<rparr>))]"

definition authCheckResponse :: "bool \<Rightarrow> string \<Rightarrow> string \<Rightarrow> go_json" where
  "authCheckResponse allowed code reason =
     GoObject [(''allowed'', GoBool allowed), (''code'', GoString code), (''reason'', GoString reason)]"

definition handleAuthCheck ::
  "'s application \<Rightarrow> 's surroundings \<Rightarrow> string \<Rightarrow> http_request \<Rightarrow> 's \<Rightarrow> http_reply \<times> 's" where
  "handleAuthCheck a w requestID r s =
     (case decodeJSON requestID authCheckRequest_fields \<lparr>ar_ClientID = [], ar_Token = []\<rparr> (hq_body r) of
        Inl reply \<Rightarrow> (reply, s)
      | Inr req \<Rightarrow>
          if ar_ClientID req = [] \<or> ar_Token req = [] \<or> length (ar_ClientID req) > 128 \<or> length (ar_Token req) > 4096
          then (writeAPIError requestID 400 ''INVALID_ARGUMENT'' ''client_id and token are required'', s)
          else
            (case call w 0 (authFailureLimited (app_store a) (ar_ClientID req) (fp_limit (app_authFailures a))) s of
               (Inl _, s1) \<Rightarrow> (writeAuthUnavailable requestID, s1)
             | (Inr True, s1) \<Rightarrow> (writeJSON [] 200 (authCheckResponse False ''RATE_LIMITED'' ''rate limited''), s1)
             | (Inr False, s1) \<Rightarrow>
                 (case call w 1 (verifyDigest (app_store a) (ar_ClientID req) (token_digest (app_pepper a) (ar_Token req))) s1 of
                    (Inl _, s2) \<Rightarrow> (writeAuthUnavailable requestID, s2)
                  | (Inr decision, s2) \<Rightarrow>
                      if decision \<noteq> tokenAuthAllowed then
                        (case call w 2 (recordAuthFailure (app_store a) (ar_ClientID req) (fp_window (app_authFailures a))) s2 of
                           (Inl _, s3) \<Rightarrow> (writeAuthUnavailable requestID, s3)
                         | (Inr failed, s3) \<Rightarrow>
                             (let (code, reason) =
                                (if failed \<ge> fp_limit (app_authFailures a) then (''RATE_LIMITED'', ''rate limited'')
                                 else if decision = tokenAuthDisabled then (''TOKEN_DISABLED'', ''token disabled'')
                                 else (''INVALID_CREDENTIALS'', ''invalid token''))
                              in (writeJSON [] 200 (authCheckResponse False code reason), s3)))
                      else
                        (case call w 2 (clearAuthFailures (app_store a) (ar_ClientID req)) s2 of
                           (Inl _, s3) \<Rightarrow> (writeAuthUnavailable requestID, s3)
                         | (Inr _, s3) \<Rightarrow> (writeJSON [] 200 (authCheckResponse True ''OK'' ''ok''), s3)))))"

section \<open>Tokens\<close>

record tokenUpsertRequest =
  tu_ClientID :: string

definition tokenUpsertRequest_fields :: "(string \<times> tokenUpsertRequest setter) list" where
  "tokenUpsertRequest_fields = [(''client_id'', set_string (\<lambda>v r. r\<lparr>tu_ClientID := v\<rparr>))]"

definition tokenSecretResponse :: "string \<Rightarrow> string \<Rightarrow> int \<Rightarrow> go_json" where
  "tokenSecretResponse clientID token generation =
     GoObject [(''client_id'', GoString clientID), (''token'', GoString token), (''generation'', GoInt generation)]"

definition invalid_client_id :: "string \<Rightarrow> http_reply" where
  "invalid_client_id requestID =
     writeAPIError requestID 400 ''INVALID_ARGUMENT'' ''client_id must be 1 to 128 bytes and must not be index''"

definition handleTokensUpsert ::
  "'s application \<Rightarrow> 's surroundings \<Rightarrow> string \<Rightarrow> http_request \<Rightarrow> 's \<Rightarrow> http_reply \<times> 's" where
  "handleTokensUpsert a w requestID r s =
     (case decodeJSON requestID tokenUpsertRequest_fields \<lparr>tu_ClientID = []\<rparr> (hq_body r) of
        Inl reply \<Rightarrow> (reply, s)
      | Inr req \<Rightarrow>
          if \<not> validTokenClientID (tu_ClientID req) then (invalid_client_id requestID, s)
          else
            (case generate (sr_token_bytes w) of
               None \<Rightarrow> (writeStoreError requestID StoreFailure, s)
             | Some token \<Rightarrow>
                 let entry = \<lparr>te_ClientID = tu_ClientID req, te_Generation = 1, te_CreatedAt = sr_now_text w,
                              te_UpdatedAt = sr_now_text w, te_Disabled = False,
                              tr_Digest = token_digest (app_pepper a) token\<rparr>
                 in (case call w 0 (createToken (app_store a) entry) s of
                       (Inl err, s1) \<Rightarrow>
                         if err = errTokenExists then (writeAPIError requestID 409 ''CONFLICT'' ''token already exists'', s1)
                         else (writeStoreError requestID err, s1)
                     | (Inr _, s1) \<Rightarrow> (writeJSON [] 201 (tokenSecretResponse (tu_ClientID req) token 1), s1))))"

definition tokenEntry_json :: "tokenEntry \<Rightarrow> go_json" where
  "tokenEntry_json e =
     GoObject [(''client_id'', GoString (te_ClientID e)), (''generation'', GoInt (te_Generation e)),
               (''created_at'', GoString (te_CreatedAt e)), (''updated_at'', GoString (te_UpdatedAt e)),
               (''disabled'', GoBool (te_Disabled e))]"

definition handleTokensList :: "'s application \<Rightarrow> 's surroundings \<Rightarrow> string \<Rightarrow> 's \<Rightarrow> http_reply \<times> 's" where
  "handleTokensList a w requestID s =
     (case call w 0 (listTokens (app_store a)) s of
        (Inl err, s1) \<Rightarrow> (writeStoreError requestID err, s1)
      | (Inr entries, s1) \<Rightarrow> (writeJSON [] 200 (GoArray (map tokenEntry_json entries)), s1))"

definition handleTokensDelete ::
  "'s application \<Rightarrow> 's surroundings \<Rightarrow> string \<Rightarrow> string \<Rightarrow> 's \<Rightarrow> http_reply \<times> 's" where
  "handleTokensDelete a w requestID clientID s =
     (if validTokenClientID clientID then
        (case call w 0 (disableToken (app_store a) clientID (sr_now_text w)) s of
           (Inl err, s1) \<Rightarrow>
             if err = errTokenNotFound then (writeAPIError requestID 404 ''NOT_FOUND'' ''token not found'', s1)
             else (writeStoreError requestID err, s1)
         | (Inr _, s1) \<Rightarrow> (writeJSON [] 200 (GoObject [(''success'', GoBool True)]), s1))
      else (invalid_client_id requestID, s))"

definition handleTokensRotate ::
  "'s application \<Rightarrow> 's surroundings \<Rightarrow> string \<Rightarrow> http_request \<Rightarrow> string \<Rightarrow> 's \<Rightarrow> http_reply \<times> 's" where
  "handleTokensRotate a w requestID r clientID s =
     (if \<not> validTokenClientID clientID then (invalid_client_id requestID, s)
      else
        (case parseGeneration (hq_header r ''If-Match'') of
           None \<Rightarrow> (writeAPIError requestID 400 ''INVALID_ARGUMENT'' ''invalid If-Match'', s)
         | Some expected \<Rightarrow>
             (case generate (sr_token_bytes w) of
                None \<Rightarrow> (writeStoreError requestID StoreFailure, s)
              | Some token \<Rightarrow>
                  (case call w 0 (rotateToken (app_store a) clientID expected (token_digest (app_pepper a) token)
                                    (sr_now_text w)) s of
                     (Inl err, s1) \<Rightarrow>
                       if err = errTokenConflict then (writeAPIError requestID 409 ''CONFLICT'' ''token generation conflict'', s1)
                       else if err = errTokenNotFound then (writeAPIError requestID 404 ''NOT_FOUND'' ''token not found'', s1)
                       else (writeStoreError requestID err, s1)
                   | (Inr entry, s1) \<Rightarrow>
                       (writeJSON [] 200 (tokenSecretResponse (te_ClientID entry) token (te_Generation entry)), s1)))))"

section \<open>The run-time configuration\<close>

definition runtimeConfig_json :: "runtimeConfig \<Rightarrow> go_json" where
  "runtimeConfig_json c =
     GoObject [(''version'', GoInt (cfg_Version c)), (''max_payload_size'', GoInt (cfg_MaxPayloadSize c)),
               (''max_connections_per_client'', GoInt (cfg_MaxConnectionsPerClient c)),
               (''max_requests_per_client_per_second'', GoInt (cfg_MaxRequestsPerClientPerSecond c)),
               (''slow_client_output_limit'', GoInt (cfg_SlowClientOutputLimit c)),
               (''log_level'', GoString (cfg_LogLevel c)),
               (''request_queue_capacity_display'', GoInt (cfg_RequestQueueCapacityDisplay c))]"

definition etag :: "runtimeConfig \<Rightarrow> string \<times> string" where
  "etag c = (''ETag'', CHR 0x22 # show_int (cfg_Version c) @ [CHR 0x22])"

definition handleConfigGet :: "'s application \<Rightarrow> 's surroundings \<Rightarrow> string \<Rightarrow> 's \<Rightarrow> http_reply \<times> 's" where
  "handleConfigGet a w requestID s =
     (case call w 0 (getConfig (app_store a)) s of
        (Inl err, s1) \<Rightarrow> (writeStoreError requestID err, s1)
      | (Inr cfg, s1) \<Rightarrow> (writeJSON [etag cfg] 200 (runtimeConfig_json cfg), s1))"

definition configUpdateRequest_fields :: "(string \<times> configUpdateRequest setter) list" where
  "configUpdateRequest_fields =
     [(''max_payload_size'', set_int (\<lambda>v r. r\<lparr>cu_MaxPayloadSize := v\<rparr>)),
      (''max_connections_per_client'', set_int (\<lambda>v r. r\<lparr>cu_MaxConnectionsPerClient := v\<rparr>)),
      (''max_requests_per_client_per_second'', set_int (\<lambda>v r. r\<lparr>cu_MaxRequestsPerClientPerSecond := v\<rparr>)),
      (''slow_client_output_limit'', set_int (\<lambda>v r. r\<lparr>cu_SlowClientOutputLimit := v\<rparr>)),
      (''log_level'', set_string (\<lambda>v r. r\<lparr>cu_LogLevel := v\<rparr>))]"

definition configUpdateRequest_zero :: configUpdateRequest where
  "configUpdateRequest_zero =
     \<lparr>cu_MaxPayloadSize = 0, cu_MaxConnectionsPerClient = 0, cu_MaxRequestsPerClientPerSecond = 0,
      cu_SlowClientOutputLimit = 0, cu_LogLevel = []\<rparr>"

definition handleConfigUpdate ::
  "'s application \<Rightarrow> 's surroundings \<Rightarrow> string \<Rightarrow> http_request \<Rightarrow> 's \<Rightarrow> http_reply \<times> 's" where
  "handleConfigUpdate a w requestID r s =
     (if hq_header r ''If-Match'' = []
      then (writeAPIError requestID 428 ''PRECONDITION_REQUIRED'' ''If-Match is required'', s)
      else
        (case parseGeneration (hq_header r ''If-Match'') of
           None \<Rightarrow> (writeAPIError requestID 400 ''INVALID_ARGUMENT'' ''invalid If-Match'', s)
         | Some expected \<Rightarrow>
             (case decodeJSON requestID configUpdateRequest_fields configUpdateRequest_zero (hq_body r) of
                Inl reply \<Rightarrow> (reply, s)
              | Inr req \<Rightarrow>
                  (case validateConfigUpdate req of
                     Some message \<Rightarrow> (writeAPIError requestID 400 ''INVALID_ARGUMENT'' message, s)
                   | None \<Rightarrow>
                       (case call w 0 (updateConfig (app_store a) expected req) s of
                          (Inl err, s1) \<Rightarrow>
                            if err = errConfigConflict
                            then (writeAPIError requestID 409 ''CONFLICT'' ''config version conflict'', s1)
                            else (writeStoreError requestID err, s1)
                        | (Inr cfg, s1) \<Rightarrow> (writeJSON [etag cfg] 200 (runtimeConfig_json cfg), s1))))))"

section \<open>Routes\<close>

definition requireAdmin :: "'s application \<Rightarrow> string \<Rightarrow> http_request \<Rightarrow> ('s \<Rightarrow> http_reply \<times> 's) \<Rightarrow> 's \<Rightarrow> http_reply \<times> 's" where
  "requireAdmin a requestID r next s =
     (if \<not> secureBearerEqual (hq_header r ''Authorization'') (app_adminToken a)
      then (writeAPIError requestID 401 ''UNAUTHORIZED'' ''invalid admin token'', s) else next s)"

definition requireGateway :: "'s application \<Rightarrow> string \<Rightarrow> http_request \<Rightarrow> ('s \<Rightarrow> http_reply \<times> 's) \<Rightarrow> 's \<Rightarrow> http_reply \<times> 's" where
  "requireGateway a requestID r next s =
     (if app_gatewayToken a \<noteq> [] \<and> \<not> digestEqual (hq_header r ''X-Gateway-Token'') (app_gatewayToken a)
      then (writeAPIError requestID 401 ''UNAUTHORIZED'' ''invalid gateway token'', s) else next s)"

definition requireAdminOrGateway ::
  "'s application \<Rightarrow> string \<Rightarrow> http_request \<Rightarrow> ('s \<Rightarrow> http_reply \<times> 's) \<Rightarrow> 's \<Rightarrow> http_reply \<times> 's" where
  "requireAdminOrGateway a requestID r next s =
     (let adminOK = secureBearerEqual (hq_header r ''Authorization'') (app_adminToken a);
          gatewayOK = app_gatewayToken a = [] \<or> digestEqual (hq_header r ''X-Gateway-Token'') (app_gatewayToken a)
      in if \<not> adminOK \<and> \<not> gatewayOK
         then (writeAPIError requestID 401 ''UNAUTHORIZED'' ''invalid credentials'', s) else next s)"

definition method_fallback :: "string \<Rightarrow> string \<Rightarrow> http_reply" where
  "method_fallback requestID allow =
     writeJSON [(''Allow'', allow)] 405 (apiErrorResponse requestID ''METHOD_NOT_ALLOWED'' ''method not allowed'')"

text \<open>A pattern with the method GET also matches HEAD.\<close>

definition is_get :: "http_request \<Rightarrow> bool" where
  "is_get r \<longleftrightarrow> hq_method r = ''GET'' \<or> hq_method r = ''HEAD''"

definition serve_mux ::
  "'s application \<Rightarrow> 's surroundings \<Rightarrow> string \<Rightarrow> http_request \<Rightarrow> 's \<Rightarrow> http_reply \<times> 's" where
  "serve_mux a w requestID r s =
     (let path = hq_path r; m = hq_method r in
      if path = [''health'']
      then (if is_get r then handleHealth else method_fallback requestID ''GET'', s)
      else if path = [''health'', ''ready'']
      then (if is_get r then handleReady a w requestID s else (method_fallback requestID ''GET'', s))
      else if path = [''auth'', ''check'']
      then (if m = ''POST'' then requireGateway a requestID r (handleAuthCheck a w requestID r) s
            else (method_fallback requestID ''POST'', s))
      else if path = [''tokens'']
      then (if m = ''POST'' then requireAdmin a requestID r (handleTokensUpsert a w requestID r) s
            else if is_get r then requireAdmin a requestID r (handleTokensList a w requestID) s
            else (method_fallback requestID ''POST, GET'', s))
      else if path = [''config'']
      then (if is_get r then requireAdminOrGateway a requestID r (handleConfigGet a w requestID) s
            else if m = ''PUT'' then requireAdmin a requestID r (handleConfigUpdate a w requestID r) s
            else (method_fallback requestID ''GET, PUT'', s))
      else
        (case path of
           [p, clientID] \<Rightarrow>
             if p = ''tokens'' \<and> clientID \<noteq> []
             then (if m = ''DELETE'' then requireAdmin a requestID r (handleTokensDelete a w requestID clientID) s
                   else (method_fallback requestID ''DELETE'', s))
             else (writeAPIError requestID 404 ''NOT_FOUND'' ''route not found'', s)
         | [p, clientID, q] \<Rightarrow>
             if p = ''tokens'' \<and> clientID \<noteq> [] \<and> q = ''rotate''
             then (if m = ''POST'' then requireAdmin a requestID r (handleTokensRotate a w requestID r clientID) s
                   else (method_fallback requestID ''POST'', s))
             else (writeAPIError requestID 404 ''NOT_FOUND'' ''route not found'', s)
         | _ \<Rightarrow> (writeAPIError requestID 404 ''NOT_FOUND'' ''route not found'', s)))"

definition newRequestID :: "string option \<Rightarrow> string" where
  "newRequestID random = (case random of None \<Rightarrow> ''req-unknown'' | Some bytes \<Rightarrow> ''req-'' @ hex_encode bytes)"

text \<open>The log line and the deadline of the context are left out; no handler above panics.\<close>

definition middleware :: "'s application \<Rightarrow> 's surroundings \<Rightarrow> http_request \<Rightarrow> 's \<Rightarrow> http_reply \<times> 's" where
  "middleware a w r s =
     (let requestID = (if hq_header r ''X-Request-ID'' = [] then newRequestID (sr_request_bytes w)
                       else hq_header r ''X-Request-ID'');
          stamp = (\<lambda>reply. reply\<lparr>hw_headers := (''X-Request-ID'', requestID) # hw_headers reply\<rparr>)
      in if (hq_method r = ''POST'' \<or> hq_method r = ''PUT'') \<and> hq_content_length r \<noteq> 0 \<and>
            hq_media_type r \<noteq> Some ''application/json''
         then (stamp (writeAPIError requestID 415 ''UNSUPPORTED_MEDIA_TYPE'' ''Content-Type must be application/json''), s)
         else case serve_mux a w requestID r s of (reply, s1) \<Rightarrow> (stamp reply, s1))"

section \<open>The end of the service\<close>

text \<open>
  The server ended by itself with an error, or a signal came and the server was shut down: then the
  error of the shutdown and the error with which the server ended.  An error is its text; the expected
  error of a server that was closed is told apart.
\<close>

datatype serve_error = ErrServerClosed | ServeFailed string

datatype serve_end = ServeReturned "serve_error option" | Signalled "string option" "serve_error option"

definition unexpected :: "serve_error option \<Rightarrow> string option" where
  "unexpected err = (case err of Some (ServeFailed e) \<Rightarrow> Some e | _ \<Rightarrow> None)"

text \<open>\<open>closed\<close> is \<^term>\<open>None\<close> for a store that has nothing to close, otherwise the error of closing it.\<close>

definition serveUntilShutdown :: "serve_end \<Rightarrow> string option option \<Rightarrow> string option" where
  "serveUntilShutdown ending closed =
     (let result = (case ending of
                      ServeReturned err \<Rightarrow> unexpected err
                    | Signalled shutdown err \<Rightarrow>
                        if shutdown \<noteq> None then shutdown else unexpected err)
      in case closed of
           Some (Some err) \<Rightarrow> if result = None then Some err else result
         | _ \<Rightarrow> result)"

end
