(* ===== verification/ControlSafety.thy ===== *)
theory ControlSafety
  imports ControlPlane
begin

text \<open>
  The control plane is safe, whatever other requests do between the calls of a handler: who may do
  what, that no update is lost, and whom the check of credentials lets in.  What requests do to the
  store is shown of every store; the rest is about the store in memory, through the lemmas of
  \<open>control_store\<close>.
\<close>

section \<open>What requests do to the store\<close>

text \<open>Other requests only do what a request can do: they call the store.\<close>

definition others_ok :: "'s Store \<Rightarrow> 's surroundings \<Rightarrow> bool" where
  "others_ok store w \<longleftrightarrow> (\<forall>n s. (store_step store)\<^sup>*\<^sup>* s (sr_others w n s))"

lemma call_result:
  assumes "call w n f s = (r, s2)"
  obtains s1 where "f (sr_clock w n) s = (r, s1)" "s2 = sr_others w n s1"
  using assms by (auto simp: call_def split: prod.splits)

lemma call_run:
  assumes "call w n f s = (r, s2)" and "others_ok store w" and "\<And>r s1. f (sr_clock w n) s = (r, s1) \<Longrightarrow> store_step store s s1"
  shows "(store_step store)\<^sup>*\<^sup>* s s2"
  using assms by (metis call_result others_ok_def converse_rtranclp_into_rtranclp)

lemma parseGeneration_pos: "parseGeneration v = Some g \<Longrightarrow> 0 < g"
  by (auto simp: parseGeneration_def split: option.splits if_splits)

lemma call_runs:
  assumes o: "others_ok store w"
  shows "call w n (authFailureLimited store cid lim) s = (b, s') \<Longrightarrow> (store_step store)\<^sup>*\<^sup>* s s'"
    and "call w n (verifyDigest store cid dig) s = (d, s') \<Longrightarrow> (store_step store)\<^sup>*\<^sup>* s s'"
    and "call w n (recordAuthFailure store cid win) s = (c, s') \<Longrightarrow> (store_step store)\<^sup>*\<^sup>* s s'"
    and "call w n (clearAuthFailures store cid) s = (u, s') \<Longrightarrow> (store_step store)\<^sup>*\<^sup>* s s'"
    and "call w n (listTokens store) s = (es, s') \<Longrightarrow> (store_step store)\<^sup>*\<^sup>* s s'"
    and "call w n (getConfig store) s = (g, s') \<Longrightarrow> (store_step store)\<^sup>*\<^sup>* s s'"
    and "call w n (disableToken store cid at) s = (u, s') \<Longrightarrow> (store_step store)\<^sup>*\<^sup>* s s'"
    and "call w n (rotateToken store cid e dig at) s = (q, s') \<Longrightarrow> 0 < e \<Longrightarrow> (store_step store)\<^sup>*\<^sup>* s s'"
    and "call w n (updateConfig store e req) s = (g, s') \<Longrightarrow> 0 < e \<Longrightarrow> validateConfigUpdate req = None \<Longrightarrow>
      (store_step store)\<^sup>*\<^sup>* s s'"
    and "call w n (createToken store tr) s = (u, s') \<Longrightarrow> te_Generation tr = 1 \<Longrightarrow> \<not> te_Disabled tr \<Longrightarrow>
      validTokenClientID (te_ClientID tr) \<Longrightarrow> (store_step store)\<^sup>*\<^sup>* s s'"
    and "Ping store = Some p \<Longrightarrow> call w n p s = (u, s') \<Longrightarrow> (store_step store)\<^sup>*\<^sup>* s s'"
  by (erule call_run [OF _ o], rule store_step.intros; assumption?)+

lemma handleReady_run:
  assumes "handleReady a w rid s = (reply, s')" and o: "others_ok (app_store a) w"
  shows "(store_step (app_store a))\<^sup>*\<^sup>* s s'"
  using assms(1)
  by (auto simp: handleReady_def split: option.splits prod.splits sum.splits intro: call_runs [OF o])

text \<open>The check of credentials, branch by branch.\<close>

definition credentials_ok :: "authCheckRequest \<Rightarrow> bool" where
  "credentials_ok req \<longleftrightarrow>
     ar_ClientID req \<noteq> [] \<and> ar_Token req \<noteq> [] \<and> length (ar_ClientID req) \<le> 128 \<and> length (ar_Token req) \<le> 4096"

abbreviation read_credentials :: "string \<Rightarrow> http_request \<Rightarrow> http_reply + authCheckRequest" where
  "read_credentials rid r \<equiv> decodeJSON rid authCheckRequest_fields \<lparr>ar_ClientID = [], ar_Token = []\<rparr> (hq_body r)"

abbreviation auth_denied :: "string \<Rightarrow> string \<Rightarrow> http_reply" where
  "auth_denied code reason \<equiv> writeJSON [] 200 (authCheckResponse False code reason)"

abbreviation auth_allowed :: http_reply where
  "auth_allowed \<equiv> writeJSON [] 200 (authCheckResponse True ''OK'' ''ok'')"

lemma handleAuthCheck_cases:
  assumes "handleAuthCheck a w rid r s = (reply, s')"
  obtains (unread) "read_credentials rid r = Inl reply" "s' = s"
  | (refused) req where "read_credentials rid r = Inr req" "\<not> credentials_ok req"
      "reply = writeAPIError rid 400 ''INVALID_ARGUMENT'' ''client_id and token are required''" "s' = s"
  | (limited) req b where "read_credentials rid r = Inr req" "credentials_ok req" "b \<noteq> Inr False"
      "call w 0 (authFailureLimited (app_store a) (ar_ClientID req) (fp_limit (app_authFailures a))) s = (b, s')"
      "reply = (if isl b then writeAuthUnavailable rid else auth_denied ''RATE_LIMITED'' ''rate limited'')"
  | (failed) req s1 e where "read_credentials rid r = Inr req" "credentials_ok req"
      "call w 0 (authFailureLimited (app_store a) (ar_ClientID req) (fp_limit (app_authFailures a))) s = (Inr False, s1)"
      "call w 1 (verifyDigest (app_store a) (ar_ClientID req) (token_digest (app_pepper a) (ar_Token req))) s1 = (Inl e, s')"
      "reply = writeAuthUnavailable rid"
  | (denied) req s1 d s2 n where "read_credentials rid r = Inr req" "credentials_ok req" "d \<noteq> tokenAuthAllowed"
      "call w 0 (authFailureLimited (app_store a) (ar_ClientID req) (fp_limit (app_authFailures a))) s = (Inr False, s1)"
      "call w 1 (verifyDigest (app_store a) (ar_ClientID req) (token_digest (app_pepper a) (ar_Token req))) s1 = (Inr d, s2)"
      "call w 2 (recordAuthFailure (app_store a) (ar_ClientID req) (fp_window (app_authFailures a))) s2 = (n, s')"
      "reply = (case n of
         Inl _ \<Rightarrow> writeAuthUnavailable rid
       | Inr n' \<Rightarrow>
           if fp_limit (app_authFailures a) \<le> n' then auth_denied ''RATE_LIMITED'' ''rate limited''
           else if d = tokenAuthDisabled then auth_denied ''TOKEN_DISABLED'' ''token disabled''
           else auth_denied ''INVALID_CREDENTIALS'' ''invalid token'')"
  | (allowed) req s1 s2 u where "read_credentials rid r = Inr req" "credentials_ok req"
      "call w 0 (authFailureLimited (app_store a) (ar_ClientID req) (fp_limit (app_authFailures a))) s = (Inr False, s1)"
      "call w 1 (verifyDigest (app_store a) (ar_ClientID req) (token_digest (app_pepper a) (ar_Token req))) s1 =
         (Inr tokenAuthAllowed, s2)"
      "call w 2 (clearAuthFailures (app_store a) (ar_ClientID req)) s2 = (u, s')"
      "reply = (if isl u then writeAuthUnavailable rid else auth_allowed)"
proof (cases "read_credentials rid r")
  case (Inl e)
  with assms that(1) show thesis by (simp add: handleAuthCheck_def)
next
  case (Inr req)
  show thesis
  proof (cases "credentials_ok req")
    case False
    with Inr assms that(2) show thesis by (auto simp: handleAuthCheck_def credentials_ok_def)
  next
    case True
    then have "\<not> (ar_ClientID req = [] \<or> ar_Token req = [] \<or> length (ar_ClientID req) > 128 \<or> length (ar_Token req) > 4096)"
      by (auto simp: credentials_ok_def)
    note run = assms [unfolded handleAuthCheck_def Inr sum.case if_not_P [OF this]]
    obtain b s1 where b: "call w 0 (authFailureLimited (app_store a) (ar_ClientID req) (fp_limit (app_authFailures a))) s = (b, s1)"
      by fastforce
    show thesis
    proof (cases "b = Inr False")
      case False
      with run b that(3) [OF Inr True False] show thesis by (cases b) (auto split: bool.splits)
    next
      case free: True
      obtain d s2 where d: "call w 1 (verifyDigest (app_store a) (ar_ClientID req)
          (token_digest (app_pepper a) (ar_Token req))) s1 = (d, s2)" by fastforce
      note run = run [unfolded b free prod.case sum.case bool.case d]
      consider (err) e where "d = Inl e" | (ok) "d = Inr tokenAuthAllowed" | (no) d' where "d = Inr d'" "d' \<noteq> tokenAuthAllowed"
        by (cases d) auto
      then show thesis
      proof cases
        case err
        with run that(4) [OF Inr True] b d free show thesis by simp
      next
        case ok
        obtain u s3 where u: "call w 2 (clearAuthFailures (app_store a) (ar_ClientID req)) s2 = (u, s3)" by fastforce
        with run ok have "reply = (if isl u then writeAuthUnavailable rid else auth_allowed) \<and> s' = s3" by (cases u) auto
        with that(6) [OF Inr True] b d free ok u show thesis by simp
      next
        case no
        obtain n s3 where n: "call w 2 (recordAuthFailure (app_store a) (ar_ClientID req) (fp_window (app_authFailures a))) s2 =
          (n, s3)" by fastforce
        have "reply = (case n of
             Inl _ \<Rightarrow> writeAuthUnavailable rid
           | Inr n' \<Rightarrow>
               if fp_limit (app_authFailures a) \<le> n' then auth_denied ''RATE_LIMITED'' ''rate limited''
               else if d' = tokenAuthDisabled then auth_denied ''TOKEN_DISABLED'' ''token disabled''
               else auth_denied ''INVALID_CREDENTIALS'' ''invalid token'') \<and> s' = s3"
          using run no n by (cases n) auto
        with that(5) [OF Inr True no(2)] b d free no n show thesis by simp
      qed
    qed
  qed
qed

lemma handleAuthCheck_run:
  assumes "handleAuthCheck a w rid r s = (reply, s')" and o: "others_ok (app_store a) w"
  shows "(store_step (app_store a))\<^sup>*\<^sup>* s s'"
  using assms(1)
proof (cases rule: handleAuthCheck_cases)
  case limited
  then show ?thesis using call_runs(1) [OF o] by blast
next
  case failed
  then show ?thesis using call_runs(1,2) [OF o] by (meson rtranclp_trans)
next
  case denied
  then show ?thesis using call_runs(1-3) [OF o] by (meson rtranclp_trans)
next
  case allowed
  then show ?thesis using call_runs(1,2,4) [OF o] by (meson rtranclp_trans)
qed simp_all

lemma reply_status [simp]:
  "hw_status (writeJSON hs st p) = st" "hw_status (writeAPIError rid st c m) = st"
  "hw_status (method_fallback rid al) = 405" "hw_status (invalid_client_id rid) = 400"
  by (simp_all add: writeJSON_def writeAPIError_def method_fallback_def invalid_client_id_def Let_def)

lemma error_status [simp]: "hw_status (writeStoreError rid e) \<noteq> 200" "hw_status (writeAuthUnavailable rid) = 503"
  by (simp_all add: writeStoreError_def writeAuthUnavailable_def)

lemma decodeJSON_status: "decodeJSON rid fs z body = Inl reply \<Longrightarrow> hw_status reply \<noteq> 200"
  by (auto simp: decodeJSON_def first_value_def
      split: sum.splits prod.splits option.splits if_splits read_result.splits scan_result.splits)

lemma decodeJSON_read:
  assumes "length body \<le> maxRequestBodyBytes" and "readValue scan_new body = ReadValue v rest" and "list_all json_blank rest"
    and "unmarshal fs v z = Some r"
  shows "decodeJSON rid fs z body = Inr r"
  using assms by (simp add: decodeJSON_def first_value_def)

lemma handleTokensUpsert_run:
  assumes "handleTokensUpsert a w rid r s = (reply, s')" and o: "others_ok (app_store a) w"
  shows "(store_step (app_store a))\<^sup>*\<^sup>* s s'"
  using assms(1)
  by (auto simp: handleTokensUpsert_def Let_def split: option.splits prod.splits sum.splits if_splits
      intro: call_runs(10) [OF o])

lemma handleTokensList_run:
  assumes "handleTokensList a w rid s = (reply, s')" and o: "others_ok (app_store a) w"
  shows "(store_step (app_store a))\<^sup>*\<^sup>* s s'"
  using assms(1)
  by (auto simp: handleTokensList_def split: prod.splits sum.splits intro: call_runs(5) [OF o])

lemma handleTokensDelete_run:
  assumes "handleTokensDelete a w rid cid s = (reply, s')" and o: "others_ok (app_store a) w"
  shows "(store_step (app_store a))\<^sup>*\<^sup>* s s'"
  using assms(1)
  by (auto simp: handleTokensDelete_def split: prod.splits sum.splits if_splits intro: call_runs(7) [OF o])

lemma handleTokensRotate_run:
  assumes "handleTokensRotate a w rid r cid s = (reply, s')" and o: "others_ok (app_store a) w"
  shows "(store_step (app_store a))\<^sup>*\<^sup>* s s'"
  using assms(1)
  by (auto simp: handleTokensRotate_def split: option.splits prod.splits sum.splits if_splits
      intro: call_runs(8) [OF o] dest: parseGeneration_pos)

lemma handleConfigGet_run:
  assumes "handleConfigGet a w rid s = (reply, s')" and o: "others_ok (app_store a) w"
  shows "(store_step (app_store a))\<^sup>*\<^sup>* s s'"
  using assms(1)
  by (auto simp: handleConfigGet_def split: prod.splits sum.splits intro: call_runs(6) [OF o])

lemma handleConfigUpdate_run:
  assumes "handleConfigUpdate a w rid r s = (reply, s')" and o: "others_ok (app_store a) w"
  shows "(store_step (app_store a))\<^sup>*\<^sup>* s s'"
  using assms(1)
  by (auto simp: handleConfigUpdate_def split: option.splits prod.splits sum.splits if_splits
      intro: call_runs(9) [OF o] dest: parseGeneration_pos)

lemmas handler_runs = handleReady_run handleAuthCheck_run handleTokensUpsert_run handleTokensList_run
  handleTokensDelete_run handleTokensRotate_run handleConfigGet_run handleConfigUpdate_run

lemma serve_mux_run:
  assumes "serve_mux a w rid r s = (reply, s')" and "others_ok (app_store a) w"
  shows "(store_step (app_store a))\<^sup>*\<^sup>* s s'"
  using assms
  by (auto simp: serve_mux_def Let_def requireAdmin_def requireGateway_def requireAdminOrGateway_def
      split: list.splits if_splits intro: handler_runs)

lemma middleware_served:
  assumes "middleware a w r s = (reply, s')"
  obtains (media) "hw_status reply = 415" "s' = s"
  | (served) rid reply1 where "serve_mux a w rid r s = (reply1, s')" "hw_status reply = hw_status reply1"
      "hw_body reply = hw_body reply1"
  using assms by (auto simp: middleware_def Let_def split: if_splits prod.splits)

lemma middleware_run:
  assumes "middleware a w r s = (reply, s')" and "others_ok (app_store a) w"
  shows "(store_step (app_store a))\<^sup>*\<^sup>* s s'"
  using assms(1) by (cases rule: middleware_served) (auto intro: serve_mux_run [OF _ assms(2)])

section \<open>Access\<close>

text \<open>
  What the credentials of a request permit: anybody may ask for the health of the service, the gateway
  may have credentials checked and read the configuration, the administrator may do everything.
\<close>

definition permitted :: "'s application \<Rightarrow> http_request \<Rightarrow> bool" where
  "permitted a r \<longleftrightarrow>
     hq_path r = [''health''] \<or> hq_path r = [''health'', ''ready''] \<or>
     (hq_header r ''X-Gateway-Token'' = app_gatewayToken a \<and>
      (hq_path r = [''auth'', ''check''] \<or> hq_path r = [''config''] \<and> is_get r)) \<or>
     (hq_header r ''Authorization'' = ''Bearer '' @ app_adminToken a \<and> hq_path r \<noteq> [''auth'', ''check''])"

lemma secureBearerEqual_iff:
  "expected \<noteq> [] \<Longrightarrow> secureBearerEqual header expected \<longleftrightarrow> header = ''Bearer '' @ expected"
  by (auto simp: secureBearerEqual_def HasPrefix_def) (metis append_take_drop_id append.simps(1,2))

lemma TrimSpace_Nil: "TrimSpace [] = []"
  by code_simp

lemma loaded_secrets:
  assumes "loadApplicationConfigFromEnv env = Inr config" and "ac_environment config \<noteq> ''development''"
  shows "ac_adminToken config \<noteq> [] \<and> ac_gatewayToken config \<noteq> [] \<and> ac_tokenPepper config \<noteq> []"
  using assms TrimSpace_Nil
  by (auto simp: loadApplicationConfigFromEnv_def Let_def split: if_splits)

lemma middleware_refuses:
  assumes "app_adminToken a \<noteq> []" "app_gatewayToken a \<noteq> []" and "\<not> permitted a r" and "middleware a w r s = (reply, s')"
  shows "s' = s \<and> hw_status reply \<in> {401, 404, 405, 415}"
proof -
  have "snd (serve_mux a w rid r s) = s \<and> hw_status (fst (serve_mux a w rid r s)) \<in> {401, 404, 405}" for rid
    using assms(1-3)
    by (auto simp: serve_mux_def Let_def requireAdmin_def requireGateway_def requireAdminOrGateway_def permitted_def
        secureBearerEqual_iff digestEqual_def split: list.splits)
  then have "s' = s \<and> hw_status reply1 \<in> {401, 404, 405}" if "serve_mux a w rid r s = (reply1, s')" for rid reply1
    using that by (metis fst_conv snd_conv)
  with assms(4) show ?thesis by (cases rule: middleware_served) auto
qed

text \<open>
  C13: Nobody gets past the control plane without credentials.  Outside development, start-up fails
  unless every secret is set; then a request whose credentials do not permit it leaves the store as it
  is and is answered 401, or 404, 405 or 415 when there is nothing it could have got: neither a missing
  header nor an empty one ever matches.
\<close>

theorem access_control:
  assumes "loadApplicationConfigFromEnv env = Inr config" and "ac_environment config \<noteq> ''development''"
    and "\<not> permitted (new_application store config env) r"
    and "middleware (new_application store config env) w r s = (reply, s')"
  shows "s' = s \<and> hw_status reply \<in> {401, 404, 405, 415}"
  using middleware_refuses [OF _ _ assms(3,4)] loaded_secrets [OF assms(1,2)] by (simp add: new_application_def)

definition staging_env :: environment where
  "staging_env name = (if name = ''APP_ENV'' then ''staging'' else ''secret'')"

definition staging_config :: applicationConfig where
  "staging_config = \<lparr>ac_environment = ''staging'', ac_adminToken = ''secret'', ac_gatewayToken = ''secret'',
     ac_tokenPepper = ''secret''\<rparr>"

definition staging_application :: "memoryStore application" where
  "staging_application = new_application memory_store staging_config staging_env"

definition quiet_surroundings :: "memoryStore surroundings" where
  "quiet_surroundings = \<lparr>sr_clock = (\<lambda>n. int n), sr_others = (\<lambda>_ s. s), sr_token_bytes = Some ''0123456789abcdef0123456789abcdef'',
     sr_request_bytes = Some ''0123456789ab'', sr_now_text = ''2026-01-01T00:00:00Z''\<rparr>"

definition delete_request :: http_request where
  "delete_request = \<lparr>hq_method = ''DELETE'', hq_path = [''tokens'', ''alice''], hq_header = (\<lambda>_. []),
     hq_media_type = None, hq_content_length = 0, hq_body = []\<rparr>"

lemma staging_config_loaded: "loadApplicationConfigFromEnv staging_env = Inr staging_config"
  by code_simp

theorem access_control_witness:
  "\<exists>reply. middleware staging_application quiet_surroundings delete_request newMemoryStore = (reply, newMemoryStore) \<and>
     hw_status reply \<in> {401, 404, 405, 415}"
proof -
  obtain reply s' where run: "middleware staging_application quiet_surroundings delete_request newMemoryStore = (reply, s')"
    by fastforce
  have "\<not> permitted staging_application delete_request"
    by (simp add: permitted_def delete_request_def staging_application_def new_application_def staging_config_def)
  with access_control [OF staging_config_loaded] run show ?thesis
    unfolding staging_application_def by (fastforce simp: staging_config_def)
qed

section \<open>No update is lost\<close>

lemma memory_started:
  assumes "(store_step memory_store)\<^sup>*\<^sup>* newMemoryStore s"
  shows "view_ok (memory_view s)" "memory_invar s"
proof -
  have "view_ok (memory_view newMemoryStore)" "memory_invar newMemoryStore"
    by (simp_all add: view_ok_def memory_view_def newMemoryStore_def memory_invar_def defaultRuntimeConfig_def)
  with assms show "view_ok (memory_view s)" "memory_invar s"
    by (blast intro: mem.run_view_ok mem.run_invar)+
qed

abbreviation read_update :: "string \<Rightarrow> http_request \<Rightarrow> http_reply + configUpdateRequest" where
  "read_update rid r \<equiv> decodeJSON rid configUpdateRequest_fields configUpdateRequest_zero (hq_body r)"

lemma handleConfigUpdate_done:
  assumes "handleConfigUpdate a w rid r s = (reply, s')" and "hw_status reply = 200"
  obtains e req c s1 where "parseGeneration (hq_header r ''If-Match'') = Some e" "read_update rid r = Inr req"
    "validateConfigUpdate req = None"
    "updateConfig (app_store a) e req (sr_clock w 0) s = (Inr c, s1)" "s' = sr_others w 0 s1"
    "hw_body reply = marshal (runtimeConfig_json c)"
proof -
  from assms(2) have no: "decodeJSON rid fs z body \<noteq> Inl reply" for fs :: "(string \<times> configUpdateRequest setter) list" and z body
    using decodeJSON_status [of rid fs z body reply] by auto
  from assms no show thesis
    by (auto simp: handleConfigUpdate_def split: option.splits prod.splits sum.splits if_splits
        elim!: call_result intro!: that) (simp_all add: writeJSON_def Let_def)
qed

lemma handleTokensRotate_done:
  assumes "handleTokensRotate a w rid r cid s = (reply, s')" and "hw_status reply = 200"
  obtains e token c s1 where "parseGeneration (hq_header r ''If-Match'') = Some e"
    "rotateToken (app_store a) cid e (token_digest (app_pepper a) token) (sr_now_text w) (sr_clock w 0) s = (Inr c, s1)"
    "s' = sr_others w 0 s1"
  using assms
  by (auto simp: handleTokensRotate_def split: option.splits prod.splits sum.splits if_splits elim!: call_result intro: that)

text \<open>The requests that swap: they name the version or the generation that they replace.\<close>

definition is_config_put :: "http_request \<Rightarrow> bool" where
  "is_config_put r \<longleftrightarrow> hq_method r = ''PUT'' \<and> hq_path r = [''config'']"

definition is_rotation :: "string \<Rightarrow> http_request \<Rightarrow> bool" where
  "is_rotation cid r \<longleftrightarrow> hq_method r = ''POST'' \<and> hq_path r = [''tokens'', cid, ''rotate''] \<and> cid \<noteq> []"

lemma config_put_done:
  assumes "middleware a w r s = (reply, s')" and "is_config_put r" and "hw_status reply = 200"
  obtains rid e req c s1 where "parseGeneration (hq_header r ''If-Match'') = Some e" "read_update rid r = Inr req"
    "validateConfigUpdate req = None" "updateConfig (app_store a) e req (sr_clock w 0) s = (Inr c, s1)" "s' = sr_others w 0 s1"
  using assms(1)
proof (cases rule: middleware_served)
  case media
  with assms(3) show thesis by simp
next
  case (served rid reply1)
  from served(1) assms(2) have "requireAdmin a rid r (handleConfigUpdate a w rid r) s = (reply1, s')"
    by (simp add: serve_mux_def is_config_put_def is_get_def)
  with assms(3) served(2) have "handleConfigUpdate a w rid r s = (reply1, s')"
    by (auto simp: requireAdmin_def split: if_splits)
  with assms(3) served(2) show thesis by (metis handleConfigUpdate_done that)
qed

lemma rotation_done:
  assumes "middleware a w r s = (reply, s')" and "is_rotation cid r" and "hw_status reply = 200"
  obtains e token c s1 where "parseGeneration (hq_header r ''If-Match'') = Some e"
    "rotateToken (app_store a) cid e (token_digest (app_pepper a) token) (sr_now_text w) (sr_clock w 0) s = (Inr c, s1)"
    "s' = sr_others w 0 s1"
  using assms(1)
proof (cases rule: middleware_served)
  case media
  with assms(3) show thesis by simp
next
  case (served rid reply1)
  from served(1) assms(2) have "requireAdmin a rid r (handleTokensRotate a w rid r cid) s = (reply1, s')"
    by (simp add: serve_mux_def is_rotation_def)
  with assms(3) served(2) have "handleTokensRotate a w rid r cid s = (reply1, s')"
    by (auto simp: requireAdmin_def split: if_splits)
  with assms(3) served(2) show thesis by (metis handleTokensRotate_done that)
qed

text \<open>
  C12: No update is lost.  Of all the requests that replace the configuration of one version, or rotate
  the token of one client at one generation, at most one is answered 200, whatever requests come
  between them and run in between their calls of the store.
\<close>

theorem swap_once:
  assumes "(store_step memory_store)\<^sup>*\<^sup>* newMemoryStore s" and "app_store a = memory_store"
    and "others_ok memory_store w" and "(store_step memory_store)\<^sup>*\<^sup>* s1 s2"
    and "is_config_put r \<and> is_config_put r' \<or> is_rotation cid r \<and> is_rotation cid r'"
    and "parseGeneration (hq_header r ''If-Match'') = parseGeneration (hq_header r' ''If-Match'')"
    and "middleware a w r s = (reply, s1)" and "hw_status reply = 200" and "middleware a w' r' s2 = (reply', s3)"
  shows "hw_status reply' \<noteq> 200"
proof
  assume again: "hw_status reply' = 200"
  note ok = memory_started(1) [OF assms(1)]
  have later: "(store_step memory_store)\<^sup>*\<^sup>* t s2" if "s1 = sr_others w 0 t" for t
    using that assms(3,4) by (metis others_ok_def rtranclp_trans)
  from assms(5) show False
  proof (elim disjE conjE)
    assume "is_config_put r" "is_config_put r'"
    from config_put_done [OF assms(7) this(1) assms(8)] obtain e req c t where
      1: "parseGeneration (hq_header r ''If-Match'') = Some e"
        "updateConfig memory_store e req (sr_clock w 0) s = (Inr c, t)" "s1 = sr_others w 0 t" using assms(2) by metis
    from config_put_done [OF assms(9) \<open>is_config_put r'\<close> again] obtain e' req' c' t' where
      2: "parseGeneration (hq_header r' ''If-Match'') = Some e'"
        "updateConfig memory_store e' req' (sr_clock w' 0) s2 = (Inr c', t')" using assms(2) by metis
    from mem.update_once [OF 1(2) parseGeneration_pos [OF 1(1)] ok later [OF 1(3)]] 1(1) 2 assms(6) show False by fastforce
  next
    assume "is_rotation cid r" "is_rotation cid r'"
    from rotation_done [OF assms(7) this(1) assms(8)] obtain e token c t where
      1: "parseGeneration (hq_header r ''If-Match'') = Some e"
        "rotateToken memory_store cid e (token_digest (app_pepper a) token) (sr_now_text w) (sr_clock w 0) s = (Inr c, t)"
        "s1 = sr_others w 0 t" using assms(2) by metis
    from rotation_done [OF assms(9) \<open>is_rotation cid r'\<close> again] obtain e' token' c' t' where
      2: "parseGeneration (hq_header r' ''If-Match'') = Some e'"
        "rotateToken memory_store cid e' (token_digest (app_pepper a) token') (sr_now_text w') (sr_clock w' 0) s2 = (Inr c', t')"
      using assms(2) by metis
    from mem.rotate_once [OF 1(2) parseGeneration_pos [OF 1(1)] ok later [OF 1(3)]] 1(1) 2 assms(6) show False by fastforce
  qed
qed

definition quoted :: "string \<Rightarrow> string" where
  "quoted s = CHR 0x22 # s @ [CHR 0x22]"

definition config_put :: http_request where
  "config_put = \<lparr>hq_method = ''PUT'', hq_path = [''config''],
     hq_header = (\<lambda>h. if h = ''If-Match'' then ''1'' else if h = ''Authorization'' then ''Bearer secret'' else []),
     hq_media_type = Some ''application/json'', hq_content_length = 1,
     hq_body = ''{'' @ quoted ''max_payload_size'' @ '':20,'' @ quoted ''max_connections_per_client'' @ '':4,'' @
       quoted ''max_requests_per_client_per_second'' @ '':50,'' @ quoted ''slow_client_output_limit'' @ '':60,'' @
       quoted ''log_level'' @ '':'' @ quoted ''warn'' @ ''}''\<rparr>"

lemma others_ok_quiet: "others_ok memory_store quiet_surroundings"
  by (simp add: others_ok_def quiet_surroundings_def)

definition put_config :: runtimeConfig where
  "put_config = \<lparr>cfg_Version = 2, cfg_MaxPayloadSize = 20, cfg_MaxConnectionsPerClient = 4,
     cfg_MaxRequestsPerClientPerSecond = 50, cfg_SlowClientOutputLimit = 60, cfg_LogLevel = ''WARN'',
     cfg_RequestQueueCapacityDisplay = 4096\<rparr>"

definition put_request :: configUpdateRequest where
  "put_request = \<lparr>cu_MaxPayloadSize = 20, cu_MaxConnectionsPerClient = 4, cu_MaxRequestsPerClientPerSecond = 50,
     cu_SlowClientOutputLimit = 60, cu_LogLevel = ''warn''\<rparr>"

lemma config_put_read: "read_update rid config_put = Inr put_request"
  by (rule decodeJSON_read [where rest = "[]" and v = "GoObject [(''max_payload_size'', GoNumber ''20''),
      (''max_connections_per_client'', GoNumber ''4''), (''max_requests_per_client_per_second'', GoNumber ''50''),
      (''slow_client_output_limit'', GoNumber ''60''), (''log_level'', GoString ''warn'')]"])
    (simp add: config_put_def quoted_def maxRequestBodyBytes_def, code_simp+)

lemma config_put_stored:
  "hw_status (fst (middleware staging_application quiet_surroundings config_put newMemoryStore)) = 200"
  "snd (middleware staging_application quiet_surroundings config_put newMemoryStore) = newMemoryStore\<lparr>mem_config := put_config\<rparr>"
proof -
  have "parseGeneration ''1'' = Some 1" "ToUpper ''warn'' = ''WARN''" by code_simp+
  then show "hw_status (fst (middleware staging_application quiet_surroundings config_put newMemoryStore)) = 200"
    "snd (middleware staging_application quiet_surroundings config_put newMemoryStore) = newMemoryStore\<lparr>mem_config := put_config\<rparr>"
    by (simp_all add: middleware_def serve_mux_def requireAdmin_def handleConfigUpdate_def staging_application_def config_put_def
        new_application_def staging_config_def call_def memory_updateConfig_def validateConfigUpdate_def secureBearerEqual_def
        HasPrefix_def newMemoryStore_def defaultRuntimeConfig_def is_get_def Let_def updated_config_def wrap64_def put_config_def
        config_put_read [unfolded config_put_def, simplified] put_request_def quiet_surroundings_def split: prod.splits)
qed

theorem swap_once_witness:
  "hw_status (fst (middleware staging_application quiet_surroundings config_put newMemoryStore)) = 200 \<and>
   hw_status (fst (middleware staging_application quiet_surroundings config_put
     (snd (middleware staging_application quiet_surroundings config_put newMemoryStore)))) \<noteq> 200"
proof -
  have "app_store staging_application = memory_store" "is_config_put config_put"
    by (simp_all add: staging_application_def new_application_def is_config_put_def config_put_def)
  with swap_once [OF rtranclp.rtrancl_refl _ others_ok_quiet rtranclp.rtrancl_refl _ refl prod.collapse [symmetric]
      config_put_stored(1) prod.collapse [symmetric]] config_put_stored(1) show ?thesis by blast
qed

section \<open>Whom the check lets in\<close>

lemma marshal_allowed: "marshal_string ''allowed'' = CHR 0x22 # ''allowed'' @ [CHR 0x22]"
  by code_simp

lemma auth_denied_not_allowed: "auth_denied code reason \<noteq> auth_allowed"
  by (simp add: writeJSON_def authCheckResponse_def marshal_allowed Let_def)

lemma unavailable_not_allowed: "writeAuthUnavailable rid \<noteq> auth_allowed"
  by (auto dest: arg_cong [of _ _ hw_status])

text \<open>
  C11: A check of credentials lets in only the holder of the current secret.  When it answers that a
  client is allowed, then at some moment during the check the client had a token that was not disabled
  and had the digest of the secret presented.  If the token is still of the generation that it had at an
  earlier time, it was not disabled then either and had the same digest: a disabled token lets nobody in
  until it is rotated, and a rotation ends the old secret.
\<close>

theorem credentials_current:
  assumes "(store_step memory_store)\<^sup>*\<^sup>* newMemoryStore s" and "vw_tokens (memory_view s) cid = Some t"
    and "(store_step memory_store)\<^sup>*\<^sup>* s s1" and "app_store a = memory_store" and "others_ok memory_store w"
    and "handleAuthCheck a w rid r s1 = (auth_allowed, s2)"
    and "read_credentials rid r = Inr \<lparr>ar_ClientID = cid, ar_Token = secret\<rparr>"
  shows "\<exists>s' t'. (store_step memory_store)\<^sup>*\<^sup>* s1 s' \<and> (store_step memory_store)\<^sup>*\<^sup>* s' s2 \<and>
    vw_tokens (memory_view s') cid = Some t' \<and> \<not> te_Disabled t' \<and> tr_Digest t' = token_digest (app_pepper a) secret \<and>
    (te_Generation t' = te_Generation t \<longrightarrow>
       \<not> te_Disabled t \<and> tr_Digest t = token_digest (app_pepper a) secret)"
  using assms(6)
proof (cases rule: handleAuthCheck_cases)
  case (allowed req s' s3 u)
  note o = assms(5) [folded assms(4)]
  from allowed(1) assms(7) have req: "req = \<lparr>ar_ClientID = cid, ar_Token = secret\<rparr>" by simp
  from allowed(4) [unfolded assms(4)] req obtain s4 where
    v: "verifyDigest memory_store cid (token_digest (app_pepper a) secret) (sr_clock w 1) s' = (Inr tokenAuthAllowed, s4)"
    by (auto elim!: call_result)
  from performs_same [OF mem.verifyDigest_spec [OF v]] mem.verifyDigest_spec [OF v] obtain t' where
    t': "vw_tokens (memory_view s') cid = Some t'" "\<not> te_Disabled t'" "tr_Digest t' = token_digest (app_pepper a) secret"
    by (auto simp: performs_def decision_of_def split: option.splits if_splits)
  have run: "(store_step memory_store)\<^sup>*\<^sup>* s1 s'" using call_runs(1) [OF o] allowed(3) assms(4) by metis
  moreover have "(store_step memory_store)\<^sup>*\<^sup>* s' s2"
    using call_runs(2) [OF o allowed(4)] call_runs(4) [OF o allowed(5)] assms(4) by simp
  moreover have "\<not> te_Disabled t \<and> tr_Digest t = token_digest (app_pepper a) secret" if "te_Generation t' = te_Generation t"
    using mem.run_token_fate [OF rtranclp_trans [OF assms(3) run] memory_started(1) [OF assms(1)] assms(2)] t' that
    by (auto simp: passed_def)
  ultimately show ?thesis using t' by blast
next
  case (unread)
  with assms(7) show ?thesis by simp
next
  case (refused req)
  from arg_cong [OF refused(3), of hw_status] show ?thesis by simp
next
  case (limited req b)
  from limited(5) show ?thesis
    by (simp add: auth_denied_not_allowed [symmetric] unavailable_not_allowed [symmetric] split: if_splits)
next
  case (failed req s1 e)
  from failed(5) show ?thesis by (simp add: unavailable_not_allowed [symmetric])
next
  case (denied req s1 d s2 n)
  from denied(7) show ?thesis
    by (simp add: auth_denied_not_allowed [symmetric] unavailable_not_allowed [symmetric] split: sum.splits if_splits)
qed

definition check_request :: http_request where
  "check_request = \<lparr>hq_method = ''POST'', hq_path = [''auth'', ''check''], hq_header = (\<lambda>_. ''secret''),
     hq_media_type = Some ''application/json'', hq_content_length = 1,
     hq_body = ''{'' @ quoted ''client_id'' @ '':'' @ quoted ''alice'' @ '','' @ quoted ''token'' @ '':'' @ quoted ''sesame'' @ ''}''\<rparr>"

definition alice :: tokenRecord where
  "alice = \<lparr>te_ClientID = ''alice'', te_Generation = 1, te_CreatedAt = [], te_UpdatedAt = [], te_Disabled = False,
     tr_Digest = token_digest ''secret'' ''sesame''\<rparr>"

definition alice_store :: memoryStore where
  "alice_store = newMemoryStore\<lparr>mem_tokens := [(''alice'', alice)]\<rparr>"

lemma alice_created: "(store_step memory_store)\<^sup>*\<^sup>* newMemoryStore alice_store"
  by (rule r_into_rtranclp, rule store_step.create [of memory_store alice 0])
    (simp_all add: memory_createToken_def newMemoryStore_def alice_store_def alice_def validTokenClientID_def)

lemma check_request_read: "read_credentials rid check_request = Inr \<lparr>ar_ClientID = ''alice'', ar_Token = ''sesame''\<rparr>"
  by (rule decodeJSON_read [where rest = "[]" and v = "GoObject [(''client_id'', GoString ''alice''), (''token'', GoString ''sesame'')]"])
    (simp add: check_request_def quoted_def maxRequestBodyBytes_def, code_simp+)

lemma alice_allowed:
  "handleAuthCheck staging_application quiet_surroundings rid check_request alice_store = (auth_allowed, alice_store)"
  by (simp add: handleAuthCheck_def check_request_read staging_application_def new_application_def call_def
      quiet_surroundings_def memory_calls alice_store_def alice_def newMemoryStore_def staging_config_def digestEqual_def)

theorem credentials_current_witness:
  "handleAuthCheck staging_application quiet_surroundings [] check_request alice_store = (auth_allowed, alice_store) \<and>
   (\<exists>s' t'. (store_step memory_store)\<^sup>*\<^sup>* alice_store s' \<and> (store_step memory_store)\<^sup>*\<^sup>* s' alice_store \<and>
      vw_tokens (memory_view s') ''alice'' = Some t' \<and> \<not> te_Disabled t' \<and> tr_Digest t' = token_digest ''secret'' ''sesame'')"
proof -
  have "vw_tokens (memory_view alice_store) ''alice'' = Some alice" by (simp add: memory_view_def alice_store_def)
  moreover have "app_store staging_application = memory_store" "app_pepper staging_application = ''secret''"
    by (simp_all add: staging_application_def new_application_def staging_config_def)
  ultimately show ?thesis
    using credentials_current [OF alice_created _ rtranclp.rtrancl_refl _ others_ok_quiet
        alice_allowed check_request_read] alice_allowed by fastforce
qed

end
