(* ===== verification/ControlLockout.thy ===== *)
theory ControlLockout
  imports ControlSafety
begin

text \<open>
  The limit on guesses: how the check of credentials counts the failures of a client, locks the client
  out for the rest of the window and lets it in again, while the requests of other clients run in
  between its calls of the store.
\<close>

text \<open>What others do in between leaves the client alone: its token and its counter.\<close>

definition leaves_alone :: "string \<Rightarrow> memoryStore surroundings \<Rightarrow> bool" where
  "leaves_alone cid w \<longleftrightarrow>
     (\<forall>n s. map_of (mem_tokens (sr_others w n s)) cid = map_of (mem_tokens s) cid \<and>
       map_of (mem_authFailures (sr_others w n s)) cid = map_of (mem_authFailures s) cid)"

text \<open>Checks one after the other, with their replies.\<close>

type_synonym attempt = "memoryStore surroundings \<times> string \<times> http_request"

fun attempts :: "memoryStore application \<Rightarrow> attempt list \<Rightarrow> memoryStore \<Rightarrow> http_reply list" where
  "attempts a [] s = []"
| "attempts a ((w, rid, r) # xs) s = (case handleAuthCheck a w rid r s of (reply, s') \<Rightarrow> reply # attempts a xs s')"

text \<open>The client has a token \<open>t\<close> or none, and its \<open>n\<close> failures count until the time \<open>ends\<close>.\<close>

definition failed_before :: "string \<Rightarrow> tokenRecord option \<Rightarrow> nat \<Rightarrow> time_point \<Rightarrow> memoryStore \<Rightarrow> bool" where
  "failed_before cid t n ends s \<longleftrightarrow> map_of (mem_tokens s) cid = t \<and>
     map_of (mem_authFailures s) cid = (if n = 0 then None else Some \<lparr>af_count = int n, af_expiresAt = ends\<rparr>)"

lemma failed_before_others: "leaves_alone cid w \<Longrightarrow> failed_before cid t n ends (sr_others w k s) = failed_before cid t n ends s"
  by (simp add: failed_before_def leaves_alone_def)

definition checks :: "string \<Rightarrow> string \<Rightarrow> attempt \<Rightarrow> bool" where
  "checks cid secret x \<longleftrightarrow> (case x of (w, rid, r) \<Rightarrow> leaves_alone cid w \<and> credentials_ok \<lparr>ar_ClientID = cid, ar_Token = secret\<rparr> \<and>
     read_credentials rid r = Inr \<lparr>ar_ClientID = cid, ar_Token = secret\<rparr>)"

definition within :: "time_point \<Rightarrow> attempt \<Rightarrow> bool" where
  "within ends x \<longleftrightarrow> (case x of (w, rid, r) \<Rightarrow> sr_clock w 0 < ends \<and> sr_clock w 2 < ends)"

text \<open>The reply to a wrong secret while there is no limit.\<close>

definition wrong_reply :: "tokenRecord option \<Rightarrow> http_reply" where
  "wrong_reply t =
     (case t of
        None \<Rightarrow> auth_denied ''INVALID_CREDENTIALS'' ''invalid token''
      | Some r \<Rightarrow> if te_Disabled r then auth_denied ''TOKEN_DISABLED'' ''token disabled''
                  else auth_denied ''INVALID_CREDENTIALS'' ''invalid token'')"

definition opens :: "tokenRecord option \<Rightarrow> string \<Rightarrow> string \<Rightarrow> bool" where
  "opens t pepper secret \<longleftrightarrow> (\<exists>r. t = Some r \<and> \<not> te_Disabled r \<and> tr_Digest r = token_digest pepper secret)"

abbreviation rate_limited :: http_reply where
  "rate_limited \<equiv> auth_denied ''RATE_LIMITED'' ''rate limited''"

lemma read_back:
  assumes "checks cid secret (w, rid, r)" and "app_store a = memory_store"
  shows "handleAuthCheck a w rid r s =
    (case call w 0 (memory_authFailureLimited cid (fp_limit (app_authFailures a))) s of
       (Inr False, s1) \<Rightarrow>
         (case call w 1 (memory_verifyDigest cid (token_digest (app_pepper a) secret)) s1 of
            (Inr decision, s2) \<Rightarrow>
              if decision \<noteq> tokenAuthAllowed then
                (case call w 2 (memory_recordAuthFailure cid (fp_window (app_authFailures a))) s2 of
                   (Inr n, s3) \<Rightarrow>
                     (if fp_limit (app_authFailures a) \<le> n then rate_limited
                      else if decision = tokenAuthDisabled then auth_denied ''TOKEN_DISABLED'' ''token disabled''
                      else auth_denied ''INVALID_CREDENTIALS'' ''invalid token'', s3)
                 | (Inl _, s3) \<Rightarrow> (writeAuthUnavailable rid, s3))
              else (case call w 2 (memory_clearAuthFailures cid) s2 of
                      (Inr _, s3) \<Rightarrow> (auth_allowed, s3)
                    | (Inl _, s3) \<Rightarrow> (writeAuthUnavailable rid, s3))
          | (Inl _, s2) \<Rightarrow> (writeAuthUnavailable rid, s2))
     | (Inr True, s1) \<Rightarrow> (rate_limited, s1)
     | (Inl _, s1) \<Rightarrow> (writeAuthUnavailable rid, s1))"
  using assms
  by (auto simp: checks_def handleAuthCheck_def credentials_ok_def Let_def split: prod.splits sum.splits bool.splits)

lemma wrong_attempt:
  assumes x: "checks cid secret (w, rid, r)" and a: "app_store a = memory_store"
    and "failed_before cid t n ends s" 
    and "if n = 0 then ends = sr_clock w 2 + fp_window (app_authFailures a) else within ends (w, rid, r)"
    and "int n < fp_limit (app_authFailures a)" and "int64_range (fp_limit (app_authFailures a))"
    and "\<not> opens t (app_pepper a) secret"
  obtains s' where "failed_before cid t (Suc n) ends s'"
    "handleAuthCheck a w rid r s =
       (if int (Suc n) < fp_limit (app_authFailures a) then wrong_reply t else rate_limited, s')"
proof -
  have w: "leaves_alone cid w" using x by (simp add: checks_def)
  from assms(3,4,5) have "call w 0 (memory_authFailureLimited cid (fp_limit (app_authFailures a))) s = (Inr False, sr_others w 0 s)"
    by (auto simp: call_def memory_authFailureLimited_def failed_before_def within_def split: if_splits)
  moreover define s1 where "s1 = sr_others w 0 s"
  moreover have 1: "failed_before cid t n ends s1" using assms(3) failed_before_others [OF w] s1_def by simp
  moreover define d where "d = (case t of None \<Rightarrow> tokenAuthInvalid | Some r \<Rightarrow> if te_Disabled r then tokenAuthDisabled else tokenAuthInvalid)"
  moreover have "call w 1 (memory_verifyDigest cid (token_digest (app_pepper a) secret)) s1 = (Inr d, sr_others w 1 s1)"
    using 1 assms(7) by (auto simp: call_def memory_verifyDigest_def failed_before_def opens_def digestEqual_def d_def split: option.splits)
  moreover define s2 where "s2 = sr_others w 1 s1"
  moreover have 2: "failed_before cid t n ends s2" using 1 failed_before_others [OF w] s2_def by simp
  moreover define s3 where "s3 = snd (call w 2 (memory_recordAuthFailure cid (fp_window (app_authFailures a))) s2)"
  moreover have wrap: "wrap64 (int n + 1) = int (Suc n)" using assms(5,6) wrap64_id [of "int n + 1"] by (auto simp: int64_range_def)
  moreover have "fst (call w 2 (memory_recordAuthFailure cid (fp_window (app_authFailures a))) s2) = Inr (int (Suc n))"
    using 2 assms(4) wrap
    by (auto simp: call_def memory_recordAuthFailure_def failed_before_def within_def Let_def split: option.splits if_splits)
  moreover have 3: "failed_before cid t (Suc n) ends s3"
    using 2 assms(4) wrap leaves_alone_def [of cid w] w unfolding s3_def
    by (auto simp: call_def memory_recordAuthFailure_def failed_before_def within_def Let_def update_map_of failed_before_others split: option.splits if_splits)
  ultimately show thesis
    by (intro that [OF 3]) (auto simp: read_back [OF x a] wrong_reply_def d_def prod_eq_iff split: prod.splits sum.splits option.splits)
qed

lemma limited_attempt:
  assumes x: "checks cid secret (w, rid, r)" and a: "app_store a = memory_store"
    and "failed_before cid t n ends s" and "0 < n" and "within ends (w, rid, r)" and "fp_limit (app_authFailures a) \<le> int n"
  obtains s' where "failed_before cid t n ends s'" "handleAuthCheck a w rid r s = (rate_limited, s')"
proof -
  have w: "leaves_alone cid w" using x by (simp add: checks_def)
  from assms(3-6) have "call w 0 (memory_authFailureLimited cid (fp_limit (app_authFailures a))) s = (Inr True, sr_others w 0 s)"
    by (auto simp: call_def memory_authFailureLimited_def failed_before_def within_def)
  with that [of "sr_others w 0 s"] assms(3) show thesis by (simp add: read_back [OF x a] failed_before_others [OF w])
qed

lemma released_attempt:
  assumes x: "checks cid secret (w, rid, r)" and a: "app_store a = memory_store"
    and "failed_before cid t n ends s" and "0 < n" and "ends \<le> sr_clock w 0" and "opens t (app_pepper a) secret"
  shows "fst (handleAuthCheck a w rid r s) = auth_allowed"
proof -
  have w: "leaves_alone cid w" using x by (simp add: checks_def)
  obtain s1 where "call w 0 (memory_authFailureLimited cid (fp_limit (app_authFailures a))) s = (Inr False, s1)"
      "map_of (mem_tokens s1) cid = t"
    using assms(3-5) w by (auto simp: call_def memory_authFailureLimited_def failed_before_def leaves_alone_def)
  then show ?thesis
    using assms(6)
    by (auto simp: read_back [OF x a] call_def memory_verifyDigest_def memory_clearAuthFailures_def opens_def digestEqual_def)
qed

lemma attempts_counted:
  assumes "list_all2 (checks cid) secrets xs" and a: "app_store a = memory_store"
    and "failed_before cid t n ends s" and "0 < n" and "list_all (within ends) xs"
    and range: "int64_range (fp_limit (app_authFailures a))"
    and "\<forall>secret\<in>set (take (nat (fp_limit (app_authFailures a) - int n)) secrets). \<not> opens t (app_pepper a) secret"
  shows "\<exists>s' m. 0 < m \<and> failed_before cid t m ends s' \<and> (\<forall>ys. attempts a (xs @ ys) s =
    map (\<lambda>i. if int (Suc (n + i)) < fp_limit (app_authFailures a) then wrong_reply t else rate_limited) [0..<length xs] @
    attempts a ys s')"
  using assms(1,3-5,7)
proof (induction secrets xs arbitrary: n s rule: list_all2_induct)
  case Nil
  then show ?case by auto
next
  case (Cons secret secrets x xs)
  obtain w rid r where x: "x = (w, rid, r)" by (cases x)
  let ?limit = "fp_limit (app_authFailures a)"
  have now: "checks cid secret (w, rid, r)" "within ends (w, rid, r)" using Cons.hyps(1) Cons.prems(3) x by simp_all
  obtain k s1 where "failed_before cid t k ends s1" "0 < k" "k = Suc n \<or> k = n \<and> ?limit \<le> int n"
    and h: "handleAuthCheck a w rid r s = (if int (Suc n) < ?limit then wrong_reply t else rate_limited, s1)"
  proof (cases "int n < ?limit")
    case True
    then have "nat (?limit - int n) = Suc (nat (?limit - int (Suc n)))" by simp
    with Cons.prems(4) have "\<not> opens t (app_pepper a) secret" by simp
    show thesis
      by (rule wrong_attempt [OF now(1) a Cons.prems(1) _ True range \<open>\<not> opens t (app_pepper a) secret\<close>])
        (use now(2) Cons.prems(2) that [of "Suc n"] in simp_all)
  next
    case False
    show thesis
      by (rule limited_attempt [OF now(1) a Cons.prems(1,2) now(2)]) (use False Cons.prems(2) that [of n] in simp_all)
  qed
  moreover have "\<forall>secret\<in>set (take (nat (?limit - int k)) secrets). \<not> opens t (app_pepper a) secret"
  proof (cases "?limit - int k \<le> 0")
    case False
    then have "k = Suc n" "nat (?limit - int n) = Suc (nat (?limit - int k))" using calculation(3) by auto
    with Cons.prems(4) show ?thesis by simp
  qed simp
  ultimately obtain s' m where r: "0 < m" "failed_before cid t m ends s'" "\<forall>ys. attempts a (xs @ ys) s1 =
      map (\<lambda>i. if int (Suc (k + i)) < ?limit then wrong_reply t else rate_limited) [0..<length xs] @ attempts a ys s'"
    using Cons.IH [of k s1] Cons.prems(3) by auto
  have "map (\<lambda>i. if int (Suc (k + i)) < ?limit then wrong_reply t else rate_limited) [0..<length xs] =
    map (\<lambda>i. if int (Suc (n + i)) < ?limit then wrong_reply t else rate_limited) [Suc 0..<Suc (length xs)]"
    using \<open>k = Suc n \<or> k = n \<and> ?limit \<le> int n\<close> unfolding map_Suc_upt [symmetric] by auto
  with r h show ?case unfolding x by (intro exI [of _ s'] exI [of _ m]) (simp add: upt_conv_Cons del: upt_Suc)
qed

lemma readPositiveEnv_pos: "0 < fallback \<Longrightarrow> int64_range fallback \<Longrightarrow> 0 < readPositiveEnv env name fallback \<and> int64_range (readPositiveEnv env name fallback)"
  by (auto simp: readPositiveEnv_def ParseInt_def Let_def split: option.splits if_splits)

lemma new_application_limit:
  assumes "a = new_application store config env"
  shows "0 < fp_limit (app_authFailures a)" "int64_range (fp_limit (app_authFailures a))"
  using readPositiveEnv_pos [of 5] by (simp_all add: assms new_application_def authFailurePolicyFromEnv_def int64_range_def)


definition guess :: attempt where
  "guess = (quiet_surroundings, [], check_request)"

definition late_guess :: attempt where
  "late_guess = (quiet_surroundings\<lparr>sr_clock := (\<lambda>n. 70000000000 + int n)\<rparr>, [], check_request)"


end
