(* ===== verification/JsonLexer.thy ===== *)
theory JsonLexer
  imports JsonNumber
begin

text \<open>
  The scanner of the JSON library: class \<^verbatim>\<open>lexer\<close> of \<^verbatim>\<open>include/nlohmann/json.hpp\<close>, reading from an
  \<^verbatim>\<open>iterator_input_adapter\<close> over a string.

  The state is the input not yet read, the character read last (\<^term>\<open>None\<close> for the end of the input),
  the mark that it is to be read again, the position, the raw text of the token for error messages,
  the buffer with the value of a string or the text of a number, and the value of a number.  The
  locale is the C locale, in which the decimal point is a full stop.
\<close>

section \<open>State\<close>

datatype token_type =
    uninitialized | literal_true | literal_false | literal_null | value_string | value_unsigned
  | value_integer | value_float | begin_array | begin_object | end_array | end_object
  | name_separator | value_separator | parse_error | end_of_input | literal_or_value

record position_t =
  ps_chars_read_total :: nat
  ps_chars_read_current_line :: nat
  ps_lines_read :: nat

record lexer =
  lx_input :: string
  lx_ignore_comments :: bool
  lx_current :: "char option"
  lx_next_unget :: bool
  lx_position :: position_t
  lx_token_string :: string
  lx_token_buffer :: string
  lx_value_integer :: int
  lx_value_unsigned :: nat
  lx_value_float :: double

definition lexer_new :: "string \<Rightarrow> bool \<Rightarrow> lexer" where
  "lexer_new input ignore_comments =
     \<lparr>lx_input = input, lx_ignore_comments = ignore_comments, lx_current = None, lx_next_unget = False,
      lx_position = \<lparr>ps_chars_read_total = 0, ps_chars_read_current_line = 0, ps_lines_read = 0\<rparr>,
      lx_token_string = [], lx_token_buffer = [], lx_value_integer = 0, lx_value_unsigned = 0, lx_value_float = 0\<rparr>"

section \<open>Input management\<close>

text \<open>\<^verbatim>\<open>iterator_input_adapter::get_character\<close>.\<close>

definition get_character :: "string \<Rightarrow> char option \<times> string" where
  "get_character input = (case input of [] \<Rightarrow> (None, []) | c # cs \<Rightarrow> (Some c, cs))"

definition lx_get :: "lexer \<Rightarrow> lexer" where
  "lx_get lx =
     (let p = (lx_position lx)\<lparr>ps_chars_read_total := ps_chars_read_total (lx_position lx) + 1,
                ps_chars_read_current_line := ps_chars_read_current_line (lx_position lx) + 1\<rparr>;
          lx1 = (if lx_next_unget lx then lx\<lparr>lx_next_unget := False\<rparr>
                 else case get_character (lx_input lx) of (c, rest) \<Rightarrow> lx\<lparr>lx_current := c, lx_input := rest\<rparr>);
          lx2 = (case lx_current lx1 of
                   None \<Rightarrow> lx1
                 | Some c \<Rightarrow> lx1\<lparr>lx_token_string := lx_token_string lx1 @ [c]\<rparr>);
          p1 = (if lx_current lx2 = Some LF
                then p\<lparr>ps_lines_read := ps_lines_read p + 1, ps_chars_read_current_line := 0\<rparr> else p)
      in lx2\<lparr>lx_position := p1\<rparr>)"

definition unget :: "lexer \<Rightarrow> lexer" where
  "unget lx =
     (let p = (lx_position lx)\<lparr>ps_chars_read_total := ps_chars_read_total (lx_position lx) - 1\<rparr>;
          p1 = (if ps_chars_read_current_line p = 0
                then (if ps_lines_read p > 0 then p\<lparr>ps_lines_read := ps_lines_read p - 1\<rparr> else p)
                else p\<lparr>ps_chars_read_current_line := ps_chars_read_current_line p - 1\<rparr>);
          lx1 = lx\<lparr>lx_next_unget := True, lx_position := p1\<rparr>
      in if lx_current lx1 \<noteq> None then lx1\<lparr>lx_token_string := butlast (lx_token_string lx1)\<rparr> else lx1)"

text \<open>The current character is the beginning of the token.\<close>

definition reset :: "lexer \<Rightarrow> lexer" where
  "reset lx =
     lx\<lparr>lx_token_buffer := [], lx_token_string := (case lx_current lx of None \<Rightarrow> [CHR 0xFF] | Some c \<Rightarrow> [c])\<rparr>"

definition add_byte :: "nat \<Rightarrow> lexer \<Rightarrow> lexer" where
  "add_byte b lx = lx\<lparr>lx_token_buffer := lx_token_buffer lx @ [char_of b]\<rparr>"

text \<open>The code of the current character, \<open>- 1\<close> at the end of the input.\<close>

definition current_code :: "lexer \<Rightarrow> int" where
  "current_code lx = (case lx_current lx of None \<Rightarrow> - 1 | Some c \<Rightarrow> int (of_char c))"

definition add_current :: "lexer \<Rightarrow> lexer" where
  "add_current lx = (case lx_current lx of None \<Rightarrow> lx | Some c \<Rightarrow> add_byte (of_char c) lx)"

abbreviation current_is :: "lexer \<Rightarrow> char \<Rightarrow> bool" where
  "current_is lx c \<equiv> lx_current lx = Some c"

text \<open>What is still to be read.\<close>

definition ahead :: "lexer \<Rightarrow> string" where
  "ahead lx =
     (if lx_next_unget lx then (case lx_current lx of None \<Rightarrow> lx_input lx | Some c \<Rightarrow> c # lx_input lx)
      else lx_input lx)"

section \<open>Strings\<close>

text \<open>The four hexadecimal digits after \<^verbatim>\<open>\u\<close>; \<^term>\<open>None\<close> is the code's \<open>- 1\<close>.\<close>

fun get_codepoint_from :: "nat list \<Rightarrow> nat \<Rightarrow> lexer \<Rightarrow> nat option \<times> lexer" where
  "get_codepoint_from [] codepoint lx = (Some codepoint, lx)"
| "get_codepoint_from (factor # factors) codepoint lx =
     (let lx1 = lx_get lx; c = current_code lx1 in
      if 0x30 \<le> c \<and> c \<le> 0x39 then get_codepoint_from factors (codepoint + push_bit factor (nat c - 0x30)) lx1
      else if 0x41 \<le> c \<and> c \<le> 0x46 then get_codepoint_from factors (codepoint + push_bit factor (nat c - 0x37)) lx1
      else if 0x61 \<le> c \<and> c \<le> 0x66 then get_codepoint_from factors (codepoint + push_bit factor (nat c - 0x57)) lx1
      else (None, lx1))"

definition get_codepoint :: "lexer \<Rightarrow> nat option \<times> lexer" where
  "get_codepoint lx = get_codepoint_from [12, 8, 4, 0] 0 lx"

fun next_bytes :: "(int \<times> int) list \<Rightarrow> lexer \<Rightarrow> bool \<times> lexer" where
  "next_bytes [] lx = (True, lx)"
| "next_bytes ((lower, upper) # ranges) lx =
     (let lx1 = lx_get lx in
      if lower \<le> current_code lx1 \<and> current_code lx1 \<le> upper then next_bytes ranges (add_current lx1)
      else (False, lx1))"

definition next_byte_in_range :: "(int \<times> int) list \<Rightarrow> lexer \<Rightarrow> bool \<times> lexer" where
  "next_byte_in_range ranges lx = next_bytes ranges (add_current lx)"

text \<open>The bytes of a code point.\<close>

definition add_codepoint :: "nat \<Rightarrow> lexer \<Rightarrow> lexer" where
  "add_codepoint codepoint lx =
     (if codepoint < 0x80 then add_byte codepoint lx
      else if codepoint \<le> 0x7FF then
        add_byte (or 0x80 (and codepoint 0x3F)) (add_byte (or 0xC0 (drop_bit 6 codepoint)) lx)
      else if codepoint \<le> 0xFFFF then
        add_byte (or 0x80 (and codepoint 0x3F))
          (add_byte (or 0x80 (and (drop_bit 6 codepoint) 0x3F)) (add_byte (or 0xE0 (drop_bit 12 codepoint)) lx))
      else
        add_byte (or 0x80 (and codepoint 0x3F))
          (add_byte (or 0x80 (and (drop_bit 6 codepoint) 0x3F))
            (add_byte (or 0x80 (and (drop_bit 12 codepoint) 0x3F)) (add_byte (or 0xF0 (drop_bit 18 codepoint)) lx))))"

text \<open>
  One unit of a string: the result is the token that ends the scan, or \<^term>\<open>None\<close> when the loop goes
  on.  First what follows a backslash and a \<^verbatim>\<open>u\<close>, then what follows a backslash.
\<close>

definition unicode_escape :: "lexer \<Rightarrow> token_type option \<times> lexer" where
  "unicode_escape lx =
     (case get_codepoint lx of
        (None, lx1) \<Rightarrow> (Some parse_error, lx1)
      | (Some codepoint1, lx1) \<Rightarrow>
          if 0xD800 \<le> codepoint1 \<and> codepoint1 \<le> 0xDBFF then
            let lx2 = lx_get lx1 in
            if \<not> current_is lx2 (CHR 0x5C) then (Some parse_error, lx2)
            else
              let lx3 = lx_get lx2 in
              if \<not> current_is lx3 (CHR ''u'') then (Some parse_error, lx3)
              else
                (case get_codepoint lx3 of
                   (None, lx4) \<Rightarrow> (Some parse_error, lx4)
                 | (Some codepoint2, lx4) \<Rightarrow>
                     if 0xDC00 \<le> codepoint2 \<and> codepoint2 \<le> 0xDFFF
                     then (None, add_codepoint (push_bit 10 codepoint1 + codepoint2 - 0x35FDC00) lx4)
                     else (Some parse_error, lx4))
          else if 0xDC00 \<le> codepoint1 \<and> codepoint1 \<le> 0xDFFF then (Some parse_error, lx1)
          else (None, add_codepoint codepoint1 lx1))"

definition string_escape :: "lexer \<Rightarrow> token_type option \<times> lexer" where
  "string_escape lx =
     (let lx1 = lx_get lx in
      case lx_current lx1 of
        None \<Rightarrow> (Some parse_error, lx1)
      | Some c \<Rightarrow>
          if c = CHR 0x22 then (None, add_byte 0x22 lx1)
          else if c = CHR 0x5C then (None, add_byte 0x5C lx1)
          else if c = CHR ''/'' then (None, add_byte 0x2F lx1)
          else if c = CHR ''b'' then (None, add_byte 0x08 lx1)
          else if c = CHR ''f'' then (None, add_byte 0x0C lx1)
          else if c = CHR ''n'' then (None, add_byte 0x0A lx1)
          else if c = CHR ''r'' then (None, add_byte 0x0D lx1)
          else if c = CHR ''t'' then (None, add_byte 0x09 lx1)
          else if c = CHR ''u'' then unicode_escape lx1
          else (Some parse_error, lx1))"

text \<open>The bytes that may follow the first byte of a UTF-8 sequence.\<close>

definition utf8_ranges :: "nat \<Rightarrow> (int \<times> int) list option" where
  "utf8_ranges b =
     (if 0xC2 \<le> b \<and> b \<le> 0xDF then Some [(0x80, 0xBF)]
      else if b = 0xE0 then Some [(0xA0, 0xBF), (0x80, 0xBF)]
      else if 0xE1 \<le> b \<and> b \<le> 0xEC \<or> b = 0xEE \<or> b = 0xEF then Some [(0x80, 0xBF), (0x80, 0xBF)]
      else if b = 0xED then Some [(0x80, 0x9F), (0x80, 0xBF)]
      else if b = 0xF0 then Some [(0x90, 0xBF), (0x80, 0xBF), (0x80, 0xBF)]
      else if 0xF1 \<le> b \<and> b \<le> 0xF3 then Some [(0x80, 0xBF), (0x80, 0xBF), (0x80, 0xBF)]
      else if b = 0xF4 then Some [(0x80, 0x8F), (0x80, 0xBF), (0x80, 0xBF)]
      else None)"

definition string_unit :: "lexer \<Rightarrow> token_type option \<times> lexer" where
  "string_unit lx =
     (let lx1 = lx_get lx in
      case lx_current lx1 of
        None \<Rightarrow> (Some parse_error, lx1)
      | Some c \<Rightarrow>
          if c = CHR 0x22 then (Some value_string, lx1)
          else if c = CHR 0x5C then string_escape lx1
          else if (of_char c :: nat) \<le> 0x1F then (Some parse_error, lx1)
          else if (of_char c :: nat) \<le> 0x7F then (None, add_current lx1)
          else
            (case utf8_ranges (of_char c) of
               None \<Rightarrow> (Some parse_error, lx1)
             | Some ranges \<Rightarrow>
                 (case next_byte_in_range ranges lx1 of
                    (True, lx2) \<Rightarrow> (None, lx2)
                  | (False, lx2) \<Rightarrow> (Some parse_error, lx2))))"

section \<open>How much is read\<close>

lemma lx_get_sels [simp]:
  "lx_token_buffer (lx_get lx) = lx_token_buffer lx" "lx_ignore_comments (lx_get lx) = lx_ignore_comments lx"
  "lx_next_unget (lx_get lx) = False" "ps_chars_read_total (lx_position (lx_get lx)) = Suc (ps_chars_read_total (lx_position lx))"
  by (simp_all add: lx_get_def Let_def split: option.split prod.split)

lemma lx_get_Some: "lx_current (lx_get lx) = Some c \<Longrightarrow> ahead lx = c # ahead (lx_get lx)"
  by (auto simp: ahead_def lx_get_def get_character_def Let_def split: option.splits list.splits if_splits)

lemma lx_get_le: "length (ahead (lx_get lx)) \<le> length (ahead lx)"
  by (auto simp: ahead_def lx_get_def get_character_def Let_def split: option.split list.split)

lemma lx_get_less: "lx_current (lx_get lx) = Some c \<Longrightarrow> length (ahead (lx_get lx)) < length (ahead lx)"
  using lx_get_Some [of lx c] by simp

lemma ahead_adds [simp]:
  "ahead (add_byte b lx) = ahead lx" "ahead (add_current lx) = ahead lx" "ahead (add_codepoint cp lx) = ahead lx"
  "ahead (reset lx) = ahead lx"
  by (simp_all add: ahead_def add_byte_def add_current_def add_codepoint_def reset_def split: option.split)

lemma get_codepoint_from_le: "get_codepoint_from fs cp lx = (r, lx') \<Longrightarrow> length (ahead lx') \<le> length (ahead lx)"
proof (induction fs cp lx rule: get_codepoint_from.induct)
  case (2 f fs cp lx)
  show ?case
    by (rule order_trans [OF _ lx_get_le [of lx]])
      (use 2 in \<open>auto simp: Let_def split: if_splits\<close>)
qed simp

lemma next_bytes_le: "next_bytes rs lx = (r, lx') \<Longrightarrow> length (ahead lx') \<le> length (ahead lx)"
proof (induction rs lx rule: next_bytes.induct)
  case (2 l u rs lx)
  show ?case
    by (rule order_trans [OF _ lx_get_le [of lx]])
      (use 2 in \<open>auto simp: Let_def split: if_splits\<close>)
qed simp

lemma get_codepoint_le: "get_codepoint lx = (r, lx') \<Longrightarrow> length (ahead lx') \<le> length (ahead lx)"
  by (simp add: get_codepoint_def get_codepoint_from_le del: get_codepoint_from.simps)

lemma unicode_escape_le: "unicode_escape lx = (r, lx') \<Longrightarrow> length (ahead lx') \<le> length (ahead lx)"
  unfolding unicode_escape_def Let_def
  by (auto split: prod.splits option.splits if_splits dest!: get_codepoint_le)
    (meson order_trans lx_get_le)+

lemma string_escape_le: "string_escape lx = (r, lx') \<Longrightarrow> length (ahead lx') \<le> length (ahead lx)"
  using lx_get_le [of lx]
  by (auto simp: string_escape_def Let_def split: option.splits if_splits dest!: unicode_escape_le)

lemma string_unit_less: "string_unit lx = (None, lx') \<Longrightarrow> length (ahead lx') < length (ahead lx)"
  using lx_get_less [of lx]
  by (fastforce simp: string_unit_def Let_def next_byte_in_range_def
      split: option.splits if_splits prod.splits bool.splits dest!: string_escape_le next_bytes_le)

lemma string_unit_le: "string_unit lx = (r, lx') \<Longrightarrow> length (ahead lx') \<le> length (ahead lx)"
  using lx_get_le [of lx]
  by (fastforce simp: string_unit_def Let_def next_byte_in_range_def
      split: option.splits if_splits prod.splits bool.splits dest!: string_escape_le next_bytes_le)

function scan_string_loop :: "lexer \<Rightarrow> token_type \<times> lexer" where
  "scan_string_loop lx =
     (case string_unit lx of (Some t, lx1) \<Rightarrow> (t, lx1) | (None, lx1) \<Rightarrow> scan_string_loop lx1)"
  by pat_completeness auto
termination
  by (relation "measure (\<lambda>lx. length (ahead lx))") (simp_all add: string_unit_less)

declare scan_string_loop.simps [simp del]

definition scan_string :: "lexer \<Rightarrow> token_type \<times> lexer" where
  "scan_string lx = scan_string_loop (reset lx)"


section \<open>Numbers\<close>

text \<open>The labels of the scanner of numbers, and what the code does at a label on the next character.\<close>

datatype number_state =
    scan_number_minus | scan_number_zero | scan_number_any1 | scan_number_decimal1 | scan_number_decimal2
  | scan_number_exponent | scan_number_sign | scan_number_any2

datatype number_action = NumberGoto number_state | NumberDone | NumberError

fun number_step :: "number_state \<Rightarrow> char option \<Rightarrow> number_action" where
  "number_step scan_number_minus (Some c) =
     (if c = CHR ''0'' then NumberGoto scan_number_zero
      else if is_digit c then NumberGoto scan_number_any1 else NumberError)"
| "number_step scan_number_zero (Some c) =
     (if c = CHR ''.'' then NumberGoto scan_number_decimal1
      else if c = CHR ''e'' \<or> c = CHR ''E'' then NumberGoto scan_number_exponent else NumberDone)"
| "number_step scan_number_any1 (Some c) =
     (if is_digit c then NumberGoto scan_number_any1
      else if c = CHR ''.'' then NumberGoto scan_number_decimal1
      else if c = CHR ''e'' \<or> c = CHR ''E'' then NumberGoto scan_number_exponent else NumberDone)"
| "number_step scan_number_decimal1 (Some c) =
     (if is_digit c then NumberGoto scan_number_decimal2 else NumberError)"
| "number_step scan_number_decimal2 (Some c) =
     (if is_digit c then NumberGoto scan_number_decimal2
      else if c = CHR ''e'' \<or> c = CHR ''E'' then NumberGoto scan_number_exponent else NumberDone)"
| "number_step scan_number_exponent (Some c) =
     (if c = CHR ''+'' \<or> c = CHR ''-'' then NumberGoto scan_number_sign
      else if is_digit c then NumberGoto scan_number_any2 else NumberError)"
| "number_step scan_number_sign (Some c) =
     (if is_digit c then NumberGoto scan_number_any2 else NumberError)"
| "number_step scan_number_any2 (Some c) =
     (if is_digit c then NumberGoto scan_number_any2 else NumberDone)"
| "number_step st None =
     (if st = scan_number_zero \<or> st = scan_number_any1 \<or> st = scan_number_decimal2 \<or> st = scan_number_any2
      then NumberDone else NumberError)"

text \<open>The type of the number is set again at three of the labels.\<close>

definition number_type_at :: "number_state \<Rightarrow> token_type \<Rightarrow> token_type" where
  "number_type_at st number_type =
     (if st = scan_number_minus then value_integer
      else if st = scan_number_decimal1 \<or> st = scan_number_exponent then value_float
      else number_type)"

lemma number_step_None: "number_step st None \<noteq> NumberGoto st'"
  by (cases st) simp_all

text \<open>The characters are added to the buffer as they are; \<^term>\<open>None\<close> is the return of a parse error.\<close>

function scan_number_from :: "number_state \<Rightarrow> token_type \<Rightarrow> lexer \<Rightarrow> token_type option \<times> lexer" where
  "scan_number_from st number_type lx =
     (let number_type1 = number_type_at st number_type; lx1 = lx_get lx in
      case number_step st (lx_current lx1) of
        NumberGoto st' \<Rightarrow> scan_number_from st' number_type1 (add_current lx1)
      | NumberDone \<Rightarrow> (Some number_type1, lx1)
      | NumberError \<Rightarrow> (None, lx1))"
  by pat_completeness auto
termination
proof (relation "measure (\<lambda>(st, ty, lx). length (ahead lx))")
  fix st ty lx st' ty1 lx1
  assume lx1: "lx1 = lx_get lx" and goto: "number_step st (lx_current lx1) = NumberGoto st'"
  then obtain c where "lx_current (lx_get lx) = Some c" 
    using number_step_None by (cases "lx_current (lx_get lx)") (simp_all del: number_step.simps)
  from lx_get_less [OF this] lx1
  show "((st', ty1, add_current lx1), st, ty, lx) \<in> measure (\<lambda>(st, ty, lx). length (ahead lx))" by simp
qed simp

declare scan_number_from.simps [simp del]

text \<open>
  The conversion: \<^verbatim>\<open>strtoull\<close> and \<^verbatim>\<open>strtoll\<close> fail on values out of range, and the number is then a
  double.
\<close>

definition number_token :: "token_type \<Rightarrow> lexer \<Rightarrow> token_type \<times> lexer" where
  "number_token number_type lx =
     (let text = lx_token_buffer lx in
      if number_type = value_unsigned \<and> digits_value text < 2 ^ 64
      then (value_unsigned, lx\<lparr>lx_value_unsigned := digits_value text\<rparr>)
      else if number_type = value_integer \<and> digits_value (tl text) \<le> 2 ^ 63
      then (value_integer, lx\<lparr>lx_value_integer := - int (digits_value (tl text))\<rparr>)
      else (value_float, lx\<lparr>lx_value_float := strtod text\<rparr>))"

definition scan_number :: "lexer \<Rightarrow> token_type \<times> lexer" where
  "scan_number lx =
     (let lx1 = add_current (reset lx);
          st = (if current_is lx (CHR ''-'') then scan_number_minus
                else if current_is lx (CHR ''0'') then scan_number_zero else scan_number_any1)
      in case scan_number_from st value_unsigned lx1 of
           (None, lx2) \<Rightarrow> (parse_error, lx2)
         | (Some number_type, lx2) \<Rightarrow> number_token number_type (unget lx2))"

section \<open>Literals, white space and comments\<close>

fun scan_literal :: "string \<Rightarrow> token_type \<Rightarrow> lexer \<Rightarrow> token_type \<times> lexer" where
  "scan_literal [] return_type lx = (return_type, lx)"
| "scan_literal (c # cs) return_type lx =
     (let lx1 = lx_get lx
      in if lx_current lx1 = Some c then scan_literal cs return_type lx1 else (parse_error, lx1))"

definition skip_bom :: "lexer \<Rightarrow> bool \<times> lexer" where
  "skip_bom lx =
     (let lx1 = lx_get lx in
      if current_is lx1 (CHR 0xEF) then
        let lx2 = lx_get lx1 in
        if current_is lx2 (CHR 0xBB) then let lx3 = lx_get lx2 in (current_is lx3 (CHR 0xBF), lx3)
        else (False, lx2)
      else (True, unget lx1))"

definition json_space :: "char option \<Rightarrow> bool" where
  "json_space c \<longleftrightarrow> c = Some (CHR '' '') \<or> c = Some TAB \<or> c = Some LF \<or> c = Some CR"

function skip_whitespace :: "lexer \<Rightarrow> lexer" where
  "skip_whitespace lx =
     (let lx1 = lx_get lx in if json_space (lx_current lx1) then skip_whitespace lx1 else lx1)"
  by pat_completeness auto
termination
  by (relation "measure (\<lambda>lx. length (ahead lx))") (auto simp: json_space_def lx_get_less)

declare skip_whitespace.simps [simp del]

definition comment_ends :: "char option \<Rightarrow> bool" where
  "comment_ends c \<longleftrightarrow> c = None \<or> c = Some (CHR 0x00)"

function comment_line :: "lexer \<Rightarrow> lexer" where
  "comment_line lx =
     (let lx1 = lx_get lx in
      if comment_ends (lx_current lx1) \<or> current_is lx1 LF \<or> current_is lx1 CR then lx1 else comment_line lx1)"
  by pat_completeness auto
termination
  by (relation "measure (\<lambda>lx. length (ahead lx))") (auto simp: comment_ends_def lx_get_less)

declare comment_line.simps [simp del]

lemma unget_sels [simp]:
  "lx_input (unget lx) = lx_input lx" "lx_current (unget lx) = lx_current lx" "lx_next_unget (unget lx)"
  "lx_token_buffer (unget lx) = lx_token_buffer lx" "lx_ignore_comments (unget lx) = lx_ignore_comments lx"
  by (simp_all add: unget_def Let_def)

lemma ahead_unget [simp]:
  "ahead (unget lx) = (case lx_current lx of None \<Rightarrow> lx_input lx | Some c \<Rightarrow> c # lx_input lx)"
  by (simp add: ahead_def split: option.split)

lemma ahead_input: "\<not> lx_next_unget lx \<Longrightarrow> lx_input lx = ahead lx"
  by (simp add: ahead_def)

lemma unget_get_le: "length (ahead (unget (lx_get lx))) \<le> length (ahead lx)"
  using lx_get_le [of lx] lx_get_Some [of lx]
  by (simp add: ahead_input split: option.split)

function comment_block :: "lexer \<Rightarrow> bool \<times> lexer" where
  "comment_block lx =
     (let lx1 = lx_get lx in
      if comment_ends (lx_current lx1) then (False, lx1)
      else if current_is lx1 (CHR ''*'') then
        let lx2 = lx_get lx1
        in if current_is lx2 (CHR ''/'') then (True, lx2) else comment_block (unget lx2)
      else comment_block lx1)"
  by pat_completeness auto
termination
proof (relation "measure (\<lambda>lx. length (ahead lx))")
  fix lx lx1 lx2 :: lexer
  assume "lx1 = lx_get lx" "\<not> comment_ends (lx_current lx1)" "lx2 = lx_get lx1"
  then show "(unget lx2, lx) \<in> measure (\<lambda>lx. length (ahead lx))"
    using unget_get_le [of lx1] lx_get_less [of lx]
    by (auto simp: comment_ends_def simp del: ahead_unget intro: le_less_trans)
qed (auto simp: comment_ends_def lx_get_less)

declare comment_block.simps [simp del]

definition scan_comment :: "lexer \<Rightarrow> bool \<times> lexer" where
  "scan_comment lx =
     (let lx1 = lx_get lx in
      if current_is lx1 (CHR ''/'') then (True, comment_line lx1)
      else if current_is lx1 (CHR ''*'') then comment_block lx1
      else (False, lx1))"

lemma skip_whitespace_le: "length (ahead (skip_whitespace lx)) \<le> length (ahead lx)"
  by (induction lx rule: skip_whitespace.induct)
    (subst skip_whitespace.simps, use lx_get_le in \<open>auto simp: Let_def intro: order_trans\<close>)

lemma skip_whitespace_less:
  "lx_current (skip_whitespace lx) = Some c \<Longrightarrow> length (ahead (skip_whitespace lx)) < length (ahead lx)"
proof (induction lx rule: skip_whitespace.induct)
  case (1 lx)
  have "length (ahead (skip_whitespace lx)) < length (ahead (lx_get lx))" if "json_space (lx_current (lx_get lx))"
    using that 1 by (simp add: skip_whitespace.simps [of lx] Let_def)
  with 1(2) lx_get_le [of lx] show ?case
    by (cases "json_space (lx_current (lx_get lx))")
      (auto simp: skip_whitespace.simps [of lx] Let_def lx_get_less)
qed

lemma comment_line_le: "length (ahead (comment_line lx)) \<le> length (ahead lx)"
  by (induction lx rule: comment_line.induct)
    (subst comment_line.simps, use lx_get_le in \<open>auto simp: Let_def intro: order_trans\<close>)

lemma comment_block_le: "comment_block lx = (b, lx') \<Longrightarrow> length (ahead lx') \<le> length (ahead lx)"
proof (induction lx rule: comment_block.induct)
  case (1 lx)
  have get: "length (ahead (lx_get lx)) \<le> length (ahead lx)" "length (ahead (lx_get (lx_get lx))) \<le> length (ahead lx)"
    "length (ahead (unget (lx_get (lx_get lx)))) \<le> length (ahead lx)"
    using lx_get_le [of lx] lx_get_le [of "lx_get lx"] unget_get_le [of "lx_get lx"] by simp_all
  from 1 get show ?case
    by (subst (asm) comment_block.simps [of lx])
      (auto simp: Let_def simp del: ahead_unget split: if_splits intro: order_trans)
qed

lemma scan_comment_le: "scan_comment lx = (b, lx') \<Longrightarrow> length (ahead lx') \<le> length (ahead lx)"
  using lx_get_le [of lx] comment_line_le [of "lx_get lx"]
  by (auto simp: scan_comment_def Let_def split: if_splits dest: comment_block_le)

lemma skip_comments_less:
  assumes "scan_comment lx = (True, lx1)" and "current_is lx c"
  shows "2 * length (ahead (skip_whitespace lx1)) + (if lx_current (skip_whitespace lx1) = None then 0 else 1) <
    2 * length (ahead lx) + (if lx_current lx = None then 0 else (1 :: nat))"
  using assms scan_comment_le [OF assms(1)] skip_whitespace_le [of lx1] skip_whitespace_less [of lx1]
  by (cases "lx_current (skip_whitespace lx1)") fastforce+

function skip_comments :: "lexer \<Rightarrow> bool \<times> lexer" where
  "skip_comments lx =
     (if lx_ignore_comments lx \<and> current_is lx (CHR ''/'') then
        (case scan_comment lx of
           (False, lx1) \<Rightarrow> (False, lx1)
         | (True, lx1) \<Rightarrow> skip_comments (skip_whitespace lx1))
      else (True, lx))"
  by pat_completeness auto
termination
  apply (relation "measure (\<lambda>lx. 2 * length (ahead lx) + (if lx_current lx = None then 0 else 1))")
   apply simp
  apply (unfold in_measure)
  apply (rule skip_comments_less [where c = "CHR ''/''"], simp_all)
  done

declare skip_comments.simps [simp del]

section \<open>The scanner\<close>

text \<open>The structural characters, the literals without their first character, and the token that begins
  with the current character.\<close>

definition structural_token :: "char \<Rightarrow> token_type option" where
  "structural_token c =
     (if c = CHR ''['' then Some begin_array else if c = CHR '']'' then Some end_array
      else if c = CHR ''{'' then Some begin_object else if c = CHR ''}'' then Some end_object
      else if c = CHR '':'' then Some name_separator else if c = CHR '','' then Some value_separator
      else None)"

definition literal_token :: "char \<Rightarrow> (string \<times> token_type) option" where
  "literal_token c =
     (if c = CHR ''t'' then Some (''rue'', literal_true)
      else if c = CHR ''f'' then Some (''alse'', literal_false)
      else if c = CHR ''n'' then Some (''ull'', literal_null) else None)"

definition scan_token :: "lexer \<Rightarrow> token_type \<times> lexer" where
  "scan_token lx =
     (case lx_current lx of
        None \<Rightarrow> (end_of_input, lx)
      | Some c \<Rightarrow>
          (case structural_token c of
             Some t \<Rightarrow> (t, lx)
           | None \<Rightarrow>
               (case literal_token c of
                  Some (cs, t) \<Rightarrow> scan_literal cs t lx
                | None \<Rightarrow>
                    if c = CHR 0x22 then scan_string lx
                    else if c = CHR ''-'' \<or> is_digit c then scan_number lx
                    else if c = CHR 0x00 then (end_of_input, lx)
                    else (parse_error, lx))))"

definition scan :: "lexer \<Rightarrow> token_type \<times> lexer" where
  "scan lx =
     (case (if ps_chars_read_total (lx_position lx) = 0 then skip_bom lx else (True, lx)) of
        (False, lx1) \<Rightarrow> (parse_error, lx1)
      | (True, lx1) \<Rightarrow>
          (case skip_comments (skip_whitespace lx1) of
             (False, lx2) \<Rightarrow> (parse_error, lx2)
           | (True, lx2) \<Rightarrow> scan_token lx2))"

section \<open>A token is at least one character\<close>

lemma scan_string_loop_le: "scan_string_loop lx = (t, lx') \<Longrightarrow> length (ahead lx') \<le> length (ahead lx)"
proof (induction lx rule: scan_string_loop.induct)
  case (1 lx)
  obtain r lx1 where u: "string_unit lx = (r, lx1)" by (rule prod.exhaust)
  with 1 string_unit_le [OF u] show ?case
    by (subst (asm) scan_string_loop.simps) (auto split: option.splits)
qed

lemma scan_number_from_le: "scan_number_from st ty lx = (r, lx') \<Longrightarrow> length (ahead (unget lx')) \<le> length (ahead lx)"
proof (induction st ty lx rule: scan_number_from.induct)
  case (1 st ty lx)
  have "length (ahead (add_current (lx_get lx))) \<le> length (ahead lx)" using lx_get_le by simp
  with 1 unget_get_le [of lx] show ?case
    by (subst (asm) scan_number_from.simps)
      (auto simp: Let_def simp del: ahead_adds ahead_unget split: number_action.splits intro: order_trans)
qed

lemma ahead_unget_le: "length (ahead lx) \<le> length (ahead (unget lx))"
  by (auto simp: ahead_def split: option.split)

lemma scan_number_le: "scan_number lx = (t, lx') \<Longrightarrow> length (ahead lx') \<le> length (ahead lx)"
proof -
  assume run: "scan_number lx = (t, lx')"
  have tok: "number_token ty l = (t, l') \<Longrightarrow> ahead l' = ahead l" for ty l l'
    by (auto simp: number_token_def ahead_def Let_def split: if_splits option.splits)
  obtain r lx2 where from': "scan_number_from
      (if current_is lx (CHR ''-'') then scan_number_minus
       else if current_is lx (CHR ''0'') then scan_number_zero else scan_number_any1)
      value_unsigned (add_current (reset lx)) = (r, lx2)" by (rule prod.exhaust)
  from scan_number_from_le [OF this] have "length (ahead (unget lx2)) \<le> length (ahead lx)" by (simp del: ahead_unget)
  with ahead_unget_le [of lx2] run from' show ?thesis
    by (auto simp: scan_number_def Let_def simp del: ahead_unget split: option.splits dest: tok)
qed

lemma scan_literal_le: "scan_literal cs ty lx = (t, lx') \<Longrightarrow> length (ahead lx') \<le> length (ahead lx)"
  by (induction cs ty lx rule: scan_literal.induct)
    (auto simp: Let_def split: if_splits intro: order_trans [OF _ lx_get_le] lx_get_le)

lemma scan_token_le: "scan_token lx = (t, lx') \<Longrightarrow> length (ahead lx') \<le> length (ahead lx)"
  by (auto simp: scan_token_def scan_string_def split: option.splits if_splits
      dest: scan_literal_le scan_number_le scan_string_loop_le)

lemma skip_comments_le: "skip_comments lx = (b, lx') \<Longrightarrow> length (ahead lx') \<le> length (ahead lx)"
proof (induction lx rule: skip_comments.induct)
  case (1 lx)
  obtain c lx1 where sc: "scan_comment lx = (c, lx1)" by (rule prod.exhaust)
  show ?case
  proof (cases "lx_ignore_comments lx \<and> current_is lx (CHR ''/'')")
    case cond: True
    show ?thesis
    proof (cases c)
      case True
      with cond sc 1(2) have "skip_comments (skip_whitespace lx1) = (b, lx')" by (simp add: skip_comments.simps [of lx])
      from 1(1) [OF cond sc [symmetric] _ this] True scan_comment_le [OF sc] skip_whitespace_le [of lx1]
      show ?thesis by simp
    next
      case False
      with cond sc 1(2) scan_comment_le [OF sc] show ?thesis by (simp add: skip_comments.simps [of lx])
    qed
  next
    case False
    with 1(2) show ?thesis by (simp add: skip_comments.simps [of lx])
  qed
qed

lemma skip_bom_le: "skip_bom lx = (b, lx') \<Longrightarrow> length (ahead lx') \<le> length (ahead lx)"
  using lx_get_le [of lx] lx_get_le [of "lx_get lx"] lx_get_le [of "lx_get (lx_get lx)"] unget_get_le [of lx]
  by (auto simp: skip_bom_def Let_def simp del: ahead_unget split: if_splits)

lemma scan_token_less:
  assumes "scan_token lx = (t, lx')" and "t \<noteq> end_of_input" and "t \<noteq> parse_error"
  shows "lx_current lx \<noteq> None"
  using assms by (cases "lx_current lx") (simp_all add: scan_token_def del: scan_literal.simps)

lemma scan_cases:
  assumes "scan lx = (t, lx')"
  obtains (bom) "t = parse_error" "length (ahead lx') \<le> length (ahead lx)"
  | (comment) lx1 where "t = parse_error" "length (ahead lx1) \<le> length (ahead lx)"
      "skip_comments (skip_whitespace lx1) = (False, lx')"
  | (token) lx1 lx2 where "length (ahead lx1) \<le> length (ahead lx)"
      "skip_comments (skip_whitespace lx1) = (True, lx2)" "scan_token lx2 = (t, lx')"
proof -
  obtain b lx1 where b: "(if ps_chars_read_total (lx_position lx) = 0 then skip_bom lx else (True, lx)) = (b, lx1)"
    by (rule prod.exhaust)
  have le: "length (ahead lx1) \<le> length (ahead lx)" using b by (auto split: if_splits dest: skip_bom_le)
  obtain b2 lx2 where c: "skip_comments (skip_whitespace lx1) = (b2, lx2)" by (rule prod.exhaust)
  show thesis
    using assms b c le bom comment token by (cases b; cases b2) (auto simp: scan_def)
qed

lemma skip_comments_current:
  "skip_comments lx = (True, lx') \<Longrightarrow> lx_current lx' \<noteq> None \<Longrightarrow> lx_current lx \<noteq> None"
  by (subst (asm) skip_comments.simps) (auto split: if_splits)

lemma scan_le: "scan lx = (t, lx') \<Longrightarrow> length (ahead lx') \<le> length (ahead lx)"
proof -
  assume "scan lx = (t, lx')"
  then show ?thesis
  proof (cases rule: scan_cases)
  case (comment lx1)
  with skip_comments_le [OF comment(3)] skip_whitespace_le [of lx1] show ?thesis by simp
next
  case (token lx1 lx2)
  with skip_comments_le [OF token(2)] skip_whitespace_le [of lx1] scan_token_le [OF token(3)] show ?thesis by simp
  qed simp
qed

lemma scan_less:
  assumes "scan lx = (t, lx')" and "t \<noteq> end_of_input" and "t \<noteq> parse_error"
  shows "length (ahead lx') < length (ahead lx)"
  using assms(1)
proof (cases rule: scan_cases)
  case (token lx1 lx2)
  from scan_token_less [OF token(3) assms(2,3)] have "lx_current lx2 \<noteq> None" .
  with skip_comments_current [OF token(2)] skip_comments_le [OF token(2)] skip_whitespace_less [of lx1]
    skip_whitespace_le [of lx1]
  have "length (ahead lx2) < length (ahead lx1)" by fastforce
  with token(1) scan_token_le [OF token(3)] show ?thesis by simp
qed (use assms in simp_all)

end
