(* ===== verification/JsonParser.thy ===== *)
theory JsonParser
  imports Json JsonLexer
begin

text \<open>
  The parser of the JSON library: class \<^verbatim>\<open>parser\<close> of \<^verbatim>\<open>include/nlohmann/json.hpp\<close> with the handler
  \<^verbatim>\<open>json_sax_dom_parser\<close> that builds the value, as \<^verbatim>\<open>json::parse\<close> calls them on a string.

  The handler fills containers in place through a stack of pointers.  Here the stack holds the open
  containers themselves, innermost first; a container is put into the one around it when it is closed,
  at the place the code has kept for it since it was opened.
\<close>

section \<open>Building the value\<close>

text \<open>\<^verbatim>\<open>std::map::operator[]\<close> followed by an assignment.\<close>

fun obj_set :: "string \<Rightarrow> json \<Rightarrow> (string \<times> json) list \<Rightarrow> (string \<times> json) list" where
  "obj_set k v [] = [(k, v)]"
| "obj_set k v ((k', v') # rest) =
     (if k = k' then (k', v) # rest
      else if k < k' then (k, v) # (k', v') # rest
      else (k', v') # obj_set k v rest)"

text \<open>
  An open array with its elements; an open object with its members and the key whose element is to
  come (\<^verbatim>\<open>object_element\<close>).
\<close>

datatype container = OpenArray "json list" | OpenObject "(string \<times> json) list" string

record json_sax_dom_parser =
  sdp_root :: json
  sdp_ref_stack :: "container list"

definition dom_new :: json_sax_dom_parser where
  "dom_new = \<lparr>sdp_root = JNull, sdp_ref_stack = []\<rparr>"

definition handle_value :: "json \<Rightarrow> json_sax_dom_parser \<Rightarrow> json_sax_dom_parser" where
  "handle_value v sdp =
     (case sdp_ref_stack sdp of
        [] \<Rightarrow> sdp\<lparr>sdp_root := v\<rparr>
      | OpenArray xs # rest \<Rightarrow> sdp\<lparr>sdp_ref_stack := OpenArray (xs @ [v]) # rest\<rparr>
      | OpenObject kvs k # rest \<Rightarrow> sdp\<lparr>sdp_ref_stack := OpenObject (obj_set k v kvs) k # rest\<rparr>)"

definition start_object :: "json_sax_dom_parser \<Rightarrow> json_sax_dom_parser" where
  "start_object sdp = sdp\<lparr>sdp_ref_stack := OpenObject [] [] # sdp_ref_stack sdp\<rparr>"

definition start_array :: "json_sax_dom_parser \<Rightarrow> json_sax_dom_parser" where
  "start_array sdp = sdp\<lparr>sdp_ref_stack := OpenArray [] # sdp_ref_stack sdp\<rparr>"

text \<open>A null is put at the key; the assertions exclude the other cases.\<close>

definition sax_key :: "string \<Rightarrow> json_sax_dom_parser \<Rightarrow> json_sax_dom_parser" where
  "sax_key k sdp =
     (case sdp_ref_stack sdp of
        OpenObject kvs _ # rest \<Rightarrow> sdp\<lparr>sdp_ref_stack := OpenObject (obj_emplace k JNull kvs) k # rest\<rparr>
      | _ \<Rightarrow> sdp)"

definition sax_end :: "json_sax_dom_parser \<Rightarrow> json_sax_dom_parser" where
  "sax_end sdp =
     (case sdp_ref_stack sdp of
        [] \<Rightarrow> sdp
      | OpenArray xs # rest \<Rightarrow> handle_value (JArray xs) (sdp\<lparr>sdp_ref_stack := rest\<rparr>)
      | OpenObject kvs _ # rest \<Rightarrow> handle_value (JObject kvs) (sdp\<lparr>sdp_ref_stack := rest\<rparr>))"

section \<open>Parsing\<close>

text \<open>
  The loop of \<^verbatim>\<open>sax_parse_internal\<close>.  Its state is the stack of open containers (true for an array),
  the flag that a value has just been completed, the last token, the scanner and the handler.  Every
  error of the scanner and of the grammar is the exception \<^verbatim>\<open>parse_error\<close>, a number out of the range of
  a double is \<^verbatim>\<open>out_of_range\<close> 406.

  The value a token stands for, if it does:
\<close>

definition token_value :: "token_type \<Rightarrow> lexer \<Rightarrow> (cpp_exn + json) option" where
  "token_value t lx =
     (if t = value_float then
        Some (if isfinite (lx_value_float lx) then Inr (JFloat (lx_value_float lx)) else Inl (JsonOutOfRange 406))
      else if t = literal_false then Some (Inr (JBool False))
      else if t = literal_null then Some (Inr JNull)
      else if t = literal_true then Some (Inr (JBool True))
      else if t = value_integer then Some (Inr (JInteger (lx_value_integer lx)))
      else if t = value_string then Some (Inr (JString (lx_token_buffer lx)))
      else if t = value_unsigned then Some (Inr (JUnsigned (lx_value_unsigned lx)))
      else None)"

text \<open>
  A key with its separator, when the token before the key has been read: the scanner after the token
  that follows the separator, and the handler.
\<close>

definition parse_key :: "token_type \<Rightarrow> lexer \<Rightarrow> json_sax_dom_parser \<Rightarrow>
    cpp_exn + token_type \<times> lexer \<times> json_sax_dom_parser" where
  "parse_key t lx sdp =
     (if t \<noteq> value_string then Inl JsonParseError
      else
        let sdp1 = sax_key (lx_token_buffer lx) sdp in
        case scan lx of
          (t1, lx1) \<Rightarrow>
            if t1 \<noteq> name_separator then Inl JsonParseError
            else case scan lx1 of (t2, lx2) \<Rightarrow> Inr (t2, lx2, sdp1))"

text \<open>
  One iteration of the loop: an exception, the end, or the state of the next iteration.
\<close>

datatype parser_step =
    ParserThrow cpp_exn
  | ParserDone lexer json_sax_dom_parser
  | ParserNext "bool list" bool token_type lexer json_sax_dom_parser

text \<open>After a value: what is expected depends on the innermost open container.\<close>

definition after_value :: "bool list \<Rightarrow> lexer \<Rightarrow> json_sax_dom_parser \<Rightarrow> parser_step" where
  "after_value states lx sdp =
     (case states of
        [] \<Rightarrow> ParserDone lx sdp
      | True # outer \<Rightarrow>
          (case scan lx of
             (t, lx1) \<Rightarrow>
               if t = value_separator then case scan lx1 of (t1, lx2) \<Rightarrow> ParserNext states False t1 lx2 sdp
               else if t = end_array then ParserNext outer True t lx1 (sax_end sdp)
               else ParserThrow JsonParseError)
      | False # outer \<Rightarrow>
          (case scan lx of
             (t, lx1) \<Rightarrow>
               if t = value_separator then
                 (case scan lx1 of
                    (t1, lx2) \<Rightarrow>
                      (case parse_key t1 lx2 sdp of
                         Inl e \<Rightarrow> ParserThrow e
                       | Inr (t2, lx3, sdp1) \<Rightarrow> ParserNext states False t2 lx3 sdp1))
               else if t = end_object then ParserNext outer True t lx1 (sax_end sdp)
               else ParserThrow JsonParseError))"

definition parser_iteration ::
  "bool list \<Rightarrow> bool \<Rightarrow> token_type \<Rightarrow> lexer \<Rightarrow> json_sax_dom_parser \<Rightarrow> parser_step" where
  "parser_iteration states skip last_token lx sdp =
     (if skip then after_value states lx sdp
      else if last_token = begin_object then
        (case scan lx of
           (t, lx1) \<Rightarrow>
             if t = end_object then after_value states lx1 (sax_end (start_object sdp))
             else
               (case parse_key t lx1 (start_object sdp) of
                  Inl e \<Rightarrow> ParserThrow e
                | Inr (t1, lx2, sdp1) \<Rightarrow> ParserNext (False # states) False t1 lx2 sdp1))
      else if last_token = begin_array then
        (case scan lx of
           (t, lx1) \<Rightarrow>
             if t = end_array then after_value states lx1 (sax_end (start_array sdp))
             else ParserNext (True # states) False t lx1 (start_array sdp))
      else
        (case token_value last_token lx of
           None \<Rightarrow> ParserThrow JsonParseError
         | Some (Inl e) \<Rightarrow> ParserThrow e
         | Some (Inr v) \<Rightarrow> after_value states lx (handle_value v sdp)))"

text \<open>Every iteration that is followed by another one has read a token, or leaves one that ends the loop.\<close>

definition token_rank :: "token_type \<Rightarrow> nat" where
  "token_rank t = (if t = end_of_input \<or> t = parse_error then 0 else 1)"

lemma token_rank_simps [simp]:
  "token_rank value_string = 1" "token_rank begin_array = 1" "token_rank begin_object = 1"
  "token_rank value_separator = 1" "token_rank name_separator = 1" "token_rank end_array = 1" "token_rank end_object = 1"
  by (simp_all add: token_rank_def)

lemma token_rank_le: "token_rank t \<le> 1"
  by (simp add: token_rank_def)

lemma scan_rank: "scan lx = (t, lx') \<Longrightarrow> length (ahead lx') + token_rank t \<le> length (ahead lx)"
  using scan_le [of lx t lx'] scan_less [of lx t lx'] by (auto simp: token_rank_def)

lemma parse_key_rank:
  "parse_key t lx sdp = Inr (t', lx', sdp') \<Longrightarrow>
     t = value_string \<and> length (ahead lx') + token_rank t' + 1 \<le> length (ahead lx)"
  by (auto simp: parse_key_def Let_def split: if_splits prod.splits dest!: scan_rank)

lemma after_value_rank:
  "after_value states lx sdp = ParserNext states' skip' t' lx' sdp' \<Longrightarrow> length (ahead lx') + 1 \<le> length (ahead lx)"
  by (auto simp: after_value_def split: list.splits bool.splits prod.splits if_splits sum.splits
      dest!: scan_rank parse_key_rank)

lemma parser_iteration_rank:
  assumes "parser_iteration states skip t lx sdp = ParserNext states' skip' t' lx' sdp'"
  shows "2 * length (ahead lx') + token_rank t' < 2 * length (ahead lx) + token_rank t"
  using assms token_rank_le [of t']
  by (auto simp: parser_iteration_def split: if_splits prod.splits sum.splits option.splits
      dest!: scan_rank parse_key_rank after_value_rank)

function sax_parse_internal ::
  "bool list \<Rightarrow> bool \<Rightarrow> token_type \<Rightarrow> lexer \<Rightarrow> json_sax_dom_parser \<Rightarrow> cpp_exn + lexer \<times> json_sax_dom_parser" where
  "sax_parse_internal states skip last_token lx sdp =
     (case parser_iteration states skip last_token lx sdp of
        ParserThrow e \<Rightarrow> Inl e
      | ParserDone lx1 sdp1 \<Rightarrow> Inr (lx1, sdp1)
      | ParserNext states1 skip1 t1 lx1 sdp1 \<Rightarrow> sax_parse_internal states1 skip1 t1 lx1 sdp1)"
  by pat_completeness auto
termination
  by (relation "measure (\<lambda>(states, skip, t, lx, sdp). 2 * length (ahead lx) + token_rank t)")
    (simp_all add: parser_iteration_rank)

declare sax_parse_internal.simps [simp del]

text \<open>
  \<^verbatim>\<open>json::parse\<close>: the constructor of the parser reads the first token, and after the value nothing but
  the end of the input may follow.
\<close>

definition json_parse :: json_parser where
  "json_parse text =
     (case scan (lexer_new text False) of
        (t, lx) \<Rightarrow>
          (case sax_parse_internal [] False t lx dom_new of
             Inl e \<Rightarrow> Inl e
           | Inr (lx1, sdp) \<Rightarrow>
               (case scan lx1 of
                  (t1, lx2) \<Rightarrow> if t1 \<noteq> end_of_input then Inl JsonParseError else Inr (sdp_root sdp))))"

end
