(* ===== verification/JsonStrings.thy ===== *)
theory JsonStrings
  imports JsonParser
begin

text \<open>
  What the scanner of the JSON library reads of a text, and the strings: the text that the UTF-8
  automaton of the serialiser (\<^verbatim>\<open>dump_escaped\<close>) accepts and escapes is the text that \<^verbatim>\<open>scan_string\<close>
  reads back, byte for byte.
\<close>

section \<open>Reading characters\<close>

definition reads :: "lexer \<Rightarrow> string \<Rightarrow> bool" where
  "reads lx t \<longleftrightarrow> ahead lx = t \<and> \<not> lx_ignore_comments lx \<and>
     (lx_next_unget lx \<longrightarrow> lx_current lx = None \<longrightarrow> lx_input lx = [])"

definition started :: "lexer \<Rightarrow> bool" where
  "started lx \<longleftrightarrow> 0 < ps_chars_read_total (lx_position lx)"

lemma reads_Cons:
  assumes "reads lx (c # t)"
  shows "lx_current (lx_get lx) = Some c" "reads (lx_get lx) t" "started (lx_get lx)"
proof -
  show c: "lx_current (lx_get lx) = Some c"
    using assms
    by (auto simp: reads_def ahead_def lx_get_def get_character_def Let_def split: option.splits list.splits if_splits)
  with assms lx_get_Some [OF c] show "reads (lx_get lx) t" by (simp add: reads_def)
  show "started (lx_get lx)" by (simp add: started_def)
qed

lemma reads_Nil:
  assumes "reads lx []"
  shows "lx_current (lx_get lx) = None" "reads (lx_get lx) []" "started (lx_get lx)"
  using assms
  by (auto simp: reads_def started_def ahead_def lx_get_def get_character_def Let_def split: option.splits list.splits if_splits)

lemma reads_adds [simp]:
  "reads (add_byte b lx) t = reads lx t" "reads (add_current lx) t = reads lx t" "reads (reset lx) t = reads lx t"
  "started (add_byte b lx) = started lx" "started (add_current lx) = started lx" "started (reset lx) = started lx"
  by (simp_all add: reads_def started_def add_byte_def add_current_def reset_def ahead_def split: option.split)

lemma reads_unget:
  assumes "lx_current (lx_get lx) = Some c" and "reads lx t"
  shows "reads (unget (lx_get lx)) t"
  using lx_get_Some [OF assms(1)] assms by (simp add: reads_def ahead_input)

section \<open>UTF-8\<close>

lemma utf8_codepoint_first:
  assumes "b < 256"
  shows "unat (snd (utf8_decode 0 cp b)) = b AND (0xFF div 2 ^ utf8_class b)"
proof -
  have "unat (drop_bit (utf8_class b) (0xFF :: u32)) = drop_bit (utf8_class b) (unat (0xFF :: u32))"
    by (rule unat_drop_bit_eq)
  also have "\<dots> = 0xFF div 2 ^ utf8_class b" by (simp add: drop_bit_eq_div)
  finally have "unat (drop_bit (utf8_class b) (0xFF :: u32)) = 0xFF div 2 ^ utf8_class b" .
  moreover have "unat (word_of_nat b :: u32) = b" using assms by (simp add: unat_of_nat)
  ultimately show ?thesis by (simp add: utf8_decode_def Let_def unsigned_and_eq and.commute)
qed

lemma utf8_codepoint_next:
  assumes "b < 256" and "unat cp < 2 ^ 26" and "st \<noteq> 0"
  shows "unat (snd (utf8_decode st cp b)) = 64 * unat cp + b mod 64"
proof -
  have p: "unat (push_bit 6 cp) = push_bit 6 (unat cp)"
    using assms(2) by (simp add: push_bit_eq_mult unat_word_ariths(2))
  have b: "unat (and (word_of_nat b :: u32) 0x3F) = take_bit 6 b"
    using assms(1) by (simp add: unsigned_and_eq unat_of_nat take_bit_eq_mask mask_eq_exp_minus_1)
  have "or (take_bit 6 b) (push_bit 6 (unat cp)) = take_bit 6 b + push_bit 6 (unat cp)"
    by (rule disjunctive_add [symmetric]) (auto simp: bit_take_bit_iff bit_push_bit_iff)
  with assms(3) p b show ?thesis
    by (simp add: utf8_decode_def Let_def unsigned_or_eq push_bit_eq_mult take_bit_eq_mod)
qed

text \<open>What the states of the automaton wait for.\<close>

definition follow :: "nat \<Rightarrow> (int \<times> int) list" where
  "follow st =
     (if st = 2 then [(0x80, 0xBF)]
      else if st = 3 then [(0x80, 0xBF), (0x80, 0xBF)]
      else if st = 4 then [(0xA0, 0xBF), (0x80, 0xBF)]
      else if st = 5 then [(0x80, 0x9F), (0x80, 0xBF)]
      else if st = 6 then [(0x90, 0xBF), (0x80, 0xBF), (0x80, 0xBF)]
      else if st = 7 then [(0x80, 0xBF), (0x80, 0xBF), (0x80, 0xBF)]
      else [(0x80, 0x8F), (0x80, 0xBF), (0x80, 0xBF)])"

definition follow_next :: "nat \<Rightarrow> nat" where
  "follow_next st = (if st = 2 then 0 else if st \<le> 5 then 2 else 3)"

definition follow_classes :: "nat \<Rightarrow> nat list" where
  "follow_classes st =
     (if st = 4 then [7] else if st = 5 then [1, 9] else if st = 6 then [7, 9] else if st = 8 then [1] else [1, 7, 9])"

lemma utf8_next_table:
  "list_all (\<lambda>st. list_all (\<lambda>cl. utf8_next ! (st * 16 + cl) =
      (if cl \<in> set (follow_classes st) then follow_next st else 1)) [0, 1, 2, 3, 4, 5, 6, 7, 8, 9, 10, 11])
    [2, 3, 4, 5, 6, 7, 8]"
  by code_simp

lemma utf8_class_less: "utf8_class b \<in> set [0, 1, 2, 3, 4, 5, 6, 7, 8, 9, 10, 11]"
  by (simp add: utf8_class_def)

lemma utf8_class_ranges:
  "utf8_class b = Suc 0 \<longleftrightarrow> 0x80 \<le> b \<and> b < 0x90" "utf8_class b = 9 \<longleftrightarrow> 0x90 \<le> b \<and> b < 0xA0"
  "utf8_class b = 7 \<longleftrightarrow> 0xA0 \<le> b \<and> b < 0xC0"
  by (simp_all add: utf8_class_def)

lemma utf8_next_follow:
  assumes "2 \<le> st" "st \<le> 8"
  shows "fst (utf8_decode st cp b) =
    (if fst (hd (follow st)) \<le> int b \<and> int b \<le> snd (hd (follow st)) then follow_next st else 1)"
proof -
  have st: "st \<in> set [2, 3, 4, 5, 6, 7, 8]" using assms by auto
  have "fst (utf8_decode st cp b) = (if utf8_class b \<in> set (follow_classes st) then follow_next st else 1)"
    using utf8_next_table st utf8_class_less [of b] unfolding list_all_iff by (simp only: utf8_decode_def Let_def fst_conv)
  moreover have "utf8_class b \<in> set (follow_classes st) \<longleftrightarrow> fst (hd (follow st)) \<le> int b \<and> int b \<le> snd (hd (follow st))"
    using st by (auto simp: follow_classes_def follow_def utf8_class_ranges)
  ultimately show ?thesis by simp
qed

text \<open>The bytes that end a code point, copied by the serialiser because the code point is not ASCII.\<close>

definition continues :: "char list \<Rightarrow> (int \<times> int) list \<Rightarrow> bool" where
  "continues bs ranges \<longleftrightarrow> list_all2 (\<lambda>b (lower, upper). lower \<le> int (of_char b) \<and> int (of_char b) \<le> upper) bs ranges"

lemma continues_Cons [simp]:
  "continues (c # bs) (r # rs) \<longleftrightarrow> fst r \<le> int (of_char c) \<and> int (of_char c) \<le> snd r \<and> continues bs rs"
  "continues [] []"
  by (auto simp: continues_def split: prod.split)

lemma dump_step:
  assumes "dump_escaped_from st cp cs = Inr t" and "2 \<le> st" "st \<le> 8"
  shows "\<exists>c cs' cp' t'. cs = c # cs' \<and> cp' = snd (utf8_decode st cp (of_char c)) \<and>
    fst (hd (follow st)) \<le> int (of_char c) \<and> int (of_char c) \<le> snd (hd (follow st)) \<and>
    dump_escaped_from (follow_next st) cp' cs' = Inr t' \<and>
    t = (if follow_next st = 0 then escape_codepoint cp' c else [c]) @ t'"
proof (cases cs)
  case Nil
  with assms show ?thesis by simp
next
  case (Cons c cs')
  let ?d = "utf8_decode st cp (of_char c)"
  from assms(1) Cons have "fst ?d \<noteq> 1"
    and "\<exists>t'. dump_escaped_from (fst ?d) (snd ?d) cs' = Inr t' \<and>
      t = (if fst ?d = 0 then escape_codepoint (snd ?d) c else [c]) @ t'"
    by (auto simp: case_prod_beta split: if_splits sum.splits)
  with utf8_next_follow [OF assms(2,3), of cp "of_char c"] Cons show ?thesis by (auto split: if_splits)
qed

lemma continuation_bits: "128 \<le> n \<Longrightarrow> n < 192 \<Longrightarrow> n mod 64 = n - (128 :: nat)"
  by (rule mod_nat_eqI) simp_all

lemma escape_not_ascii: "128 \<le> unat cp \<Longrightarrow> escape_codepoint cp c = [c]"
  by (auto simp: escape_codepoint_def word_le_nat_alt)

definition copied :: "(int \<times> int) list \<Rightarrow> string \<Rightarrow> string \<Rightarrow> bool" where
  "copied ranges cs t \<longleftrightarrow> (\<exists>bs cs' cp' t'. cs = bs @ cs' \<and> continues bs ranges \<and>
     dump_escaped_from 0 cp' cs' = Inr t' \<and> t = bs @ t')"

lemma copied_last:
  "fst r \<le> int (of_char c) \<Longrightarrow> int (of_char c) \<le> snd r \<Longrightarrow> dump_escaped_from 0 cp' cs = Inr t \<Longrightarrow>
     copied [r] (c # cs) (c # t)"
  unfolding copied_def
  by (rule exI [of _ "[c]"], rule exI [of _ cs], rule exI [of _ cp'], rule exI [of _ t]) simp

lemma copied_Cons:
  assumes "fst r \<le> int (of_char c)" "int (of_char c) \<le> snd r" and "copied rs cs t"
  shows "copied (r # rs) (c # cs) (c # t)"
proof -
  from assms(3) obtain bs cs' cp' t' where *: "cs = bs @ cs'" "continues bs rs"
    "dump_escaped_from 0 cp' cs' = Inr t'" "t = bs @ t'" by (auto simp: copied_def)
  show ?thesis
    unfolding copied_def
    by (rule exI [of _ "c # bs"], rule exI [of _ cs'], rule exI [of _ cp'], rule exI [of _ t']) (simp add: * assms)
qed

lemma dump_last:
  assumes "dump_escaped_from 2 cp cs = Inr t" and "2 \<le> unat cp" "unat cp < 2 ^ 26"
  shows "copied (follow 2) cs t"
proof -
  obtain c cs' cp' t' where *: "cs = c # cs'" "cp' = snd (utf8_decode 2 cp (of_char c))"
    "0x80 \<le> int (of_char c)" "int (of_char c) \<le> 0xBF" "dump_escaped_from 0 cp' cs' = Inr t'"
    "t = escape_codepoint cp' c @ t'"
    using dump_step [OF assms(1)] by (auto simp: follow_def follow_next_def)
  from utf8_codepoint_next [OF _ assms(3), of "of_char c" 2] assms(2) *(2) have "128 \<le> unat cp'" by simp
  with * show ?thesis by (auto simp: escape_not_ascii follow_def intro: copied_last)
qed

lemma dump_middle:
  assumes "dump_escaped_from st cp cs = Inr t" and "st \<in> {3, 4, 5}"
    and "st \<noteq> 4 \<longrightarrow> 1 \<le> unat cp" and "unat cp < 2 ^ 16"
  shows "copied (follow st) cs t"
proof -
  have st: "2 \<le> st" "st \<le> 8" "follow_next st = 2" using assms(2) by (auto simp: follow_next_def)
  obtain c cs1 cp1 t1 where 1: "cs = c # cs1"
    "cp1 = snd (utf8_decode st cp (of_char c))" "fst (hd (follow st)) \<le> int (of_char c)"
    "int (of_char c) \<le> snd (hd (follow st))" "dump_escaped_from 2 cp1 cs1 = Inr t1" "t = [c] @ t1"
    using dump_step [OF assms(1) st(1,2)] st(3) by auto
  have cp1: "unat cp1 = 64 * unat cp + of_char c mod 64"
    using utf8_codepoint_next [of "of_char c" cp st] assms(4) st 1(2) by simp
  have "2 \<le> unat cp1"
  proof (cases "st = 4")
    case True
    with 1(3,4) have "160 \<le> (of_char c :: nat)" "(of_char c :: nat) < 192" by (simp_all add: follow_def)
    with continuation_bits [of "of_char c"] have "32 \<le> (of_char c :: nat) mod 64" by simp
    with cp1 show ?thesis by linarith
  next
    case False
    with assms(3) cp1 show ?thesis by linarith
  qed
  moreover have "unat cp1 < 2 ^ 26" using cp1 assms(4) by simp
  ultimately have "copied (follow 2) cs1 t1" using dump_last [OF 1(5)] by blast
  moreover have "follow st = hd (follow st) # follow 2" using assms(2) by (auto simp: follow_def)
  ultimately show ?thesis using 1(1,6) copied_Cons [OF 1(3,4)] by (metis append_Cons append_Nil)
qed

lemma dump_long:
  assumes "dump_escaped_from st cp cs = Inr t" and "st \<in> {6, 7, 8}"
    and "st \<noteq> 6 \<longrightarrow> 1 \<le> unat cp" and "unat cp < 2 ^ 8"
  shows "copied (follow st) cs t"
proof -
  have st: "2 \<le> st" "st \<le> 8" "follow_next st = 3" using assms(2) by (auto simp: follow_next_def)
  obtain c cs1 cp1 t1 where 1: "cs = c # cs1"
    "cp1 = snd (utf8_decode st cp (of_char c))" "fst (hd (follow st)) \<le> int (of_char c)"
    "int (of_char c) \<le> snd (hd (follow st))" "dump_escaped_from 3 cp1 cs1 = Inr t1" "t = [c] @ t1"
    using dump_step [OF assms(1) st(1,2)] st(3) by auto
  have cp1: "unat cp1 = 64 * unat cp + of_char c mod 64"
    using utf8_codepoint_next [of "of_char c" cp st] assms(4) st 1(2) by simp
  have "1 \<le> unat cp1"
  proof (cases "st = 6")
    case True
    with 1(3,4) have "144 \<le> (of_char c :: nat)" "(of_char c :: nat) < 192" by (simp_all add: follow_def)
    with continuation_bits [of "of_char c"] have "16 \<le> (of_char c :: nat) mod 64" by simp
    with cp1 show ?thesis by linarith
  next
    case False
    with assms(3) cp1 show ?thesis by linarith
  qed
  moreover have "unat cp1 < 2 ^ 16" using cp1 assms(4) by simp
  ultimately have "copied (follow 3) cs1 t1" using dump_middle [OF 1(5)] by blast
  moreover have "follow st = hd (follow st) # follow 3" using assms(2) by (auto simp: follow_def)
  ultimately show ?thesis using 1(1,6) copied_Cons [OF 1(3,4)] by (metis append_Cons append_Nil)
qed


text \<open>The first byte of a code point.\<close>

lemma utf8_codepoint_mod:
  assumes "b < 256"
  shows "unat (snd (utf8_decode 0 cp b)) = (if utf8_class b \<le> 8 then b mod 2 ^ (8 - utf8_class b) else 0)"
proof -
  have mask: "n AND (2 ^ m - 1) = n mod 2 ^ m" for n m :: nat
    by (simp add: take_bit_eq_mask mask_eq_exp_minus_1 flip: take_bit_eq_mod)
  have "(0xFF :: nat) div 2 ^ k = (if k \<le> 8 then 2 ^ (8 - k) - 1 else 0)" if "k \<in> set [0, 1, 2, 3, 4, 5, 6, 7, 8, 9, 10, 11]"
    for k using that by auto
  with utf8_class_less utf8_codepoint_first [OF assms, of cp] mask show ?thesis by simp
qed

lemma utf8_first_state:
  "fst (utf8_decode 0 cp b) = [0, 1, 2, 3, 5, 8, 7, 1, 1, 1, 4, 6] ! utf8_class b"
  using utf8_class_less [of b] by (auto simp: utf8_decode_def Let_def utf8_next_def)

lemma dump_first:
  assumes run: "dump_escaped_from 0 cp (c # cs) = Inr t"
  obtains (ascii) cp' t' where "(of_char c :: nat) < 128" "unat cp' = of_char c"
      "dump_escaped_from 0 cp' cs = Inr t'" "t = escape_codepoint cp' c @ t'"
  | (more) ranges bs cs' cp' t' where "(128 :: nat) \<le> of_char c" "utf8_ranges (of_char c) = Some ranges" "cs = bs @ cs'"
      "continues bs ranges" "dump_escaped_from 0 cp' cs' = Inr t'" "t = c # bs @ t'"
proof -
  let ?b = "of_char c :: nat" and ?d = "utf8_decode 0 cp (of_char c)"
  from run have nr: "fst ?d \<noteq> 1"
    and "\<exists>t'. dump_escaped_from (fst ?d) (snd ?d) cs = Inr t' \<and>
      t = (if fst ?d = 0 then escape_codepoint (snd ?d) c else [c]) @ t'"
    by (auto simp: case_prod_beta split: if_splits sum.splits)
  then obtain t' where t': "dump_escaped_from (fst ?d) (snd ?d) cs = Inr t'"
    "t = (if fst ?d = 0 then escape_codepoint (snd ?d) c else [c]) @ t'" by blast
  have d: "fst ?d = [0, 1, 2, 3, 5, 8, 7, 1, 1, 1, 4, 6] ! utf8_class ?b"
    "unat (snd ?d) = (if utf8_class ?b \<le> 8 then ?b mod 2 ^ (8 - utf8_class ?b) else 0)"
    using utf8_first_state [of cp ?b] utf8_codepoint_mod [of ?b cp] by simp_all
  show thesis
  proof (cases "?b < 128")
    case True
    then have "utf8_class ?b = 0" by (simp add: utf8_class_def)
    with True d t' show thesis by (intro ascii [of "snd ?d" t']) simp_all
  next
    case False
    then have hi: "128 \<le> ?b" "?b < 256" by simp_all
    from nr d(1) hi have "0xC2 \<le> ?b \<and> ?b \<le> 0xF4" by (auto simp: utf8_class_def split: if_splits)
    then consider "0xC2 \<le> ?b" "?b \<le> 0xDF" | "?b = 0xE0" | "?b = 0xED" | "0xE1 \<le> ?b" "?b \<le> 0xEF" "?b \<noteq> 0xED"
      | "?b = 0xF0" | "0xF1 \<le> ?b" "?b \<le> 0xF3" | "?b = 0xF4" by linarith
    then have "copied (follow (fst ?d)) cs t' \<and> utf8_ranges ?b = Some (follow (fst ?d)) \<and> fst ?d \<noteq> 0"
    proof cases
      case 1
      have "?b mod 64 = ?b - 192" using 1 by (intro mod_nat_eqI) simp_all
      with 1 d have *: "fst ?d = 2" "2 \<le> unat (snd ?d)" "unat (snd ?d) < 2 ^ 26" by (simp_all add: utf8_class_def)
      from dump_last [OF t'(1) [unfolded *(1)] *(2,3)] * 1 show ?thesis by (simp add: utf8_ranges_def follow_def)
    next
      case 2
      with d have *: "fst ?d = 4" "unat (snd ?d) < 2 ^ 16" by (simp_all add: utf8_class_def)
      from dump_middle [OF t'(1) [unfolded *(1)] _ _ *(2)] * 2 show ?thesis by (simp add: utf8_ranges_def follow_def)
    next
      case 3
      with d have *: "fst ?d = 5" "unat (snd ?d) = 13" by (simp_all add: utf8_class_def)
      from dump_middle [OF t'(1) [unfolded *(1)]] * 3 show ?thesis by (simp add: utf8_ranges_def follow_def)
    next
      case 4
      have "?b mod 32 = ?b - 224" using 4 by (intro mod_nat_eqI) simp_all
      with 4 d have *: "fst ?d = 3" "1 \<le> unat (snd ?d)" "unat (snd ?d) < 2 ^ 16" by (simp_all add: utf8_class_def)
      from dump_middle [OF t'(1) [unfolded *(1)] _ _ *(3)] * 4 show ?thesis by (simp add: utf8_ranges_def follow_def) linarith
    next
      case 5
      with d have *: "fst ?d = 6" "unat (snd ?d) < 2 ^ 8" by (simp_all add: utf8_class_def)
      from dump_long [OF t'(1) [unfolded *(1)] _ _ *(2)] * 5 show ?thesis by (simp add: utf8_ranges_def follow_def)
    next
      case 6
      have "?b mod 4 = ?b - 240" using 6 by (intro mod_nat_eqI) simp_all
      with 6 d have *: "fst ?d = 7" "1 \<le> unat (snd ?d)" "unat (snd ?d) < 2 ^ 8" by (simp_all add: utf8_class_def)
      from dump_long [OF t'(1) [unfolded *(1)] _ _ *(3)] * 6 show ?thesis by (simp add: utf8_ranges_def follow_def)
    next
      case 7
      with d have *: "fst ?d = 8" "unat (snd ?d) = 4" by (simp_all add: utf8_class_def)
      from dump_long [OF t'(1) [unfolded *(1)]] * 7 show ?thesis by (simp add: utf8_ranges_def follow_def)
    qed
    with t'(2) hi more show thesis by (auto simp: copied_def)
  qed
qed


section \<open>Strings\<close>

lemma current_code_Some [simp]: "lx_current lx = Some c \<Longrightarrow> current_code lx = int (of_char c)"
  by (simp add: current_code_def)

lemma buffer_adds [simp]:
  "lx_token_buffer (add_byte b lx) = lx_token_buffer lx @ [char_of b]"
  "lx_current (add_byte b lx) = lx_current lx" "lx_current (add_current lx) = lx_current lx"
  "lx_current lx = Some c \<Longrightarrow> lx_token_buffer (add_current lx) = lx_token_buffer lx @ [c]"
  by (simp_all add: add_byte_def add_current_def split: option.split)

lemma next_bytes_continues:
  "continues bs ranges \<Longrightarrow> reads lx (bs @ t) \<Longrightarrow>
     \<exists>lx'. next_bytes ranges lx = (True, lx') \<and> reads lx' t \<and> lx_token_buffer lx' = lx_token_buffer lx @ bs"
proof (induction bs arbitrary: ranges lx)
  case Nil
  then show ?case by (simp add: continues_def)
next
  case (Cons c bs)
  then obtain l u rs where r: "ranges = (l, u) # rs" "l \<le> int (of_char c)" "int (of_char c) \<le> u" "continues bs rs"
    by (auto simp: continues_def list_all2_Cons1)
  from Cons(3) have g: "lx_current (lx_get lx) = Some c" "reads (lx_get lx) (bs @ t)" by (simp_all add: reads_Cons)
  then show ?case using Cons.IH [OF r(4), of "add_current (lx_get lx)"] r by (auto simp: Let_def)
qed

lemma hex_digit_code: "d < 16 \<Longrightarrow> (of_char (hex_digit d) :: nat) = (if d < 10 then 48 + d else 87 + d)"
  by (simp add: hex_digit_def)

lemma get_codepoint_digit:
  assumes "reads lx (hex_digit d # t)" and "d < 16"
  shows "get_codepoint_from (f # fs) cp lx = get_codepoint_from fs (cp + push_bit f d) (lx_get lx)"
  using reads_Cons(1) [OF assms(1)] assms(2) by (simp add: Let_def hex_digit_code nat_add_distrib)

lemma get_codepoint_reads:
  assumes "reads lx (hex_digit 0 # hex_digit 0 # hex_digit (n div 16) # hex_digit (n mod 16) # t)" and "n < 256"
  shows "\<exists>lx'. get_codepoint lx = (Some n, lx') \<and> reads lx' t \<and> lx_token_buffer lx' = lx_token_buffer lx"
proof -
  note r1 = reads_Cons(2) [OF assms(1)]
  note r2 = reads_Cons(2) [OF r1]
  note r3 = reads_Cons(2) [OF r2]
  have "n div 16 < 16" using assms(2) by auto
  then have "get_codepoint lx = (Some n, lx_get (lx_get (lx_get (lx_get lx))))"
    unfolding get_codepoint_def
    by (simp only: get_codepoint_digit [OF assms(1)] get_codepoint_digit [OF r1] get_codepoint_digit [OF r2]
        get_codepoint_digit [OF r3] get_codepoint_from.simps(1)) (simp add: push_bit_eq_mult)
  with reads_Cons(2) [OF r3] show ?thesis by simp
qed

lemma hex_digit_zero: "hex_digit 0 = CHR ''0''"
  by code_simp

text \<open>The text of an ASCII character, by the character.\<close>

lemma escape_ascii:
  assumes "unat cp = of_char c"
  shows "escape_codepoint cp c =
    (if c = CHR 0x08 then [CHR 0x5C, CHR ''b''] else if c = CHR 0x09 then [CHR 0x5C, CHR ''t'']
     else if c = CHR 0x0A then [CHR 0x5C, CHR ''n''] else if c = CHR 0x0C then [CHR 0x5C, CHR ''f'']
     else if c = CHR 0x0D then [CHR 0x5C, CHR ''r''] else if c = CHR 0x22 then [CHR 0x5C, CHR 0x22]
     else if c = CHR 0x5C then [CHR 0x5C, CHR 0x5C]
     else if of_char c \<le> (0x1F :: nat)
       then CHR 0x5C # CHR ''u'' # map hex_digit [0, 0, of_char c div 16, of_char c mod 16]
     else [c])"
proof -
  have eq: "cp = of_nat (of_char d) \<longleftrightarrow> c = d" for d
  proof -
    have "of_char d mod 4294967296 = (of_char d :: nat)"
      by (rule mod_less) (rule less_le_trans [of _ 256], simp_all)
    then show ?thesis using assms by (simp add: word_unat_eq_iff unat_of_nat)
  qed
  have le: "cp \<le> 0x1F \<longleftrightarrow> of_char c \<le> (0x1F :: nat)" using assms by (simp add: word_le_nat_alt)
  show ?thesis
    using eq [of "CHR 0x08"] eq [of "CHR 0x09"] eq [of "CHR 0x0A"] eq [of "CHR 0x0C"] eq [of "CHR 0x0D"]
      eq [of "CHR 0x22"] eq [of "CHR 0x5C"] le assms
    by (simp add: escape_codepoint_def hex_digit_zero)
qed

lemma string_unit_two:
  assumes "reads lx (CHR 0x5C # e # t)" and "string_escape (lx_get lx) = (None, add_byte (of_char c) (lx_get (lx_get lx)))"
  shows "\<exists>lx'. string_unit lx = (None, lx') \<and> reads lx' t \<and> lx_token_buffer lx' = lx_token_buffer lx @ [c]"
  using assms reads_Cons [OF assms(1)] reads_Cons [of "lx_get lx" e t]
  by (simp add: string_unit_def Let_def)

lemma string_unit_control:
  assumes "(of_char c :: nat) \<le> 0x1F"
    and "reads lx (CHR 0x5C # CHR ''u'' # map hex_digit [0, 0, of_char c div 16, of_char c mod 16] @ t)"
  shows "\<exists>lx'. string_unit lx = (None, lx') \<and> reads lx' t \<and> lx_token_buffer lx' = lx_token_buffer lx @ [c]"
proof -
  note r1 = reads_Cons [OF assms(2)]
  note r2 = reads_Cons [OF r1(2)]
  from get_codepoint_reads [of "lx_get (lx_get lx)" "of_char c" t] r2(2) assms(1)
  obtain lx' where "get_codepoint (lx_get (lx_get lx)) = (Some (of_char c), lx')" "reads lx' t"
    "lx_token_buffer lx' = lx_token_buffer lx" by auto
  with assms(1) r1 r2 show ?thesis
    by (simp add: string_unit_def string_escape_def unicode_escape_def add_codepoint_def Let_def)
qed

lemma string_unit_ascii:
  assumes "(of_char c :: nat) < 128" and "unat cp = of_char c" and "reads lx (escape_codepoint cp c @ t)"
  shows "\<exists>lx'. string_unit lx = (None, lx') \<and> reads lx' t \<and> lx_token_buffer lx' = lx_token_buffer lx @ [c]"
proof -
  let ?special = "c \<in> {CHR 0x08, CHR 0x09, CHR 0x0A, CHR 0x0C, CHR 0x0D, CHR 0x22, CHR 0x5C}"
  consider (special) ?special | (control) "\<not> ?special" "(of_char c :: nat) \<le> 0x1F"
    | (plain) "\<not> ?special" "(of_char c :: nat) > 0x1F" by linarith
  then show ?thesis
  proof cases
    case special
    have "\<exists>e. escape_codepoint cp c = [CHR 0x5C, e]"
      using special escape_ascii [OF assms(2)] by (elim insertE) simp_all
    then obtain e where e: "escape_codepoint cp c = [CHR 0x5C, e]" ..
    with assms(3) have r: "reads lx (CHR 0x5C # e # t)" by simp
    have "string_escape (lx_get lx) = (None, add_byte (of_char c) (lx_get (lx_get lx)))"
      using special reads_Cons(1) [OF reads_Cons(2) [OF r]] e escape_ascii [OF assms(2)]
      by (elim insertE) (simp_all add: string_escape_def Let_def)
    with r show ?thesis by (rule string_unit_two)
  next
    case control
    with escape_ascii [OF assms(2)] assms(3) show ?thesis by (intro string_unit_control) simp_all
  next
    case plain
    with escape_ascii [OF assms(2)] assms(3) have "reads lx (c # t)" by simp
    from reads_Cons [OF this] plain assms(1) show ?thesis by (simp add: string_unit_def Let_def)
  qed
qed

lemma string_unit_more:
  assumes "(128 :: nat) \<le> of_char c" "utf8_ranges (of_char c) = Some ranges" "continues bs ranges"
    and "reads lx (c # bs @ t)"
  shows "\<exists>lx'. string_unit lx = (None, lx') \<and> reads lx' t \<and> lx_token_buffer lx' = lx_token_buffer lx @ c # bs"
proof -
  note g = reads_Cons [OF assms(4)]
  from next_bytes_continues [OF assms(3), of "add_current (lx_get lx)" t] g
  obtain lx' where "next_bytes ranges (add_current (lx_get lx)) = (True, lx')" "reads lx' t"
    "lx_token_buffer lx' = lx_token_buffer lx @ c # bs" by auto
  moreover have "c \<noteq> CHR 0x22" "c \<noteq> CHR 0x5C" using assms(1) by auto
  ultimately show ?thesis
    using assms(1,2) g(1) by (simp add: string_unit_def next_byte_in_range_def Let_def)
qed

lemma scan_string_loop_reads:
  "dump_escaped_from 0 cp s = Inr t \<Longrightarrow> reads lx (t @ CHR 0x22 # u) \<Longrightarrow>
     \<exists>lx'. scan_string_loop lx = (value_string, lx') \<and> reads lx' u \<and> started lx' \<and>
       lx_token_buffer lx' = lx_token_buffer lx @ s"
proof (induction s arbitrary: cp t lx rule: length_induct)
  case (1 s)
  show ?case
  proof (cases s)
    case Nil
    with 1(2,3) have "reads lx (CHR 0x22 # u)" by simp
    from reads_Cons [OF this] Nil show ?thesis
      by (simp add: scan_string_loop.simps [of lx] string_unit_def Let_def)
  next
    case (Cons c cs)
    have "\<exists>bs cs' cp' t' lx1. s = bs @ cs' \<and> bs \<noteq> [] \<and> dump_escaped_from 0 cp' cs' = Inr t' \<and>
        string_unit lx = (None, lx1) \<and> reads lx1 (t' @ CHR 0x22 # u) \<and> lx_token_buffer lx1 = lx_token_buffer lx @ bs"
      using 1(2) [unfolded Cons]
    proof (cases rule: dump_first)
      case (ascii cp' t')
      from string_unit_ascii [OF ascii(1,2), of lx "t' @ CHR 0x22 # u"] 1(3) ascii(3,4) Cons
      show ?thesis by (rule_tac exI [of _ "[c]"]) (auto simp del: dump_escaped_from.simps)
    next
      case (more ranges bs cs' cp' t')
      from string_unit_more [OF more(1,2,4), of lx "t' @ CHR 0x22 # u"] 1(3) more(3,5,6) Cons
      show ?thesis by (rule_tac exI [of _ "c # bs"]) (auto simp del: dump_escaped_from.simps)
    qed
    then obtain bs cs' cp' t' lx1 where *: "s = bs @ cs'" "bs \<noteq> []" "dump_escaped_from 0 cp' cs' = Inr t'"
      "string_unit lx = (None, lx1)" "reads lx1 (t' @ CHR 0x22 # u)" "lx_token_buffer lx1 = lx_token_buffer lx @ bs"
      by blast
    then have "length cs' < length s" by simp
    with 1(1) *(3,5) have "\<exists>lx'. scan_string_loop lx1 = (value_string, lx') \<and> reads lx' u \<and> started lx' \<and>
       lx_token_buffer lx' = lx_token_buffer lx1 @ cs'" by blast
    with * show ?thesis by (auto simp: scan_string_loop.simps [of lx])
  qed
qed

end
