(* ===== verification/JsonWellFormed.thy ===== *)
theory JsonWellFormed
  imports JsonStrings
begin

text \<open>
  The values the parser of the JSON library returns: their strings are UTF-8, their integers fit 64
  bits, and the members of their objects are ordered by key.  The serialiser accepts all of them.
\<close>

section \<open>UTF-8 text\<close>

fun utf8_run :: "nat \<Rightarrow> string \<Rightarrow> nat" where
  "utf8_run st [] = st"
| "utf8_run st (c # cs) = utf8_run (fst (utf8_decode st 0 (of_char c))) cs"

definition utf8_text :: "string \<Rightarrow> bool" where
  "utf8_text s \<longleftrightarrow> utf8_run 0 s = 0"

lemma utf8_state: "fst (utf8_decode st cp b) = fst (utf8_decode st 0 b)"
  by (simp add: utf8_decode_def Let_def)

lemma utf8_rejected: "utf8_run 1 s = 1"
proof (induction s)
  case (Cons c s)
  have "fst (utf8_decode 1 0 (of_char c)) = 1"
    using utf8_class_less [of "of_char c"] by (auto simp: utf8_decode_def Let_def utf8_next_def)
  with Cons show ?case by simp
qed simp

lemma dump_escaped_run: "(\<exists>t. dump_escaped_from st cp s = Inr t) \<longleftrightarrow> utf8_run st s = 0"
proof (induction s arbitrary: st cp)
  case (Cons c s)
  let ?d = "utf8_decode st cp (of_char c)"
  show ?case
  proof (cases "fst ?d = 1")
    case True
    with utf8_state [of st cp] utf8_rejected [of s] show ?thesis by (simp add: case_prod_beta)
  next
    case False
    with Cons [of "fst ?d" "snd ?d"] utf8_state [of st cp] show ?thesis
      by (auto simp: case_prod_beta split: sum.splits)
  qed
qed simp

lemma utf8_run_append: "utf8_run st (s @ s') = utf8_run (utf8_run st s) s'"
  by (induction s arbitrary: st) simp_all

lemma utf8_text_append: "utf8_text s \<Longrightarrow> utf8_text s' \<Longrightarrow> utf8_text (s @ s')"
  by (simp add: utf8_text_def utf8_run_append)

lemma utf8_text_Nil: "utf8_text []"
  by (simp add: utf8_text_def)

lemma utf8_text_ascii: "of_char c < (128 :: nat) \<Longrightarrow> utf8_text [c]"
  by (simp add: utf8_text_def utf8_decode_def utf8_class_def utf8_next_def Let_def)

lemma utf8_ascii: "ascii s \<Longrightarrow> utf8_text s"
proof (induction s)
  case (Cons c s)
  then show ?case using utf8_text_append [OF utf8_text_ascii [of c], of s] by (simp add: ascii_def)
qed (simp add: utf8_text_Nil)

lemma utf8_run_step:
  assumes "continues bs (follow st)" "2 \<le> st" "st \<le> 8"
  shows "\<exists>c bs'. bs = c # bs' \<and> utf8_run st bs = utf8_run (follow_next st) bs' \<and> continues bs' (tl (follow st))"
proof -
  obtain r rs where "follow st = r # rs" by (cases "follow st") (auto simp: follow_def split: if_splits)
  with assms utf8_next_follow [OF assms(2,3), of 0] show ?thesis
    by (cases bs) (auto simp: continues_def split: prod.splits)
qed

lemma utf8_run_last: "continues bs (follow 2) \<Longrightarrow> utf8_run 2 bs = 0"
  using utf8_run_step [of bs 2] by (auto simp: follow_def follow_next_def continues_def)

lemma utf8_run_middle:
  assumes "continues bs (follow st)" and "st \<in> {3, 4, 5}"
  shows "utf8_run st bs = 0"
proof -
  have "2 \<le> st" "st \<le> 8" "follow_next st = 2" "tl (follow st) = follow 2"
    using assms(2) by (auto simp: follow_next_def follow_def)
  with utf8_run_step [OF assms(1)] utf8_run_last show ?thesis by auto
qed

lemma utf8_run_long:
  assumes "continues bs (follow st)" and "st \<in> {6, 7, 8}"
  shows "utf8_run st bs = 0"
proof -
  have "2 \<le> st" "st \<le> 8" "follow_next st = 3" "tl (follow st) = follow 3"
    using assms(2) by (auto simp: follow_next_def follow_def)
  with utf8_run_step [OF assms(1)] utf8_run_middle [of _ 3] show ?thesis by auto
qed

lemma utf8_ranges_first:
  assumes "utf8_ranges b = Some rs"
  shows "fst (utf8_decode 0 0 b) \<in> {2, 3, 4, 5, 6, 7, 8} \<and> rs = follow (fst (utf8_decode 0 0 b))"
proof -
  consider "0xC2 \<le> b" "b \<le> 0xDF" | "b = 0xE0" | "0xE1 \<le> b" "b \<le> 0xEC" | "b = 0xEE" | "b = 0xEF" | "b = 0xED"
    | "b = 0xF0" | "0xF1 \<le> b" "b \<le> 0xF3" | "b = 0xF4"
    using assms by (auto simp: utf8_ranges_def split: if_splits)
  then show ?thesis
    using assms by cases (simp_all add: utf8_first_state [of 0] utf8_ranges_def utf8_class_def follow_def)
qed

lemma utf8_text_sequence:
  assumes "utf8_ranges (of_char c) = Some rs" and "continues bs rs"
  shows "utf8_text (c # bs)"
proof -
  let ?st = "fst (utf8_decode 0 0 (of_char c))"
  from utf8_ranges_first [OF assms(1)] assms(2) have "continues bs (follow ?st)"
    and "?st = 2 \<or> ?st \<in> {3, 4, 5} \<or> ?st \<in> {6, 7, 8}" by auto
  with utf8_run_last [of bs] utf8_run_middle [of bs ?st] utf8_run_long [of bs ?st] have "utf8_run ?st bs = 0" by metis
  then show ?thesis by (simp add: utf8_text_def)
qed

section \<open>The code points of escapes\<close>

lemma or_low_bits: "n < 2 ^ k \<Longrightarrow> or (2 ^ k * m) n = 2 ^ k * m + (n :: nat)"
proof -
  assume "n < 2 ^ k"
  then have "take_bit k n = n" by (simp add: take_bit_eq_mod)
  then have "\<not> bit n i" if "k \<le> i" for i using that by (metis bit_take_bit_iff not_less)
  then have "or (push_bit k m) n = push_bit k m + n"
    by (intro disjunctive_add [symmetric]) (auto simp: bit_push_bit_iff)
  then show ?thesis by (simp add: push_bit_eq_mult mult.commute)
qed

lemmas or_leads = or_low_bits [of _ 6 3, simplified] or_low_bits [of _ 4 14, simplified] or_low_bits [of _ 4 15, simplified]

lemma continuation_byte: "or 0x80 (and n 0x3F) = 128 + n mod (64 :: nat)"
  using or_low_bits [of "n mod 64" 6 2] take_bit_eq_mask [of 6 n] by (simp add: mask_eq_exp_minus_1 take_bit_eq_mod)

lemma mod_64_le: "n mod 64 \<le> (63 :: nat)"
  using mod_less_divisor [of 64 n] by linarith

lemma of_char_of: "n < 256 \<Longrightarrow> (of_char (char_of n) :: nat) = n"
  by simp

lemma continuation_of_char: "(of_char (char_of (128 + n mod 64)) :: nat) = 128 + n mod (64 :: nat)"
  by (rule of_char_of) (use mod_less_divisor [of 64 n] in linarith)

lemma div_64_digits: "n div 64 = m \<Longrightarrow> n = 64 * m + n mod (64 :: nat)"
  by (metis mult_div_mod_eq)

lemma digits_64:
  "cp = 4096 * (cp div 4096) + 64 * (cp div 64 mod 64) + cp mod (64 :: nat)"
  "cp = 262144 * (cp div 262144) + 4096 * (cp div 4096 mod 64) + 64 * (cp div 64 mod 64) + cp mod (64 :: nat)"
proof -
  have "cp div 64 div 64 = cp div 4096" "cp div 4096 div 64 = cp div 262144" by (simp_all add: div_mult2_eq [symmetric])
  note * = div_64_digits [OF refl, of cp] this [THEN div_64_digits]
  from * show "cp = 4096 * (cp div 4096) + 64 * (cp div 64 mod 64) + cp mod 64"
    "cp = 262144 * (cp div 262144) + 4096 * (cp div 4096 mod 64) + 64 * (cp div 64 mod 64) + cp mod 64" by linarith+
qed

lemma add_two_bytes:
  assumes "0x80 \<le> cp" "cp \<le> 0x7FF"
  shows "\<exists>bs. lx_token_buffer (add_codepoint cp lx) = lx_token_buffer lx @ bs \<and> utf8_text bs"
proof -
  let ?a = "cp div 64" and ?b = "cp mod 64"
  have a: "2 \<le> ?a" "?a < 32" using div_le_mono [OF assms(1), of 64] div_le_mono [OF assms(2), of 64] by simp_all
  then have lead: "or 0xC0 (drop_bit 6 cp) = 192 + ?a" by (simp add: drop_bit_eq_div or_leads)
  have "utf8_ranges (of_char (char_of (192 + ?a) :: char)) = Some [(0x80, 0xBF)]"
    using a of_char_of [of "192 + ?a"] by (simp add: utf8_ranges_def)
  then have "utf8_text (char_of (192 + ?a) # [char_of (128 + ?b)])"
    by (rule utf8_text_sequence) (use continuation_of_char [of cp] mod_less_divisor [of 64 cp] in simp)
  with assms lead show ?thesis by (simp add: add_codepoint_def continuation_byte)
qed


lemma add_three_bytes:
  assumes "0x800 \<le> cp" "cp \<le> 0xFFFF" "cp < 0xD800 \<or> 0xDFFF < cp"
  shows "\<exists>bs. lx_token_buffer (add_codepoint cp lx) = lx_token_buffer lx @ bs \<and> utf8_text bs"
proof -
  let ?a = "cp div 4096" and ?b = "cp div 64 mod 64" and ?c = "cp mod 64"
  have a: "?a < 16" using div_le_mono [OF assms(2), of 4096] by simp
  then have lead: "or 0xE0 (drop_bit 12 cp) = 224 + ?a" by (simp add: drop_bit_eq_div or_leads)
  have cp: "cp = 4096 * ?a + 64 * ?b + ?c"
    by (rule digits_64(1))
  have b: "?b < 64" "?c < 64" by simp_all
  have "?a = 0 \<Longrightarrow> 32 \<le> ?b" "?a = 13 \<Longrightarrow> ?b < 32" using assms cp b by linarith+
  then have "\<exists>l u. utf8_ranges (224 + ?a) = Some [(l, u), (0x80, 0xBF)] \<and> l \<le> 128 + int ?b \<and> 128 + int ?b \<le> u"
    using a b by (auto simp: utf8_ranges_def)
  then obtain l u where "utf8_ranges (of_char (char_of (224 + ?a) :: char)) = Some [(l, u), (0x80, 0xBF)]"
    "l \<le> 128 + int ?b" "128 + int ?b \<le> u"
    using a of_char_of [of "224 + ?a"] by auto
  moreover from this have "continues [char_of (128 + ?b), char_of (128 + ?c)] [(l, u), (0x80, 0xBF)]"
    unfolding continues_Cons by (simp only: continuation_of_char fst_conv snd_conv) (simp add: mod_64_le)
  ultimately have "utf8_text (char_of (224 + ?a) # [char_of (128 + ?b), char_of (128 + ?c)])"
    by (intro utf8_text_sequence)
  with assms lead show ?thesis by (simp add: add_codepoint_def continuation_byte drop_bit_eq_div)
qed

lemma add_four_bytes:
  assumes "0x10000 \<le> cp" "cp \<le> 0x10FFFF"
  shows "\<exists>bs. lx_token_buffer (add_codepoint cp lx) = lx_token_buffer lx @ bs \<and> utf8_text bs"
proof -
  let ?a = "cp div 262144" and ?b = "cp div 4096 mod 64" and ?c = "cp div 64 mod 64" and ?d = "cp mod 64"
  have a: "?a < 5" using div_le_mono [OF assms(2), of 262144] by simp
  then have lead: "or 0xF0 (drop_bit 18 cp) = 240 + ?a" by (simp add: drop_bit_eq_div or_leads)
  have cp: "cp = 262144 * ?a + 4096 * ?b + 64 * ?c + ?d"
    by (rule digits_64(2))
  have b: "?b < 64" "?c < 64" "?d < 64" by simp_all
  have "?a = 0 \<Longrightarrow> 16 \<le> ?b" "?a = 4 \<Longrightarrow> ?b < 16" using assms cp b by linarith+
  then have "\<exists>l u. utf8_ranges (240 + ?a) = Some [(l, u), (0x80, 0xBF), (0x80, 0xBF)] \<and> l \<le> 128 + int ?b \<and> 128 + int ?b \<le> u"
    using a b by (auto simp: utf8_ranges_def)
  then obtain l u where "utf8_ranges (of_char (char_of (240 + ?a) :: char)) = Some [(l, u), (0x80, 0xBF), (0x80, 0xBF)]"
    "l \<le> 128 + int ?b" "128 + int ?b \<le> u"
    using a of_char_of [of "240 + ?a"] by auto
  moreover from this have "continues [char_of (128 + ?b), char_of (128 + ?c), char_of (128 + ?d)]
      [(l, u), (0x80, 0xBF), (0x80, 0xBF)]"
    unfolding continues_Cons by (simp only: continuation_of_char fst_conv snd_conv) (simp add: mod_64_le)
  ultimately have "utf8_text (char_of (240 + ?a) # [char_of (128 + ?b), char_of (128 + ?c), char_of (128 + ?d)])"
    by (intro utf8_text_sequence)
  with assms lead show ?thesis by (simp add: add_codepoint_def continuation_byte drop_bit_eq_div)
qed

lemma add_codepoint_text:
  assumes "cp \<le> 0x10FFFF" "cp < 0xD800 \<or> 0xDFFF < cp"
  shows "\<exists>bs. lx_token_buffer (add_codepoint cp lx) = lx_token_buffer lx @ bs \<and> utf8_text bs"
proof -
  consider "cp < 0x80" | "0x80 \<le> cp" "cp \<le> 0x7FF" | "0x800 \<le> cp" "cp \<le> 0xFFFF" | "0x10000 \<le> cp" by linarith
  then show ?thesis
  proof cases
    case 1
    then show ?thesis using utf8_text_ascii [of "char_of cp"] by (simp add: add_codepoint_def)
  qed (use assms add_two_bytes add_three_bytes add_four_bytes in blast)+
qed

text \<open>Four hexadecimal digits are less than 65536.\<close>

lemma get_codepoint_digits:
  "get_codepoint_from fs cp lx = (Some cp', lx') \<Longrightarrow>
     cp' \<le> cp + (\<Sum>f\<leftarrow>fs. 15 * 2 ^ f) \<and> lx_token_buffer lx' = lx_token_buffer lx"
proof (induction fs arbitrary: cp lx)
  case (Cons f fs)
  let ?c = "current_code (lx_get lx)"
  have "\<exists>d \<le> 15. get_codepoint_from fs (cp + push_bit f d) (lx_get lx) = (Some cp', lx')"
  proof -
    consider "0x30 \<le> ?c" "?c \<le> 0x39" | "0x41 \<le> ?c" "?c \<le> 0x46" | "0x61 \<le> ?c" "?c \<le> 0x66"
      using Cons.prems by (auto simp: Let_def split: if_splits)
    then show ?thesis
    proof cases
      case 1
      with Cons.prems show ?thesis by (intro exI [of _ "nat ?c - 0x30"]) (simp add: Let_def)
    next
      case 2
      with Cons.prems show ?thesis by (intro exI [of _ "nat ?c - 0x37"]) (simp add: Let_def)
    next
      case 3
      with Cons.prems show ?thesis by (intro exI [of _ "nat ?c - 0x57"]) (simp add: Let_def)
    qed
  qed
  then obtain d where d: "d \<le> 15" "get_codepoint_from fs (cp + push_bit f d) (lx_get lx) = (Some cp', lx')" by blast
  moreover have "push_bit f d \<le> 15 * 2 ^ f" using d(1) by (simp add: push_bit_eq_mult)
  ultimately show ?case using Cons.IH [OF d(2)] by simp
qed simp

lemma get_codepoint_bound:
  "get_codepoint lx = (Some cp, lx') \<Longrightarrow> cp < 0x10000 \<and> lx_token_buffer lx' = lx_token_buffer lx"
  by (auto simp: get_codepoint_def simp del: get_codepoint_from.simps dest!: get_codepoint_digits)

lemma surrogate_pair:
  assumes "0xD800 \<le> a" "a \<le> (0xDBFF :: nat)" "0xDC00 \<le> b" "b \<le> 0xDFFF"
  shows "0x10000 \<le> push_bit 10 a + b - 0x35FDC00" "push_bit 10 a + b - 0x35FDC00 \<le> 0x10FFFF"
  using assms by (simp_all add: push_bit_eq_mult)

section \<open>What the scanner puts into its buffer\<close>

definition appends :: "lexer \<Rightarrow> lexer \<Rightarrow> bool" where
  "appends lx lx' \<longleftrightarrow> (\<exists>bs. lx_token_buffer lx' = lx_token_buffer lx @ bs \<and> utf8_text bs)"

lemma appends_codepoint:
  "cp \<le> 0x10FFFF \<Longrightarrow> cp < 0xD800 \<or> 0xDFFF < cp \<Longrightarrow> lx_token_buffer lx1 = lx_token_buffer lx \<Longrightarrow>
     appends lx (add_codepoint cp lx1)"
  using add_codepoint_text [of cp lx1] by (simp add: appends_def)

lemma unicode_escape_appends:
  assumes "unicode_escape lx = (None, lx')"
  shows "appends lx lx'"
proof -
  from assms obtain cp1 lx1 where 1: "get_codepoint lx = (Some cp1, lx1)"
    by (auto simp: unicode_escape_def split: prod.splits option.splits)
  show ?thesis
  proof (cases "0xD800 \<le> cp1 \<and> cp1 \<le> 0xDBFF")
    case True
    with assms 1 obtain cp2 lx4 where 2: "get_codepoint (lx_get (lx_get lx1)) = (Some cp2, lx4)" "0xDC00 \<le> cp2" "cp2 \<le> 0xDFFF"
      "lx' = add_codepoint (push_bit 10 cp1 + cp2 - 0x35FDC00) lx4"
      by (auto simp: unicode_escape_def Let_def split: prod.splits option.splits if_splits)
    have "appends lx (add_codepoint (push_bit 10 cp1 + cp2 - 0x35FDC00) lx4)"
      using surrogate_pair [of cp1 cp2] True 2(2,3) get_codepoint_bound [OF 1] get_codepoint_bound [OF 2(1)]
      by (intro appends_codepoint) auto
    with 2(4) show ?thesis by simp
  next
    case False
    with assms 1 have "lx' = add_codepoint cp1 lx1" "cp1 < 0xD800 \<or> 0xDFFF < cp1"
      by (auto simp: unicode_escape_def split: if_splits)
    with get_codepoint_bound [OF 1] show ?thesis by (auto intro: appends_codepoint)
  qed
qed

lemma appends_ascii: "n < 128 \<Longrightarrow> lx_token_buffer lx1 = lx_token_buffer lx \<Longrightarrow> appends lx (add_byte n lx1)"
  using utf8_text_ascii [of "char_of n"] by (simp add: appends_def)

lemma string_escape_appends: "string_escape lx = (None, lx') \<Longrightarrow> appends lx lx'"
  using unicode_escape_appends [of "lx_get lx" lx']
  by (auto simp: string_escape_def Let_def appends_ascii appends_def [of "lx_get lx"] split: option.splits if_splits)
    (auto simp: appends_def)

lemma next_bytes_appends:
  "next_bytes rs lx = (True, lx') \<Longrightarrow> list_all (\<lambda>(l, u). 0 \<le> l) rs \<Longrightarrow>
     \<exists>bs. lx_token_buffer lx' = lx_token_buffer lx @ bs \<and> continues bs rs"
proof (induction rs arbitrary: lx)
  case (Cons r rs)
  obtain l u where r: "r = (l, u)" by force
  from Cons.prems r have ok: "l \<le> current_code (lx_get lx)" "current_code (lx_get lx) \<le> u" "0 \<le> l"
    and rest: "next_bytes rs (add_current (lx_get lx)) = (True, lx')" by (auto simp: Let_def split: if_splits)
  then obtain c where c: "lx_current (lx_get lx) = Some c" by (cases "lx_current (lx_get lx)") (auto simp: current_code_def)
  from Cons.IH [OF rest] Cons.prems(2) obtain bs where "lx_token_buffer lx' = lx_token_buffer lx @ c # bs" "continues bs rs"
    using c by auto
  with ok c r show ?case by (intro exI [of _ "c # bs"]) simp
qed (simp add: continues_def)

lemma string_unit_appends:
  assumes "string_unit lx = (None, lx')"
  shows "appends lx lx'"
proof -
  from assms obtain c where c: "lx_current (lx_get lx) = Some c"
    by (auto simp: string_unit_def Let_def split: option.splits)
  consider "c = CHR 0x5C" "string_escape (lx_get lx) = (None, lx')"
    | "of_char c \<le> (0x7F :: nat)" "lx' = add_current (lx_get lx)"
    | rs where "utf8_ranges (of_char c) = Some rs" "next_bytes rs (add_current (lx_get lx)) = (True, lx')"
    using assms c
    by (auto simp: string_unit_def next_byte_in_range_def Let_def split: option.splits if_splits prod.splits bool.splits)
  then show ?thesis
  proof cases
    case 1
    from string_escape_appends [OF 1(2)] show ?thesis by (simp add: appends_def)
  next
    case 2
    with c utf8_text_ascii [of c] show ?thesis by (simp add: appends_def)
  next
    case (3 rs)
    have "list_all (\<lambda>(l, u). 0 \<le> l) rs" using 3(1) by (auto simp: utf8_ranges_def split: if_splits)
    from next_bytes_appends [OF 3(2) this] obtain bs where bs: "lx_token_buffer lx' = lx_token_buffer lx @ c # bs"
      "continues bs rs" using c by auto
    from utf8_text_sequence [OF 3(1) bs(2)] bs(1) show ?thesis by (simp add: appends_def)
  qed
qed

lemma string_unit_ends: "string_unit lx = (Some value_string, lx') \<Longrightarrow> lx_token_buffer lx' = lx_token_buffer lx"
  by (auto simp: string_unit_def string_escape_def unicode_escape_def Let_def
      split: option.splits if_splits prod.splits bool.splits)

lemma scan_string_appends: "scan_string_loop lx = (value_string, lx') \<Longrightarrow> appends lx lx'"
proof (induction lx rule: scan_string_loop.induct)
  case (1 lx)
  obtain r lx1 where u: "string_unit lx = (r, lx1)" by (rule prod.exhaust)
  show ?case
  proof (cases r)
    case None
    with 1 u have "appends lx1 lx'" by (simp add: scan_string_loop.simps [of lx])
    moreover from u None string_unit_appends have "appends lx lx1" by simp
    ultimately show ?thesis by (auto simp: appends_def intro: utf8_text_append)
  next
    case (Some t)
    with 1(2) u string_unit_ends [of lx lx1] show ?thesis
      by (simp add: scan_string_loop.simps [of lx] appends_def utf8_text_Nil)
  qed
qed


section \<open>Tokens\<close>

definition token_ok :: "token_type \<Rightarrow> lexer \<Rightarrow> bool" where
  "token_ok t lx \<longleftrightarrow>
     (t = value_string \<longrightarrow> utf8_text (lx_token_buffer lx)) \<and>
     (t = value_unsigned \<longrightarrow> lx_value_unsigned lx < 2 ^ 64) \<and>
     (t = value_integer \<longrightarrow> - (2 ^ 63) \<le> lx_value_integer lx \<and> lx_value_integer lx \<le> 0)"

lemma scan_number_ok: "scan_number lx = (t, lx') \<Longrightarrow> token_ok t lx'"
  by (auto simp: scan_number_def number_token_def token_ok_def Let_def split: prod.splits option.splits if_splits)

lemma scan_literal_ok: "scan_literal cs tok lx = (t, lx') \<Longrightarrow> t = tok \<or> t = parse_error"
  by (induction cs arbitrary: lx) (auto simp: Let_def split: if_splits)

lemma scan_string_ok: "scan_string lx = (t, lx') \<Longrightarrow> token_ok t lx'"
proof -
  assume run: "scan_string lx = (t, lx')"
  have ends: "t \<in> {value_string, parse_error}" if "scan_string_loop l = (t, lx')" for l
    using that
  proof (induction l rule: scan_string_loop.induct)
    case (1 l)
    obtain r l1 where u: "string_unit l = (r, l1)" by (rule prod.exhaust)
    then have "r \<in> {None, Some value_string, Some parse_error}"
      by (auto simp: string_unit_def string_escape_def unicode_escape_def Let_def
          split: option.splits if_splits prod.splits bool.splits)
    with 1 u show ?case by (cases r) (auto simp: scan_string_loop.simps [of l])
  qed
  have "lx_token_buffer (reset lx) = []" by (simp add: reset_def)
  with run ends [of "reset lx"] scan_string_appends [of "reset lx" lx'] show ?thesis
    by (auto simp: scan_string_def token_ok_def appends_def)
qed

lemma scan_token_ok:
  assumes "scan_token lx = (t, lx')"
  shows "token_ok t lx'"
proof (cases "lx_current lx")
  case None
  with assms show ?thesis by (auto simp: scan_token_def token_ok_def)
next
  case (Some c)
  show ?thesis
  proof (cases "structural_token c")
    case (Some t')
    then have "t' \<notin> {value_string, value_unsigned, value_integer}" by (auto simp: structural_token_def split: if_splits)
    with assms \<open>lx_current lx = Some c\<close> Some show ?thesis by (auto simp: scan_token_def token_ok_def)
  next
    case none: None
    show ?thesis
    proof (cases "literal_token c")
      case (Some p)
      then obtain cs tok where p: "p = (cs, tok)" "tok \<notin> {value_string, value_unsigned, value_integer}"
        by (auto simp: literal_token_def split: if_splits)
      with assms \<open>lx_current lx = Some c\<close> none Some scan_literal_ok [of cs tok lx t lx'] show ?thesis
        by (auto simp: scan_token_def token_ok_def simp del: scan_literal.simps)
    next
      case None
      with assms \<open>lx_current lx = Some c\<close> none scan_string_ok [of lx t lx'] scan_number_ok [of lx t lx'] show ?thesis
        by (auto simp: scan_token_def token_ok_def split: if_splits)
    qed
  qed
qed

lemma scan_ok:
  assumes "scan lx = (t, lx')"
  shows "token_ok t lx'"
  using assms by (cases rule: scan_cases) (auto simp: token_ok_def [of parse_error] intro: scan_token_ok)

section \<open>Values\<close>

fun json_wf :: "json \<Rightarrow> bool" where
  "json_wf (JInteger i) \<longleftrightarrow> - (2 ^ 63) \<le> i \<and> i \<le> 0"
| "json_wf (JUnsigned n) \<longleftrightarrow> n < 2 ^ 64"
| "json_wf (JFloat x) \<longleftrightarrow> isfinite x"
| "json_wf (JString s) \<longleftrightarrow> utf8_text s"
| "json_wf (JArray xs) \<longleftrightarrow> (\<forall>x\<in>set xs. json_wf x)"
| "json_wf (JObject ms) \<longleftrightarrow> sorted_wrt (<) (map fst ms) \<and> (\<forall>(k, v)\<in>set ms. utf8_text k \<and> json_wf v)"
| "json_wf _ \<longleftrightarrow> True"

text \<open>The serialiser throws on none of them.\<close>

lemma dump_quoted_utf8: "utf8_text s \<Longrightarrow> \<exists>t. dump_quoted s = Inr t"
  using dump_escaped_run [of 0 0 s] by (auto simp: utf8_text_def dump_quoted_def dump_escaped_def cat_results_def)

lemma cat_results_total: "\<exists>x. a = Inr x \<Longrightarrow> \<exists>y. b = Inr y \<Longrightarrow> \<exists>z. cat_results a b = Inr z"
  by (auto simp: cat_results_def)

lemma dump_total:
  "json_wf j \<Longrightarrow> \<exists>t. dump j = Inr t"
  "\<forall>x\<in>set xs. json_wf x \<Longrightarrow> \<exists>t. dump_elems xs = Inr t"
  "\<forall>(k, v)\<in>set ms. utf8_text k \<and> json_wf v \<Longrightarrow> \<exists>t. dump_members ms = Inr t"
  by (induction j and xs and ms rule: dump_dump_elems_dump_members.induct)
    (simp_all add: cat_results_total dump_quoted_utf8)

section \<open>The parser builds well-formed values\<close>

lemma set_obj_set: "set (obj_set k v kvs) \<subseteq> insert (k, v) (set kvs)"
  by (induction k v kvs rule: obj_set.induct) auto

lemma keys_obj_set: "fst ` set (obj_set k v kvs) = insert k (fst ` set kvs)"
  by (induction k v kvs rule: obj_set.induct) auto

lemma keys_obj_emplace: "fst ` set (obj_emplace k v kvs) = insert k (fst ` set kvs)"
  by (induction k v kvs rule: obj_emplace.induct) auto

lemma sorted_obj_set: "sorted_wrt (<) (map fst kvs) \<Longrightarrow> sorted_wrt (<) (map fst (obj_set k v kvs))"
  by (induction k v kvs rule: obj_set.induct) (auto simp: keys_obj_set)

lemma sorted_obj_emplace: "sorted_wrt (<) (map fst kvs) \<Longrightarrow> sorted_wrt (<) (map fst (obj_emplace k v kvs))"
  by (induction k v kvs rule: obj_emplace.induct) (auto simp: keys_obj_emplace)

fun container_ok :: "container \<Rightarrow> bool" where
  "container_ok (OpenArray xs) \<longleftrightarrow> json_wf (JArray xs)"
| "container_ok (OpenObject kvs k) \<longleftrightarrow> json_wf (JObject kvs) \<and> utf8_text k"

definition sdp_ok :: "json_sax_dom_parser \<Rightarrow> bool" where
  "sdp_ok sdp \<longleftrightarrow> json_wf (sdp_root sdp) \<and> list_all container_ok (sdp_ref_stack sdp)"

lemma handle_value_ok: "json_wf v \<Longrightarrow> sdp_ok sdp \<Longrightarrow> sdp_ok (handle_value v sdp)"
  using set_obj_set sorted_obj_set
  by (fastforce simp: sdp_ok_def handle_value_def split: list.splits container.splits)

lemma start_ok: "sdp_ok sdp \<Longrightarrow> sdp_ok (start_object sdp)" "sdp_ok sdp \<Longrightarrow> sdp_ok (start_array sdp)"
  by (simp_all add: sdp_ok_def start_object_def start_array_def utf8_text_Nil)

lemma sax_key_ok: "utf8_text k \<Longrightarrow> sdp_ok sdp \<Longrightarrow> sdp_ok (sax_key k sdp)"
  using set_obj_emplace sorted_obj_emplace
  by (fastforce simp: sdp_ok_def sax_key_def split: list.splits container.splits)

lemma sax_end_ok: "sdp_ok sdp \<Longrightarrow> sdp_ok (sax_end sdp)"
  by (auto simp: sax_end_def sdp_ok_def intro!: handle_value_ok [unfolded sdp_ok_def] split: list.splits container.splits)

lemma token_value_ok: "token_ok t lx \<Longrightarrow> token_value t lx = Some (Inr v) \<Longrightarrow> json_wf v"
  by (auto simp: token_ok_def token_value_def split: if_splits)

lemma parse_key_ok:
  "parse_key t lx sdp = Inr (t', lx', sdp') \<Longrightarrow> token_ok t lx \<Longrightarrow> sdp_ok sdp \<Longrightarrow> token_ok t' lx' \<and> sdp_ok sdp'"
  by (auto simp: parse_key_def Let_def token_ok_def [of value_string] split: if_splits prod.splits
      intro: scan_ok sax_key_ok)

fun step_ok :: "parser_step \<Rightarrow> bool" where
  "step_ok (ParserThrow e) \<longleftrightarrow> True"
| "step_ok (ParserDone lx sdp) \<longleftrightarrow> sdp_ok sdp"
| "step_ok (ParserNext states skip t lx sdp) \<longleftrightarrow> token_ok t lx \<and> sdp_ok sdp"

lemma after_value_ok: "sdp_ok sdp \<Longrightarrow> step_ok (after_value states lx sdp)"
  by (auto simp: after_value_def split: list.split bool.split prod.split sum.split
      intro: scan_ok sax_end_ok dest: scan_ok parse_key_ok)

lemma parser_iteration_ok:
  assumes "token_ok t lx" "sdp_ok sdp"
  shows "step_ok (parser_iteration states skip t lx sdp)"
proof -
  obtain t1 lx1 where s: "scan lx = (t1, lx1)" by (rule prod.exhaust)
  consider "skip" | "\<not> skip" "t = begin_object" | "\<not> skip" "t = begin_array"
    | "\<not> skip" "t \<noteq> begin_object" "t \<noteq> begin_array" by blast
  then show ?thesis
  proof cases
    case 2
    with s scan_ok [OF s] assms start_ok(1) show ?thesis
      by (auto simp: parser_iteration_def split: sum.split intro: after_value_ok sax_end_ok dest: parse_key_ok)
  next
    case 3
    with s scan_ok [OF s] assms start_ok(2) show ?thesis
      by (auto simp: parser_iteration_def intro: after_value_ok sax_end_ok)
  next
    case 4
    with assms show ?thesis
      by (auto simp: parser_iteration_def split: sum.split option.split
          intro!: after_value_ok handle_value_ok dest: token_value_ok)
  qed (use assms in \<open>simp add: parser_iteration_def after_value_ok\<close>)
qed

lemma sax_parse_ok:
  "token_ok t lx \<Longrightarrow> sdp_ok sdp \<Longrightarrow> sax_parse_internal states skip t lx sdp = Inr (lx', sdp') \<Longrightarrow> sdp_ok sdp'"
proof (induction states skip t lx sdp rule: sax_parse_internal.induct)
  case (1 states skip t lx sdp)
  have "step_ok (parser_iteration states skip t lx sdp)" using 1(2,3) by (rule parser_iteration_ok)
  with 1(1) 1(4) [unfolded sax_parse_internal.simps [of states]] show ?case
    by (auto split: parser_step.splits)
qed

lemma json_parse_ok:
  assumes "json_parse text = Inr j"
  shows "json_wf j"
proof -
  obtain t lx where s: "scan (lexer_new text False) = (t, lx)" by (rule prod.exhaust)
  with assms obtain lx1 sdp where r: "sax_parse_internal [] False t lx dom_new = Inr (lx1, sdp)" "j = sdp_root sdp"
    by (auto simp: json_parse_def split: sum.splits prod.splits if_splits)
  have "sdp_ok dom_new" by (simp add: dom_new_def sdp_ok_def)
  from sax_parse_ok [OF scan_ok [OF s] this r(1)] r(2) show ?thesis by (simp add: sdp_ok_def)
qed

end
