(* ===== verification/JsonRoundTrip.thy ===== *)
theory JsonRoundTrip
  imports JsonWellFormed Gateway_Interfaces
begin

text \<open>
  What the serialiser of the JSON library writes, its parser reads back: for every value that is
  well-formed and has no doubles.
\<close>

section \<open>Numbers\<close>

lemma reads_back: "reads lx t \<Longrightarrow> reads (unget (lx_get lx)) t"
  using reads_unget [of lx] reads_Cons(1) [of lx] reads_Nil [of lx]
  by (cases t) (auto simp: reads_def ahead_input)

lemma reset_sels [simp]: "lx_token_buffer (reset lx) = []" "lx_current (reset lx) = lx_current lx"
  by (simp_all add: reset_def)

lemma reads_values [simp]:
  "reads (lx\<lparr>lx_value_unsigned := n\<rparr>) t = reads lx t" "reads (lx\<lparr>lx_value_integer := i\<rparr>) t = reads lx t"
  "started (lx\<lparr>lx_value_unsigned := n\<rparr>) = started lx" "started (lx\<lparr>lx_value_integer := i\<rparr>) = started lx"
  by (auto simp: reads_def started_def ahead_def split: option.split)

lemma started_back: "started lx \<Longrightarrow> started (unget (lx_get lx))"
  by (auto simp: started_def unget_def Let_def)

text \<open>What may follow a value in a text of the serialiser.\<close>

definition value_ends :: "string \<Rightarrow> bool" where
  "value_ends t \<longleftrightarrow> t = [] \<or> hd t \<in> {CHR '','', CHR '']'', CHR ''}''}"

lemma value_ends_simps [simp]:
  "value_ends []" "value_ends (CHR '','' # t)" "value_ends (CHR '']'' # t)" "value_ends (CHR ''}'' # t)"
  by (simp_all add: value_ends_def)

lemma number_step_digit: "is_digit c \<Longrightarrow> number_step scan_number_any1 (Some c) = NumberGoto scan_number_any1"
  by simp

lemma number_step_end:
  assumes "reads lx t" and "value_ends t"
  shows "number_step scan_number_any1 (lx_current (lx_get lx)) = NumberDone"
    and "number_step scan_number_zero (lx_current (lx_get lx)) = NumberDone"
  using assms reads_Nil(1) [of lx] reads_Cons(1) [of lx]
  by (cases t; auto simp: value_ends_def is_digit_def)+

lemma scan_digits:
  assumes "list_all is_digit ds" "value_ends t" "reads lx (ds @ t)" "started lx"
  shows "\<exists>lx'. scan_number_from scan_number_any1 ty lx = (Some ty, lx') \<and> reads (unget lx') t \<and> started (unget lx') \<and>
    lx_token_buffer lx' = lx_token_buffer lx @ ds"
  using assms
proof (induction ds arbitrary: lx)
  case Nil
  then show ?case
    using number_step_end(1) [of lx t] reads_back [of lx t] started_back [of lx]
    by (simp add: scan_number_from.simps [of _ _ lx] number_type_at_def Let_def)
next
  case (Cons c ds)
  from Cons(4) have g: "lx_current (lx_get lx) = Some c" "reads (lx_get lx) (ds @ t)" by (simp_all add: reads_Cons)
  from Cons.IH [of "add_current (lx_get lx)"] Cons.prems g reads_Cons(3) [of lx c "ds @ t"]
  show ?case by (simp add: scan_number_from.simps [of _ _ lx] number_type_at_def Let_def)
qed

lemma digits_value_show: "digits_value (show_nat n) = n"
  using digits_value_show_nat [of n] by (simp add: digits_value_def)

lemma show_nat_zero: "show_nat 0 = ''0''"
  by code_simp

lemma show_nat_head: "0 < n \<Longrightarrow> \<exists>c ds. show_nat n = c # ds \<and> c \<noteq> CHR ''0'' \<and> is_digit c \<and> list_all is_digit ds"
proof (induction n rule: show_nat.induct)
  case (1 n)
  have digit: "is_digit (digit_char k) \<and> (k \<noteq> 0 \<longrightarrow> digit_char k \<noteq> CHR ''0'')" if "k < 10" for k
    using that by (auto simp: is_digit_def digit_char_def dest: arg_cong [of _ _ "of_char :: char \<Rightarrow> nat"])
  show ?case
  proof (cases "n < 10")
    case True
    with 1(2) digit [of n] show ?thesis by (simp add: show_nat_small)
  next
    case False
    then obtain c ds where "show_nat (n div 10) = c # ds" "c \<noteq> CHR ''0''" "is_digit c" "list_all is_digit ds"
      using 1(1) by (auto simp: div_greater_zero_iff)
    with False digit [of "n mod 10"] show ?thesis by (simp add: show_nat_div)
  qed
qed


lemma scan_number_unsigned:
  assumes "n < 2 ^ 64" "value_ends t" "lx_current lx = Some c" "show_nat n = c # ds" "reads lx (ds @ t)" "started lx"
  shows "\<exists>lx'. scan_number lx = (value_unsigned, lx') \<and> reads lx' t \<and> started lx' \<and> lx_value_unsigned lx' = n"
proof -
  let ?l = "add_current (reset lx)"
  have l: "reads ?l (ds @ t)" "started ?l" "lx_token_buffer ?l = [c]"
    using assms(3,5,6) by simp_all
  have "\<exists>lx'. scan_number lx = number_token value_unsigned (unget lx') \<and> reads (unget lx') t \<and> started (unget lx') \<and>
      lx_token_buffer lx' = show_nat n"
  proof (cases "n = 0")
    case True
    with assms(4) have c: "c = CHR ''0''" "ds = []" by (simp_all add: show_nat_zero)
    then have "scan_number_from scan_number_zero value_unsigned ?l = (Some value_unsigned, lx_get ?l)"
      using number_step_end(2) [of ?l t] l(1) assms(2)
      by (simp add: scan_number_from.simps [of _ _ ?l] number_type_at_def Let_def)
    with c True reads_back [of ?l t] started_back [of ?l] l assms(3) show ?thesis
      by (auto simp: scan_number_def Let_def show_nat_zero)
  next
    case False
    with assms(4) show_nat_head [of n] have c: "c \<noteq> CHR ''0''" "is_digit c" "list_all is_digit ds" by auto
    then have "c \<noteq> CHR ''-''" by (auto simp: is_digit_def)
    with scan_digits [OF c(3) assms(2) l(1,2), of value_unsigned] c l(3) assms(3,4) show ?thesis
      by (auto simp: scan_number_def Let_def)
  qed
  with assms(1) show ?thesis
    by (auto simp: number_token_def Let_def digits_value_show)
qed

lemma scan_number_negative:
  assumes "0 < n" "n \<le> 2 ^ 63" "value_ends t" "lx_current lx = Some (CHR ''-'')" "reads lx (show_nat n @ t)" "started lx"
  shows "\<exists>lx'. scan_number lx = (value_integer, lx') \<and> reads lx' t \<and> started lx' \<and> lx_value_integer lx' = - int n"
proof -
  let ?l = "add_current (reset lx)"
  obtain c ds where c: "show_nat n = c # ds" "c \<noteq> CHR ''0''" "is_digit c" "list_all is_digit ds"
    using show_nat_head [OF assms(1)] by blast
  have l: "reads ?l (c # ds @ t)" "started ?l" "lx_token_buffer ?l = ''-''"
    using assms(4,5,6) c(1) by simp_all
  note g = reads_Cons [OF l(1)]
  have "scan_number_from scan_number_minus value_unsigned ?l =
      scan_number_from scan_number_any1 value_integer (add_current (lx_get ?l))"
    using c g(1) by (simp add: scan_number_from.simps [of _ _ ?l] number_type_at_def Let_def)
  with scan_digits [OF c(4) assms(3), of "add_current (lx_get ?l)" value_integer] g l(3) c(1) assms(4)
  have "\<exists>lx'. scan_number lx = number_token value_integer (unget lx') \<and> reads (unget lx') t \<and> started (unget lx') \<and>
      lx_token_buffer lx' = CHR ''-'' # show_nat n"
    by (auto simp: scan_number_def Let_def)
  with assms(2) show ?thesis
    by (auto simp: number_token_def Let_def digits_value_show)
qed

section \<open>Tokens\<close>

lemma skip_comments_off: "reads lx t \<Longrightarrow> skip_comments lx = (True, lx)"
  by (simp add: skip_comments.simps reads_def)

lemma scan_char:
  assumes "reads lx (c # t)" and "\<not> json_space (Some c)" and "c \<noteq> CHR 0xEF"
  shows "\<exists>lx1. scan lx = scan_token lx1 \<and> lx_current lx1 = Some c \<and> reads lx1 t \<and> started lx1"
proof -
  have at: "skip_comments (skip_whitespace l) = (True, lx_get l)" "lx_current (lx_get l) = Some c" "reads (lx_get l) t"
    "started (lx_get l)" if "reads l (c # t)" for l
    using reads_Cons [OF that] skip_comments_off [OF reads_Cons(2) [OF that]] assms(2)
    by (simp_all add: skip_whitespace.simps [of l] Let_def)
  show ?thesis
    using at [OF assms(1)] at [OF reads_back [OF assms(1)]] assms(3)
    by (cases "ps_chars_read_total (lx_position lx) = 0") (auto simp: scan_def skip_bom_def Let_def)
qed

lemma scan_end:
  assumes "reads lx []" and "started lx"
  shows "fst (scan lx) = end_of_input"
  using assms reads_Nil [OF assms(1)] skip_comments_off [OF reads_Nil(2) [OF assms(1)]]
  by (simp add: scan_def skip_whitespace.simps [of lx] json_space_def Let_def scan_token_def started_def)

lemma scan_structural:
  assumes "reads lx (c # t)" and "structural_token c = Some tok"
  shows "\<exists>lx1. scan lx = (tok, lx1) \<and> reads lx1 t \<and> started lx1"
proof -
  have "\<not> json_space (Some c)" "c \<noteq> CHR 0xEF"
    using assms(2) by (auto simp: structural_token_def json_space_def split: if_splits)
  from scan_char [OF assms(1) this] assms(2) show ?thesis by (auto simp: scan_token_def)
qed

lemma scan_literal_reads:
  "reads lx (cs @ t) \<Longrightarrow> started lx \<Longrightarrow> \<exists>lx1. scan_literal cs tok lx = (tok, lx1) \<and> reads lx1 t \<and> started lx1"
proof (induction cs arbitrary: lx)
  case (Cons c cs)
  then have "reads lx (c # cs @ t)" by simp
  from reads_Cons [OF this] Cons.IH [of "lx_get lx"] show ?case by (simp add: Let_def)
qed simp

lemma scan_literal_token:
  assumes "reads lx (c # cs @ t)" and "literal_token c = Some (cs, tok)"
  shows "\<exists>lx1. scan lx = (tok, lx1) \<and> reads lx1 t \<and> started lx1"
proof -
  have "\<not> json_space (Some c)" "c \<noteq> CHR 0xEF" "structural_token c = None"
    using assms(2) by (auto simp: literal_token_def structural_token_def json_space_def split: if_splits)
  with scan_char [OF assms(1)] assms(2) scan_literal_reads [of _ cs t tok] show ?thesis
    by (fastforce simp: scan_token_def)
qed

lemma scan_quoted:
  assumes "dump_quoted s = Inr t" and "reads lx (t @ u)"
  shows "\<exists>lx1. scan lx = (value_string, lx1) \<and> reads lx1 u \<and> started lx1 \<and> lx_token_buffer lx1 = s"
proof -
  from assms(1) obtain e where e: "dump_escaped_from 0 0 s = Inr e" "t = CHR 0x22 # e @ [CHR 0x22]"
    by (auto simp: dump_quoted_def dump_escaped_def cat_results_def split: sum.splits)
  with assms(2) have r: "reads lx (CHR 0x22 # e @ CHR 0x22 # u)" by simp
  obtain lx1 where lx1: "scan lx = scan_token lx1" "lx_current lx1 = Some (CHR 0x22)" "reads lx1 (e @ CHR 0x22 # u)"
    using scan_char [OF r] by (auto simp: json_space_def)
  from scan_string_loop_reads [OF e(1), of "reset lx1" u] lx1 show ?thesis
    by (auto simp: scan_token_def structural_token_def literal_token_def scan_string_def)
qed

lemma scan_unsigned:
  assumes "n < 2 ^ 64" "value_ends t" "reads lx (show_nat n @ t)"
  shows "\<exists>lx1. scan lx = (value_unsigned, lx1) \<and> reads lx1 t \<and> started lx1 \<and> lx_value_unsigned lx1 = n"
proof -
  obtain c ds where c: "show_nat n = c # ds" "is_digit c" "list_all is_digit ds"
    using digits_value_show_nat [of n] by (cases "show_nat n") auto
  then have nc: "\<not> json_space (Some c)" "c \<noteq> CHR 0xEF" "structural_token c = None" "literal_token c = None" "c \<noteq> CHR 0x22"
    by (auto simp: is_digit_def json_space_def structural_token_def literal_token_def)
  from assms(3) c(1) have "reads lx (c # ds @ t)" by simp
  then obtain lx1 where lx1: "scan lx = scan_token lx1" "lx_current lx1 = Some c" "reads lx1 (ds @ t)" "started lx1"
    using scan_char nc by blast
  with scan_number_unsigned [OF assms(1,2) lx1(2) c(1) lx1(3,4)] nc c(2) show ?thesis
    by (simp add: scan_token_def)
qed

lemma scan_negative:
  assumes "0 < n" "n \<le> 2 ^ 63" "value_ends t" "reads lx (CHR ''-'' # show_nat n @ t)"
  shows "\<exists>lx1. scan lx = (value_integer, lx1) \<and> reads lx1 t \<and> started lx1 \<and> lx_value_integer lx1 = - int n"
proof -
  obtain lx1 where lx1: "scan lx = scan_token lx1" "lx_current lx1 = Some (CHR ''-'')" "reads lx1 (show_nat n @ t)" "started lx1"
    using scan_char [OF assms(4)] by (auto simp: json_space_def)
  with scan_number_negative [OF assms(1,2,3) lx1(2,3,4)] show ?thesis
    by (simp add: scan_token_def structural_token_def literal_token_def)
qed


section \<open>Values\<close>

text \<open>
  The values that the text determines: no doubles, and the unsigned type for the integers that are
  not negative (the text \<^verbatim>\<open>-0\<close> is read as a signed zero, which is written as \<^verbatim>\<open>0\<close>).
\<close>

fun json_exact :: "json \<Rightarrow> bool" where
  "json_exact (JInteger i) \<longleftrightarrow> i < 0"
| "json_exact (JFloat x) \<longleftrightarrow> False"
| "json_exact (JArray xs) \<longleftrightarrow> (\<forall>x\<in>set xs. json_exact x)"
| "json_exact (JObject ms) \<longleftrightarrow> (\<forall>(k, v)\<in>set ms. json_exact v)"
| "json_exact _ \<longleftrightarrow> True"

lemma obj_set_last: "(\<forall>(k', v')\<in>set kvs. k' < k) \<Longrightarrow> obj_set k v (obj_emplace k JNull kvs) = kvs @ [(k, v)]"
  by (induction kvs) auto

text \<open>The members of an object in the order of the text, put into the object one after the other.\<close>

fun put_members :: "(string \<times> json) list \<Rightarrow> (string \<times> json) list \<Rightarrow> (string \<times> json) list" where
  "put_members kvs [] = kvs"
| "put_members kvs ((k, v) # ms) = put_members (obj_set k v (obj_emplace k JNull kvs)) ms"

lemma put_members_sorted: "sorted_wrt (<) (map fst (kvs @ ms)) \<Longrightarrow> put_members kvs ms = kvs @ ms"
proof (induction kvs ms rule: put_members.induct)
  case (2 kvs k v ms)
  then have "\<forall>(k', v')\<in>set kvs. k' < k" by (auto simp: sorted_wrt_append)
  from obj_set_last [OF this] 2 show ?case by simp
qed simp

text \<open>The rest of a parse.\<close>

definition resume :: "parser_step \<Rightarrow> cpp_exn + lexer \<times> json_sax_dom_parser" where
  "resume step =
     (case step of
        ParserThrow e \<Rightarrow> Inl e
      | ParserDone lx sdp \<Rightarrow> Inr (lx, sdp)
      | ParserNext states skip t lx sdp \<Rightarrow> sax_parse_internal states skip t lx sdp)"

lemma sax_parse_resume: "sax_parse_internal states skip t lx sdp = resume (parser_iteration states skip t lx sdp)"
  by (simp add: sax_parse_internal.simps [of states] resume_def)

text \<open>
  The parser is at the beginning of a text: what it has read when it has put the value, or the rest of
  the elements of an array or of the members of an object, where they belong.
\<close>

definition parses_value :: "json \<Rightarrow> bool" where
  "parses_value j \<longleftrightarrow> (\<forall>t u lx. dump j = Inr t \<longrightarrow> reads lx (t @ u) \<longrightarrow> value_ends u \<longrightarrow>
     (\<exists>tok lx1 lx'. scan lx = (tok, lx1) \<and> tok \<noteq> end_array \<and> reads lx' u \<and> started lx' \<and>
       (\<forall>states sdp. sax_parse_internal states False tok lx1 sdp =
          resume (after_value states lx' (handle_value j sdp)))))"

definition parses_elems :: "json list \<Rightarrow> bool" where
  "parses_elems xs \<longleftrightarrow> (\<forall>t u lx. dump_elems xs = Inr t \<longrightarrow> reads lx (t @ CHR '']'' # u) \<longrightarrow>
     (\<exists>tok lx1 lx'. scan lx = (tok, lx1) \<and> tok \<noteq> end_array \<and> reads lx' u \<and> started lx' \<and>
       (\<forall>states sdp ys stack. sdp_ref_stack sdp = OpenArray ys # stack \<longrightarrow>
          sax_parse_internal (True # states) False tok lx1 sdp =
          resume (after_value states lx' (handle_value (JArray (ys @ xs)) (sdp\<lparr>sdp_ref_stack := stack\<rparr>))))))"

definition parses_members :: "(string \<times> json) list \<Rightarrow> bool" where
  "parses_members ms \<longleftrightarrow> (\<forall>t u lx. dump_members ms = Inr t \<longrightarrow> reads lx (t @ CHR ''}'' # u) \<longrightarrow>
     (\<exists>lx1 lx'. scan lx = (value_string, lx1) \<and> reads lx' u \<and> started lx' \<and>
       (\<forall>states sdp kvs k stack. sdp_ref_stack sdp = OpenObject kvs k # stack \<longrightarrow>
          (\<exists>tok lx2 sdp2. parse_key value_string lx1 sdp = Inr (tok, lx2, sdp2) \<and>
             sax_parse_internal (False # states) False tok lx2 sdp2 =
             resume (after_value states lx' (handle_value (JObject (put_members kvs ms)) (sdp\<lparr>sdp_ref_stack := stack\<rparr>)))))))"

lemma parses_scalar:
  assumes "\<And>t u lx. dump j = Inr t \<Longrightarrow> reads lx (t @ u) \<Longrightarrow> value_ends u \<Longrightarrow>
      \<exists>tok lx1. scan lx = (tok, lx1) \<and> reads lx1 u \<and> started lx1 \<and> tok \<noteq> begin_array \<and> tok \<noteq> begin_object \<and> 
        token_value tok lx1 = Some (Inr j)"
  shows "parses_value j"
  unfolding parses_value_def
proof (intro allI impI)
  fix t u lx
  assume "dump j = Inr t" "reads lx (t @ u)" "value_ends u"
  from assms [OF this] obtain tok lx1 where *: "scan lx = (tok, lx1)" "reads lx1 u" "started lx1"
    "tok \<noteq> begin_array" "tok \<noteq> begin_object" "token_value tok lx1 = Some (Inr j)" by blast
  moreover from *(6) have "tok \<noteq> end_array" by (auto simp: token_value_def split: if_splits)
  ultimately show "\<exists>tok lx1 lx'. scan lx = (tok, lx1) \<and> tok \<noteq> end_array \<and> reads lx' u \<and> started lx' \<and>
       (\<forall>states sdp. sax_parse_internal states False tok lx1 sdp =
          resume (after_value states lx' (handle_value j sdp)))"
    by (intro exI [of _ tok] exI [of _ lx1]) (simp add: sax_parse_resume parser_iteration_def)
qed

lemma parses_null: "parses_value JNull"
  using scan_literal_token [of _ "CHR ''n''" "''ull''" _ literal_null]
  by (intro parses_scalar) (fastforce simp: literal_token_def token_value_def)

lemma parses_bool: "parses_value (JBool b)"
  using scan_literal_token [of _ "CHR ''t''" "''rue''" _ literal_true]
    scan_literal_token [of _ "CHR ''f''" "''alse''" _ literal_false]
  by (intro parses_scalar) (fastforce simp: literal_token_def token_value_def split: if_splits)

lemma parses_string: "parses_value (JString s)"
  by (intro parses_scalar) (auto simp: token_value_def dest!: scan_quoted)

lemma length_number_buffer: "length number_buffer = 64"
  by (simp add: number_buffer_def)

lemma parses_unsigned: "n < 2 ^ 64 \<Longrightarrow> parses_value (JUnsigned n)"
  using scan_unsigned [of n] dump_integer_show [of "int n" number_buffer]
  by (intro parses_scalar) (fastforce simp: length_number_buffer show_int_def token_value_def)

lemma parses_integer:
  assumes "- (2 ^ 63) \<le> i" "i < 0"
  shows "parses_value (JInteger i)"
  using assms scan_negative [of "nat (- i)"] dump_integer_show [of i number_buffer]
  by (intro parses_scalar) (fastforce simp: length_number_buffer show_int_def token_value_def nat_le_iff)


text \<open>The separators and the ends of arrays and objects.\<close>

lemma array_close:
  assumes "reads lx (CHR '']'' # u)"
  shows "\<exists>lx'. reads lx' u \<and> started lx' \<and>
    (\<forall>states sdp. resume (after_value (True # states) lx sdp) = resume (after_value states lx' (sax_end sdp)))"
proof -
  obtain lx' where "scan lx = (end_array, lx')" "reads lx' u" "started lx'"
    using scan_structural [OF assms] by (auto simp: structural_token_def)
  then show ?thesis
    by (intro exI [of _ lx']) (simp add: after_value_def resume_def sax_parse_resume parser_iteration_def)
qed

lemma object_close:
  assumes "reads lx (CHR ''}'' # u)"
  shows "\<exists>lx'. reads lx' u \<and> started lx' \<and>
    (\<forall>states sdp. resume (after_value (False # states) lx sdp) = resume (after_value states lx' (sax_end sdp)))"
proof -
  obtain lx' where "scan lx = (end_object, lx')" "reads lx' u" "started lx'"
    using scan_structural [OF assms] by (auto simp: structural_token_def)
  then show ?thesis
    by (intro exI [of _ lx']) (simp add: after_value_def resume_def sax_parse_resume parser_iteration_def)
qed

lemma array_more:
  assumes "reads lx (CHR '','' # u)"
  shows "\<exists>lx'. reads lx' u \<and> (\<forall>tok lx1 states sdp. scan lx' = (tok, lx1) \<longrightarrow>
    resume (after_value (True # states) lx sdp) = sax_parse_internal (True # states) False tok lx1 sdp)"
proof -
  obtain lx' where "scan lx = (value_separator, lx')" "reads lx' u" "started lx'"
    using scan_structural [OF assms] by (auto simp: structural_token_def)
  then show ?thesis by (intro exI [of _ lx']) (simp add: after_value_def resume_def)
qed

lemma object_more:
  assumes "reads lx (CHR '','' # u)"
  shows "\<exists>lx'. reads lx' u \<and> (\<forall>tok lx1 tok2 lx2 states sdp sdp2. scan lx' = (tok, lx1) \<longrightarrow>
    parse_key tok lx1 sdp = Inr (tok2, lx2, sdp2) \<longrightarrow>
    resume (after_value (False # states) lx sdp) = sax_parse_internal (False # states) False tok2 lx2 sdp2)"
proof -
  obtain lx' where "scan lx = (value_separator, lx')" "reads lx' u" "started lx'"
    using scan_structural [OF assms] by (auto simp: structural_token_def)
  then show ?thesis by (intro exI [of _ lx']) (simp add: after_value_def resume_def)
qed

lemma sax_end_array:
  "sdp_ref_stack sdp = OpenArray ys # stack \<Longrightarrow>
     sax_end (handle_value x sdp) = handle_value (JArray (ys @ [x])) (sdp\<lparr>sdp_ref_stack := stack\<rparr>)"
  by (simp add: handle_value_def sax_end_def)

lemma parses_elems_one: "parses_value x \<Longrightarrow> parses_elems [x]"
  unfolding parses_elems_def
proof (intro allI impI)
  fix t u lx
  assume x: "parses_value x" and t: "dump_elems [x] = Inr t" "reads lx (t @ CHR '']'' # u)"
  then obtain tok lx1 lx2 where 1: "scan lx = (tok, lx1)" "tok \<noteq> end_array" "reads lx2 (CHR '']'' # u)"
    "\<And>states sdp. sax_parse_internal states False tok lx1 sdp = resume (after_value states lx2 (handle_value x sdp))"
    unfolding parses_value_def dump_elems.simps by (metis value_ends_simps(3))
  obtain lx' where "reads lx' u" "started lx'"
    "\<And>states sdp. resume (after_value (True # states) lx2 sdp) = resume (after_value states lx' (sax_end sdp))"
    using array_close [OF 1(3)] by blast
  with 1 show "\<exists>tok lx1 lx'. scan lx = (tok, lx1) \<and> tok \<noteq> end_array \<and> reads lx' u \<and> started lx' \<and>
       (\<forall>states sdp ys stack. sdp_ref_stack sdp = OpenArray ys # stack \<longrightarrow>
          sax_parse_internal (True # states) False tok lx1 sdp =
          resume (after_value states lx' (handle_value (JArray (ys @ [x])) (sdp\<lparr>sdp_ref_stack := stack\<rparr>))))"
    by (intro exI [of _ tok] exI [of _ lx1] exI [of _ lx']) (simp add: sax_end_array)
qed

lemma parses_elems_more:
  assumes x: "parses_value x" and xs: "parses_elems (y # xs)"
  shows "parses_elems (x # y # xs)"
  unfolding parses_elems_def
proof (intro allI impI)
  fix t u lx
  assume "dump_elems (x # y # xs) = Inr t" and r: "reads lx (t @ CHR '']'' # u)"
  then obtain tx txs where t: "dump x = Inr tx" "dump_elems (y # xs) = Inr txs" "t = tx @ CHR '','' # txs"
    by (auto simp: cat_results_def split: sum.splits)
  with r have "reads lx (tx @ CHR '','' # txs @ CHR '']'' # u)" by simp
  with x t(1) obtain tok lx1 lx2 where 1: "scan lx = (tok, lx1)" "tok \<noteq> end_array"
    "reads lx2 (CHR '','' # txs @ CHR '']'' # u)"
    "\<And>states sdp. sax_parse_internal states False tok lx1 sdp = resume (after_value states lx2 (handle_value x sdp))"
    unfolding parses_value_def by (metis value_ends_simps(2))
  obtain lx3 where 3: "reads lx3 (txs @ CHR '']'' # u)" "\<And>tok lx1 states sdp. scan lx3 = (tok, lx1) \<Longrightarrow>
    resume (after_value (True # states) lx2 sdp) = sax_parse_internal (True # states) False tok lx1 sdp"
    using array_more [OF 1(3)] by blast
  obtain tok4 lx4 lx' where 4: "scan lx3 = (tok4, lx4)" "reads lx' u" "started lx'"
    "\<And>states sdp ys stack. sdp_ref_stack sdp = OpenArray ys # stack \<Longrightarrow>
          sax_parse_internal (True # states) False tok4 lx4 sdp =
          resume (after_value states lx' (handle_value (JArray (ys @ y # xs)) (sdp\<lparr>sdp_ref_stack := stack\<rparr>)))"
    using xs t(2) 3(1) unfolding parses_elems_def by metis
  have "sax_parse_internal (True # states) False tok lx1 sdp =
      resume (after_value states lx' (handle_value (JArray (ys @ x # y # xs)) (sdp\<lparr>sdp_ref_stack := stack\<rparr>)))"
    if "sdp_ref_stack sdp = OpenArray ys # stack" for states sdp ys stack
    using that 1(4) [of "True # states" sdp] 3(2) [OF 4(1)] 4(4) [of "handle_value x sdp" "ys @ [x]" stack]
    by (simp add: handle_value_def)
  with 1 4 show "\<exists>tok lx1 lx'. scan lx = (tok, lx1) \<and> tok \<noteq> end_array \<and> reads lx' u \<and> started lx' \<and>
       (\<forall>states sdp ys stack. sdp_ref_stack sdp = OpenArray ys # stack \<longrightarrow>
          sax_parse_internal (True # states) False tok lx1 sdp =
          resume (after_value states lx' (handle_value (JArray (ys @ x # y # xs)) (sdp\<lparr>sdp_ref_stack := stack\<rparr>))))"
    by (intro exI [of _ tok] exI [of _ lx1] exI [of _ lx']) simp
qed


lemma parses_array:
  assumes "parses_elems (x # xs)"
  shows "parses_value (JArray (x # xs))"
  unfolding parses_value_def
proof (intro allI impI)
  fix t u lx
  assume "dump (JArray (x # xs)) = Inr t" and r: "reads lx (t @ u)"
  then obtain txs where t: "dump_elems (x # xs) = Inr txs" "t = CHR ''['' # txs @ '']''"
    by (auto simp: cat_results_def split: sum.splits)
  with r have "reads lx (CHR ''['' # txs @ CHR '']'' # u)" by simp
  then obtain lx1 where 1: "scan lx = (begin_array, lx1)" "reads lx1 (txs @ CHR '']'' # u)"
    using scan_structural by (fastforce simp: structural_token_def)
  obtain tok lx2 lx' where 2: "scan lx1 = (tok, lx2)" "tok \<noteq> end_array" "reads lx' u" "started lx'"
    "\<And>states sdp ys stack. sdp_ref_stack sdp = OpenArray ys # stack \<Longrightarrow>
          sax_parse_internal (True # states) False tok lx2 sdp =
          resume (after_value states lx' (handle_value (JArray (ys @ x # xs)) (sdp\<lparr>sdp_ref_stack := stack\<rparr>)))"
    using assms t(1) 1(2) unfolding parses_elems_def by metis
  have "sax_parse_internal states False begin_array lx1 sdp =
      resume (after_value states lx' (handle_value (JArray (x # xs)) sdp))" for states sdp
    using 2(1,2) 2(5) [of "start_array sdp" "[]" "sdp_ref_stack sdp" states]
    by (simp add: sax_parse_resume [of states] parser_iteration_def resume_def start_array_def)
  with 1 2 show "\<exists>tok lx1 lx'. scan lx = (tok, lx1) \<and> tok \<noteq> end_array \<and> reads lx' u \<and> started lx' \<and>
       (\<forall>states sdp. sax_parse_internal states False tok lx1 sdp =
          resume (after_value states lx' (handle_value (JArray (x # xs)) sdp)))"
    by (intro exI [of _ begin_array] exI [of _ lx1] exI [of _ lx']) simp
qed

lemma parses_empty_array: "parses_value (JArray [])"
  unfolding parses_value_def
proof (intro allI impI)
  fix t u lx
  assume "dump (JArray []) = Inr t" and "reads lx (t @ u)"
  then have "reads lx (CHR ''['' # CHR '']'' # u)" by auto
  then obtain lx1 where 1: "scan lx = (begin_array, lx1)" "reads lx1 (CHR '']'' # u)"
    using scan_structural by (fastforce simp: structural_token_def)
  obtain lx' where 2: "scan lx1 = (end_array, lx')" "reads lx' u" "started lx'"
    using scan_structural [OF 1(2)] by (auto simp: structural_token_def)
  then have "sax_parse_internal states False begin_array lx1 sdp =
      resume (after_value states lx' (handle_value (JArray []) sdp))" for states sdp
    by (simp add: sax_parse_resume [of states] parser_iteration_def start_array_def sax_end_def)
  with 1 2 show "\<exists>tok lx1 lx'. scan lx = (tok, lx1) \<and> tok \<noteq> end_array \<and> reads lx' u \<and> started lx' \<and>
       (\<forall>states sdp. sax_parse_internal states False tok lx1 sdp =
          resume (after_value states lx' (handle_value (JArray []) sdp)))"
    by (intro exI [of _ begin_array] exI [of _ lx1] exI [of _ lx']) simp
qed

lemma parses_member:
  assumes v: "parses_value v" and q: "dump_quoted k = Inr tk" and tv: "dump v = Inr tv" and u: "value_ends u"
    and r: "reads lx (tk @ CHR '':'' # tv @ u)"
  shows "\<exists>lx1 lx' tok lx2. scan lx = (value_string, lx1) \<and> reads lx' u \<and> started lx' \<and>
    (\<forall>sdp. parse_key value_string lx1 sdp = Inr (tok, lx2, sax_key k sdp)) \<and>
    (\<forall>states sdp. sax_parse_internal states False tok lx2 sdp =
       resume (after_value states lx' (handle_value v sdp)))"
proof -
  obtain lx1 where 1: "scan lx = (value_string, lx1)" "reads lx1 (CHR '':'' # tv @ u)" "lx_token_buffer lx1 = k"
    using scan_quoted [OF q r] by blast
  obtain lx3 where 3: "scan lx1 = (name_separator, lx3)" "reads lx3 (tv @ u)"
    using scan_structural [OF 1(2)] by (auto simp: structural_token_def)
  obtain tok lx2 lx' where "scan lx3 = (tok, lx2)" "reads lx' u" "started lx'"
    "\<And>states sdp. sax_parse_internal states False tok lx2 sdp = resume (after_value states lx' (handle_value v sdp))"
    using v tv 3(2) u unfolding parses_value_def by metis
  with 1 3 show ?thesis
    by (intro exI [of _ lx1] exI [of _ lx'] exI [of _ tok] exI [of _ lx2]) (simp add: parse_key_def Let_def)
qed

lemma handle_member:
  assumes "sdp_ref_stack sdp = OpenObject kvs k' # stack"
  shows "handle_value v (sax_key k sdp) =
    sdp\<lparr>sdp_ref_stack := OpenObject (obj_set k v (obj_emplace k JNull kvs)) k # stack\<rparr>"
  using assms by (simp add: handle_value_def sax_key_def)

lemma parses_members_one:
  assumes "parses_value v"
  shows "parses_members [(k, v)]"
  unfolding parses_members_def
proof (intro allI impI)
  fix t u lx
  assume "dump_members [(k, v)] = Inr t" and r: "reads lx (t @ CHR ''}'' # u)"
  then obtain tk tv where t: "dump_quoted k = Inr tk" "dump v = Inr tv" "t = tk @ CHR '':'' # tv"
    by (auto simp: cat_results_def split: sum.splits)
  with r have "reads lx (tk @ CHR '':'' # tv @ CHR ''}'' # u)" by simp
  from parses_member [OF assms t(1,2) _ this] obtain lx1 lx3 tok lx2 where 1: "scan lx = (value_string, lx1)"
    "reads lx3 (CHR ''}'' # u)" "\<And>sdp. parse_key value_string lx1 sdp = Inr (tok, lx2, sax_key k sdp)"
    "\<And>states sdp. sax_parse_internal states False tok lx2 sdp = resume (after_value states lx3 (handle_value v sdp))"
    by auto
  obtain lx' where 2: "reads lx' u" "started lx'"
    "\<And>states sdp. resume (after_value (False # states) lx3 sdp) = resume (after_value states lx' (sax_end sdp))"
    using object_close [OF 1(2)] by blast
  have "sax_parse_internal (False # states) False tok lx2 (sax_key k sdp) =
      resume (after_value states lx' (handle_value (JObject (put_members kvs [(k, v)])) (sdp\<lparr>sdp_ref_stack := stack\<rparr>)))"
    if "sdp_ref_stack sdp = OpenObject kvs k' # stack"
    for states sdp kvs k' stack
    using 1(4) 2(3) handle_member [OF that] by (simp add: sax_end_def)
  with 1 2 show "\<exists>lx1 lx'. scan lx = (value_string, lx1) \<and> reads lx' u \<and> started lx' \<and>
       (\<forall>states sdp kvs k' stack. sdp_ref_stack sdp = OpenObject kvs k' # stack \<longrightarrow>
          (\<exists>tok lx2 sdp2. parse_key value_string lx1 sdp = Inr (tok, lx2, sdp2) \<and>
             sax_parse_internal (False # states) False tok lx2 sdp2 =
             resume (after_value states lx' (handle_value (JObject (put_members kvs [(k, v)])) (sdp\<lparr>sdp_ref_stack := stack\<rparr>)))))"
    by (intro exI [of _ lx1] exI [of _ lx']) blast
qed

lemma parses_members_more:
  assumes v: "parses_value v" and ms: "parses_members (m # ms)"
  shows "parses_members ((k, v) # m # ms)"
  unfolding parses_members_def
proof (intro allI impI)
  fix t u lx
  assume "dump_members ((k, v) # m # ms) = Inr t" and r: "reads lx (t @ CHR ''}'' # u)"
  then obtain tk tv tms where t: "dump_quoted k = Inr tk" "dump v = Inr tv" "dump_members (m # ms) = Inr tms"
    "t = tk @ CHR '':'' # tv @ CHR '','' # tms"
    by (auto simp: cat_results_def split: sum.splits)
  with r have "reads lx (tk @ CHR '':'' # tv @ CHR '','' # tms @ CHR ''}'' # u)" by simp
  from parses_member [OF v t(1,2) _ this] obtain lx1 lx3 tok lx2 where 1: "scan lx = (value_string, lx1)"
    "reads lx3 (CHR '','' # tms @ CHR ''}'' # u)" "\<And>sdp. parse_key value_string lx1 sdp = Inr (tok, lx2, sax_key k sdp)"
    "\<And>states sdp. sax_parse_internal states False tok lx2 sdp = resume (after_value states lx3 (handle_value v sdp))"
    by auto
  obtain lx4 where 4: "reads lx4 (tms @ CHR ''}'' # u)"
    "\<And>tok lx1 tok2 lx2 states sdp sdp2. scan lx4 = (tok, lx1) \<Longrightarrow> parse_key tok lx1 sdp = Inr (tok2, lx2, sdp2) \<Longrightarrow>
       resume (after_value (False # states) lx3 sdp) = sax_parse_internal (False # states) False tok2 lx2 sdp2"
    using object_more [OF 1(2)] by blast
  obtain lx5 lx' where 5: "scan lx4 = (value_string, lx5)" "reads lx' u" "started lx'"
    "\<And>states sdp kvs k' stack. sdp_ref_stack sdp = OpenObject kvs k' # stack \<Longrightarrow>
          \<exists>tok lx2 sdp2. parse_key value_string lx5 sdp = Inr (tok, lx2, sdp2) \<and>
             sax_parse_internal (False # states) False tok lx2 sdp2 =
             resume (after_value states lx' (handle_value (JObject (put_members kvs (m # ms))) (sdp\<lparr>sdp_ref_stack := stack\<rparr>)))"
    using ms t(3) 4(1) unfolding parses_members_def by metis
  have "sax_parse_internal (False # states) False tok lx2 (sax_key k sdp) =
      resume (after_value states lx' (handle_value (JObject (put_members kvs ((k, v) # m # ms))) (sdp\<lparr>sdp_ref_stack := stack\<rparr>)))"
    if "sdp_ref_stack sdp = OpenObject kvs k' # stack"
    for states sdp kvs k' stack
    using 1(4) handle_member [OF that] 4(2) [OF 5(1)]
      5(4) [of "handle_value v (sax_key k sdp)" "obj_set k v (obj_emplace k JNull kvs)" k stack states] by auto
  with 1 5 show "\<exists>lx1 lx'. scan lx = (value_string, lx1) \<and> reads lx' u \<and> started lx' \<and>
       (\<forall>states sdp kvs k' stack. sdp_ref_stack sdp = OpenObject kvs k' # stack \<longrightarrow>
          (\<exists>tok lx2 sdp2. parse_key value_string lx1 sdp = Inr (tok, lx2, sdp2) \<and>
             sax_parse_internal (False # states) False tok lx2 sdp2 =
             resume (after_value states lx'
               (handle_value (JObject (put_members kvs ((k, v) # m # ms))) (sdp\<lparr>sdp_ref_stack := stack\<rparr>)))))"
    by (intro exI [of _ lx1] exI [of _ lx']) blast
qed

lemma parses_braces:
  assumes "parses_members (m # ms)" and "dump_members (m # ms) = Inr tms" and "reads lx (CHR ''{'' # tms @ CHR ''}'' # u)"
  shows "\<exists>lx1 lx'. scan lx = (begin_object, lx1) \<and> reads lx' u \<and> started lx' \<and>
    (\<forall>states sdp. sax_parse_internal states False begin_object lx1 sdp =
       resume (after_value states lx' (handle_value (JObject (put_members [] (m # ms))) sdp)))"
proof -
  obtain lx1 where 1: "scan lx = (begin_object, lx1)" "reads lx1 (tms @ CHR ''}'' # u)"
    using assms(3) scan_structural by (fastforce simp: structural_token_def)
  obtain lx2 lx' where 2: "scan lx1 = (value_string, lx2)" "reads lx' u" "started lx'"
    "\<And>states sdp kvs k' stack. sdp_ref_stack sdp = OpenObject kvs k' # stack \<Longrightarrow>
          \<exists>tok lx3 sdp2. parse_key value_string lx2 sdp = Inr (tok, lx3, sdp2) \<and>
             sax_parse_internal (False # states) False tok lx3 sdp2 =
             resume (after_value states lx' (handle_value (JObject (put_members kvs (m # ms))) (sdp\<lparr>sdp_ref_stack := stack\<rparr>)))"
    using assms(1,2) 1(2) unfolding parses_members_def by metis
  have "sax_parse_internal states False begin_object lx1 sdp =
      resume (after_value states lx' (handle_value (JObject (put_members [] (m # ms))) sdp))" for states sdp
    using 2(1) 2(4) [of "start_object sdp" "[]" "[]" "sdp_ref_stack sdp" states]
    by (auto simp: sax_parse_resume [of states] parser_iteration_def resume_def start_object_def)
  with 1 2 show ?thesis by (intro exI [of _ lx1] exI [of _ lx']) simp
qed

lemma parses_object:
  assumes "parses_members (m # ms)" and "sorted_wrt (<) (map fst (m # ms))"
  shows "parses_value (JObject (m # ms))"
  unfolding parses_value_def
proof (intro allI impI)
  fix t u lx
  assume "dump (JObject (m # ms)) = Inr t" and r: "reads lx (t @ u)"
  then obtain tms where t: "dump_members (m # ms) = Inr tms" "t = CHR ''{'' # tms @ ''}''"
    by (auto simp: cat_results_def split: sum.splits)
  with r have "reads lx (CHR ''{'' # tms @ CHR ''}'' # u)" by simp
  moreover have "put_members [] (m # ms) = m # ms" using put_members_sorted [of "[]" "m # ms"] assms(2) by simp
  ultimately obtain lx1 lx' where 1: "scan lx = (begin_object, lx1)" "reads lx' u" "started lx'"
    "\<And>states sdp. sax_parse_internal states False begin_object lx1 sdp =
       resume (after_value states lx' (handle_value (JObject (m # ms)) sdp))"
    using parses_braces [OF assms(1) t(1)] by metis
  then show "\<exists>tok lx1 lx'. scan lx = (tok, lx1) \<and> tok \<noteq> end_array \<and> reads lx' u \<and> started lx' \<and>
       (\<forall>states sdp. sax_parse_internal states False tok lx1 sdp =
          resume (after_value states lx' (handle_value (JObject (m # ms)) sdp)))"
    by (intro exI [of _ begin_object] exI [of _ lx1] exI [of _ lx']) simp
qed

lemma parses_empty_object: "parses_value (JObject [])"
  unfolding parses_value_def
proof (intro allI impI)
  fix t u lx
  assume "dump (JObject []) = Inr t" and "reads lx (t @ u)"
  then have "reads lx (CHR ''{'' # CHR ''}'' # u)" by auto
  then obtain lx1 where 1: "scan lx = (begin_object, lx1)" "reads lx1 (CHR ''}'' # u)"
    using scan_structural by (fastforce simp: structural_token_def)
  obtain lx' where 2: "scan lx1 = (end_object, lx')" "reads lx' u" "started lx'"
    using scan_structural [OF 1(2)] by (auto simp: structural_token_def)
  then have "sax_parse_internal states False begin_object lx1 sdp =
      resume (after_value states lx' (handle_value (JObject []) sdp))" for states sdp
    by (simp add: sax_parse_resume [of states] parser_iteration_def start_object_def sax_end_def)
  with 1 2 show "\<exists>tok lx1 lx'. scan lx = (tok, lx1) \<and> tok \<noteq> end_array \<and> reads lx' u \<and> started lx' \<and>
       (\<forall>states sdp. sax_parse_internal states False tok lx1 sdp =
          resume (after_value states lx' (handle_value (JObject []) sdp)))"
    by (intro exI [of _ begin_object] exI [of _ lx1] exI [of _ lx']) simp
qed

section \<open>The round trip\<close>

lemma dump_parses:
  "json_wf j \<Longrightarrow> json_exact j \<Longrightarrow> parses_value j"
  "\<forall>x\<in>set xs. json_wf x \<and> json_exact x \<Longrightarrow> xs \<noteq> [] \<Longrightarrow> parses_elems xs"
  "\<forall>(k, v)\<in>set ms. json_wf v \<and> json_exact v \<Longrightarrow> ms \<noteq> [] \<Longrightarrow> parses_members ms"
proof (induction j and xs and ms rule: dump_dump_elems_dump_members.induct)
  case (10 m ms)
  then have "parses_members (m # ms)" by (fastforce simp: case_prod_beta)
  with 10 show ?case by (intro parses_object) simp_all
qed (simp_all add: parses_null parses_bool parses_integer parses_unsigned parses_string parses_empty_array
    parses_array parses_empty_object parses_elems_one parses_elems_more parses_members_one parses_members_more)

lemma json_parse_value:
  assumes "scan (lexer_new t False) = (tok, lx1)" "reads lx' []" "started lx'"
    and "\<And>states sdp. sax_parse_internal states False tok lx1 sdp = resume (after_value states lx' (handle_value j sdp))"
  shows "json_parse t = Inr j"
proof -
  obtain lx2 where "scan lx' = (end_of_input, lx2)" using scan_end [OF assms(2,3)] by (metis prod.collapse)
  with assms(1,4) show ?thesis by (simp add: json_parse_def after_value_def resume_def handle_value_def dom_new_def)
qed

lemma reads_new: "reads (lexer_new t False) t"
  by (simp add: reads_def lexer_new_def ahead_def)

lemma json_parse_dump:
  assumes "json_wf j" "json_exact j" and "dump j = Inr t"
  shows "json_parse t = Inr j"
proof -
  have "reads (lexer_new t False) (t @ [])" using reads_new by simp
  with dump_parses(1) [OF assms(1,2)] assms(3) obtain tok lx1 lx' where "scan (lexer_new t False) = (tok, lx1)"
    "reads lx' []" "started lx'"
    "\<And>states sdp. sax_parse_internal states False tok lx1 sdp = resume (after_value states lx' (handle_value j sdp))"
    unfolding parses_value_def by (metis value_ends_simps(1))
  then show ?thesis by (rule json_parse_value)
qed

text \<open>An object whose members come in any order.\<close>

lemma json_parse_members:
  assumes "\<forall>(k, v)\<in>set (m # ms). json_wf v \<and> json_exact v" and "dump_members (m # ms) = Inr t"
  shows "json_parse (CHR ''{'' # t @ ''}'') = Inr (JObject (put_members [] (m # ms)))"
proof -
  have "parses_members (m # ms)" using dump_parses(3) [OF assms(1)] by simp
  from parses_braces [OF this assms(2) reads_new] obtain lx1 lx' where
    "scan (lexer_new (CHR ''{'' # t @ ''}'') False) = (begin_object, lx1)" "reads lx' []" "started lx'"
    "\<And>states sdp. sax_parse_internal states False begin_object lx1 sdp =
       resume (after_value states lx' (handle_value (JObject (put_members [] (m # ms))) sdp))"
    by blast
  then show ?thesis by (rule json_parse_value)
qed

text \<open>The serialiser and the parser as a codec of the values that the text determines.\<close>

interpretation json_text: codec dump json_parse "\<lambda>j. json_wf j \<and> json_exact j"
  using dump_total(1) json_parse_dump by unfold_locales blast

text \<open>
  C31: What the serialiser writes, the parser reads back.  For every value without doubles whose
  strings are UTF-8, whose integers fit their types and whose objects are ordered by key, \<^verbatim>\<open>dump\<close>
  returns a text, and \<^verbatim>\<open>json::parse\<close> of that text returns the value: every escape, every UTF-8
  sequence, every integer up to the limits of 64 bits, and any nesting of arrays and objects.
\<close>

theorem json_round_trip:
  assumes "json_wf j" and "json_exact j"
  shows "\<exists>t. dump j = Inr t \<and> json_parse t = Inr j"
  using json_text.decode_encode assms by blast

theorem json_round_trip_witness:
  "\<exists>t. dump (JObject [(''a'', JArray [JInteger (- 5), JString [LF, CHR 0xC3, CHR 0xA9]])]) = Inr t \<and>
     json_parse t = Inr (JObject [(''a'', JArray [JInteger (- 5), JString [LF, CHR 0xC3, CHR 0xA9]])])"
proof (rule json_round_trip)
  show "json_wf (JObject [(''a'', JArray [JInteger (- 5), JString [LF, CHR 0xC3, CHR 0xA9]])])" by code_simp
  show "json_exact (JObject [(''a'', JArray [JInteger (- 5), JString [LF, CHR 0xC3, CHR 0xA9]])])" by simp
qed



end
