(* ===== verification/GoJson.thy ===== *)
theory GoJson
  imports GoStd JsonRoundTrip
begin

text \<open>
  The two JSON libraries understand each other: what the serialiser of the gateway writes for a string,
  the scanner of \<^verbatim>\<open>encoding/json\<close> reads back, byte for byte, and what \<^verbatim>\<open>Marshal\<close> writes for plain text and
  integers is what the serialiser of the gateway would write.
\<close>

section \<open>Strings of the gateway\<close>

text \<open>A text that the scanner takes in, inside a string, without an end.\<close>

definition scans :: "string \<Rightarrow> bool" where
  "scans t \<longleftrightarrow> (\<forall>fs lit u. readValue \<lparr>js_step = stateInString, js_frames = fs, js_literal = lit\<rparr> (t @ u) =
     readValue \<lparr>js_step = stateInString, js_frames = fs, js_literal = lit @ t\<rparr> u)"

lemma scans_Nil: "scans []"
  by (simp add: scans_def)

lemma scans_append: "scans t \<Longrightarrow> scans t' \<Longrightarrow> scans (t @ t')"
  by (simp add: scans_def)

lemma scans_plain: "c \<noteq> CHR 0x22 \<Longrightarrow> c \<noteq> CHR 0x5C \<Longrightarrow> (0x20 :: nat) \<le> of_char c \<Longrightarrow> scans [c]"
  by (simp add: scans_def scan_step_def Let_def)

lemma scans_high: "\<forall>c\<in>set bs. (128 :: nat) \<le> of_char c \<Longrightarrow> scans bs"
proof (induction bs)
  case (Cons c bs)
  then have "scans [c]" by (intro scans_plain) auto
  with Cons scans_append [of "[c]" bs] show ?case by simp
qed (rule scans_Nil)

lemma scans_escape:
  "e \<in> set [CHR ''b'', CHR ''f'', CHR ''n'', CHR ''r'', CHR ''t'', CHR 0x5C, CHR 0x22] \<Longrightarrow> scans [CHR 0x5C, e]"
  by (auto simp: scans_def scan_step_def Let_def)

lemma hex_value_digit: "d < 16 \<Longrightarrow> hex_value (hex_digit d) = Some d"
  by (simp add: hex_value_def hex_digit_code Let_def)

lemma scans_hex: "list_all (\<lambda>d. d < 16) [d0, d1, d2, d3] \<Longrightarrow> scans (CHR 0x5C # CHR ''u'' # map hex_digit [d0, d1, d2, d3])"
  by (simp add: scans_def scan_step_def Let_def hex_value_digit numeral_eq_Suc)

lemma unquote_escape:
  "e \<noteq> CHR ''u'' \<Longrightarrow> unquote (CHR 0x5C # e # t) = simple_escape e # unquote t"
  by (subst unquote.simps) (simp add: getu4_def split: list.split)

lemma unquote_plain: "c \<noteq> CHR 0x5C \<Longrightarrow> (of_char c :: nat) < 128 \<Longrightarrow> unquote (c # t) = c # unquote t"
  by (subst unquote.simps) simp

lemma unquote_control:
  assumes "(of_char c :: nat) < 32"
  shows "unquote (CHR 0x5C # CHR ''u'' # map hex_digit [0, 0, of_char c div 16, of_char c mod 16] @ t) = c # unquote t"
proof -
  have "(of_char c :: nat) div 16 < 16" using assms by simp
  then have "getu4 (CHR 0x5C # CHR ''u'' # map hex_digit [0, 0, of_char c div 16, of_char c mod 16] @ t) = Some (of_char c)"
    by (simp add: getu4_def hex_value_digit)
  moreover have "drop 6 (CHR 0x5C # CHR ''u'' # map hex_digit [0, 0, of_char c div 16, of_char c mod 16] @ t) = t" by simp
  ultimately show ?thesis using assms by (subst unquote.simps) (simp add: encode_rune_def)
qed

lemma utf8_rune_ranges:
  "utf8_ranges b = Some rs \<Longrightarrow> \<exists>rs'. rune_ranges b = Some rs' \<and> rs = map (map_prod int int) rs'"
  by (auto simp: utf8_ranges_def rune_ranges_def split: if_splits)

lemma continues_follows:
  "continues bs (map (map_prod int int) rs) \<Longrightarrow> follows (bs @ t) rs \<and> length bs = length rs"
proof (induction rs arbitrary: bs)
  case (Cons r rs)
  then show ?case by (cases bs; cases r) (auto simp: continues_def)
qed (simp add: continues_def)

lemma continues_high:
  assumes "utf8_ranges b = Some rs" and "continues bs rs"
  shows "\<forall>c\<in>set bs. (128 :: nat) \<le> of_char c"
proof -
  have "\<forall>r\<in>set rs. 128 \<le> fst r" using assms(1) by (auto simp: utf8_ranges_def split: if_splits)
  with assms(2) show ?thesis unfolding continues_def
  proof (induction bs rs rule: list_all2_induct)
    case (Cons x xs y ys)
    then show ?case by (cases y) auto
  qed simp
qed

lemma unquote_rune:
  assumes "(128 :: nat) \<le> of_char c" "utf8_ranges (of_char c) = Some rs" "continues bs rs"
  shows "unquote (c # bs @ t) = c # bs @ unquote t"
proof -
  from utf8_rune_ranges [OF assms(2)] obtain rs' where rs': "rune_ranges (of_char c) = Some rs'" "rs = map (map_prod int int) rs'"
    by blast
  with continues_follows [of bs rs' t] assms(1,3) have "rune_size (c # bs @ t) = Suc (length bs)" by (simp add: rune_size_def)
  moreover have "c \<noteq> CHR 0x5C" using assms(1) by auto
  ultimately show ?thesis using assms(1) by (subst unquote.simps) simp
qed

lemma escape_read:
  assumes "(of_char c :: nat) < 128" and "unat cp = of_char c"
  shows "scans (escape_codepoint cp c)" "unquote (escape_codepoint cp c @ t) = c # unquote t"
    "length (escape_codepoint cp c) \<le> 6"
proof -
  let ?special = "c \<in> {CHR 0x08, CHR 0x09, CHR 0x0A, CHR 0x0C, CHR 0x0D, CHR 0x22, CHR 0x5C}"
  consider (special) ?special | (control) "\<not> ?special" "(of_char c :: nat) < 32"
    | (plain) "\<not> ?special" "(32 :: nat) \<le> of_char c" by linarith
  then have "scans (escape_codepoint cp c) \<and> unquote (escape_codepoint cp c @ t) = c # unquote t \<and>
    length (escape_codepoint cp c) \<le> 6"
  proof cases
    case special
    then show ?thesis using escape_ascii [OF assms(2)]
      by (elim insertE) (simp_all add: scans_escape unquote_escape simple_escape_def)
  next
    case control
    have "(of_char c :: nat) div 16 < 16" using control(2) by simp
    then have "scans (CHR 0x5C # CHR ''u'' # map hex_digit [0, 0, of_char c div 16, of_char c mod 16])"
      by (intro scans_hex) simp
    with control escape_ascii [OF assms(2)] unquote_control [OF control(2), of t] show ?thesis by simp
  next
    case plain
    with escape_ascii [OF assms(2)] scans_plain [of c] unquote_plain [of c t] assms(1) show ?thesis by simp
  qed
  then show "scans (escape_codepoint cp c)" "unquote (escape_codepoint cp c @ t) = c # unquote t"
    "length (escape_codepoint cp c) \<le> 6" by blast+
qed

lemma dump_escaped_read:
  "dump_escaped_from 0 cp s = Inr t \<Longrightarrow> scans t \<and> unquote t = s \<and> length t \<le> 6 * length s"
proof (induction s arbitrary: cp t rule: length_induct)
  case (1 s)
  show ?case
  proof (cases s)
    case Nil
    with 1(2) show ?thesis by (simp add: scans_Nil unquote.simps [of "[]"])
  next
    case (Cons c cs)
    show ?thesis using 1(2) [unfolded Cons]
    proof (cases rule: dump_first)
      case (ascii cp' t')
      have "length cs < length s" using Cons by simp
      with 1(1) ascii(3) have "scans t' \<and> unquote t' = cs \<and> length t' \<le> 6 * length cs" by blast
      with ascii Cons escape_read [OF ascii(1,2)] show ?thesis by (auto intro: scans_append simp: add_mono)
    next
      case (more ranges bs cs' cp' t')
      have "length cs' < length s" using Cons more(3) by simp
      with 1(1) more(5) have ih: "scans t' \<and> unquote t' = cs' \<and> length t' \<le> 6 * length cs'" by blast
      have "scans (c # bs)" using more(1) continues_high [OF more(2,4)] by (intro scans_high) simp
      with more Cons ih scans_append [of "c # bs" t'] unquote_rune [OF more(1,2,4), of t'] show ?thesis by simp
    qed
  qed
qed

text \<open>A string of the gateway where the scanner expects a key or a value of an object.\<close>

lemma dump_quoted_read:
  assumes "dump_quoted s = Inr q" and "fs \<noteq> []" and "st \<in> {stateBeginString, stateBeginStringOrEmpty, stateBeginValue}"
  shows "readValue \<lparr>js_step = st, js_frames = fs, js_literal = []\<rparr> (q @ u) =
    readValue \<lparr>js_step = stateEndValue, js_frames = place (GoString s) fs, js_literal = []\<rparr> u"
proof -
  from assms(1) obtain t where t: "dump_escaped_from 0 0 s = Inr t" "q = CHR 0x22 # t @ [CHR 0x22]"
    by (auto simp: dump_quoted_def dump_escaped_def cat_results_def split: sum.splits)
  from dump_escaped_read [OF t(1)] have "scans t" "unquote t = s" by auto
  moreover have "scan_step \<lparr>js_step = st, js_frames = fs, js_literal = []\<rparr> (CHR 0x22) = scan_at stateInString fs []"
    using assms(3) by (auto simp: scan_step_def begin_string_def begin_value_def json_blank_def)
  ultimately show ?thesis
    using assms(2) by (simp add: t(2) scans_def scan_step_def scalar_ends_def Let_def)
qed

lemma dump_quoted_length: "dump_quoted s = Inr q \<Longrightarrow> length q \<le> 6 * length s + 2"
  using dump_escaped_read [of 0 s] by (auto simp: dump_quoted_def dump_escaped_def cat_results_def split: sum.splits)

text \<open>An object of two members that are strings.\<close>

lemma dump_pair_read:
  assumes "dump (JObject [(k1, JString s1), (k2, JString s2)]) = Inr t"
  shows "readValue scan_new t = ReadValue (GoObject [(k1, GoString s1), (k2, GoString s2)]) []"
    and "length t \<le> 6 * (length k1 + length s1 + length k2 + length s2) + 13"
proof -
  from assms obtain q1 q2 q3 q4 where q: "dump_quoted k1 = Inr q1" "dump_quoted s1 = Inr q2"
    "dump_quoted k2 = Inr q3" "dump_quoted s2 = Inr q4"
    "t = CHR ''{'' # q1 @ CHR '':'' # q2 @ CHR '','' # q3 @ CHR '':'' # q4 @ ''}''"
    by (auto simp: cat_results_def split: sum.splits)
  have open_brace: "scan_step scan_new (CHR ''{'') = scan_at stateBeginStringOrEmpty [parseObjectKey [] []] []"
    by (simp add: scan_step_def scan_new_def begin_value_def push_frame_def json_blank_def maxNestingDepth_def)
  have steps: "scan_step \<lparr>js_step = stateEndValue, js_frames = [parseObjectKey ms k], js_literal = []\<rparr> (CHR '':'') =
      scan_at stateBeginValue [parseObjectValue ms k] []"
    "scan_step \<lparr>js_step = stateEndValue, js_frames = [parseObjectValue ms k], js_literal = []\<rparr> (CHR '','') =
      scan_at stateBeginString [parseObjectKey ms k] []"
    "scan_step \<lparr>js_step = stateEndValue, js_frames = [parseObjectValue ms k], js_literal = []\<rparr> (CHR ''}'') =
      ScanEnds (GoObject ms)" for ms k
    by (simp_all add: scan_step_def json_blank_def container_ends_def)
  show "readValue scan_new t = ReadValue (GoObject [(k1, GoString s1), (k2, GoString s2)]) []"
    unfolding q(5) by (simp add: open_brace steps dump_quoted_read [OF q(1)] dump_quoted_read [OF q(2)]
        dump_quoted_read [OF q(3)] dump_quoted_read [OF q(4)])
  show "length t \<le> 6 * (length k1 + length s1 + length k2 + length s2) + 13"
    unfolding q(5) using q(1-4) [THEN dump_quoted_length] by simp
qed

section \<open>Texts of the control plane\<close>

text \<open>
  Where \<^verbatim>\<open>Marshal\<close> and the serialiser of the gateway write the same: ASCII text without the three
  characters that are special in HTML.
\<close>

definition plain_text :: "string \<Rightarrow> bool" where
  "plain_text s \<longleftrightarrow> ascii s \<and> list_all (\<lambda>c. c \<notin> {CHR ''<'', CHR ''>'', CHR ''&''}) s"

lemma escape_byte_same:
  assumes "unat cp = of_char c" and "c \<notin> {CHR ''<'', CHR ''>'', CHR ''&''}"
  shows "escape_codepoint cp c = escape_byte c"
proof -
  have "low_hex = hex_digit" by (rule ext) (simp add: low_hex_def hex_digit_def)
  with assms show ?thesis by (auto simp: escape_ascii escape_byte_def hex_digit_zero)
qed

lemma dump_escaped_marshal: "plain_text s \<Longrightarrow> dump_escaped_from 0 cp s = Inr (marshal_chars s)"
proof (induction s arbitrary: cp)
  case Nil
  then show ?case by (simp add: marshal_chars.simps)
next
  case (Cons c s)
  then have c: "(of_char c :: nat) < 128" "c \<notin> {CHR ''<'', CHR ''>'', CHR ''&''}" and s: "plain_text s"
    by (auto simp: plain_text_def ascii_def)
  from Cons(2) obtain t where t: "dump_escaped_from 0 cp (c # s) = Inr t"
    using dump_escaped_ascii [of "c # s"] unfolding plain_text_def by blast
  then show ?case
  proof (cases rule: dump_first)
    case (ascii cp' t')
    with Cons.IH [OF s, of cp'] t escape_byte_same [OF ascii(2) c(2)] c(1) show ?thesis
      by (subst marshal_chars.simps) simp
  qed (use c(1) in simp)
qed

lemma dump_quoted_marshal: "plain_text s \<Longrightarrow> dump_quoted s = Inr (marshal_string s)"
  by (simp add: dump_quoted_def dump_escaped_def cat_results_def dump_escaped_marshal marshal_string_def)

lemma dump_marshal:
  "plain_text s \<Longrightarrow> dump (JString s) = Inr (marshal (GoString s))"
  "dump (JBool b) = Inr (marshal (GoBool b))"
  "0 \<le> i \<Longrightarrow> i < 2 ^ 64 \<Longrightarrow> dump (JUnsigned (nat i)) = Inr (marshal (GoInt i))"
  using dump_integer_show [of i number_buffer]
  by (simp_all add: dump_quoted_marshal GoInt_def length_number_buffer)

lemma dump_members_marshal:
  assumes "list_all2 (\<lambda>(k, g) (k', j). k' = k \<and> plain_text k \<and> dump j = Inr (marshal g)) gs js"
  shows "dump_members js = Inr (separate (map (\<lambda>(k, v). marshal_string k @ CHR '':'' # marshal v) gs))"
  using assms
proof (induction gs js rule: list_all2_induct)
  case (Cons g gs j js)
  then show ?case
    by (cases gs; cases js; cases g; cases j) (auto simp: cat_results_def dump_quoted_marshal)
qed simp

text \<open>The gateway reads an object of the control plane, member by member.\<close>

lemma json_parse_marshal:
  assumes "list_all2 (\<lambda>(k, g) (k', j). k' = k \<and> plain_text k \<and> dump j = Inr (marshal g)) gs js"
    and "list_all (\<lambda>(k, j). json_wf j \<and> json_exact j) js" and "js \<noteq> []"
  shows "json_parse (marshal (GoObject gs)) = Inr (JObject (put_members [] js))"
proof (cases js)
  case (Cons m ms)
  with json_parse_members [of m ms] assms(2) dump_members_marshal [OF assms(1)] show ?thesis by (auto simp: list_all_iff)
qed (use assms(3) in simp)

lemma plain_text_wf: "plain_text s \<Longrightarrow> utf8_text s"
  by (simp add: plain_text_def utf8_ascii)

end
