(* ===== verification/JsonExceptions.thy ===== *)
theory JsonExceptions
  imports JsonRoundTrip
begin

text \<open>
  What the parser of the JSON library throws: a parse error, or out-of-range 406 for a number beyond
  the range of a double.  Every integer from \<open>2 ^ 1024\<close> on is such a number.
\<close>

section \<open>Numbers beyond the range of a double\<close>

lemma bit_length_bounds: "0 < n \<Longrightarrow> 2 ^ (bit_length n - 1) \<le> n \<and> n < 2 ^ bit_length n \<and> 0 < bit_length n"
proof (induction n rule: bit_length.induct)
  case (1 n)
  show ?case
  proof (cases "n div 2 = 0")
    case True
    with 1(2) have "n = 1" by auto
    then show ?thesis by (simp add: bit_length.simps)
  next
    case False
    with 1 have IH: "2 ^ (bit_length (n div 2) - 1) \<le> n div 2" "n div 2 < 2 ^ bit_length (n div 2)"
      "0 < bit_length (n div 2)" by auto
    then have "2 * 2 ^ (bit_length (n div 2) - 1) \<le> n" "n < 2 * 2 ^ bit_length (n div 2)" by linarith+
    moreover have "2 * 2 ^ (bit_length (n div 2) - 1) = (2 :: nat) ^ bit_length (n div 2)"
      using IH(3) by (simp add: power_eq_if)
    ultimately show ?thesis using 1(2) by (simp add: bit_length.simps [of n])
  qed
qed

lemma round_half_even_ge: "a div b \<le> round_half_even a b"
  by (simp add: round_half_even_def Let_def)

lemma round_ratio_overflow:
  assumes "2 ^ 1024 \<le> n"
  shows "round_ratio n 1 = DBL_INFINITY"
proof -
  define l where "l = bit_length n"
  have "0 < n" using assms by (simp add: order_less_le_trans [OF zero_less_power])
  with bit_length_bounds [of n] have b: "2 ^ (l - 1) \<le> n" "n < 2 ^ l" "0 < l" by (simp_all add: l_def)
  from assms b(2) have "(2 :: nat) ^ 1024 < 2 ^ l" by linarith
  then have l: "1024 < l" by (rule power_less_imp_less_exp [rotated]) simp
  have one: "bit_length 1 = 1" by (simp add: bit_length.simps)
  have e: "int l - int (bit_length 1) = int (l - 1)" using l one by simp
  have log: "floor_log2 n 1 = int (l - 1)"
    unfolding floor_log2_def l_def [symmetric] e using b(1) by (simp add: ratio_ge_def Let_def)
  have exp: "max (- 1074) (floor_log2 n 1 - 52) = int (l - 53)" unfolding log using l by simp
  have "52 + (l - 53) = l - 1" using l by simp
  then have "(2 :: nat) ^ 52 * 2 ^ (l - 53) = 2 ^ (l - 1)" by (metis power_add)
  with b(1) have "2 ^ 52 \<le> n div 2 ^ (l - 53)" by (simp add: less_eq_div_iff_mult_less_eq)
  then have q: "2 ^ 52 \<le> round_half_even (n * 1) (1 * 2 ^ (l - 53))"
    using round_half_even_ge [of n "2 ^ (l - 53)"] by simp
  have "2046 * 2 ^ 52 \<le> nat (int (l - 53) + 1074) * 2 ^ 52" using l by (intro mult_right_mono) auto
  with q have "DBL_INFINITY \<le> nat (int (l - 53) + 1074) * 2 ^ 52 + round_half_even (n * 1) (1 * 2 ^ (l - 53))"
    unfolding DBL_INFINITY_def by linarith
  then show ?thesis
    using \<open>0 < n\<close> exp by (simp add: round_ratio_def Let_def)
qed

lemma infinity_not_finite: "\<not> isfinite (word_of_nat DBL_INFINITY)"
  by (simp add: isfinite_def DBL_INFINITY_def)

lemma strtod_show_nat: "strtod (show_nat n) = word_of_nat (round_ratio n 1)"
proof -
  have d: "list_all is_digit (show_nat n)" "show_nat n \<noteq> []"
    using digits_value_show_nat [of n] by auto
  then have t: "takeWhile is_digit (show_nat n) = show_nat n" "dropWhile is_digit (show_nat n) = []"
    by (simp_all add: list_all_iff takeWhile_eq_all_conv)
  have "(case show_nat n of [] \<Rightarrow> False | c # _ \<Rightarrow> c = CHR ''-'') = False"
    using d by (cases "show_nat n") (auto simp: is_digit_def)
  then show ?thesis unfolding strtod_def Let_def by (simp add: t exponent_value_def digits_value_show)
qed

lemma scan_number_huge:
  assumes "2 ^ 1024 \<le> n" "lx_current lx = Some c" "show_nat n = c # ds" "reads lx ds" "started lx"
  shows "\<exists>lx'. scan_number lx = (value_float, lx') \<and> \<not> isfinite (lx_value_float lx')"
proof -
  let ?l = "add_current (reset lx)"
  have "0 < n" using assms(1) by (simp add: order_less_le_trans [OF zero_less_power])
  from show_nat_head [OF this] assms(3) have c: "c \<noteq> CHR ''0''" "is_digit c" "list_all is_digit ds" by auto
  then have "c \<noteq> CHR ''-''" by (auto simp: is_digit_def)
  moreover have "reads ?l (ds @ [])" "started ?l" "lx_token_buffer ?l = [c]" using assms by simp_all
  ultimately obtain lx' where
    "scan_number lx = number_token value_unsigned (unget lx')" "lx_token_buffer lx' = show_nat n"
    using scan_digits [OF c(3) value_ends_simps(1), of ?l value_unsigned] c(1) assms(2,3)
    by (auto simp: scan_number_def Let_def)
  moreover have "(2 :: nat) ^ 64 \<le> 2 ^ 1024" by (rule power_increasing) simp_all
  then have "\<not> n < 2 ^ 64" using assms(1) by linarith
  ultimately show ?thesis
    using infinity_not_finite strtod_show_nat [of n, unfolded round_ratio_overflow [OF assms(1)]]
    by (simp add: number_token_def Let_def digits_value_show)
qed

lemma json_parse_huge:
  assumes "2 ^ 1024 \<le> n"
  shows "json_parse (show_nat n) = Inl (JsonOutOfRange 406)"
proof -
  obtain c ds where c: "show_nat n = c # ds" "is_digit c"
    using digits_value_show_nat [of n] by (cases "show_nat n") auto
  then have nc: "\<not> json_space (Some c)" "c \<noteq> CHR 0xEF" "structural_token c = None" "literal_token c = None" "c \<noteq> CHR 0x22"
    by (auto simp: is_digit_def json_space_def structural_token_def literal_token_def)
  have "reads (lexer_new (show_nat n) False) (c # ds)" by (simp add: reads_def lexer_new_def ahead_def c(1))
  from scan_char [OF this nc(1,2)] obtain lx1 where lx1: "scan (lexer_new (show_nat n) False) = scan_token lx1"
    "lx_current lx1 = Some c" "reads lx1 ds" "started lx1" by blast
  from scan_number_huge [OF assms lx1(2) c(1) lx1(3,4)] nc c(2) lx1 obtain lx' where
    "scan (lexer_new (show_nat n) False) = (value_float, lx')" "\<not> isfinite (lx_value_float lx')"
    by (auto simp: scan_token_def)
  then show ?thesis
    by (simp add: json_parse_def sax_parse_internal.simps parser_iteration_def token_value_def)
qed

section \<open>The exceptions\<close>

definition parser_throws :: "cpp_exn \<Rightarrow> bool" where
  "parser_throws e \<longleftrightarrow> e = JsonParseError \<or> e = JsonOutOfRange 406"

lemma parse_key_throws: "parse_key t lx sdp = Inl e \<Longrightarrow> parser_throws e"
  by (auto simp: parse_key_def parser_throws_def Let_def split: if_splits prod.splits)

lemma after_value_throws: "after_value states lx sdp = ParserThrow e \<Longrightarrow> parser_throws e"
  by (auto simp: after_value_def parser_throws_def dest: parse_key_throws
      split: list.splits bool.splits prod.splits if_splits sum.splits)

lemma token_value_throws: "token_value t lx = Some (Inl e) \<Longrightarrow> parser_throws e"
  by (cases t) (auto simp: token_value_def parser_throws_def split: if_splits)

lemma parser_iteration_throws: "parser_iteration states skip t lx sdp = ParserThrow e \<Longrightarrow> parser_throws e"
  by (auto simp: parser_iteration_def dest: parse_key_throws after_value_throws token_value_throws
      split: prod.splits if_splits sum.splits option.splits) (simp add: parser_throws_def)

lemma sax_parse_throws: "sax_parse_internal states skip t lx sdp = Inl e \<Longrightarrow> parser_throws e"
proof (induction states skip t lx sdp rule: sax_parse_internal.induct)
  case (1 states skip t lx sdp)
  then show ?case
    by (subst (asm) (2) sax_parse_internal.simps) (auto dest: parser_iteration_throws split: parser_step.splits)
qed

lemma json_parse_throws: "json_parse text = Inl e \<Longrightarrow> parser_throws e"
  by (auto simp: json_parse_def dest: sax_parse_throws split: prod.splits sum.splits if_splits)
    (simp add: parser_throws_def)

end
