(* ===== verification/JsonMessages.thy ===== *)
theory JsonMessages
  imports JsonExceptions Handlers
begin

text \<open>
  The messages of the gateway with the JSON library as it is: the handlers take the parser as a
  parameter, and here it is the library's own.  What the handlers and the client of the control plane
  write, a reader of the same library understands.
\<close>

section \<open>Objects\<close>

abbreviation sendable :: "json \<Rightarrow> bool" where
  "sendable j \<equiv> json_wf j \<and> json_exact j"

lemma obj_emplace_sendable:
  "sendable (JObject kvs) \<Longrightarrow> utf8_text k \<Longrightarrow> sendable v \<Longrightarrow> sendable (JObject (obj_emplace k v kvs))"
  using set_obj_emplace [of k v kvs] sorted_obj_emplace [of kvs k v] by auto

lemma json_object_sendable:
  assumes "list_all (\<lambda>(k, v). utf8_text k \<and> sendable v) kvs"
  shows "sendable (json_object kvs)"
proof -
  have "sendable (JObject (fold (\<lambda>(k, v). obj_emplace k v) kvs acc))" if "sendable (JObject acc)" for acc
    using assms that
  proof (induction kvs arbitrary: acc)
    case (Cons m kvs)
    then show ?case by (cases m) (simp del: json_wf.simps json_exact.simps add: obj_emplace_sendable)
  qed simp
  from this [of "[]"] show ?thesis by (simp add: json_object_def)
qed

lemma field_utf8: "json_wf (JObject kvs) \<Longrightarrow> map_of kvs k = Some (JString s) \<Longrightarrow> utf8_text s"
  by (fastforce dest: map_of_SomeD)

section \<open>Authentication\<close>

lemma credentials_utf8:
  assumes "auth_credentials json_parse text = Inr (Some (client_id, token))"
  shows "utf8_text client_id" "utf8_text token"
  using auth_credentials_fields [OF assms] json_parse_ok field_utf8 by blast+

lemma credentials_object:
  "json_object [(''client_id'', JString client_id), (''token'', JString token)] =
     JObject [(''client_id'', JString client_id), (''token'', JString token)]"
  by (simp add: json_object_def)

lemma decision_object:
  "json_object [(''allowed'', JBool allowed), (''code'', JString code)] =
     JObject [(''allowed'', JBool allowed), (''code'', JString code)]"
  by (simp add: json_object_def)

lemma message_keys_utf8 [simp]:
  "utf8_text ''allowed''" "utf8_text ''code''" "utf8_text ''client_id''" "utf8_text ''token''"
  by (simp_all add: utf8_ascii ascii_def)

text \<open>The body of the request to the control plane says exactly what the client sent.\<close>

lemma credentials_body:
  assumes "utf8_text client_id" and "utf8_text token"
  shows "\<exists>body. dump (json_object [(''client_id'', JString client_id), (''token'', JString token)]) = Inr body \<and>
    json_parse body = Inr (JObject [(''client_id'', JString client_id), (''token'', JString token)])"
  unfolding credentials_object by (rule json_text.decode_encode) (simp add: assms)

lemma decision_body:
  assumes "utf8_text code"
  shows "\<exists>body. dump (json_object [(''allowed'', JBool allowed), (''code'', JString code)]) = Inr body \<and>
    json_parse body = Inr (JObject [(''allowed'', JBool allowed), (''code'', JString code)])"
  unfolding decision_object by (rule json_text.decode_encode) (simp add: assms)

lemma fixed_decisions:
  \<open>json_parse ''{"allowed":false,"code":"INVALID_REQUEST"}'' =
     Inr (JObject [(''allowed'', JBool False), (''code'', JString ''INVALID_REQUEST'')])\<close>
  \<open>json_parse ''{"allowed":true,"code":"OK"}'' =
     Inr (JObject [(''allowed'', JBool True), (''code'', JString ''OK'')])\<close>
  by (rule json_text.decode_encoded; code_simp)+

lemma get_string_Inr: "get_string j = Inr s \<longleftrightarrow> j = JString s"
  by (cases j) simp_all

lemma auth_reason_cases:
  assumes "auth_reason (JObject kvs) dflt = Inr reason"
  shows "reason = dflt \<or> (\<exists>k. map_of kvs k = Some (JString reason))"
  using assms unfolding auth_reason_def
  by (auto simp: try_bind_Inr_iff get_string_Inr split: if_splits option.splits)

lemma auth_reason_utf8:
  assumes "auth_reason (JObject kvs) dflt = Inr reason" and "json_wf (JObject kvs)" and "utf8_text dflt"
  shows "utf8_text reason"
  using auth_reason_cases [OF assms(1)] assms(3) field_utf8 [OF assms(2)] by blast

lemma checkAuth_body_utf8:
  assumes "checkAuth_body json_parse text result = Inr r" and "utf8_text (ar_reason_code result)"
  shows "utf8_text (ar_reason_code r)"
proof -
  from assms(1) obtain body where body: "json_parse text = Inr body"
    unfolding checkAuth_body_def by (auto simp: try_bind_Inr_iff)
  show ?thesis
  proof (cases body)
    case (JObject kvs)
    with assms body json_parse_ok [OF body] auth_reason_utf8 [of kvs] show ?thesis
      unfolding checkAuth_body_def by (auto simp del: json_wf.simps simp: try_bind_Inr_iff split: if_splits)
  qed (use assms body in \<open>auto simp: checkAuth_body_def\<close>)
qed

lemma checkAuth_utf8:
  assumes "checkAuth json_parse os c client_id token not_after w = Some (Inr r, w')"
  shows "utf8_text (ar_reason_code r)"
  using assms checkAuth_body_utf8
  by (auto simp: checkAuth_def Let_def AuthResult_default_def utf8_text_Nil split: sum.splits option.splits if_splits)

lemma checkAuth_no_throw:
  assumes "checkAuth parse os c client_id token not_after w = Some (Inl e, w')"
  shows "\<exists>e. dump (json_object [(''client_id'', JString client_id), (''token'', JString token)]) = Inl e"
  using assms
  by (auto simp: checkAuth_def requestJson_def requestJsonOnce_def validateHeaderValue_def try_bind_def Let_def
      split: sum.splits option.splits if_splits prod.splits)

lemma auth_refusal_readable:
  assumes "utf8_text (ar_reason_code result)" and "ar_outcome result \<noteq> Allowed"
  shows "\<exists>payload code. auth_refusal request result = Inr ((response_to request AUTH_RESP)\<lparr>
      resp_status_code := (if ar_outcome result = Denied then 401 else 503), resp_payload := payload,
      resp_close_connection := True\<rparr>) \<and>
    json_parse payload = Inr (JObject [(''allowed'', JBool False), (''code'', JString code)])"
proof -
  let ?code = "if ar_outcome result = Denied
    then (if ar_reason_code result = [] then ''INVALID_CREDENTIALS'' else ar_reason_code result) else ''AUTH_UNAVAILABLE''"
  have "utf8_text ?code" using assms(1) by (auto simp: utf8_ascii ascii_def)
  from decision_body [OF this, of False] show ?thesis by (auto simp: auth_refusal_def Let_def try_bind_def)
qed

text \<open>
  What the client is told: the status and the fate of the connection go with the outcome, and the
  payload is a JSON object that says whether the client is allowed.
\<close>

definition auth_reply :: "Request \<Rightarrow> AuthOutcome \<Rightarrow> Response \<Rightarrow> bool" where
  "auth_reply request outcome resp \<longleftrightarrow>
     answers request resp \<and> resp_type resp = AUTH_RESP \<and> \<not> resp_skip_write resp \<and>
     (resp_close_connection resp \<longleftrightarrow> outcome \<noteq> Allowed) \<and>
     (\<exists>code. json_parse (resp_payload resp) =
        Inr (JObject [(''allowed'', JBool (outcome = Allowed)), (''code'', JString code)]))"

lemma fixed_replies:
  "auth_reply request Denied (auth_invalid request)" "auth_reply request Allowed (auth_accepted request client_id)"
  using fixed_decisions by (simp_all add: auth_reply_def auth_invalid_def auth_accepted_def)

lemma checked_reply:
  assumes cred: "auth_credentials json_parse (req_payload request) = Inr (Some (client_id, token))"
    and run: "handleAuth json_parse os control_plane not_after request stats w = Some (resp, outcome, stats', w')"
  shows "\<exists>result. checkAuth json_parse os control_plane client_id token not_after w = Some (Inr result, w') \<and>
    outcome = ar_outcome result \<and> auth_reply request outcome resp \<and>
    resp_status_code resp = (case outcome of Allowed \<Rightarrow> 0 | Denied \<Rightarrow> 401 | Unavailable \<Rightarrow> 503) \<and>
    resp_client_id_to_authenticate resp = (if outcome = Allowed then Some client_id else None)"
proof -
  obtain x w1 where chk: "checkAuth json_parse os control_plane client_id token not_after w = Some (x, w1)"
    using run cred by (auto simp: handleAuth_def split: option.splits)
  from credentials_body [OF credentials_utf8 [OF cred]] checkAuth_no_throw chk obtain result where
    x: "x = Inr result" by (cases x) (auto, metis sum.distinct(1))
  show ?thesis
  proof (cases "ar_outcome result = Allowed")
    case True
    with run cred chk x fixed_replies(2) [of request client_id] show ?thesis
      by (auto simp: handleAuth_def auth_accepted_def)
  next
    case False
    obtain payload code where
      "auth_refusal request result = Inr ((response_to request AUTH_RESP)\<lparr>
         resp_status_code := (if ar_outcome result = Denied then 401 else 503), resp_payload := payload,
         resp_close_connection := True\<rparr>)"
      and "json_parse payload = Inr (JObject [(''allowed'', JBool False), (''code'', JString code)])"
      using auth_refusal_readable [OF _ False] checkAuth_utf8 chk x by blast
    with run cred chk x False show ?thesis
      by (cases "ar_outcome result") (auto simp: handleAuth_def auth_reply_def Let_def)
  qed
qed

text \<open>An example: a client logs in, and the control plane allows it.\<close>

definition login_request :: Request where
  \<open>login_request = (request_of 7 1 sample_response)\<lparr>req_type := AUTH, req_payload := ''{"client_id":"a","token":"b"}''\<rparr>\<close>

definition allow_reply :: string where
  \<open>allow_reply = header_block [''HTTP/1.1 200 OK'', content_length_line 16] @ CRLF @ ''{"allowed":true}''\<close>

lemma allow_reply_parsed:
  "hp_done (parse_all allow_reply)"
  \<open>takeResult (parse_all allow_reply) =
     \<lparr>hr_error = HttpError_None, hr_status_code = 200, hr_body = ''{"allowed":true}''\<rparr>\<close>
proof -
  have st: "valid_status_line ''HTTP/1.1 200 OK''" "status_of_line ''HTTP/1.1 200 OK'' = 200" by code_simp+
  have len: "content_length_line 16 = ''Content-Length: 16''" by code_simp
  have body: \<open>length ''{"allowed":true}'' = 16\<close> by simp
  have \<open>hp_done (parse_all allow_reply) \<and> takeResult (parse_all allow_reply) =
      \<lparr>hr_error = (if status_of_line ''HTTP/1.1 200 OK'' < 200 \<or> status_of_line ''HTTP/1.1 200 OK'' \<ge> 300
                   then HttpStatusError else HttpError_None),
       hr_status_code = status_of_line ''HTTP/1.1 200 OK'', hr_body = ''{"allowed":true}''\<rparr>\<close>
    by (rule complete_message_parsed [where hs = "[]" and ks = "[]"], unfold body len allow_reply_def)
      (simp_all add: st header_block_def MAX_CONTROL_PLANE_HTTP_HEADER_BYTES_def MAX_CONTROL_PLANE_HTTP_BODY_BYTES_def)
  with st show "hp_done (parse_all allow_reply)"
    \<open>takeResult (parse_all allow_reply) =
       \<lparr>hr_error = HttpError_None, hr_status_code = 200, hr_body = ''{"allowed":true}''\<rparr>\<close> by simp_all
qed

lemma login_texts:
  \<open>json_parse ''{"client_id":"a","token":"b"}'' = Inr (JObject [(''client_id'', JString ''a''), (''token'', JString ''b'')])\<close>
  \<open>json_parse ''{"allowed":true}'' = Inr (JObject [(''allowed'', JBool True)])\<close>
  by (rule json_text.decode_encoded; code_simp)+

lemma login_allowed:
  "\<exists>w'. handleAuth json_parse (reply_os allow_reply) sample_client None login_request stats_init io_new =
     Some (auth_accepted login_request ''a'', Allowed, stats_init, w')"
proof -
  obtain payload where
    dump: "dump (json_object [(''client_id'', JString ''a''), (''token'', JString ''b'')]) = Inr payload"
    using credentials_body [of "''a''" "''b''"] by (auto simp: utf8_ascii ascii_def)
  obtain w' where req: "requestJsonOnce (reply_os allow_reply) sample_client ''POST'' ''/auth/check'' payload
      None io_new = Some (Inr (takeResult (parse_all allow_reply)), w')"
    using reply_os_exchange [OF allow_reply_parsed(1), of "''/auth/check''" "''POST''"]
    by (auto simp: allow_reply_def header_block_def)
  have "checkAuth json_parse (reply_os allow_reply) sample_client ''a'' ''b'' None io_new =
      Some (Inr \<lparr>ar_outcome = Allowed, ar_http_error = HttpError_None, ar_http_status = 200, ar_reason_code = []\<rparr>, w')"
    unfolding checkAuth_def dump
    by (simp add: requestJson_def req allow_reply_parsed http_ok_def checkAuth_body_def auth_reason_def
        AuthResult_default_def login_texts)
  then show ?thesis
    by (auto simp: handleAuth_def auth_credentials_def login_request_def login_texts)
qed



section \<open>Statistics\<close>

text \<open>The sizes fit the 64-bit type they have in the program.\<close>

definition gauges_fit :: "gauges \<Rightarrow> bool" where
  "gauges_fit g \<longleftrightarrow>
     list_all (\<lambda>f. f g < 2 ^ 64)
       [g_request_queue_size, g_response_queue_size, g_request_queue_capacity, g_response_queue_capacity,
        g_request_queue_peak, g_response_queue_peak, g_auth_queue_size, g_auth_queue_capacity, g_auth_queue_peak,
        g_auth_in_flight]"

lemma stats_document_sendable:
  assumes "gauges_fit g"
  shows "sendable (stats_document g stats)"
proof -
  have u: "unat (x :: u64) < 2 ^ 64" for x using unsigned_less [of x] by simp
  have a: "utf8_text s" if "ascii s" for s using utf8_ascii that .
  show ?thesis
    unfolding stats_document_def Let_def
    by (rule json_object_sendable) (use assms u in \<open>simp add: gauges_fit_def a ascii_def\<close>)
qed

lemma handleStats_readable:
  assumes "gauges_fit g" and "handleStats g request stats = Inr resp"
  shows "json_parse (resp_payload resp) = Inr (stats_document g stats)"
  using assms(2) json_text.decode_encoded [OF stats_document_sendable [OF assms(1)]]
  by (auto simp: handleStats_def try_bind_Inr_iff)

section \<open>Dispatch\<close>

text \<open>
  C38: Every dispatched request is counted once and answered to its sender: the response carries the
  descriptor, connection id, version and request id of the request, never authenticates or closes
  the connection, and has the type that belongs to the request.  A statistics reply parses to exactly
  the statistics at that moment.  With the JSON library's own parser nothing but out-of-range 406
  escapes, and only from a log push.
\<close>

theorem dispatch_answers:
  assumes "gauges_fit g"
  shows "case dispatch json_parse tt ok g request stats store of (r, stats', store') \<Rightarrow>
     st_total_requests stats' = st_total_requests stats + 1 \<and>
     (case r of
        Inl e \<Rightarrow> req_type request = LOG_PUSH \<and> e = JsonOutOfRange 406
      | Inr resp \<Rightarrow>
          answers request resp \<and> resp_client_id_to_authenticate resp = None \<and>
          \<not> resp_close_connection resp \<and> \<not> resp_skip_write resp \<and>
          (if req_type request = PING then resp_type resp = PONG
           else if req_type request = ECHO
           then resp_type resp = ECHO_RESP \<and> resp_payload resp = req_payload request
           else if req_type request = STATS
           then resp_type resp = STATS_RESP \<and> json_parse (resp_payload resp) = Inr (stats_document g stats')
           else if req_type request = LOG_PUSH then resp_type resp \<in> {LOG_ACK, ERROR_RESP}
           else resp_type resp = ERROR_RESP))"
proof -
  have throws: "e = JsonOutOfRange 406" if "json_parse (req_payload request) = Inl e" "e \<noteq> JsonParseError" for e
    using json_parse_throws [OF that(1)] that(2) by (simp add: parser_throws_def)
  have stats: "r = handleStats g request stats' \<and> req_type request \<noteq> LOG_PUSH"
    if "req_type request = STATS" "dispatch json_parse tt ok g request stats store = (r, stats', store')" for r stats' store'
    using that by (auto simp: dispatch_def message_types Let_def)
  show ?thesis
    using dispatch_cases [where parse = json_parse and tt = tt and ok = ok and g = g and request = request
        and stats = stats and store = store] throws stats handleStats_readable [OF assms]
    by (fastforce split: prod.splits sum.splits if_splits)
qed

definition sample_gauges :: gauges where
  "sample_gauges =
     \<lparr>g_request_queue_size = 1, g_response_queue_size = 0, g_request_queue_capacity = 64, g_response_queue_capacity = 64,
      g_request_queue_peak = 3, g_response_queue_peak = 2, g_auth_queue_size = 0, g_auth_queue_capacity = 16,
      g_auth_queue_peak = 1, g_auth_in_flight = 0\<rparr>"

definition sample_store :: LogStorage where
  "sample_store = \<lparr>ls_use_stdout = True, ls_is_open = False, ls_failed = False, ls_lines = []\<rparr>"

theorem dispatch_answers_witness:
  "\<exists>resp. fst (dispatch json_parse [] True sample_gauges (login_request\<lparr>req_type := STATS\<rparr>) stats_init sample_store) = Inr resp \<and>
     json_parse (resp_payload resp) = Inr (stats_document sample_gauges (incrementRequests stats_init))"
proof -
  have "gauges_fit sample_gauges" by (simp add: gauges_fit_def sample_gauges_def)
  note dispatch_answers [OF this, where tt = "[]" and ok = True and request = "login_request\<lparr>req_type := STATS\<rparr>"
    and stats = stats_init and store = sample_store]
  moreover obtain resp where
    "handleStats sample_gauges (login_request\<lparr>req_type := STATS\<rparr>) (incrementRequests stats_init) = Inr resp"
    using handleStats_ok by blast
  ultimately show ?thesis by (simp add: dispatch_def message_types Let_def)
qed

text \<open>
  C40: A log push whose payload is an integer beyond the range of a double is not answered as invalid
  JSON: whatever the state of the store, the parser's out-of-range exception leaves the handler, no
  line is stored and the handler counts no error.
\<close>

theorem log_push_escapes:
  assumes "2 ^ 1024 \<le> n" and "length (show_nat n) \<le> 4096"
    and "req_type request = LOG_PUSH" and "req_payload request = show_nat n"
  shows "dispatch json_parse tt ok g request stats store = (Inl (JsonOutOfRange 406), incrementRequests stats, store)"
  using json_parse_huge [OF assms(1)] assms(2-4) digits_value_show_nat [of n]
  by (simp add: dispatch_def handleLogPush_def message_types)

theorem log_push_escapes_witness:
  "dispatch json_parse [] True sample_gauges
     (login_request\<lparr>req_type := LOG_PUSH, req_payload := show_nat (10 ^ 400)\<rparr>) stats_init sample_store =
   (Inl (JsonOutOfRange 406), incrementRequests stats_init, sample_store)"
proof (rule log_push_escapes)
  show "2 ^ 1024 \<le> (10 :: nat) ^ 400" by simp
  have "(10 :: nat) ^ 400 < 10 ^ 401" by (rule power_strict_increasing) simp_all
  then have "length (show_nat (10 ^ 400)) \<le> 401" by (rule length_show_nat_less) simp
  then show "length (show_nat (10 ^ 400)) \<le> 4096" by linarith
qed simp_all

end
