(* ===== verification/ControlGateway.thy ===== *)
theory ControlGateway
  imports ControlLockout GoJson JsonMessages
begin

text \<open>
  The two programs together: the gateway asks the control plane over HTTP whether a client may log in,
  and fetches the run-time configuration from it.  The network and \<^verbatim>\<open>net/http\<close> are in between; what is
  relied on is that a complete response is the reply of the control plane to the request that was sent.
\<close>

section \<open>Requests on their way\<close>

fun segments :: "string \<Rightarrow> string list" where
  "segments [] = [[]]"
| "segments (c # cs) = (if c = CHR ''/'' then [] # segments cs else (c # hd (segments cs)) # tl (segments cs))"

definition carries :: "string \<Rightarrow> string \<Rightarrow> string \<Rightarrow> http_request \<Rightarrow> bool" where
  "carries method path body r \<longleftrightarrow> hq_method r = method \<and> hq_path r = tl (segments path) \<and>
     hq_body r = (if method = ''POST'' then body else [])"

text \<open>
  A successful response to this request comes from the control plane, which ran in between the states
  \<open>s\<close> and \<open>s'\<close> of its store.
\<close>

definition relays ::
  "os \<Rightarrow> ControlPlaneClient \<Rightarrow> time_point option \<Rightarrow> io \<Rightarrow> string \<Rightarrow> string \<Rightarrow> string \<Rightarrow>
   's application \<Rightarrow> 's surroundings \<Rightarrow> 's \<Rightarrow> 's \<Rightarrow> bool" where
  "relays os c not_after w method path body a sur s s' \<longleftrightarrow>
     (\<forall>response w1. requestJson os c method path body not_after w = Some (Inr response, w1) \<longrightarrow> http_ok response \<longrightarrow>
        (\<exists>r reply. carries method path body r \<and> middleware a sur r s = (reply, s') \<and>
           hr_status_code response = int (hw_status reply) \<and> hr_body response = hw_body reply))"

section \<open>Logging in\<close>

lemma decodeJSON_failure: "decodeJSON rid fs z body = Inl reply \<Longrightarrow> hw_status reply \<in> {400, 413}"
  by (auto simp: decodeJSON_def first_value_def
      split: sum.splits prod.splits option.splits if_splits read_result.splits scan_result.splits)

lemma auth_path: "tl (segments ''/auth/check'') = [''auth'', ''check'']"
  by code_simp

lemma auth_check_served:
  assumes "middleware a sur r s = (reply, s')" and "carries ''POST'' ''/auth/check'' body r"
    and "200 \<le> hw_status reply" "hw_status reply < 300"
  obtains rid reply1 where "handleAuthCheck a sur rid r s = (reply1, s')" "hw_status reply1 = hw_status reply"
    "hw_body reply = hw_body reply1"
  using assms(1)
proof (cases rule: middleware_served)
  case media
  with assms(4) show thesis by simp
next
  case (served rid reply1)
  from served(1) assms(2) have "requireGateway a rid r (handleAuthCheck a sur rid r) s = (reply1, s')"
    by (simp add: serve_mux_def carries_def auth_path)
  with served(2,3) assms(4) that show thesis by (auto simp: requireGateway_def split: if_splits)
qed

text \<open>The control plane reads the credentials that the gateway wrote.\<close>

lemma credentials_fields:
  "unmarshal authCheckRequest_fields (GoObject [(''client_id'', GoString cid), (''token'', GoString secret)])
     \<lparr>ar_ClientID = [], ar_Token = []\<rparr> = Some \<lparr>ar_ClientID = cid, ar_Token = secret\<rparr>"
  by (simp add: unmarshal_def field_setter_def authCheckRequest_fields_def set_string_def)

lemma gateway_credentials_read:
  assumes "dump (json_object [(''client_id'', JString cid), (''token'', JString secret)]) = Inr body"
    and "carries ''POST'' ''/auth/check'' body r"
  shows "read_credentials rid r = Inr \<lparr>ar_ClientID = cid, ar_Token = secret\<rparr> \<or>
    maxRequestBodyBytes < length body \<and> (\<exists>reply. read_credentials rid r = Inl reply)"
proof -
  have r: "hq_body r = body" using assms(2) by (simp add: carries_def)
  note written = dump_pair_read [OF assms(1) [unfolded credentials_object]]
  show ?thesis
  proof (cases "length body \<le> maxRequestBodyBytes")
    case True
    from decodeJSON_read [OF this written(1) _ credentials_fields] r show ?thesis by simp
  next
    case False
    then show ?thesis
      by (auto simp: r decodeJSON_def split: sum.splits option.splits)
  qed
qed

text \<open>The gateway reads the decisions of the control plane.\<close>

lemma decision_read:
  assumes "plain_text code" and "plain_text reason"
  shows "json_parse (marshal (authCheckResponse allowed code reason)) =
    Inr (JObject [(''allowed'', JBool allowed), (''code'', JString code), (''reason'', JString reason)])"
proof -
  have "json_parse (marshal (authCheckResponse allowed code reason)) =
    Inr (JObject (put_members [] [(''allowed'', JBool allowed), (''code'', JString code), (''reason'', JString reason)]))"
    unfolding authCheckResponse_def
    by (rule json_parse_marshal) (use assms plain_text_wf in \<open>simp_all add: dump_marshal plain_text_def [of "_ # _"] ascii_def
        del: dump.simps marshal.simps\<close>)
  then show ?thesis by simp
qed

lemma decision_taken:
  assumes "plain_text code" and "plain_text reason"
  shows "checkAuth_body json_parse (hw_body (writeJSON [] 200 (authCheckResponse allowed code reason))) result =
    Inr (result\<lparr>ar_reason_code := code, ar_outcome := (if allowed then Allowed else Denied)\<rparr>)"
  using decision_read [OF assms]
  by (simp add: writeJSON_def Let_def checkAuth_body_def auth_reason_def)

text \<open>What the reply of the control plane means, and what the gateway makes of it.\<close>

definition moment :: "memoryStore \<Rightarrow> memoryStore \<Rightarrow> (memoryStore \<Rightarrow> bool) \<Rightarrow> bool" where
  "moment s s' P \<longleftrightarrow> (\<exists>s1. (store_step memory_store)\<^sup>*\<^sup>* s s1 \<and> (store_step memory_store)\<^sup>*\<^sup>* s1 s' \<and> P s1)"

abbreviation holds_secret :: "'s application \<Rightarrow> string \<Rightarrow> string \<Rightarrow> memoryStore \<Rightarrow> bool" where
  "holds_secret a cid secret s1 \<equiv> opens (vw_tokens (memory_view s1) cid) (app_pepper a) secret"

abbreviation locked_out :: "'s application \<Rightarrow> string \<Rightarrow> memoryStore \<Rightarrow> bool" where
  "locked_out a cid s1 \<equiv>
     (\<exists>now. fst (memory_authFailureLimited cid (fp_limit (app_authFailures a)) now s1) = Inr True)"

definition auth_meaning :: "memoryStore application \<Rightarrow> string \<Rightarrow> string \<Rightarrow> memoryStore \<Rightarrow> memoryStore \<Rightarrow> AuthOutcome \<Rightarrow> bool" where
  "auth_meaning a cid secret s s' outcome \<longleftrightarrow>
     (case outcome of
        Allowed \<Rightarrow> credentials_ok \<lparr>ar_ClientID = cid, ar_Token = secret\<rparr> \<and> moment s s' (holds_secret a cid secret)
      | Denied \<Rightarrow> credentials_ok \<lparr>ar_ClientID = cid, ar_Token = secret\<rparr> \<and>
          moment s s' (\<lambda>s1. \<not> holds_secret a cid secret s1 \<or> locked_out a cid s1)
      | Unavailable \<Rightarrow> True)"

lemma decision_opens:
  "decision_of cid (token_digest pepper secret) v = tokenAuthAllowed \<longleftrightarrow> opens (vw_tokens v cid) pepper secret"
  by (auto simp: decision_of_def opens_def split: option.splits)

lemma verified:
  assumes "call w n (verifyDigest memory_store cid (token_digest pepper secret)) s = (Inr d, s')"
  shows "d = tokenAuthAllowed \<longleftrightarrow> opens (vw_tokens (memory_view s) cid) pepper secret"
  using mem.verifyDigest_spec [of cid "token_digest pepper secret" _ s] assms decision_opens
  by (fastforce simp: performs_def elim!: call_result)

lemma plain_codes:
  "plain_text ''OK''" "plain_text ''ok''" "plain_text ''RATE_LIMITED''" "plain_text ''rate limited''"
  "plain_text ''TOKEN_DISABLED''" "plain_text ''token disabled''" "plain_text ''INVALID_CREDENTIALS''"
  "plain_text ''invalid token''"
  by code_simp+

lemma handleAuthCheck_meaning:
  assumes "handleAuthCheck a sur rid r s = (reply, s')" and store: "app_store a = memory_store"
    and "others_ok memory_store sur" and "200 \<le> hw_status reply" "hw_status reply < 300"
    and "read_credentials rid r = Inr \<lparr>ar_ClientID = cid, ar_Token = secret\<rparr>"
  shows "\<exists>code outcome. checkAuth_body json_parse (hw_body reply) result =
      Inr (result\<lparr>ar_reason_code := code, ar_outcome := outcome\<rparr>) \<and> outcome \<noteq> Unavailable \<and>
    auth_meaning a cid secret s s' outcome"
  using assms(1)
proof (cases rule: handleAuthCheck_cases)
  case unread
  with assms(6) show ?thesis by simp
next
  case (refused req)
  with assms(5) show ?thesis by simp
next
  case (failed req s1 e)
  with assms(5) show ?thesis by simp
next
  case (limited req b)
  note o = assms(3) [folded store]
  from limited(5) assms(5) obtain x where b: "b = Inr x" by (cases b) auto
  with limited(3) have x: "x = True" by simp
  from limited(1,2) assms(6) have req: "req = \<lparr>ar_ClientID = cid, ar_Token = secret\<rparr>" "credentials_ok req" by simp_all
  from limited(4) [unfolded store] b x req(1) have "locked_out a cid s"
    by (auto elim!: call_result) (metis fst_conv)
  moreover have "(store_step memory_store)\<^sup>*\<^sup>* s s'" using call_runs(1) [OF o limited(4)] store by simp
  ultimately have "auth_meaning a cid secret s s' Denied"
    using req by (auto simp: auth_meaning_def moment_def)
  with limited(5) b decision_taken [OF plain_codes(3,4), of False result] show ?thesis by auto
next
  case (denied req s1 d s2 n)
  note o = assms(3) [folded store]
  from denied(1,2) assms(6) have req: "req = \<lparr>ar_ClientID = cid, ar_Token = secret\<rparr>" "credentials_ok req" by simp_all
  have "(store_step memory_store)\<^sup>*\<^sup>* s s1" "(store_step memory_store)\<^sup>*\<^sup>* s1 s'"
    using call_runs(1) [OF o denied(4)] call_runs(2) [OF o denied(5)] call_runs(3) [OF o denied(6)] store by simp_all
  moreover have "\<not> holds_secret a cid secret s1" using verified [OF denied(5) [unfolded store req(1) authCheckRequest.simps]] denied(3) by simp
  ultimately have "auth_meaning a cid secret s s' Denied"
    using req by (auto simp: auth_meaning_def moment_def)
  moreover from denied(7) assms(5) obtain n' where "n = Inr n'" by (cases n) auto
  ultimately show ?thesis using denied(7)
    decision_taken [OF plain_codes(3,4), of False result] decision_taken [OF plain_codes(5,6), of False result]
    decision_taken [OF plain_codes(7,8), of False result] by auto
next
  case (allowed req s1 s2 u)
  note o = assms(3) [folded store]
  from allowed(1,2) assms(6) have req: "req = \<lparr>ar_ClientID = cid, ar_Token = secret\<rparr>" "credentials_ok req" by simp_all
  have "(store_step memory_store)\<^sup>*\<^sup>* s s1" "(store_step memory_store)\<^sup>*\<^sup>* s1 s'"
    using call_runs(1) [OF o allowed(3)] call_runs(2) [OF o allowed(4)] call_runs(4) [OF o allowed(5)] store by simp_all
  moreover have "holds_secret a cid secret s1" using verified [OF allowed(4) [unfolded store req(1) authCheckRequest.simps]] by simp
  ultimately have "auth_meaning a cid secret s s' Allowed"
    using req by (auto simp: auth_meaning_def moment_def)
  moreover from allowed(6) assms(5) have "reply = auth_allowed" by (auto split: if_splits)
  ultimately show ?thesis using decision_taken [OF plain_codes(1,2), of True result] by auto
qed

lemma handleAuthCheck_refuses:
  assumes "handleAuthCheck a sur rid r s = (reply, s')"
    and "\<not> (\<exists>req. read_credentials rid r = Inr req \<and> credentials_ok req)"
  shows "hw_status reply \<in> {400, 413}"
  using assms(1)
proof (cases rule: handleAuthCheck_cases)
  case unread
  then show ?thesis by (blast dest: decodeJSON_failure)
qed (use assms(2) in auto)

text \<open>
  C5: A login means what it says.  A client sends its credentials to the gateway, the gateway asks the
  control plane, and what the client is told goes back to the tokens: it is accepted only if at some
  moment during the login it had a token that was not disabled and has the digest of its secret, and it
  is denied only if at some moment it had none, or was locked out.  Neither the escapes of JSON nor
  anything the client can put into its credentials confuses the two programs.  Credentials that are empty
  or longer than the control plane takes are answered 503, as if the service were down.
\<close>

theorem login_end_to_end:
  assumes "handleAuth json_parse os c not_after request stats w = Some (resp, outcome, stats', w')"
    and "auth_credentials json_parse (req_payload request) = Inr (Some (cid, secret))"
    and "dump (json_object [(''client_id'', JString cid), (''token'', JString secret)]) = Inr body"
    and "relays os c not_after w ''POST'' ''/auth/check'' body a sur s s'"
    and "app_store a = memory_store" and "others_ok memory_store sur"
  shows "auth_reply request outcome resp \<and> auth_meaning a cid secret s s' outcome \<and>
    resp_client_id_to_authenticate resp = (if outcome = Allowed then Some cid else None) \<and>
    (\<not> credentials_ok \<lparr>ar_ClientID = cid, ar_Token = secret\<rparr> \<longrightarrow> outcome = Unavailable \<and> resp_status_code resp = 503)"
proof -
  let ?ok = "credentials_ok \<lparr>ar_ClientID = cid, ar_Token = secret\<rparr>"
  from checked_reply [OF assms(2,1)] obtain result where
    run: "checkAuth json_parse os c cid secret not_after w = Some (Inr result, w')"
    and reply: "outcome = ar_outcome result" "auth_reply request outcome resp"
      "resp_status_code resp = (case outcome of Allowed \<Rightarrow> 0 | Denied \<Rightarrow> 401 | Unavailable \<Rightarrow> 503)"
      "resp_client_id_to_authenticate resp = (if outcome = Allowed then Some cid else None)" by blast
  from run assms(3) obtain response where
    req: "requestJson os c ''POST'' ''/auth/check'' body not_after w = Some (Inr response, w')"
    by (auto simp: checkAuth_def Let_def split: option.splits sum.splits if_splits)
  have "auth_meaning a cid secret s s' outcome \<and> (\<not> ?ok \<longrightarrow> outcome = Unavailable)"
  proof (cases "http_ok response")
    case False
    with run assms(3) req reply(1) show ?thesis by (auto simp: checkAuth_def auth_meaning_def AuthResult_default_def)
  next
    case True
    with assms(4) req obtain r hr where r: "carries ''POST'' ''/auth/check'' body r" "middleware a sur r s = (hr, s')"
      "hr_status_code response = int (hw_status hr)" "hr_body response = hw_body hr" unfolding relays_def by blast
    with True have ok: "200 \<le> hw_status hr" "hw_status hr < 300" by (simp_all add: http_ok_def)
    from auth_check_served [OF r(2,1) ok] obtain rid reply1 where
      h: "handleAuthCheck a sur rid r s = (reply1, s')" "hw_status reply1 = hw_status hr" "hw_body hr = hw_body reply1" by metis
    have "\<exists>req. read_credentials rid r = Inr req \<and> credentials_ok req"
      using handleAuthCheck_refuses [OF h(1)] ok h(2) by fastforce
    with gateway_credentials_read [OF assms(3) r(1), of rid]
    have good: "read_credentials rid r = Inr \<lparr>ar_ClientID = cid, ar_Token = secret\<rparr>" ?ok by auto
    let ?result = "AuthResult_default\<lparr>ar_http_error := hr_error response, ar_http_status := hr_status_code response\<rparr>"
    from handleAuthCheck_meaning [OF h(1) assms(5,6) _ _ good(1), of ?result] ok h(2) obtain code outcome' where
      "checkAuth_body json_parse (hw_body reply1) ?result = Inr (?result\<lparr>ar_reason_code := code, ar_outcome := outcome'\<rparr>)"
      "auth_meaning a cid secret s s' outcome'" by auto
    with run assms(3) req reply(1) True r(4) h(3) good(2) show ?thesis by (auto simp: checkAuth_def Let_def)
  qed
  with reply show ?thesis by auto
qed

text \<open>A message of HTTP with the status 200, as the examples need it.\<close>

definition ok_message :: "string \<Rightarrow> string" where
  "ok_message body = header_block [''HTTP/1.1 200 OK'', content_length_line (length body)] @ CRLF @ body"

lemma length_show_nat: "length (show_nat n) \<le> Suc n"
proof (induction n rule: show_nat.induct)
  case (1 n)
  then show ?case by (cases "n < 10") (simp_all add: show_nat.simps [of n])
qed

lemma ok_message_parsed:
  assumes "length body \<le> 1000"
  shows "hp_done (parse_all (ok_message body))"
    "takeResult (parse_all (ok_message body)) = \<lparr>hr_error = HttpError_None, hr_status_code = 200, hr_body = body\<rparr>"
proof -
  have st: "valid_status_line ''HTTP/1.1 200 OK''" "status_of_line ''HTTP/1.1 200 OK'' = 200" by code_simp+
  have "hp_done (parse_all (ok_message body)) \<and> takeResult (parse_all (ok_message body)) =
      \<lparr>hr_error = (if status_of_line ''HTTP/1.1 200 OK'' < 200 \<or> status_of_line ''HTTP/1.1 200 OK'' \<ge> 300
                   then HttpStatusError else HttpError_None),
       hr_status_code = status_of_line ''HTTP/1.1 200 OK'', hr_body = body\<rparr>"
    by (rule complete_message_parsed [where hs = "[]" and ks = "[]"])
      (use assms length_show_nat [of "length body"] in \<open>simp_all add: st header_block_def content_length_line_def ok_message_def
        MAX_CONTROL_PLANE_HTTP_HEADER_BYTES_def MAX_CONTROL_PLANE_HTTP_BODY_BYTES_def\<close>)
  with st show "hp_done (parse_all (ok_message body))"
    "takeResult (parse_all (ok_message body)) = \<lparr>hr_error = HttpError_None, hr_status_code = 200, hr_body = body\<rparr>"
    by simp_all
qed

lemma ok_message_exchange:
  assumes "length body \<le> 1000" and "path \<noteq> []" "hd path = CHR ''/''" "CR \<notin> set path" "LF \<notin> set path"
    and "method = ''GET'' \<or> method = ''POST''"
  shows "\<exists>w'. requestJson (reply_os (ok_message body)) sample_client method path sent None io_new =
    Some (Inr \<lparr>hr_error = HttpError_None, hr_status_code = 200, hr_body = body\<rparr>, w')"
proof -
  have "ok_message body \<noteq> []" by (simp add: ok_message_def header_block_def)
  with reply_os_exchange [OF ok_message_parsed(1) [OF assms(1)] _ assms(2-6), of sent] show ?thesis
    by (simp add: requestJson_def ok_message_parsed(2) [OF assms(1)])
qed

text \<open>An example: the owner of the sample token logs in.\<close>

definition allowed_text :: string where
  \<open>allowed_text = ''{"allowed":true,"code":"OK","reason":"ok"}''\<close>

definition alice_request :: Request where
  "alice_request = login_request\<lparr>req_payload := hq_body check_request\<rparr>"

lemma allowed_text_written: "hw_body auth_allowed = allowed_text"
  unfolding writeJSON_def Let_def http_reply.simps by code_simp

lemma alice_body:
  "dump (json_object [(''client_id'', JString ''alice''), (''token'', JString ''sesame'')]) = Inr (hq_body check_request)"
  by code_simp

lemma alice_credentials: "auth_credentials json_parse (req_payload alice_request) = Inr (Some (''alice'', ''sesame''))"
proof -
  have "json_parse (hq_body check_request) = Inr (JObject [(''client_id'', JString ''alice''), (''token'', JString ''sesame'')])"
    using json_text.decode_encoded [OF _ alice_body [unfolded credentials_object]] by (simp add: utf8_ascii ascii_def)
  then show ?thesis by (simp add: auth_credentials_def alice_request_def)
qed

lemma alice_exchange:
  "\<exists>w'. requestJson (reply_os (ok_message allowed_text)) sample_client ''POST'' ''/auth/check'' (hq_body check_request) None
     io_new = Some (Inr \<lparr>hr_error = HttpError_None, hr_status_code = 200, hr_body = allowed_text\<rparr>, w')"
  by (rule ok_message_exchange) (simp_all add: allowed_text_def)

lemma alice_relayed:
  "relays (reply_os (ok_message allowed_text)) sample_client None io_new ''POST'' ''/auth/check'' (hq_body check_request)
     staging_application quiet_surroundings alice_store alice_store"
proof -
  obtain reply where "middleware staging_application quiet_surroundings check_request alice_store = (reply, alice_store)"
    "hw_status reply = 200" "hw_body reply = allowed_text"
    using alice_allowed [of "''secret''"] allowed_text_written
    by (auto simp: middleware_def serve_mux_def requireGateway_def digestEqual_def check_request_def staging_application_def
        new_application_def staging_config_def)
  moreover have "carries ''POST'' ''/auth/check'' (hq_body check_request) check_request"
    by (simp add: carries_def auth_path) (simp add: check_request_def)
  ultimately show ?thesis using alice_exchange by (force simp: relays_def)
qed

theorem login_end_to_end_witness:
  "\<exists>w'. handleAuth json_parse (reply_os (ok_message allowed_text)) sample_client None alice_request stats_init io_new =
     Some (auth_accepted alice_request ''alice'', Allowed, stats_init, w') \<and>
     auth_meaning staging_application ''alice'' ''sesame'' alice_store alice_store Allowed"
proof -
  obtain w' where ex: "requestJson (reply_os (ok_message allowed_text)) sample_client ''POST'' ''/auth/check'' (hq_body check_request)
      None io_new = Some (Inr \<lparr>hr_error = HttpError_None, hr_status_code = 200, hr_body = allowed_text\<rparr>, w')"
    using alice_exchange by blast
  with decision_taken [OF plain_codes(1,2), of True] alice_credentials alice_body allowed_text_written
  have "handleAuth json_parse (reply_os (ok_message allowed_text)) sample_client None alice_request stats_init io_new =
     Some (auth_accepted alice_request ''alice'', Allowed, stats_init, w')"
    by (simp add: handleAuth_def checkAuth_def http_ok_def Let_def)
  moreover have "app_store staging_application = memory_store" by (simp add: staging_application_def new_application_def)
  ultimately show ?thesis
    using login_end_to_end [OF _ alice_credentials alice_body alice_relayed _ others_ok_quiet] by blast
qed

end
