(* ===== verification/ControlConfig.thy ===== *)
theory ControlConfig
  imports ControlGateway
begin

text \<open>
  The run-time configuration on its way from the administrator through the control plane to the
  gateway.
\<close>

section \<open>Every configuration is in its ranges\<close>

definition config_ok :: "runtimeConfig \<Rightarrow> bool" where
  "config_ok c \<longleftrightarrow>
     10 \<le> cfg_MaxPayloadSize c \<and> cfg_MaxPayloadSize c \<le> 4194314 \<and>
     1 \<le> cfg_MaxConnectionsPerClient c \<and> cfg_MaxConnectionsPerClient c < 2 ^ 31 \<and>
     1 \<le> cfg_MaxRequestsPerClientPerSecond c \<and> cfg_MaxRequestsPerClientPerSecond c < 2 ^ 31 \<and>
     cfg_MaxPayloadSize c + 4 \<le> cfg_SlowClientOutputLimit c \<and> cfg_SlowClientOutputLimit c \<le> 67108864 \<and>
     cfg_LogLevel c \<in> set log_levels \<and> 1 \<le> cfg_RequestQueueCapacityDisplay c \<and>
     cfg_RequestQueueCapacityDisplay c \<le> 65536"

lemma config_ok_default: "config_ok defaultRuntimeConfig"
  by (simp add: config_ok_def defaultRuntimeConfig_def log_levels_def)

lemma config_ok_updated: "config_ok c \<Longrightarrow> validateConfigUpdate req = None \<Longrightarrow> config_ok (updated_config req c)"
  by (auto simp: config_ok_def validateConfigUpdate_def updated_config_def log_levels_def Let_def split: if_splits)

context control_store
begin

lemma step_config_ok: "store_step store s s' \<Longrightarrow> config_ok (vw_config (view s)) \<Longrightarrow> config_ok (vw_config (view s'))"
  by (erule step_cases)
    (auto simp: spec_create_def spec_rotate_def spec_disable_def spec_update_def intro: config_ok_updated)

lemma run_config_ok: "(store_step store)\<^sup>*\<^sup>* s s' \<Longrightarrow> config_ok (vw_config (view s)) \<Longrightarrow> config_ok (vw_config (view s'))"
  by (induction rule: rtranclp_induct) (auto intro: step_config_ok)

text \<open>With its version the configuration stays as it is.\<close>

lemma run_config_same:
  assumes "(store_step store)\<^sup>*\<^sup>* s s'" and "view_ok (view s)"
  shows "vw_config (view s') = vw_config (view s) \<or> passed (cfg_Version (vw_config (view s))) (cfg_Version (vw_config (view s')))"
  using assms
proof (induction rule: rtranclp_induct)
  case (step t t')
  have ok: "int64_range (cfg_Version (vw_config (view t)))" using run_view_ok [OF step(1,4)] by (auto simp: view_ok_def)
  show ?case using step(2)
  proof (cases rule: step_cases)
    case (update req)
    with step(3) [OF step(4)] passed_next [OF ok] passed_swap [OF ok] show ?thesis
      by (auto simp: spec_update_def updated_config_def)
  qed (use step(3) [OF step(4)] in \<open>auto simp: spec_create_def spec_rotate_def spec_disable_def\<close>)
qed simp

end

section \<open>The gateway reads it\<close>

definition gateway_config :: "runtimeConfig \<Rightarrow> RuntimeConfig" where
  "gateway_config c =
     \<lparr>rc_version = cfg_Version c, rc_max_payload_size = cfg_MaxPayloadSize c,
      rc_max_connections_per_client = cfg_MaxConnectionsPerClient c,
      rc_max_requests_per_client_per_second = cfg_MaxRequestsPerClientPerSecond c,
      rc_slow_client_output_limit = nat (cfg_SlowClientOutputLimit c), rc_log_level = cfg_LogLevel c,
      rc_request_queue_capacity_display = nat (cfg_RequestQueueCapacityDisplay c)\<rparr>"

lemma plain_levels: "list_all plain_text log_levels"
  by code_simp

lemma plain_config_keys:
  "plain_text ''version''" "plain_text ''max_payload_size''" "plain_text ''max_connections_per_client''"
  "plain_text ''max_requests_per_client_per_second''" "plain_text ''slow_client_output_limit''" "plain_text ''log_level''"
  "plain_text ''request_queue_capacity_display''"
  by code_simp+

lemma config_text_read:
  assumes "config_ok c" and "0 < cfg_Version c" "int64_range (cfg_Version c)"
  shows "json_parse (marshal (runtimeConfig_json c)) =
    Inr (JObject [(''log_level'', JString (cfg_LogLevel c)),
      (''max_connections_per_client'', JUnsigned (nat (cfg_MaxConnectionsPerClient c))),
      (''max_payload_size'', JUnsigned (nat (cfg_MaxPayloadSize c))),
      (''max_requests_per_client_per_second'', JUnsigned (nat (cfg_MaxRequestsPerClientPerSecond c))),
      (''request_queue_capacity_display'', JUnsigned (nat (cfg_RequestQueueCapacityDisplay c))),
      (''slow_client_output_limit'', JUnsigned (nat (cfg_SlowClientOutputLimit c))),
      (''version'', JUnsigned (nat (cfg_Version c)))])"
proof -
  let ?js = "[(''version'', JUnsigned (nat (cfg_Version c))), (''max_payload_size'', JUnsigned (nat (cfg_MaxPayloadSize c))),
    (''max_connections_per_client'', JUnsigned (nat (cfg_MaxConnectionsPerClient c))),
    (''max_requests_per_client_per_second'', JUnsigned (nat (cfg_MaxRequestsPerClientPerSecond c))),
    (''slow_client_output_limit'', JUnsigned (nat (cfg_SlowClientOutputLimit c))), (''log_level'', JString (cfg_LogLevel c)),
    (''request_queue_capacity_display'', JUnsigned (nat (cfg_RequestQueueCapacityDisplay c)))]"
  have level: "plain_text (cfg_LogLevel c)" using assms(1) plain_levels by (auto simp: config_ok_def list_all_iff)
  have "json_parse (marshal (runtimeConfig_json c)) = Inr (JObject (put_members [] ?js))"
    unfolding runtimeConfig_json_def
    by (rule json_parse_marshal)
      (use assms level plain_text_wf [OF level] plain_config_keys in
        \<open>simp_all add: dump_marshal config_ok_def int64_range_def nat_less_iff del: dump.simps marshal.simps\<close>)
  then show ?thesis by simp
qed

lemma integerInRange_found:
  assumes "json_at j field = Inr (JUnsigned (nat i))" and "lo \<le> i" "i \<le> hi" "0 \<le> i" "hi \<le> INT64_MAX"
  shows "integerInRange j field lo hi = Inr i"
  using assms by (simp add: integerInRange_def Let_def int64_cast_def INT64_MAX_def)

lemma config_accepted:
  assumes "config_ok c" and "0 < cfg_Version c" "int64_range (cfg_Version c)"
  shows "parseRuntimeConfig json_parse (marshal (runtimeConfig_json c)) = Some (gateway_config c)"
proof -
  have "uint (MAX_PAYLOAD_SIZE + 10) = 4194314" by (simp add: MAX_PAYLOAD_SIZE_def)
  with assms show ?thesis
    unfolding parseRuntimeConfig_def parseRuntimeConfig_body_def config_text_read [OF assms]
    by (simp add: integerInRange_found config_ok_def int64_range_def INT64_MAX_def INT_MAX_def gateway_config_def
        size_t_of_int_def)
qed

section \<open>From the administrator to the gateway\<close>

lemma memory_started_config:
  assumes "(store_step memory_store)\<^sup>*\<^sup>* newMemoryStore s"
  shows "config_ok (mem_config s)"
  using mem.run_config_ok [OF assms] config_ok_default by (simp add: memory_view_def newMemoryStore_def)

lemma config_path: "tl (segments ''/config'') = [''config'']"
  by code_simp

lemma config_get_served:
  assumes "middleware a sur r s = (reply, s')" and "carries ''GET'' ''/config'' body r" and "app_store a = memory_store"
    and "200 \<le> hw_status reply" "hw_status reply < 300"
  shows "hw_body reply = marshal (runtimeConfig_json (mem_config s))"
  using assms(1)
proof (cases rule: middleware_served)
  case media
  with assms(5) show ?thesis by simp
next
  case (served rid reply1)
  from served(1) assms(2) have "requireAdminOrGateway a rid r (handleConfigGet a sur rid) s = (reply1, s')"
    by (simp add: serve_mux_def carries_def config_path is_get_def)
  with served(2) assms(5) have "handleConfigGet a sur rid s = (reply1, s')"
    by (auto simp: requireAdminOrGateway_def Let_def split: if_splits)
  with served(3) assms(3) show ?thesis
    by (auto simp: handleConfigGet_def call_def memory_getConfig_def writeJSON_def Let_def)
qed

text \<open>
  C6: A new configuration reaches the gateway as it was put.  When a PUT of the administrator is answered
  200 and no other update has come since, a fetch of the gateway that gets a successful response returns
  exactly the fields of the body of the PUT, with the log level in upper case and the next version, and
  the gateway applies it over every configuration up to the version that was replaced.  Whatever the
  control plane has accepted, the checks of the gateway accept as well.
\<close>

theorem config_end_to_end:
  assumes "(store_step memory_store)\<^sup>*\<^sup>* newMemoryStore s" and "app_store a = memory_store" and "others_ok memory_store w"
    and "is_config_put r" and "middleware a w r s = (reply, s1)" and "hw_status reply = 200"
    and "(store_step memory_store)\<^sup>*\<^sup>* s1 s2" and "cfg_Version (mem_config s2) = cfg_Version (mem_config s) + 1"
    and "relays os c None io ''GET'' ''/config'' [] a sur s2 s3"
    and "requestJson os c ''GET'' ''/config'' [] None io = Some (Inr response, io')" and "http_ok response"
  shows "\<exists>rid req. read_update rid r = Inr req \<and>
    (let new = \<lparr>rc_version = cfg_Version (mem_config s) + 1, rc_max_payload_size = cu_MaxPayloadSize req,
                rc_max_connections_per_client = cu_MaxConnectionsPerClient req,
                rc_max_requests_per_client_per_second = cu_MaxRequestsPerClientPerSecond req,
                rc_slow_client_output_limit = nat (cu_SlowClientOutputLimit req), rc_log_level = ToUpper (cu_LogLevel req),
                rc_request_queue_capacity_display = nat (cfg_RequestQueueCapacityDisplay (mem_config s))\<rparr>
     in fetchConfig json_parse os c io = Some (Inr (Some new), io') \<and> valid_config new \<and>
        (rc_version old \<le> cfg_Version (mem_config s) \<longrightarrow> applyRuntimeConfigIfNewer old new = (True, new)))"
proof -
  note ok = memory_started(1) [OF assms(1)]
  from config_put_done [OF assms(5,4,6)] obtain rid e req cfg t where
    put: "parseGeneration (hq_header r ''If-Match'') = Some e" "read_update rid r = Inr req" "validateConfigUpdate req = None"
      "updateConfig memory_store e req (sr_clock w 0) s = (Inr cfg, t)" "s1 = sr_others w 0 t" using assms(2) by metis
  then have t: "t = s\<lparr>mem_config := updated_config req (mem_config s)\<rparr>" "e = cfg_Version (mem_config s)"
    by (auto simp: memory_updateConfig_def Let_def split: if_splits)
  have first: "store_step memory_store s t" by (rule store_step.update [OF put(4) parseGeneration_pos [OF put(1)] put(3)])
  have later: "(store_step memory_store)\<^sup>*\<^sup>* t s2" using put(5) assms(3,7) by (metis others_ok_def rtranclp_trans)
  have pos: "0 < cfg_Version (mem_config s)" using parseGeneration_pos [OF put(1)] t(2) by simp
  have range: "int64_range (cfg_Version (mem_config s))" using ok by (simp add: view_ok_def memory_view_def)
  have reach: "(store_step memory_store)\<^sup>*\<^sup>* newMemoryStore s2" using assms(1) first later by (meson rtranclp.rtrancl_into_rtrancl rtranclp_trans)
  then have range2: "int64_range (cfg_Version (mem_config s2))"
    using memory_started(1) by (auto simp: view_ok_def memory_view_def)
  have version: "cfg_Version (mem_config t) = cfg_Version (mem_config s) + 1"
    using range range2 assms(8) wrap64_id by (simp add: t updated_config_def)
  have "view_ok (memory_view t)" using mem.step_view_ok [OF first ok] .
  from mem.run_config_same [OF later this] version assms(8) pos have same: "mem_config s2 = mem_config t"
    by (auto simp: memory_view_def passed_def)
  from assms(9-11) obtain r' reply' where r': "carries ''GET'' ''/config'' [] r'" "middleware a sur r' s2 = (reply', s3)"
    "hr_status_code response = int (hw_status reply')" "hr_body response = hw_body reply'" unfolding relays_def by blast
  have "hr_body response = marshal (runtimeConfig_json (mem_config t))"
    using config_get_served [OF r'(2,1) assms(2)] r'(3,4) assms(11) same by (simp add: http_ok_def)
  moreover have "parseRuntimeConfig json_parse (marshal (runtimeConfig_json (mem_config t))) = Some (gateway_config (mem_config t))"
    using config_accepted memory_started_config [OF reach] same version pos range2 assms(8) by simp
  ultimately have fetched: "fetchConfig json_parse os c io = Some (Inr (Some (gateway_config (mem_config t))), io')"
    "valid_config (gateway_config (mem_config t))"
    using assms(10,11) accepted_config_valid [of json_parse] by (auto simp: fetchConfig_def)
  have "gateway_config (mem_config t) =
      \<lparr>rc_version = cfg_Version (mem_config s) + 1, rc_max_payload_size = cu_MaxPayloadSize req,
       rc_max_connections_per_client = cu_MaxConnectionsPerClient req,
       rc_max_requests_per_client_per_second = cu_MaxRequestsPerClientPerSecond req,
       rc_slow_client_output_limit = nat (cu_SlowClientOutputLimit req), rc_log_level = ToUpper (cu_LogLevel req),
       rc_request_queue_capacity_display = nat (cfg_RequestQueueCapacityDisplay (mem_config s))\<rparr>"
    using version by (simp add: gateway_config_def t updated_config_def)
  with fetched put(2) show ?thesis by (auto simp: Let_def applyRuntimeConfigIfNewer_def)
qed

text \<open>An example: the sample configuration is put and fetched.\<close>

definition config_get :: http_request where
  "config_get = delete_request\<lparr>hq_method := ''GET'', hq_path := [''config''], hq_header := (\<lambda>_. ''secret'')\<rparr>"

lemma put_config_text: "length (marshal (runtimeConfig_json put_config)) \<le> 1000"
proof -
  have "show_nat 2 = ''2''" "show_nat 20 = ''20''" "show_nat 4 = ''4''" "show_nat 50 = ''50''" "show_nat 60 = ''60''" by code_simp+
  moreover have "length (show_nat 4096) = 4" by (simp add: show_nat.simps)
  moreover have "length (marshal_string ''version'') = 9" "length (marshal_string ''max_payload_size'') = 18"
     "length (marshal_string ''max_connections_per_client'') = 28" "length (marshal_string ''max_requests_per_client_per_second'') = 36"
     "length (marshal_string ''slow_client_output_limit'') = 26" "length (marshal_string ''log_level'') = 11"
     "length (marshal_string ''request_queue_capacity_display'') = 32" "length (marshal_string ''WARN'') = 6"
    by code_simp+
  ultimately show ?thesis by (simp add: runtimeConfig_json_def put_config_def GoInt_def show_int_def)
qed

theorem config_end_to_end_witness:
  "\<exists>io' new. fetchConfig json_parse (reply_os (ok_message (marshal (runtimeConfig_json put_config)))) sample_client io_new =
     Some (Inr (Some new), io') \<and> rc_version new = 2 \<and>
     applyRuntimeConfigIfNewer RuntimeConfig_default new = (True, new)"
proof -
  let ?s = "newMemoryStore\<lparr>mem_config := put_config\<rparr>" and ?os = "reply_os (ok_message (marshal (runtimeConfig_json put_config)))"
  obtain io' where ex: "requestJson ?os sample_client ''GET'' ''/config'' [] None io_new =
      Some (Inr \<lparr>hr_error = HttpError_None, hr_status_code = 200, hr_body = marshal (runtimeConfig_json put_config)\<rparr>, io')"
    using ok_message_exchange [OF put_config_text, of "''/config''" "''GET''"] by auto
  have "carries ''GET'' ''/config'' [] config_get" by (simp add: carries_def config_path config_get_def delete_request_def)
  moreover obtain reply where "middleware staging_application quiet_surroundings config_get ?s = (reply, ?s)" "hw_status reply = 200"
    "hw_body reply = marshal (runtimeConfig_json put_config)"
    by (simp add: middleware_def serve_mux_def requireAdminOrGateway_def handleConfigGet_def config_get_def delete_request_def
        staging_application_def new_application_def staging_config_def digestEqual_def call_def memory_getConfig_def is_get_def
        quiet_surroundings_def writeJSON_def Let_def)
  ultimately have relayed: "relays ?os sample_client None io_new ''GET'' ''/config'' [] staging_application quiet_surroundings ?s ?s"
    using ex by (force simp: relays_def)
  obtain reply where put: "middleware staging_application quiet_surroundings config_put newMemoryStore = (reply, ?s)"
    "hw_status reply = 200" using config_put_stored by (metis prod.collapse)
  have "app_store staging_application = memory_store" "is_config_put config_put"
    by (simp_all add: staging_application_def new_application_def is_config_put_def config_put_def)
  from config_end_to_end [OF rtranclp.rtrancl_refl this(1) others_ok_quiet this(2) put rtranclp.rtrancl_refl _ relayed ex,
      of RuntimeConfig_default] show ?thesis
    by (auto simp: put_config_def newMemoryStore_def defaultRuntimeConfig_def RuntimeConfig_default_def http_ok_def Let_def)
qed

section \<open>Reading, changing and writing back\<close>

lemma ParseInt_show: "0 < i \<Longrightarrow> int64_range i \<Longrightarrow> ParseInt (show_int i) = Some i"
proof -
  assume i: "0 < i" "int64_range i"
  from show_nat_head [of "nat i"] i(1) obtain c ds where s: "show_nat (nat i) = c # ds" "is_digit c" "list_all is_digit ds"
    by auto
  then have "c \<noteq> CHR ''-''" "c \<noteq> CHR ''+''" by (auto simp: is_digit_def)
  with s i digits_value_show [of "nat i"] show "ParseInt (show_int i) = Some i"
    by (simp add: ParseInt_def show_int_def Let_def)
qed

lemma dropWhile_absent: "q \<notin> set xs \<Longrightarrow> dropWhile (\<lambda>d. d = q) (xs @ ys) = (if xs = [] then dropWhile (\<lambda>d. d = q) ys else xs @ ys)"
  by (cases xs) auto

lemma Trim_quoted: "q \<notin> set xs \<Longrightarrow> Trim q (q # xs @ [q]) = xs"
  using dropWhile_absent [of q xs "[q]"] dropWhile_absent [of q "rev xs" "[]"] by (simp add: Trim_def split: if_splits)

lemma etag_read:
  assumes "0 < cfg_Version c" and "int64_range (cfg_Version c)"
  shows "parseGeneration (snd (etag c)) = Some (cfg_Version c)"
proof -
  have "CHR 0x22 \<notin> set (show_int (cfg_Version c))"
    using assms(1) digits_value_show_nat [of "nat (cfg_Version c)"] by (auto simp: show_int_def list_all_iff is_digit_def)
  then have "Trim (CHR 0x22) (snd (etag c)) = show_int (cfg_Version c)" by (simp add: etag_def Trim_quoted)
  with assms ParseInt_show show ?thesis by (simp add: parseGeneration_def)
qed

lemma config_get_etag:
  assumes "middleware a w g s = (reply, s1)" and "is_get g" "hq_path g = [''config'']" and "app_store a = memory_store"
    and "hw_status reply = 200" and "(''ETag'', tag) \<in> set (hw_headers reply)"
  shows "tag = snd (etag (mem_config s)) \<and> s1 = sr_others w 0 s"
proof -
  from assms(1,2,5) obtain rid reply1 where
    served: "serve_mux a w rid g s = (reply1, s1)" "hw_status reply1 = 200"
    and head: "hw_headers reply = (''X-Request-ID'', rid) # hw_headers reply1"
    by (auto simp: middleware_def is_get_def Let_def split: prod.splits if_splits)
  from served assms(2,3) have "requireAdminOrGateway a rid g (handleConfigGet a w rid) s = (reply1, s1)"
    by (simp add: serve_mux_def)
  with served(2) have "handleConfigGet a w rid s = (reply1, s1)"
    by (auto simp: requireAdminOrGateway_def Let_def split: if_splits)
  with head assms(4,6) show ?thesis
    by (auto simp: handleConfigGet_def call_def memory_getConfig_def writeJSON_def etag_def Let_def)
qed

text \<open>
  C28: Reading the configuration, changing it and writing it back works.  The tag of the configuration
  that was read, sent back with a valid update by the administrator, is accepted, and the update is
  stored, whenever no other update has come in between.
\<close>

theorem read_modify_write:
  assumes "(store_step memory_store)\<^sup>*\<^sup>* newMemoryStore s" and "app_store a = memory_store" and "0 < cfg_Version (mem_config s)"
    and "middleware a w g s = (reply, s1)" and "is_get g" "hq_path g = [''config'']" and "hw_status reply = 200"
    and "(''ETag'', tag) \<in> set (hw_headers reply)"
    and "(store_step memory_store)\<^sup>*\<^sup>* s1 s2" and "cfg_Version (mem_config s2) = cfg_Version (mem_config s)"
    and "is_config_put r" and "hq_header r ''If-Match'' = tag" and "hq_header r ''Authorization'' = ''Bearer '' @ app_adminToken a"
    and "hq_media_type r = Some ''application/json''"
    and "\<And>rid. read_update rid r = Inr req" and "validateConfigUpdate req = None"
    and "middleware a w' r s2 = (reply', s3)"
  shows "hw_status reply' = 200 \<and> s3 = sr_others w' 0 (s2\<lparr>mem_config := updated_config req (mem_config s2)\<rparr>) \<and>
    hw_body reply' = marshal (runtimeConfig_json (updated_config req (mem_config s2)))"
proof -
  have "int64_range (cfg_Version (mem_config s))" using memory_started(1) [OF assms(1)] by (simp add: view_ok_def memory_view_def)
  with config_get_etag [OF assms(4-6,2,7,8)] etag_read assms(3,10)
  have tag: "parseGeneration tag = Some (cfg_Version (mem_config s2))" by simp
  then have "tag \<noteq> []" by (auto simp: parseGeneration_def Trim_def ParseInt_def)
  with tag assms(2,11-17) show ?thesis
    by (auto simp: middleware_def serve_mux_def is_config_put_def is_get_def requireAdmin_def secureBearerEqual_def HasPrefix_def
        handleConfigUpdate_def call_def memory_updateConfig_def writeJSON_def Let_def)
qed

theorem read_modify_write_witness:
  "\<exists>reply tag. middleware staging_application quiet_surroundings config_get newMemoryStore = (reply, newMemoryStore) \<and>
     (''ETag'', tag) \<in> set (hw_headers reply) \<and>
     hw_status (fst (middleware staging_application quiet_surroundings
       (config_put\<lparr>hq_header := (\<lambda>h. if h = ''If-Match'' then tag else ''Bearer secret'')\<rparr>) newMemoryStore)) = 200"
proof -
  let ?put = "\<lambda>tag. config_put\<lparr>hq_header := (\<lambda>h. if h = ''If-Match'' then tag else ''Bearer secret'')\<rparr>"
  have app: "app_store staging_application = memory_store" "app_adminToken staging_application = ''secret''"
    by (simp_all add: staging_application_def new_application_def staging_config_def)
  obtain reply where get: "middleware staging_application quiet_surroundings config_get newMemoryStore = (reply, newMemoryStore)"
    "hw_status reply = 200" "etag (mem_config newMemoryStore) \<in> set (hw_headers reply)"
    by (simp add: middleware_def serve_mux_def requireAdminOrGateway_def handleConfigGet_def config_get_def delete_request_def
        staging_application_def new_application_def staging_config_def digestEqual_def call_def memory_getConfig_def is_get_def
        quiet_surroundings_def writeJSON_def Let_def)
  obtain tag where tag: "(''ETag'', tag) \<in> set (hw_headers reply)" using get(3) by (auto simp: etag_def)
  obtain reply' s3 where put: "middleware staging_application quiet_surroundings (?put tag) newMemoryStore = (reply', s3)"
    by fastforce
  have "validateConfigUpdate put_request = None" by code_simp
  from read_modify_write [OF rtranclp.rtrancl_refl app(1) _ get(1) _ _ get(2) tag rtranclp.rtrancl_refl refl _ _ _ _ _ this put]
  have "hw_status reply' = 200"
    using config_put_read app(2)
    by (simp add: newMemoryStore_def defaultRuntimeConfig_def config_get_def is_get_def is_config_put_def)
      (simp add: config_put_def)
  with get(1) tag put show ?thesis by auto
qed

end
