(* ===== verification/Spec2Isabelle.thy ===== *)
theory Spec2Isabelle
  imports Gateway_Wakeup Gateway_Shutdown ServerEffects ControlConfig
begin

text \<open>
  A verification development for the two programs of this repository: a TCP gateway in C++
  (\<^verbatim>\<open>src/cpp-gateway\<close>) and its control plane in Go (\<^verbatim>\<open>src/go-control-plane\<close>).

  \<^bold>\<open>The programs.\<close>  Clients connect to the gateway and send length-prefixed messages.  One reactor
  thread owns the connections: it accepts, reads, decodes, admits requests into bounded queues, applies
  responses and writes.  Normal workers answer requests, authentication workers ask the control plane
  over HTTP whether a client may log in, and a puller fetches the run-time configuration from it.  The
  workers leave their responses in a queue and wake the reactor through an event descriptor.  A stop or
  a signal makes the reactor drain the work in flight until a deadline, and then join all threads.  The
  control plane keeps the tokens of the clients and the configuration in a store, changes them by compare
  and swap on behalf of an administrator, and counts failed logins.

  \<^bold>\<open>Theories of the gateway.\<close>
  \<^item> \<open>Gateway_Prelude\<close>: machine integers, strings, decimal text and searching; \<open>Gateway_Interfaces\<close>:
    the locales for transition systems with invariants and refinements, segmented readers and codecs.
  \<^item> \<open>Kernel\<close>: the operating system as a record of answers, with a log of the effects outside.
  \<^item> \<open>BlockQueue\<close> (\<^verbatim>\<open>concurrent/BlockQueue.hpp\<close>): every method is one step, since it holds the mutex;
    locale \<open>bounded_fifo\<close>.  The items accepted are those taken, discarded and queued, in order.
  \<^item> \<open>Protocol\<close> (\<^verbatim>\<open>protocol/\<close>): \<open>encode\<close> and the incremental \<open>decode\<close>; round trip, exactness, and
    independence of how the bytes arrive.
  \<^item> \<open>HttpTypes\<close>, \<open>HttpResponseParser\<close>, \<open>SocketDeadline\<close>, \<open>ControlPlaneClient\<close> (\<^verbatim>\<open>control/\<close>): the HTTP
    client down to the system calls; complete responses are accepted in any segmentation, nothing leaks,
    and every call returns once the clock has passed its deadline.
  \<^item> \<open>JsonNumber\<close>, \<open>Json\<close>, \<open>JsonLexer\<close>, \<open>JsonParser\<close> (\<^verbatim>\<open>nlohmann/json.hpp\<close>): values, the serialiser with its
    UTF-8 automaton and the Grisu2 algorithm, the scanner and the parser.  \<open>JsonStrings\<close>,
    \<open>JsonWellFormed\<close>, \<open>JsonRoundTrip\<close> and \<open>JsonExceptions\<close> show that the parser reads back what the
    serialiser writes, which values it returns and what it throws.
  \<^item> \<open>RuntimeConfig\<close>, \<open>StartupConfig\<close>, \<open>Logger\<close>, \<open>LogStorage\<close>, \<open>StatsManager\<close>, \<open>Handlers\<close>: the
    components of the same names under \<^verbatim>\<open>control/\<close>, \<^verbatim>\<open>common/\<close> and \<^verbatim>\<open>business/\<close>, with the dispatcher.  They take
    the JSON parser as an argument; \<open>JsonMessages\<close> puts the parser of the library in its place.
  \<^item> \<open>ReactorNotifier\<close> and \<open>TcpServer\<close> (\<^verbatim>\<open>net/\<close>): the state of the server as the record \<open>TcpServer\<close>, a
    \<open>Connection\<close> per client, and one definition per member function.
  \<^item> \<open>ServerInvariant\<close>, \<open>ServerAdmission\<close>, \<open>ServerHandlers\<close>, \<open>ServerReactor\<close>: every operation keeps the
    invariant of the server.  \<open>ServerEffects\<close>: what single operations do, exactly.  \<open>ServerSample\<close>: a
    concrete server for the examples.
  \<^item> \<open>Gateway_System\<close>: the threads as the step relation \<open>gateway_step\<close> and the states \<open>reachable\<close> by it,
    from the main program (\<^verbatim>\<open>main.cpp\<close>).  \<open>Gateway_Lifecycle\<close>: the phases of the server as a refinement of
    an abstract life cycle.  \<open>Gateway_Wakeup\<close>: no wake-up is lost.  \<open>Gateway_Shutdown\<close>: a shutdown ends.

  \<^bold>\<open>Theories of the control plane.\<close>
  \<^item> \<open>GoStd\<close> and \<open>GoCrypto\<close>: what the control plane uses of the standard library of Go, among it the
    scanner, decoder and encoder of \<^verbatim>\<open>encoding/json\<close>, SHA-256 and HMAC.
  \<^item> \<open>ControlStore\<close> (\<^verbatim>\<open>types.go\<close>, \<^verbatim>\<open>config.go\<close>, \<^verbatim>\<open>token_security.go\<close>, \<^verbatim>\<open>store.go\<close>, \<^verbatim>\<open>memory_store.go\<close>): the interface
    as the record \<open>Store\<close>, the store in memory, and the locale \<open>control_store\<close>: a store refines a map of
    tokens and a configuration that only compare and swap changes.
  \<^item> \<open>ControlPlane\<close> (\<^verbatim>\<open>startup_config.go\<close>, \<^verbatim>\<open>http_foundation.go\<close>, \<^verbatim>\<open>handlers.go\<close>, \<^verbatim>\<open>app.go\<close>): start-up, middleware,
    routes and handlers on any store.  Between two calls of the store any other request may run.
  \<^item> \<open>ControlSafety\<close>: access control, no lost update, and that only current secrets are accepted;
    \<open>ControlLockout\<close>: the limit on guesses.

  \<^bold>\<open>The two together.\<close>  \<open>GoJson\<close> shows that the two JSON libraries understand each other;
  \<open>ControlGateway\<close> follows a login from the client to the tokens and back, and \<open>ControlConfig\<close> a
  configuration from the administrator to the gateway.  This theory holds the properties of the running
  gateway.

  \<^bold>\<open>Modelling.\<close>  State is passed explicitly; a C++ exception is the left side of a sum, an error of Go
  likewise.  Sizes are natural numbers, counters and identities words of 64 bits, \<^verbatim>\<open>int\<close> and \<^verbatim>\<open>int64\<close> of Go
  integers with their range written out.  Times are integers in nanoseconds.  Loops over system calls
  that the kernel may keep busy for ever are partial functions whose value \<^term>\<open>None\<close> means that they do not
  return; that they do return is shown from the passing of time.  One loop has a bound: the fractional
  digits of Grisu2 are produced in at most 19 rounds, which suffice because each multiplies by ten a
  distance that is positive and a remainder below \<open>2 ^ 60\<close>.  The claims about connections hold for the
  first \<open>2 ^ 64 - 1\<close> connections, before identities repeat.

  \<^bold>\<open>What is relied on.\<close>  Of the kernel: \<open>os_transfer_ok\<close>, \<open>os_descriptors_ok\<close> and \<open>clock_reaches\<close>.  Of the
  network and \<^verbatim>\<open>net/http\<close>: \<open>relays\<close>, that a successful response is the reply of the control plane to the
  request that was sent.  Of other requests to the control plane: \<open>others_ok\<close>, that they act only through
  the store.  \<^verbatim>\<open>strtod\<close> rounds correctly.

  \<^bold>\<open>Not modelled.\<close>  The Redis store (\<^verbatim>\<open>redis_store.go\<close>), whose operations are commands and scripts that a Redis
  server runs; \<^verbatim>\<open>Run\<close> and \<^verbatim>\<open>main\<close> of the control plane, which wire the parts to the listener and the signals;
  the recovery from a panic and the deadlines of its contexts.  Of the JSON library, what the gateway
  never instantiates: binary formats, pointers, patches, iterators and conversions.  Log lines, test hooks
  and assertions on thread identity.  Tests, scripts and deployment files.
\<close>

section \<open>Work and connections\<close>

text \<open>
  C1: No answer is lost to the accounting of work.  In every state the running gateway can get into,
  under any interleaving of its threads, the assertion that a connection with a response has work in
  flight never fails; a connection accounts for every request, task and response that carries its
  identity; and a connection that may be closed after draining has none of them and no unsent bytes.
\<close>

theorem work_accounting:
  assumes "reachable parse level_env os g" and "os_transfer_ok os" and "sv_accepted (gw_server g) < 2 ^ 64"
  shows "\<not> sv_violation (gw_server g) \<and>
    (\<forall>fd c. find_conn (gw_server g) fd = Some c \<longrightarrow>
       count_list (work_keys (held_of g) (gw_server g)) (fd, cn_conn_id c) \<le> cn_in_flight_work c \<and>
       (canCloseAfterDrain (gw_server g) c \<longrightarrow>
          (fd, cn_conn_id c) \<notin> set (work_keys (held_of g) (gw_server g)) \<and> pending_bytes fd (gw_server g) = []))"
proof -
  have ok: "gateway_ok g" using reachable_ok assms by blast
  have le: "count_list (work_keys (held_of g) (gw_server g)) (fd, cn_conn_id c) \<le> cn_in_flight_work c"
    if "find_conn (gw_server g) fd = Some c" for fd c
    using server_ok_conn [OF ok that] by (simp add: conn_ok_def)
  moreover have "(fd, cn_conn_id c) \<notin> set (work_keys (held_of g) (gw_server g))"
    if "find_conn (gw_server g) fd = Some c" "canCloseAfterDrain (gw_server g) c" for fd c
    using le [OF that(1)] that(2) by (simp add: canCloseAfterDrain_def Let_def count_list_0_iff)
  ultimately show ?thesis
    using ok by (auto simp: server_ok_def globals_ok_def canCloseAfterDrain_def Let_def pending_bytes_def)
qed

theorem work_accounting_witness: "\<not> sv_violation (gw_server sample_gateway)"
  using work_accounting [OF sample_reachable quiet_os_ok(1)] sample_gateway_state(1) by simp



text \<open>
  C10: Authentication is cancelled exactly with its connection.  A task that waits or is being worked on
  is an authentication; if its connection is gone the task is cancelled, and otherwise it is the only
  authentication under way for a connection that is not authenticated and waits for it, and the two
  share the cancellation flag.
\<close>

theorem auth_cancellation:
  assumes "reachable parse level_env os g" and "os_transfer_ok os" and "sv_accepted (gw_server g) < 2 ^ 64"
  shows "\<forall>t\<in>set (all_tasks (held_of g) (gw_server g)). req_type (at_request t) = AUTH \<and>
    (case open_conn (gw_server g) (task_key t) of
       None \<Rightarrow> auth_task_cancelled t (gw_server g)
     | Some c \<Rightarrow> \<not> cn_authenticated c \<and> cn_auth_pending c \<and> cn_auth_cancellation c = Some (at_cancellation t) \<and>
         count_list (auth_keys (held_of g) (gw_server g)) (task_key t) = 1)"
proof
  fix t assume t_in: "t \<in> set (all_tasks (held_of g) (gw_server g))"
  have ok: "gateway_ok g" using reachable_ok assms by blast
  then have t: "task_ok (gw_server g) t" using t_in by (simp add: server_ok_def work_ok_def)
  show "req_type (at_request t) = AUTH \<and>
    (case open_conn (gw_server g) (task_key t) of
       None \<Rightarrow> auth_task_cancelled t (gw_server g)
     | Some c \<Rightarrow> \<not> cn_authenticated c \<and> cn_auth_pending c \<and> cn_auth_cancellation c = Some (at_cancellation t) \<and>
         count_list (auth_keys (held_of g) (gw_server g)) (task_key t) = 1)"
  proof (cases "open_conn (gw_server g) (task_key t)")
    case None
    with t show ?thesis by (simp add: task_ok_def auth_task_cancelled_def)
  next
    case (Some c)
    then have "find_conn (gw_server g) (fst (task_key t)) = Some c" "cn_conn_id c = snd (task_key t)"
      by (auto simp: open_conn_def split: option.splits if_splits)
    from server_ok_conn [OF ok this(1)] this(2)
    have "count_list (auth_keys (held_of g) (gw_server g)) (task_key t) \<le> (if cn_auth_pending c then 1 else 0)"
      "cn_authenticated c \<longrightarrow> \<not> cn_auth_pending c"
      by (simp_all add: conn_ok_def)
    moreover have "task_key t \<in> set (auth_keys (held_of g) (gw_server g))"
      using t_in by (simp add: auth_keys_def)
    then have "count_list (auth_keys (held_of g) (gw_server g)) (task_key t) \<noteq> 0" by (simp add: count_list_0_iff)
    ultimately show ?thesis using t Some by (auto simp: task_ok_def split: if_splits)
  qed
qed

theorem auth_cancellation_witness:
  "list_all (\<lambda>t. req_type (at_request t) = AUTH) (all_tasks (held_of sample_gateway) (gw_server sample_gateway))"
  using auth_cancellation [OF sample_reachable quiet_os_ok(1)] sample_gateway_state(1) by (simp add: list_all_iff)

section \<open>The state of the server\<close>

text \<open>
  C18: The state stays well-formed.  In every reachable state the connection table has one entry per
  descriptor, filed under it; identities are unique and below the counter that hands them out; offsets
  lie within the buffers; cancellation flags exist; and the runtime configuration in force is valid.
\<close>

theorem server_state_typed:
  assumes "reachable parse level_env os g" and "os_transfer_ok os" and "sv_accepted (gw_server g) < 2 ^ 64"
  defines "s \<equiv> gw_server g"
  shows "distinct (map fst (sv_connections s)) \<and> valid_config (sv_runtime_config s) \<and>
    sv_next_conn_id s = of_nat (Suc (sv_accepted s)) \<and>
    (\<forall>fd c. find_conn s fd = Some c \<longrightarrow> cn_fd c = fd \<and> unat (cn_conn_id c) \<le> sv_accepted s \<and>
       cn_write_offset c \<le> length (cn_output_buffer c) \<and>
       (\<forall>a. cn_auth_cancellation c = Some a \<longrightarrow> a < length (sv_cancellations s)) \<and>
       (\<forall>fd' c'. find_conn s fd' = Some c' \<longrightarrow> cn_conn_id c' = cn_conn_id c \<longrightarrow> fd' = fd))"
proof -
  have ok: "gateway_ok g" using reachable_ok assms(1-3) by blast
  have "conn_ok (held_of g) (gw_grants g) s fd c" if "find_conn s fd = Some c" for fd c
    using server_ok_conn [OF ok] that by (simp add: s_def)
  then show ?thesis
    using ok unfolding s_def server_ok_def conns_ok_def globals_ok_def conn_ok_def by blast
qed

theorem server_state_typed_witness: "valid_config (sv_runtime_config (gw_server sample_gateway))"
  using server_state_typed [OF sample_reachable quiet_os_ok(1)] sample_gateway_state(1) by simp



section \<open>Life and death\<close>

text \<open>
  C4: The threads refine a simple life cycle.  Every step of a reachable gateway is a step of the
  abstract machine that serves, drains, stops, joins its threads and finishes, lets no thread leave
  while it serves, and finishes only when all have left; and along no run, whatever threads move in
  it, does the gateway return to an earlier phase.
\<close>

theorem lifecycle_refinement:
  assumes "reachable parse level_env os g" and "os_transfer_ok os"
  shows "(gateway_step parse level_env os a g g' \<longrightarrow> lifecycle_step a (lifecycle_of g) (lifecycle_of g')) \<and>
    ((gateway_moves parse level_env os)\<^sup>*\<^sup>* g g' \<longrightarrow> lc_phase (lifecycle_of g) \<le> lc_phase (lifecycle_of g'))"
  using lifecycle_refines [OF _ assms(2) reachable_life [OF assms]] phase_forward [OF _ assms] by blast

theorem lifecycle_refinement_witness:
  "\<exists>g g'. lifecycle_step Reactor (lifecycle_of g) (lifecycle_of g') \<and>
     lc_phase (lifecycle_of g) = Draining \<and> lc_phase (lifecycle_of g') = Stopping"
proof -
  obtain g g' where g: "reachable (\<lambda>_. Inl JsonParseError) None quiet_os g"
    "gateway_step (\<lambda>_. Inl JsonParseError) None quiet_os Reactor g g'"
    "sv_state (gw_server g) = DRAINING" "sv_state (gw_server g') = STOPPED" by (rule sample_drained)
  have "lc_phase (lifecycle_of g) = Draining"
    using reachable_life [OF g(1) quiet_os_ok(1)] g(3)
    by (auto simp: lifecycle_of_def phase_of_def life_ok_def life_core_def control_sels)
  moreover have "lc_phase (lifecycle_of g') \<noteq> Draining" using g(4) by (simp add: lifecycle_of_def phase_of_def)
  moreover have step: "lifecycle_step Reactor (lifecycle_of g) (lifecycle_of g')"
    using lifecycle_refinement [OF g(1) quiet_os_ok(1)] g(2) by blast
  from this have "lc_phase (lifecycle_of g') = Stopping"
    by cases (use calculation in auto)
  ultimately show ?thesis using step by blast
qed





text \<open>
  C7: The join of a shutdown ends.  Once the reactor joins the other threads, a run of the threads has
  no more steps than a number known at its beginning, and at each point of it the gateway has finished
  or some thread can make a step.
\<close>

theorem shutdown_joins:
  assumes "reachable parse level_env os g" and "gw_pc g = Joining"
    and "os_transfer_ok os" and "clock_advances os" and "eventfd_settles os T"
    and "internal_run parse level_env os n g g'"
  shows "n \<le> join_measure g \<and>
    (gw_pc g' = Exited \<or> (\<exists>a g''. a \<noteq> Outside \<and> gateway_step parse level_env os a g' g''))"
proof -
  from internal_run_joining [OF assms(6,2) reachable_life [OF assms(1,3)] assms(3)]
  have "life_ok g'" "gw_pc g' = Joining \<or> gw_pc g' = Exited" "join_measure g' + n \<le> join_measure g" by simp_all
  with joining_progress [OF _ _ assms(4,5)] show ?thesis by auto
qed

theorem shutdown_joins_witness:
  "\<exists>g. gw_pc g = Joining \<and> (\<exists>a g'. a \<noteq> Outside \<and> gateway_step (\<lambda>_. Inl JsonParseError) None quiet_os a g g')"
proof -
  obtain g where g: "reachable (\<lambda>_. Inl JsonParseError) None quiet_os g" "gw_pc g = Joining" by (rule sample_joining)
  from shutdown_joins [OF g quiet_os_ok(1,2,4) internal_run.nothing] g(2) show ?thesis by auto
qed



text \<open>
  C9: A drain gives up no work before its deadline.  The step that ends the drain finds no request,
  task or response anywhere, no rejected connection and leaves no connection open, or the clock it read
  last has reached the deadline.
\<close>

theorem drain_complete_or_deadline:
  assumes "reachable parse level_env os g" and "os_transfer_ok os"
    and "gateway_step parse level_env os Reactor g g'"
    and "sv_state (gw_server g) = DRAINING" and "sv_state (gw_server g') = STOPPED"
  shows "work_keys (held_of g) (gw_server g) = [] \<and> sv_rejected (gw_server g) = [] \<and>
      sv_connections (gw_server g') = [] \<or>
    (\<exists>t. Suc t = io_tick (sv_io (gw_server g')) \<and> sv_shutdown_deadline (gw_server g) \<le> os_now os t)"
proof -
  from assms(3) obtain pc' s' where run: "reactor_step os (gw_pc g) (gw_server g) = Some (pc', s')"
    and g': "g' = g\<lparr>gw_pc := pc', gw_server := s'\<rparr>" by (elim reactor_actorE) blast
  note life = reachable_life [OF assms(1,2)]
  then have "gw_pc g \<noteq> Joining" using assms(4) by (auto simp: life_ok_def life_core_def control_sels)
  with drain_ends_in_check [OF run assms(2,4)] assms(5) have s': "s' = drain_check os (gw_server g)"
    by (simp add: g')
  show ?thesis
  proof (cases rule: drain_check_cases [of "gw_server g" os])
    case (complete s1)
    with no_work_without_workers [OF life] show ?thesis by (simp add: g' s')
  next
    case (deadline s1 t)
    then have "Suc t = io_tick (sv_io (gw_server g'))" by (simp add: g' s')
    with deadline(3) show ?thesis by blast
  next
    case more
    with assms(5) g' s' show ?thesis by (simp add: reactor_frame_def)
  qed (use assms(4) in simp)
qed

theorem drain_complete_or_deadline_witness:
  "\<exists>g g'. gateway_step (\<lambda>_. Inl JsonParseError) None quiet_os Reactor g g' \<and> sv_state (gw_server g') = STOPPED \<and>
     (work_keys (held_of g) (gw_server g) = [] \<or>
      (\<exists>t. Suc t = io_tick (sv_io (gw_server g')) \<and> sv_shutdown_deadline (gw_server g) \<le> os_now quiet_os t))"
proof -
  obtain g g' where g: "reachable (\<lambda>_. Inl JsonParseError) None quiet_os g"
    "gateway_step (\<lambda>_. Inl JsonParseError) None quiet_os Reactor g g'"
    "sv_state (gw_server g) = DRAINING" "sv_state (gw_server g') = STOPPED" by (rule sample_drained)
  from drain_complete_or_deadline [OF g(1) quiet_os_ok(1) g(2-4)] g(2,4) show ?thesis by blast
qed

end
